(* ===== verification/Prelude.thy ===== *)
theory Prelude
  imports Main "HOL-Library.Word"
begin

unbundle bit_operations_syntax

text \<open>
  What every component of the development shares: the machine integers of the C and Nim
  sources, outcomes of code that may stop with an error, byte strings with the operations
  of Nim's \<^verbatim>\<open>strutils\<close> the sources call (\<^verbatim>\<open>startsWith\<close>, \<^verbatim>\<open>split\<close>, slices, decimal printing
  and \<^verbatim>\<open>parseInt\<close>), Nim's swap-delete \<^verbatim>\<open>seq.del\<close>, and big-endian byte lists, each
  with the generic lemmas the components use.
\<close>

section \<open>Machine integers and outcomes\<close>

type_synonym u8 = "8 word"
type_synonym u16 = "16 word"
type_synonym u32 = "32 word"
type_synonym u64 = "64 word"
type_synonym bytes = "8 word list"

text \<open>
  The ways the sources stop without returning a value: Nim's defects and exceptions, the
  faults of C code, and the deliberate \<^verbatim>\<open>exit\<close> and \<^verbatim>\<open>napi_fatal_error\<close> of the C programs.
\<close>

datatype fault =
    RangeDefect
  | ResultDefect
  | IndexDefect
  | OverflowDefect
  | Defect string
  | KeyError
  | AssertionDefect
  | NilAccess
  | WildPointer
  | DoubleFree
  | OutOfBounds
  | ExitCode int
  | FatalError string
  | Hang

datatype 'a exec = Done 'a | Fault fault

fun bind_exec :: "'a exec \<Rightarrow> ('a \<Rightarrow> 'b exec) \<Rightarrow> 'b exec" where
  "bind_exec (Done x) f = f x"
| "bind_exec (Fault e) f = Fault e"

lemma bind_exec_Done_iff [simp]:
  "bind_exec m f = Done y \<longleftrightarrow> (\<exists>x. m = Done x \<and> f x = Done y)"
  by (cases m) auto

lemma bind_execE: "bind_exec m f = Done y \<Longrightarrow> (\<And>x. m = Done x \<Longrightarrow> f x = Done y \<Longrightarrow> P) \<Longrightarrow> P"
  by auto

lemma bind_exec_assoc: "bind_exec (bind_exec m f) g = bind_exec m (\<lambda>x. bind_exec (f x) g)"
  by (cases m) auto

named_theorems exec_split \<open>case splits for outcomes, options and sums\<close>

lemmas [exec_split] = exec.splits option.splits sum.splits if_splits prod.splits

section \<open>Strings\<close>

definition starts_with :: "string \<Rightarrow> string \<Rightarrow> bool" where
  "starts_with s p \<longleftrightarrow> take (length p) s = p"

lemma starts_with_append [simp]: "starts_with (p @ s) p"
  by (simp add: starts_with_def)

lemma starts_withE: "starts_with s p \<Longrightarrow> (\<And>r. s = p @ r \<Longrightarrow> P) \<Longrightarrow> P"
  by (metis append_take_drop_id starts_with_def)

lemma starts_with_iff: "starts_with s p \<longleftrightarrow> (\<exists>r. s = p @ r)"
  by (metis starts_withE starts_with_append)

text \<open>Nim's \<^verbatim>\<open>split\<close> by a one-character separator: never empty, \<^verbatim>\<open>""\<close> gives one empty part.\<close>

fun split_on :: "char \<Rightarrow> string \<Rightarrow> string list" where
  "split_on c [] = [[]]"
| "split_on c (x # xs) =
     (if x = c then [] # split_on c xs
      else (case split_on c xs of [] \<Rightarrow> [[x]] | p # ps \<Rightarrow> (x # p) # ps))"

fun join_with :: "'a \<Rightarrow> 'a list list \<Rightarrow> 'a list" where
  "join_with c [] = []"
| "join_with c [p] = p"
| "join_with c (p # q # ps) = p @ c # join_with c (q # ps)"

lemma split_on_nonempty [simp]: "split_on c s \<noteq> []"
  by (induction s) (auto split: list.splits)

lemma split_on_append: "c \<notin> set p \<Longrightarrow> split_on c (p @ c # s) = p # split_on c s"
  by (induction p) auto

lemma split_on_free: "c \<notin> set p \<Longrightarrow> split_on c p = [p]"
  by (induction p) auto

lemma split_join:
  "ps \<noteq> [] \<Longrightarrow> (\<And>p. p \<in> set ps \<Longrightarrow> c \<notin> set p) \<Longrightarrow> split_on c (join_with c ps) = ps"
  by (induction c ps rule: join_with.induct) (auto simp: split_on_append split_on_free)

lemma join_split: "join_with c (split_on c s) = s"
proof (induction s)
  case (Cons x xs)
  then show ?case
    by (cases "split_on c xs"; cases "tl (split_on c xs)") auto
qed simp

lemma split_on_parts: "p \<in> set (split_on c s) \<Longrightarrow> c \<notin> set p"
proof (induction s arbitrary: p)
  case (Cons x xs)
  then show ?case by (cases "split_on c xs") (auto split: if_splits)
qed simp

text \<open>
  A Nim slice \<^verbatim>\<open>s[a ..< s.len]\<close>. The result is built by \<^verbatim>\<open>newString(L)\<close> with
  \<^verbatim>\<open>L = s.len - a\<close> a \<^verbatim>\<open>Natural\<close>: a negative length raises \<^verbatim>\<open>RangeDefect\<close>.
\<close>

definition slice_from :: "nat \<Rightarrow> string \<Rightarrow> string exec" where
  "slice_from a s = (if length s < a then Fault RangeDefect else Done (drop a s))"

section \<open>Decimal printing and reading\<close>

definition digit_char :: "nat \<Rightarrow> char" where
  "digit_char d = char_of (48 + d)"

definition is_digit :: "char \<Rightarrow> bool" where
  "is_digit c \<longleftrightarrow> 48 \<le> (of_char c :: nat) \<and> (of_char c :: nat) \<le> 57"

definition digit_val :: "char \<Rightarrow> nat" where
  "digit_val c = of_char c - 48"

fun show_nat :: "nat \<Rightarrow> string" where
  "show_nat n =
     (if n < 10 then [digit_char n] else show_nat (n div 10) @ [digit_char (n mod 10)])"

declare show_nat.simps [simp del]

definition show_int :: "int \<Rightarrow> string" where
  "show_int i = (if i < 0 then CHR ''-'' # show_nat (nat (- i)) else show_nat (nat i))"

definition dec_val :: "string \<Rightarrow> nat" where
  "dec_val s = foldl (\<lambda>a c. 10 * a + digit_val c) 0 s"

lemma of_char_digit_char: "d < 10 \<Longrightarrow> of_char (digit_char d) = (48 + d :: nat)"
  by (simp add: digit_char_def)

lemma is_digit_digit_char [simp]: "d < 10 \<Longrightarrow> is_digit (digit_char d)"
  by (simp add: is_digit_def of_char_digit_char)

lemma digit_val_digit_char [simp]: "d < 10 \<Longrightarrow> digit_val (digit_char d) = d"
  by (simp add: digit_val_def of_char_digit_char)

lemma digit_val_bound: "is_digit c \<Longrightarrow> digit_val c < 10"
  by (auto simp: is_digit_def digit_val_def)

lemma not_digit [simp]:
  "\<not> is_digit (CHR ''/'')" "\<not> is_digit (CHR ''_'')" "\<not> is_digit (CHR ''-'')"
  "\<not> is_digit (CHR ''+'')" "\<not> is_digit (CHR '' '')" "\<not> is_digit (CHR 0x22)"
  by (simp_all add: is_digit_def)

lemma show_nat_nonempty [simp]: "show_nat n \<noteq> []"
  by (subst show_nat.simps) simp

lemma show_nat_digits: "c \<in> set (show_nat n) \<Longrightarrow> is_digit c"
proof (induction n arbitrary: c rule: show_nat.induct)
  case (1 n)
  then show ?case
    by (cases "n < 10") (auto simp: show_nat.simps [of n])
qed

lemma show_nat_free [simp]: "\<not> is_digit c \<Longrightarrow> c \<notin> set (show_nat n)"
  using show_nat_digits by blast

lemma dec_val_snoc [simp]: "dec_val (s @ [c]) = 10 * dec_val s + digit_val c"
  by (simp add: dec_val_def)

lemma dec_val_show_nat [simp]: "dec_val (show_nat n) = n"
proof (induction n rule: show_nat.induct)
  case (1 n)
  then show ?case
    by (cases "n < 10") (simp_all add: show_nat.simps [of n] dec_val_def)
qed

lemma show_nat_inj: "show_nat m = show_nat n \<Longrightarrow> m = n"
  by (metis dec_val_show_nat)

lemma length_show_nat_le: "n < 10 ^ k \<Longrightarrow> 0 < k \<Longrightarrow> length (show_nat n) \<le> k"
proof (induction n arbitrary: k rule: show_nat.induct)
  case (1 n)
  show ?case
  proof (cases "n < 10")
    case True
    with 1 show ?thesis by (simp add: show_nat.simps [of n])
  next
    case False
    then obtain j where j: "k = Suc j" "0 < j"
      using "1.prems" by (cases k; cases "k - 1") auto
    then have "n div 10 < 10 ^ j" using "1.prems" by simp
    with False j show ?thesis using "1.IH" [OF False, of j] by (simp add: show_nat.simps [of n])
  qed
qed

text \<open>
  Nim's \<^verbatim>\<open>parseInt\<close> on a 64-bit \<^verbatim>\<open>int\<close>: an optional sign, a digit, then digits and
  underscores (skipped); the value is accumulated negatively, \<^verbatim>\<open>ValueError\<close> (here
  \<open>None\<close>) when it leaves the range, when no digit is read or when something is left.
\<close>

definition int_low :: int where
  "int_low = - (2 ^ 63)"

function raw_digits :: "int \<Rightarrow> string \<Rightarrow> (int \<times> string) option" where
  "raw_digits b [] = Some (b, [])"
| "raw_digits b (c # cs) =
     (if is_digit c then
        (let b' = 10 * b - int (digit_val c)
         in if int_low \<le> b' then raw_digits b' (dropWhile (\<lambda>x. x = CHR ''_'') cs) else None)
      else Some (b, c # cs))"
  by pat_completeness auto
termination
  by (relation "measure (\<lambda>(b, s). length s)")
    (auto simp: less_Suc_eq_le length_dropWhile_le)

definition nim_parse_int :: "string \<Rightarrow> int option" where
  "nim_parse_int s =
     (let (neg, r) = (case s of [] \<Rightarrow> (False, [])
                      | c # cs \<Rightarrow> if c = CHR ''+'' then (False, cs)
                                else if c = CHR ''-'' then (True, cs) else (False, s))
      in (case r of [] \<Rightarrow> None
          | c # cs \<Rightarrow> if \<not> is_digit c then None
                    else (case raw_digits 0 r of None \<Rightarrow> None
                          | Some (b, rest) \<Rightarrow>
                              if rest \<noteq> [] then None
                              else if neg then Some b
                              else if b = int_low then None else Some (- b))))"

lemma foldl_dec_val:
  "foldl (\<lambda>a c. 10 * a + digit_val c) a s = 10 ^ length s * a + dec_val s"
proof (induction s arbitrary: a)
  case (Cons c s)
  from Cons [of "10 * a + digit_val c"] Cons [of "digit_val c"] show ?case
    by (simp add: dec_val_def algebra_simps)
qed (simp add: dec_val_def)

lemma dec_val_Cons: "dec_val (c # s) = 10 ^ length s * digit_val c + dec_val s"
  using foldl_dec_val [of "digit_val c" s] by (simp add: dec_val_def)

lemma dropWhile_underscore: "\<forall>c \<in> set s. is_digit c \<Longrightarrow> dropWhile (\<lambda>x. x = CHR ''_'') s = s"
  by (cases s) (auto simp: is_digit_def)

lemma raw_digits_all:
  assumes "\<forall>c \<in> set s. is_digit c" and "b \<le> 0"
    and "int_low \<le> 10 ^ length s * b - int (dec_val s)"
  shows "raw_digits b s = Some (10 ^ length s * b - int (dec_val s), [])"
  using assms
proof (induction s arbitrary: b)
  case Nil
  then show ?case by (simp add: dec_val_def)
next
  case (Cons c s)
  let ?b = "10 * b - int (digit_val c)"
  have eq: "10 ^ length (c # s) * b - int (dec_val (c # s)) = 10 ^ length s * ?b - int (dec_val s)"
    by (simp add: dec_val_Cons algebra_simps)
  have neg: "?b \<le> 0" using Cons.prems(2) by simp
  have "10 ^ length s * ?b \<le> 1 * ?b"
    using neg by (intro mult_right_mono_neg) auto
  then have "int_low \<le> ?b" using Cons.prems(3) unfolding eq by simp
  with Cons.IH [of ?b] Cons.prems neg show ?case
    by (simp only: raw_digits.simps eq) (simp add: dropWhile_underscore Let_def)
qed

lemma nim_parse_int_show_int:
  assumes "- (2 ^ 63) \<le> i" and "i < 2 ^ 63"
  shows "nim_parse_int (show_int i) = Some i"
proof -
  have digits: "\<forall>c \<in> set (show_nat n). is_digit c" for n
    using show_nat_digits by blast
  have raw: "raw_digits 0 (show_nat (nat \<bar>i\<bar>)) = Some (- \<bar>i\<bar>, [])"
    using raw_digits_all [OF digits, of 0 "nat \<bar>i\<bar>"] assms by (simp add: int_low_def)
  obtain d ds where s: "show_nat (nat \<bar>i\<bar>) = d # ds"
    by (cases "show_nat (nat \<bar>i\<bar>)") auto
  have d: "is_digit d" using digits [of "nat \<bar>i\<bar>"] s by simp
  then have ne: "d \<noteq> CHR ''+''" "d \<noteq> CHR ''-''" by (auto simp: is_digit_def)
  show ?thesis
  proof (cases "i < 0")
    case True
    then have "\<bar>i\<bar> = - i" by simp
    with True raw s d show ?thesis by (simp add: nim_parse_int_def show_int_def)
  next
    case False
    then have "\<bar>i\<bar> = i" by simp
    with False raw s d ne assms show ?thesis
      by (simp add: nim_parse_int_def show_int_def int_low_def)
  qed
qed

lemma show_int_free:
  "\<not> is_digit c \<Longrightarrow> c \<noteq> CHR ''-'' \<Longrightarrow> c \<notin> set (show_int i)"
  by (auto simp: show_int_def)

lemma show_int_nonempty [simp]: "show_int i \<noteq> []"
  by (simp add: show_int_def)

section \<open>Sequences\<close>

text \<open>
  Nim's \<^verbatim>\<open>seq.del(i)\<close>: the last element replaces the one at \<open>i\<close>, an index outside the
  sequence raises \<^verbatim>\<open>IndexDefect\<close>.
\<close>

definition seq_del :: "nat \<Rightarrow> 'a list \<Rightarrow> 'a list exec" where
  "seq_del i xs = (if i < length xs then Done (butlast (xs[i := last xs])) else Fault IndexDefect)"

text \<open>The index of the first occurrence, as the linear searches of the sources return it.\<close>

fun index_of :: "'a \<Rightarrow> 'a list \<Rightarrow> nat option" where
  "index_of x [] = None"
| "index_of x (y # ys) = (if y = x then Some 0 else map_option Suc (index_of x ys))"

lemma index_of_None_iff [simp]: "index_of x xs = None \<longleftrightarrow> x \<notin> set xs"
  by (induction xs) auto

lemma index_of_SomeD: "index_of x xs = Some i \<Longrightarrow> i < length xs \<and> xs ! i = x"
  by (induction xs arbitrary: i) (auto split: if_splits)

lemma index_of_nth: "distinct xs \<Longrightarrow> i < length xs \<Longrightarrow> index_of (xs ! i) xs = Some i"
proof (induction xs arbitrary: i)
  case (Cons x xs)
  then show ?case by (cases i) auto
qed simp

section \<open>Words\<close>

lemma unat_bound8: "unat b < 256" for b :: u8
  using unsigned_less [of b, where ?'a = nat] by simp

lemma unat_bound16: "unat b < 65536" for b :: u16
  using unsigned_less [of b, where ?'a = nat] by simp

lemma unat_bound32: "unat b < 2 ^ 32" for b :: u32
  using unsigned_less [of b, where ?'a = nat] by simp

lemma unat_bound64: "unat b < 2 ^ 64" for b :: u64
  using unsigned_less [of b, where ?'a = nat] by simp

lemma unat_shift8_or:
  fixes v :: u64 and b :: u8
  assumes "unat v < 2 ^ 56"
  shows "unat (push_bit 8 v OR ucast b) = 256 * unat v + unat b"
proof -
  have "push_bit 8 v AND ucast b = (0 :: u64)"
    by (rule bit_word_eqI) (auto simp: bit_simps dest: bit_imp_le_length)
  then have "push_bit 8 v OR ucast b = push_bit 8 v + (ucast b :: u64)"
    by (rule disjunctive_add_eq_or [symmetric])
  moreover have "unat (push_bit 8 v) = 256 * unat v"
    using assms by (simp add: push_bit_eq_mult unat_word_ariths)
  moreover have "unat (ucast b :: u64) = unat b"
    using unat_bound8 [of b] by (simp add: unsigned_ucast_eq take_bit_nat_eq_self)
  moreover note unat_bound8 [of b]
  ultimately show ?thesis
    using assms by (simp add: unat_word_ariths)
qed

lemma unat_and_63: "unat (w AND 63) = unat w mod 64" for w :: u64
proof -
  have "w AND 63 = take_bit 6 w" by (simp add: take_bit_eq_mask mask_eq_exp_minus_1)
  then show ?thesis by (simp only: unsigned_take_bit_eq) (simp add: take_bit_eq_mod)
qed

lemma unat_shr: "unat (drop_bit n w) = unat w div 2 ^ n" for w :: u64
  unfolding unat_drop_bit_eq by (rule drop_bit_eq_div)

end
