(* ===== verification/Base64C.thy ===== *)
theory Base64C
  imports Prelude
begin

text \<open>
  The base64 encoder of the C examples, \<^verbatim>\<open>examples/cbindings/base64.c\<close> (the node addon and
  the C example encode their payloads with it). \<open>size_t\<close> is a 64-bit word, so every sum
  and product wraps as in C; the output buffer is a list whose cells start with whatever
  \<^verbatim>\<open>malloc\<close> returned, and every read and write of an array is bounds-checked by \<open>rd\<close>
  and \<open>wr\<close>: an access outside the array is the fault \<open>OutOfBounds\<close>.
\<close>

section \<open>The code\<close>

definition rd :: "'a list \<Rightarrow> u64 \<Rightarrow> 'a exec" where
  "rd xs i = (if unat i < length xs then Done (xs ! unat i) else Fault OutOfBounds)"

definition wr :: "'a list \<Rightarrow> u64 \<Rightarrow> 'a \<Rightarrow> 'a list exec" where
  "wr xs i x = (if unat i < length xs then Done (xs[unat i := x]) else Fault OutOfBounds)"

definition b64_encoded_size :: "u64 \<Rightarrow> u64" where
  "b64_encoded_size inlen =
     (let ret = inlen;
          ret = (if inlen mod 3 \<noteq> 0 then ret + (3 - inlen mod 3) else ret);
          ret = ret div 3;
          ret = ret * 4
      in ret)"

text \<open>The table \<^verbatim>\<open>b64chars\<close>, with the terminating NUL of the C string literal.\<close>

definition b64chars :: string where
  "b64chars = ''ABCDEFGHIJKLMNOPQRSTUVWXYZabcdefghijklmnopqrstuvwxyz0123456789+/'' @ [CHR 0x00]"

definition b64char_at :: "u64 \<Rightarrow> char exec" where
  "b64char_at v = rd b64chars (v AND 0x3F)"

text \<open>
  One iteration of the \<^verbatim>\<open>for\<close> loop: the three input bytes (absent ones are zero bits), then
  the four output characters, written in the order of the code.
\<close>

definition b64_load :: "bytes \<Rightarrow> u64 \<Rightarrow> u64 \<Rightarrow> u64 exec" where
  "b64_load inp len i =
     bind_exec (rd inp i) (\<lambda>b0. let v = ucast b0 in
     bind_exec (if i + 1 < len then bind_exec (rd inp (i + 1)) (\<lambda>b. Done (push_bit 8 v OR ucast b))
                else Done (push_bit 8 v)) (\<lambda>v.
     (if i + 2 < len then bind_exec (rd inp (i + 2)) (\<lambda>b. Done (push_bit 8 v OR ucast b))
      else Done (push_bit 8 v))))"

definition b64_step :: "bytes \<Rightarrow> u64 \<Rightarrow> u64 \<Rightarrow> u64 \<Rightarrow> string \<Rightarrow> string exec" where
  "b64_step inp len i j out =
     bind_exec (b64_load inp len i) (\<lambda>v.
     bind_exec (b64char_at (drop_bit 18 v)) (\<lambda>c.
     bind_exec (wr out j c) (\<lambda>out.
     bind_exec (b64char_at (drop_bit 12 v)) (\<lambda>c.
     bind_exec (wr out (j + 1) c) (\<lambda>out.
     bind_exec (if i + 1 < len then b64char_at (drop_bit 6 v) else Done (CHR ''='')) (\<lambda>c.
     bind_exec (wr out (j + 2) c) (\<lambda>out.
     bind_exec (if i + 2 < len then b64char_at v else Done (CHR ''='')) (\<lambda>c.
     wr out (j + 3) c))))))))"

text \<open>The loop itself; \<open>None\<close> would be a loop that never ends.\<close>

partial_function (option) b64_loop ::
  "bytes \<Rightarrow> u64 \<Rightarrow> u64 \<Rightarrow> u64 \<Rightarrow> string \<Rightarrow> string exec option" where
  "b64_loop inp len i j out =
     (if i < len then
        (case b64_step inp len i j out of
           Fault e \<Rightarrow> Some (Fault e)
         | Done out' \<Rightarrow> b64_loop inp len (i + 3) (j + 4) out')
      else Some (Done out))"

text \<open>
  \<open>inp = None\<close> is the NULL pointer; \<open>junk\<close> is the content of fresh memory and \<open>oom\<close>
  says that \<^verbatim>\<open>malloc\<close> fails: its NULL is not checked, so the first store faults. The result
  \<open>Done None\<close> is the NULL the code returns, \<open>Done (Some out)\<close> the whole buffer.
\<close>

definition b64_encode ::
  "bool \<Rightarrow> (nat \<Rightarrow> char) \<Rightarrow> bytes option \<Rightarrow> u64 \<Rightarrow> string option exec option" where
  "b64_encode oom junk inp len =
     (case inp of
        None \<Rightarrow> Some (Done None)
      | Some xs \<Rightarrow>
          if len = 0 then Some (Done None)
          else (let elen = b64_encoded_size len;
                    out = map junk [0..<unat (elen + 1)]
                in if oom then Some (Fault NilAccess)
                   else (case wr out elen (CHR 0x00) of
                           Fault e \<Rightarrow> Some (Fault e)
                         | Done out \<Rightarrow> map_option (\<lambda>r. bind_exec r (\<lambda>s. Done (Some s)))
                                        (b64_loop xs len 0 0 out))))"

section \<open>The reference encoder and decoder\<close>

definition b64_alphabet :: string where
  "b64_alphabet = ''ABCDEFGHIJKLMNOPQRSTUVWXYZabcdefghijklmnopqrstuvwxyz0123456789+/''"

definition sextet :: "nat \<Rightarrow> char" where
  "sextet n = b64_alphabet ! (n mod 64)"

fun b64_spec :: "bytes \<Rightarrow> string" where
  "b64_spec [] = []"
| "b64_spec [a] =
     (let v = 65536 * unat a
      in [sextet (v div 262144), sextet (v div 4096), CHR ''='', CHR ''=''])"
| "b64_spec [a, b] =
     (let v = 65536 * unat a + 256 * unat b
      in [sextet (v div 262144), sextet (v div 4096), sextet (v div 64), CHR ''=''])"
| "b64_spec (a # b # c # xs) =
     (let v = 65536 * unat a + 256 * unat b + unat c
      in [sextet (v div 262144), sextet (v div 4096), sextet (v div 64), sextet v] @ b64_spec xs)"

definition unsextet :: "char \<Rightarrow> nat option" where
  "unsextet c = index_of c b64_alphabet"

text \<open>An independent decoder of padded base64, for the round trip.\<close>

definition quad :: "nat \<Rightarrow> nat \<Rightarrow> nat \<Rightarrow> nat \<Rightarrow> nat" where
  "quad p q r s = ((p * 64 + q) * 64 + r) * 64 + s"

fun b64_decode :: "string \<Rightarrow> bytes option" where
  "b64_decode [] = Some []"
| "b64_decode (w # x # y # z # cs) =
     (case (unsextet w, unsextet x) of
        (Some p, Some q) \<Rightarrow>
          if y = CHR ''='' then
            (if z = CHR ''='' \<and> cs = [] then Some [word_of_nat (quad p q 0 0 div 65536)] else None)
          else (case unsextet y of None \<Rightarrow> None
                | Some r \<Rightarrow>
                    if z = CHR ''='' then
                      (if cs = [] then Some [word_of_nat (quad p q r 0 div 65536),
                                             word_of_nat (quad p q r 0 div 256 mod 256)] else None)
                    else (case unsextet z of None \<Rightarrow> None
                          | Some s \<Rightarrow> map_option (\<lambda>xs. word_of_nat (quad p q r s div 65536)
                                        # word_of_nat (quad p q r s div 256 mod 256)
                                        # word_of_nat (quad p q r s mod 256) # xs) (b64_decode cs)))
      | _ \<Rightarrow> None)"
| "b64_decode _ = None"

section \<open>Facts about the reference functions\<close>

lemma length_b64_alphabet [simp]: "length b64_alphabet = 64"
  by (simp add: b64_alphabet_def)

lemma distinct_b64_alphabet: "distinct b64_alphabet"
  by (simp add: b64_alphabet_def)

lemma sextet_in: "sextet n \<in> set b64_alphabet"
  by (simp add: sextet_def)

lemma pad_notin [simp]: "CHR ''='' \<notin> set b64_alphabet"
  by (simp add: b64_alphabet_def)

lemma sextet_not_pad [simp]: "sextet n \<noteq> CHR ''=''"
  using sextet_in pad_notin by metis

lemma unsextet_sextet [simp]: "unsextet (sextet n) = Some (n mod 64)"
  by (simp add: unsextet_def sextet_def index_of_nth distinct_b64_alphabet)

lemma quad_join:
  assumes "v < 16777216"
  shows "quad (v div 262144 mod 64) (v div 4096 mod 64) (v div 64 mod 64) (v mod 64) = v"
proof -
  have d: "v div 4096 = v div 64 div 64" "v div 262144 = v div 64 div 64 div 64"
    by (simp_all add: div_mult2_eq [symmetric])
  have "v div 64 div 64 div 64 mod 64 = v div 64 div 64 div 64"
    using assms by (simp add: div_mult2_eq [symmetric])
  then show ?thesis unfolding quad_def d by simp
qed

lemma quad_join0:
  assumes "v < 16777216"
  shows "v mod 65536 = 0 \<Longrightarrow> quad (v div 262144 mod 64) (v div 4096 mod 64) 0 0 = v"
    and "v mod 256 = 0 \<Longrightarrow>
      quad (v div 262144 mod 64) (v div 4096 mod 64) (v div 64 mod 64) 0 = v"
proof -
  assume "v mod 65536 = 0"
  then obtain k where k: "v = 65536 * k" by auto
  have "v div 64 mod 64 = 0" "v mod 64 = 0" by (simp_all add: k mod_eq_0_iff_dvd)
  with quad_join [OF assms] show "quad (v div 262144 mod 64) (v div 4096 mod 64) 0 0 = v" by simp
next
  assume "v mod 256 = 0"
  then obtain k where k: "v = 256 * k" by auto
  have "v mod 64 = 0" by (simp add: k)
  with quad_join [OF assms]
  show "quad (v div 262144 mod 64) (v div 4096 mod 64) (v div 64 mod 64) 0 = v" by simp
qed

lemma unpack3:
  assumes "a < 256" "b < 256" "c < 256"
  shows "(65536 * a + 256 * b + c) div 65536 = (a :: nat)"
    and "(65536 * a + 256 * b + c) div 256 mod 256 = b"
    and "(65536 * a + 256 * b + c) mod 256 = c"
proof -
  have e: "65536 * a + 256 * b + c = c + (256 * a + b) * 256" by simp
  have m: "(c + (256 * a + b) * 256) mod 256 = c" "(c + (256 * a + b) * 256) div 256 = 256 * a + b"
    using assms by (simp_all only: mod_mult_self1 div_mult_self1) simp_all
  show "(65536 * a + 256 * b + c) mod 256 = c" unfolding e by (rule m(1))
  show "(65536 * a + 256 * b + c) div 256 mod 256 = b" unfolding e m(2) using assms by simp
  show "(65536 * a + 256 * b + c) div 65536 = a"
    using assms by (intro div_nat_eqI) simp_all
qed

lemma b64_decode_quad:
  assumes "v < 16777216"
  shows "b64_decode (sextet (v div 262144) # sextet (v div 4096) # sextet (v div 64) # sextet v # cs)
      = map_option (\<lambda>xs. word_of_nat (v div 65536) # word_of_nat (v div 256 mod 256)
          # word_of_nat (v mod 256) # xs) (b64_decode cs)"
    and "v mod 256 = 0 \<Longrightarrow>
      b64_decode [sextet (v div 262144), sextet (v div 4096), sextet (v div 64), CHR ''='']
      = Some [word_of_nat (v div 65536), word_of_nat (v div 256 mod 256)]"
    and "v mod 65536 = 0 \<Longrightarrow>
      b64_decode [sextet (v div 262144), sextet (v div 4096), CHR ''='', CHR ''='']
      = Some [word_of_nat (v div 65536)]"
  using quad_join [OF assms] quad_join0 [OF assms] by simp_all

lemma b64_decode_spec: "b64_decode (b64_spec xs) = Some xs"
proof (induction xs rule: b64_spec.induct)
  case (2 a)
  have b: "65536 * unat a < 16777216" "65536 * unat a mod 65536 = 0"
    "65536 * unat a div 65536 = unat a"
    using unat_bound8 [of a] by simp_all
  show ?case
    by (simp only: b64_spec.simps Let_def b64_decode_quad(3) [OF b(1,2)] b(3) of_nat_unat ucast_id)
next
  case (3 a b)
  have b: "65536 * unat a + 256 * unat b < 16777216"
    using unat_bound8 [of a] unat_bound8 [of b] by simp
  note u = unpack3 [OF unat_bound8 [of a] unat_bound8 [of b], of 0, simplified add_0_right, OF zero_less_numeral]
  show ?case
    by (simp only: b64_spec.simps Let_def b64_decode_quad(2) [OF b u(3)] u of_nat_unat ucast_id)
next
  case (4 a b c xs)
  have b: "65536 * unat a + 256 * unat b + unat c < 16777216"
    using unat_bound8 [of a] unat_bound8 [of b] unat_bound8 [of c] by simp
  note u = unpack3 [OF unat_bound8 [of a] unat_bound8 [of b] unat_bound8 [of c]]
  show ?case
    by (simp only: b64_spec.simps Let_def append.simps b64_decode_quad(1) [OF b] u 4
        of_nat_unat ucast_id option.map)
qed simp

lemma length_b64_spec: "length (b64_spec xs) = 4 * ((length xs + 2) div 3)"
proof (induction xs rule: b64_spec.induct)
  case (4 a b c xs)
  have "(length (a # b # c # xs) + 2) div 3 = Suc ((length xs + 2) div 3)" by simp
  with 4 show ?case by (simp only: b64_spec.simps Let_def) simp
qed (auto simp: Let_def)

lemma b64_spec_split: "b64_spec xs = b64_spec (take 3 xs) @ b64_spec (drop 3 xs)"
  by (cases xs rule: b64_spec.cases) (auto simp: Let_def)

lemma set_b64_spec: "set (b64_spec xs) \<subseteq> insert (CHR ''='') (set b64_alphabet)"
  by (induction xs rule: b64_spec.induct) (auto simp: Let_def sextet_in)

section \<open>The code computes the reference encoding\<close>

lemma b64_encoded_size_exact:
  assumes "unat n \<le> 3 * (2 ^ 62 - 1)"
  shows "unat (b64_encoded_size n) = 4 * ((unat n + 2) div 3)"
proof -
  have m: "unat (n mod 3) = unat n mod 3" by (simp add: unat_mod_distrib)
  have z: "n mod 3 = 0 \<longleftrightarrow> unat n mod 3 = 0"
    by (metis m unsigned_0 unat_eq_zero)
  define ret where "ret = (if n mod 3 \<noteq> 0 then n + (3 - n mod 3) else n)"
  have ret: "unat ret = 3 * ((unat n + 2) div 3)"
  proof (cases "n mod 3 = 0")
    case True
    then show ?thesis unfolding ret_def z by (auto simp: mod_eq_0_iff_dvd)
  next
    case False
    have "unat (3 - n mod 3) = 3 - unat n mod 3"
      by (subst unat_sub) (auto simp: m word_le_nat_alt less_imp_le_nat)
    moreover have "unat n + (3 - unat n mod 3) < 2 ^ 64" using assms by simp
    ultimately have "unat ret = unat n + (3 - unat n mod 3)"
      using False by (simp add: ret_def unat_word_ariths)
    with False show ?thesis unfolding z by presburger
  qed
  have "(unat n + 2) div 3 \<le> 2 ^ 62 - 1" using assms by simp
  with ret show ?thesis
    by (simp add: b64_encoded_size_def Let_def ret_def [symmetric] unat_word_ariths unat_div_distrib)
qed

lemma b64char_at_sextet: "b64char_at v = Done (sextet (unat v))"
proof -
  have "b64chars ! (unat v mod 64) = b64_alphabet ! (unat v mod 64)"
    by (simp add: b64chars_def b64_alphabet_def [symmetric] nth_append)
  moreover have "unat v mod 64 < length b64chars" by (simp add: b64chars_def less_Suc_eq_le)
  ultimately show ?thesis by (simp add: b64char_at_def rd_def unat_and_63 sextet_def)
qed

lemma wr_at: "unat j = n \<Longrightarrow> n < length out \<Longrightarrow> wr out j c = Done (out[n := c])"
  by (simp add: wr_def)

lemma rd_at: "unat i = n \<Longrightarrow> n < length xs \<Longrightarrow> rd xs i = Done (xs ! n)"
  by (simp add: rd_def)

lemma unat_plus:
  fixes i :: u64
  assumes "unat i + n < 2 ^ 64"
  shows "unat (i + word_of_nat n) = unat i + n"
  using assms by (simp add: unat_word_ariths unsigned_of_nat take_bit_nat_eq_self)

lemma update4:
  assumes "n + 4 \<le> length out"
  shows "out[n := a, n + 1 := b, n + 2 := c, n + 3 := d] = take n out @ [a, b, c, d] @ drop (n + 4) out"
  using assms by (intro nth_equalityI) (auto simp: nth_append nth_list_update nth_Cons' less_diff_conv2)

text \<open>The 24-bit group the loop loads, on each of its three branches.\<close>

definition group24 :: "bytes \<Rightarrow> nat" where
  "group24 g = (case g of
      [] \<Rightarrow> 0
    | [a] \<Rightarrow> 65536 * unat a
    | [a, b] \<Rightarrow> 65536 * unat a + 256 * unat b
    | a # b # c # _ \<Rightarrow> 65536 * unat a + 256 * unat b + unat c)"

lemma unat_ucast8: "unat (ucast b :: u64) = unat b" for b :: u8
  using unat_bound8 [of b] by (simp add: unsigned_ucast_eq take_bit_nat_eq_self)

lemma unat_push8: "unat v < 2 ^ 56 \<Longrightarrow> unat (push_bit 8 v) = 256 * unat v" for v :: u64
  by (simp add: push_bit_eq_mult unat_word_ariths)

lemma b64_load_group:
  assumes len: "unat len = length inp" "length inp < 2 ^ 64 - 4" and i: "unat i = n" "n < length inp"
  shows "\<exists>v. b64_load inp len i = Done v \<and> unat v = group24 (drop n inp)"
proof -
  have i1: "unat (i + 1) = n + 1" and i2: "unat (i + 2) = n + 2"
    using unat_plus [of i 1] unat_plus [of i 2] i len by simp_all
  have lt: "i + 1 < len \<longleftrightarrow> n + 1 < length inp" "i + 2 < len \<longleftrightarrow> n + 2 < length inp"
    by (simp_all add: word_less_nat_alt i1 i2 len)
  define a where "a = inp ! n"
  have bounds: "unat b < 256" for b :: u8 by (rule unat_bound8)
  consider "length inp = n + 1" | "length inp = n + 2" | "n + 2 < length inp" using i by linarith
  then show ?thesis
  proof cases
    case 1
    then have "drop n inp = [a]" by (simp add: a_def Cons_nth_drop_Suc [symmetric])
    with 1 bounds [of a] show ?thesis
      by (simp add: b64_load_def rd_at [OF i] lt a_def [symmetric] group24_def Let_def
          unat_push8 unat_ucast8 del: push_bit_push_bit)
  next
    case 2
    define b where "b = inp ! Suc n"
    from 2 have "drop n inp = [a, b]" by (simp add: a_def b_def Cons_nth_drop_Suc [symmetric])
    with 2 bounds [of a] bounds [of b] show ?thesis
      by (simp add: b64_load_def rd_at [OF i] rd_at [OF i1] lt a_def [symmetric] b_def [symmetric]
          group24_def Let_def unat_push8 unat_shift8_or unat_ucast8
          del: push_bit_push_bit push_bit_or)
  next
    case 3
    define b c where "b = inp ! Suc n" and "c = inp ! Suc (Suc n)"
    from 3 have "drop n inp = a # b # c # drop (n + 3) inp"
      by (simp add: a_def b_def c_def Cons_nth_drop_Suc [symmetric] numeral_3_eq_3)
    with 3 bounds [of a] bounds [of b] bounds [of c] show ?thesis
      by (simp add: b64_load_def rd_at [OF i] rd_at [OF i1] rd_at [OF i2] lt a_def [symmetric]
          b_def [symmetric] c_def [symmetric] group24_def Let_def unat_shift8_or unat_ucast8
          del: push_bit_push_bit push_bit_or)
  qed
qed

definition quad_chars :: "nat \<Rightarrow> nat \<Rightarrow> string" where
  "quad_chars m v =
     [sextet (v div 262144), sextet (v div 4096),
      (if 1 < m then sextet (v div 64) else CHR ''=''), (if 2 < m then sextet v else CHR ''='')]"

lemma length_quad_chars [simp]: "length (quad_chars m v) = 4"
  by (simp add: quad_chars_def)

lemma b64_spec_group: "xs \<noteq> [] \<Longrightarrow> b64_spec xs = quad_chars (length xs) (group24 xs) @ b64_spec (drop 3 xs)"
  by (cases xs rule: b64_spec.cases) (auto simp: quad_chars_def group24_def Let_def)

lemma b64_step_writes:
  assumes len: "unat len = length inp" "length inp < 2 ^ 64 - 4" and i: "unat i = n" "n < length inp"
    and j: "unat j = m" "m + 4 \<le> length out" "m + 4 < 2 ^ 64"
  shows "b64_step inp len i j out =
    Done (take m out @ quad_chars (length inp - n) (group24 (drop n inp)) @ drop (m + 4) out)"
proof -
  have i1: "unat (i + 1) = n + 1" and i2: "unat (i + 2) = n + 2"
    using unat_plus [of i 1] unat_plus [of i 2] i len by simp_all
  have lt: "i + 1 < len \<longleftrightarrow> 1 < length inp - n" "i + 2 < len \<longleftrightarrow> 2 < length inp - n"
    by (auto simp: word_less_nat_alt i1 i2 len)
  have j123: "unat (j + 1) = m + 1" "unat (j + 2) = m + 2" "unat (j + 3) = m + 3"
    using unat_plus [of j 1] unat_plus [of j 2] unat_plus [of j 3] j by simp_all
  from b64_load_group [OF len i] obtain v
    where v: "b64_load inp len i = Done v" "unat v = group24 (drop n inp)" by blast
  have w: "wr xs j c = Done (xs[m := c])" "wr xs (j + 1) c = Done (xs[m + 1 := c])"
    "wr xs (j + 2) c = Done (xs[m + 2 := c])" "wr xs (j + 3) c = Done (xs[m + 3 := c])"
    if "length xs = length out" for xs c
    using j j123 that by (simp_all add: wr_at)
  have e: "b64_step inp len i j out = Done (out[m := sextet (unat v div 262144),
      m + 1 := sextet (unat v div 4096),
      m + 2 := (if 1 < length inp - n then sextet (unat v div 64) else CHR ''=''),
      m + 3 := (if 2 < length inp - n then sextet (unat v) else CHR ''='')])"
    by (simp add: b64_step_def v(1) w b64char_at_sextet unat_shr lt del: One_nat_def)
  show ?thesis unfolding e update4 [OF j(2)] v(2) quad_chars_def ..
qed

text \<open>
  The loop of the encoder as an interface: the C and the C++ version of the repository have the
  same loop around a step of their own, on an output object that holds characters. What the
  loop writes follows from what one step writes on inputs that are \<open>fit\<close> for it.
\<close>

locale base64_loop =
  fixes loop :: "bytes \<Rightarrow> u64 \<Rightarrow> u64 \<Rightarrow> u64 \<Rightarrow> 'o \<Rightarrow> 'o exec option"
    and step :: "bytes \<Rightarrow> u64 \<Rightarrow> u64 \<Rightarrow> u64 \<Rightarrow> 'o \<Rightarrow> 'o exec"
    and chars :: "'o \<Rightarrow> string"
    and with_chars :: "'o \<Rightarrow> string \<Rightarrow> 'o"
    and fit :: "bytes \<Rightarrow> bool"
  assumes loop_unfold: "loop inp len i j out =
      (if i < len then (case step inp len i j out of Fault e \<Rightarrow> Some (Fault e)
         | Done out' \<Rightarrow> loop inp len (i + 3) (j + 4) out')
       else Some (Done out))"
    and step_writes: "fit inp \<Longrightarrow> unat len = length inp \<Longrightarrow> length inp < 2 ^ 64 - 4 \<Longrightarrow>
      unat i = n \<Longrightarrow> n < length inp \<Longrightarrow> unat j = m \<Longrightarrow> m + 4 \<le> length (chars out) \<Longrightarrow> m + 4 < 2 ^ 64 \<Longrightarrow>
      step inp len i j out = Done (with_chars out
        (take m (chars out) @ quad_chars (length inp - n) (group24 (drop n inp)) @ drop (m + 4) (chars out)))"
    and chars_with [simp]: "chars (with_chars out s) = s"
    and with_with [simp]: "with_chars (with_chars out s) t = with_chars out t"
    and with_same [simp]: "with_chars out (chars out) = out"
begin

lemma loop_writes:
  assumes fit: "fit inp" and len: "unat len = length inp" "length inp \<le> 3 * (2 ^ 62 - 1)"
    and "unat i = 3 * k" and "unat j = 4 * k" and "3 * k \<le> length inp + 2"
    and "4 * ((length inp + 2) div 3) \<le> length (chars out)"
  shows "loop inp len i j out = Some (Done (with_chars out
    (take (4 * k) (chars out) @ b64_spec (drop (3 * k) inp) @ drop (4 * ((length inp + 2) div 3)) (chars out))))"
  using assms(4-7)
proof (induction "length inp + 2 - 3 * k" arbitrary: i j k out rule: less_induct)
  case less
  let ?q = "(length inp + 2) div 3"
  show ?case
  proof (cases "3 * k < length inp")
    case False
    then have "?q = k" using less.prems(3) by (intro div_nat_eqI) auto
    moreover have "\<not> i < len" using False by (simp add: word_less_nat_alt less.prems len)
    ultimately show ?thesis using False by (simp add: loop_unfold [of inp len i])
  next
    case True
    then have lt: "i < len" by (simp add: word_less_nat_alt less.prems len)
    have kq: "k + 1 \<le> ?q" using True by (simp add: less_eq_div_iff_mult_less_eq)
    have qb: "?q \<le> 2 ^ 62 - 1" using len(2) by simp
    define cs where "cs = take (4 * k) (chars out)
      @ quad_chars (length inp - 3 * k) (group24 (drop (3 * k) inp)) @ drop (4 * k + 4) (chars out)"
    have st: "step inp len i j out = Done (with_chars out cs)"
      unfolding cs_def
      by (rule step_writes) (use fit len less.prems True kq qb in simp_all)
    have i': "unat (i + 3) = 3 * (k + 1)" and j': "unat (j + 4) = 4 * (k + 1)"
      using unat_plus [of i 3] unat_plus [of j 4] less.prems kq qb by simp_all
    have l': "4 * ?q \<le> length cs"
      using less.prems(4) kq by (simp add: cs_def)
    have "loop inp len (i + 3) (j + 4) (with_chars out cs) = Some (Done (with_chars out (take (4 * (k + 1)) cs
        @ b64_spec (drop (3 * (k + 1)) inp) @ drop (4 * ?q) cs)))"
      using less.hyps [of "k + 1" "i + 3" "j + 4" "with_chars out cs"] i' j' l' True by simp
    moreover have "take (4 * (k + 1)) cs = take (4 * k) (chars out)
        @ quad_chars (length inp - 3 * k) (group24 (drop (3 * k) inp))"
      using less.prems(4) kq by (simp add: cs_def)
    moreover have "drop (4 * ?q) cs = drop (4 * ?q) (chars out)"
      using less.prems(4) kq by (simp add: cs_def)
    moreover have "b64_spec (drop (3 * k) inp) =
        quad_chars (length inp - 3 * k) (group24 (drop (3 * k) inp)) @ b64_spec (drop (3 * (k + 1)) inp)"
      using b64_spec_group [of "drop (3 * k) inp"] True by (simp add: add.commute)
    ultimately show ?thesis using lt st by (simp add: loop_unfold [of inp len i])
  qed
qed

end

interpretation c_loop: base64_loop b64_loop b64_step "\<lambda>out. out" "\<lambda>_ out. out" "\<lambda>_. True"
  by unfold_locales (simp_all add: b64_step_writes b64_loop.simps)

section \<open>Correctness of the encoder\<close>

lemma b64_encode_run:
  assumes "inp \<noteq> []" and "unat len = length inp" and "length inp \<le> 3 * (2 ^ 62 - 1)"
  shows "b64_encode False junk (Some inp) len = Some (Done (Some (b64_spec inp @ [CHR 0x00])))"
proof -
  let ?q = "(length inp + 2) div 3"
  have size: "unat (b64_encoded_size len) = 4 * ?q"
    using b64_encoded_size_exact [of len] assms by simp
  have qb: "?q \<le> 2 ^ 62 - 1" using assms(3) by simp
  have size1: "unat (b64_encoded_size len + 1) = 4 * ?q + 1"
    using unat_plus [of "b64_encoded_size len" 1] size qb by simp
  define out where "out = (map junk [0..<4 * ?q + 1])[4 * ?q := CHR 0x00]"
  have w: "wr (map junk [0..<4 * ?q + 1]) (b64_encoded_size len) (CHR 0x00) = Done out"
    unfolding out_def by (rule wr_at [OF size]) simp
  have l: "length out = 4 * ?q + 1" by (simp add: out_def)
  have d: "drop (4 * ?q) out = [CHR 0x00]"
    by (simp add: out_def drop_update_swap)
  have "b64_loop inp len 0 0 out = Some (Done (b64_spec inp @ [CHR 0x00]))"
    using c_loop.loop_writes [where inp = inp and len = len and i = 0 and j = 0 and k = 0 and out = out] assms l d by simp
  moreover have "len \<noteq> 0" using assms by auto
  ultimately show ?thesis
    using w size1 size
    by (simp add: b64_encode_def Let_def)
qed

text \<open>C1: for every non-empty input of at most \<open>3 * (2 ^ 62 - 1)\<close> bytes, and whatever the
  fresh memory holds, \<^verbatim>\<open>b64_encode\<close> ends, makes no access outside its arrays and returns
  exactly the reference encoding followed by the terminating NUL; decoding that text gives
  the input back, and \<^verbatim>\<open>b64_encoded_size\<close> is its length.\<close>

theorem b64_encode_correct:
  assumes "inp \<noteq> []" and "unat len = length inp" and "length inp \<le> 3 * (2 ^ 62 - 1)"
  shows "b64_encode False junk (Some inp) len = Some (Done (Some (b64_spec inp @ [CHR 0x00])))
    \<and> b64_decode (b64_spec inp) = Some inp
    \<and> unat (b64_encoded_size len) = length (b64_spec inp)"
  using b64_encode_run [OF assms] b64_decode_spec [of inp] length_b64_spec [of inp]
    b64_encoded_size_exact [of len] assms by simp

text \<open>The encoder on ``foobar!'', with arbitrary fresh memory.\<close>

theorem b64_encode_correct_witness:
  "b64_encode False (\<lambda>_. CHR ''?'') (Some [102, 111, 111, 98, 97, 114, 33]) 7
     = Some (Done (Some (''Zm9vYmFyIQ=='' @ [CHR 0x00])))"
proof -
  have "b64_spec [102, 111, 111, 98, 97, 114, 33] = ''Zm9vYmFyIQ==''"
    by (simp add: sextet_def b64_alphabet_def Let_def)
  then show ?thesis
    using b64_encode_correct [of "[102, 111, 111, 98, 97, 114, 33]" 7 "\<lambda>_. CHR ''?''"] by simp
qed

end
