(* ===== verification/WakuMessage.thy ===== *)
theory WakuMessage
  imports Prelude
begin

text \<open>
  The data everything else carries: \<^verbatim>\<open>WakuMessage\<close> (\<^verbatim>\<open>waku_core/message/message.nim\<close>), its
  deterministic hash (\<^verbatim>\<open>digest.nim\<close>, and \<^verbatim>\<open>computeDigest\<close> of the archive). The SHA-256 of
  nimcrypto is a parameter, a function \<open>sha\<close> on byte lists.
\<close>

section \<open>Data\<close>

type_synonym ContentTopic = string
type_synonym PubsubTopic = string
type_synonym Timestamp = int  \<comment> \<open>an int64, nanoseconds\<close>

record WakuMessage =
  payload :: bytes
  contentTopic :: ContentTopic
  meta :: bytes
  version :: u32
  timestamp :: Timestamp
  ephemeral :: bool
  msg_proof :: bytes

definition MaxMetaAttrLength :: nat where
  "MaxMetaAttrLength = 64"

definition empty_message :: WakuMessage where
  "empty_message = \<lparr>payload = [], contentTopic = [], meta = [], version = 0, timestamp = 0,
     ephemeral = False, msg_proof = []\<rparr>"

definition str_bytes :: "string \<Rightarrow> bytes" where
  "str_bytes s = map of_char s"

lemma unat_of_char: "unat (of_char c :: u8) = of_char c"
proof -
  have "(of_char c :: u8) = word_of_nat (of_char c)" by (simp add: of_nat_of_char)
  moreover have "(of_char c :: nat) < 256" by (rule nat_of_char_less_256)
  ultimately show ?thesis by (simp only: unsigned_of_nat) (simp add: take_bit_nat_eq_self)
qed

lemma str_bytes_inj: "str_bytes s = str_bytes t \<Longrightarrow> s = t"
proof -
  have "inj (of_char :: char \<Rightarrow> u8)"
    by (rule injI) (metis of_char_eq_iff unat_of_char)
  then show "str_bytes s = str_bytes t \<Longrightarrow> s = t"
    by (simp add: str_bytes_def inj_map_eq_map)
qed

definition bytes_str :: "bytes \<Rightarrow> string" where
  "bytes_str bs = map (\<lambda>b. char_of (unat b)) bs"

lemma bytes_str_bytes [simp]: "bytes_str (str_bytes s) = s"
  by (simp add: bytes_str_def str_bytes_def comp_def unat_of_char)

lemma length_str_bytes [simp]: "length (str_bytes s) = length s"
  by (simp add: str_bytes_def)

section \<open>Hashes\<close>

text \<open>
  \<open>sha\<close> is SHA-256 over the concatenation of the updates, \<open>be64\<close> stew's
  \<^verbatim>\<open>toBytesBE\<close> on 64-bit words.
\<close>

definition computeMessageHash ::
  "(bytes \<Rightarrow> bytes) \<Rightarrow> (u64 \<Rightarrow> bytes) \<Rightarrow> PubsubTopic \<Rightarrow> WakuMessage \<Rightarrow> bytes" where
  "computeMessageHash sha be64 pubsubTopic msg =
     sha (str_bytes pubsubTopic @ payload msg @ str_bytes (contentTopic msg) @ meta msg
          @ be64 (word_of_int (timestamp msg)))"

definition computeDigest :: "(bytes \<Rightarrow> bytes) \<Rightarrow> WakuMessage \<Rightarrow> bytes" where
  "computeDigest sha msg = sha (str_bytes (contentTopic msg) @ payload msg)"

end
