(* ===== verification/WakuThread.thy ===== *)
theory WakuThread
  imports WakuMessage
begin

text \<open>
  The worker thread behind the C library, \<^verbatim>\<open>library/waku_thread\<close>: the requests the exported
  functions send it, how a request is built in shared memory and destroyed, how the worker
  processes it on the node, and how the answer travels back
  (\<^verbatim>\<open>sendRequestToWakuThread\<close>). The node itself (\<^verbatim>\<open>waku/factory\<close>) is a record \<open>node_ops\<close> of
  answers; the channels of taskpools and the signals of chronos are a record \<open>channel\<close>.
  Shared-memory traffic is a list of \<open>Alloc\<close> and \<open>Free\<close> operations on named cells.
\<close>

section \<open>Shared memory\<close>

datatype heap_op = Alloc string | Free string

definition allocs :: "heap_op list \<Rightarrow> string \<Rightarrow> nat" where
  "allocs h x = count_list h (Alloc x)"

definition frees :: "heap_op list \<Rightarrow> string \<Rightarrow> nat" where
  "frees h x = count_list h (Free x)"

text \<open>A cell is freed twice when the trace frees it more often than it allocates it.\<close>

definition double_free :: "heap_op list \<Rightarrow> string \<Rightarrow> bool" where
  "double_free h x \<longleftrightarrow> allocs h x < frees h x"

definition leaked :: "heap_op list \<Rightarrow> string \<Rightarrow> nat" where
  "leaked h x = allocs h x - frees h x"

text \<open>\<^verbatim>\<open>$cstring\<close> reads up to the first NUL; \<^verbatim>\<open>alloc\<close> copies the bytes and appends one.\<close>

definition cstr :: "string \<Rightarrow> string" where
  "cstr s = takeWhile (\<lambda>c. c \<noteq> CHR 0x00) s"

definition alloc_str :: "string \<Rightarrow> string" where
  "alloc_str s = s @ [CHR 0x00]"

lemma cstr_alloc: "cstr (alloc_str s) = cstr s"
  by (induction s) (simp_all add: cstr_def alloc_str_def)

lemma cstr_id [simp]: "CHR 0x00 \<notin> set s \<Longrightarrow> cstr s = s"
  by (induction s) (auto simp: cstr_def)

text \<open>
  \<^verbatim>\<open>SharedSeq[T]\<close>, for elements of \<open>sz\<close> bytes: \<^verbatim>\<open>allocSharedSeq\<close> reserves
  \<open>sz * len\<close> bytes (contents \<open>junk\<close>) but copies \<open>len\<close> bytes.
\<close>

type_synonym shared_seq = "bytes \<times> nat"

definition allocSharedSeq :: "nat \<Rightarrow> (nat \<Rightarrow> u8) \<Rightarrow> bytes list \<Rightarrow> shared_seq" where
  "allocSharedSeq sz junk s =
     (take (length s) (concat s) @ map junk [length s..<sz * length s], length s)"

definition toSeq :: "nat \<Rightarrow> shared_seq \<Rightarrow> bytes list" where
  "toSeq sz m = map (\<lambda>i. take sz (drop (sz * i) (fst m))) [0..<snd m]"

lemma toSeq_bytes: "concat (toSeq 1 (allocSharedSeq 1 junk (map (\<lambda>b. [b]) s))) = s"
proof -
  have c: "concat (map (\<lambda>b. [b]) s) = s" by (induction s) auto
  have "map (\<lambda>i. take 1 (drop i s)) [0..<length s] = map (\<lambda>b. [b]) s"
    by (rule nth_equalityI) (simp_all add: take_Suc_conv_app_nth)
  then show ?thesis using c by (simp add: toSeq_def allocSharedSeq_def)
qed

section \<open>Requests\<close>

datatype NodeLifecycleMsgType = CREATE_NODE | START_NODE | STOP_NODE
datatype PeerManagementMsgType = CONNECT_TO
datatype RelayMsgType = SUBSCRIBE | UNSUBSCRIBE | PUBLISH
datatype DebugNodeMsgType = RETRIEVE_LISTENING_ADDRESSES
datatype StoreReqType = REMOTE_QUERY | LOCAL_QUERY

record ThreadSafeWakuMessage =
  ts_payload :: shared_seq
  ts_contentTopic :: string
  ts_meta :: shared_seq
  ts_version :: u32
  ts_timestamp :: Timestamp
  ts_ephemeral :: bool

record RelayRequest =
  rr_operation :: RelayMsgType
  rr_pubsubTopic :: string
  rr_message :: ThreadSafeWakuMessage

datatype request =
    LIFECYCLE NodeLifecycleMsgType string
  | PEER_MANAGER PeerManagementMsgType string u32
  | RELAY RelayRequest
  | STORE StoreReqType
  | DEBUG DebugNodeMsgType

text \<open>\<^verbatim>\<open>RelayRequest.createShared\<close> with its allocations, in the order of the code.\<close>

definition byte_seq :: "(nat \<Rightarrow> u8) \<Rightarrow> bytes \<Rightarrow> shared_seq" where
  "byte_seq junk s = allocSharedSeq 1 junk (map (\<lambda>b. [b]) s)"

definition relay_createShared ::
  "(nat \<Rightarrow> u8) \<Rightarrow> RelayMsgType \<Rightarrow> PubsubTopic \<Rightarrow> WakuMessage \<Rightarrow> RelayRequest \<times> heap_op list" where
  "relay_createShared junk op topic m =
     (\<lparr>rr_operation = op, rr_pubsubTopic = alloc_str topic,
       rr_message = \<lparr>ts_payload = byte_seq junk (payload m),
         ts_contentTopic = alloc_str (contentTopic m), ts_meta = byte_seq junk (meta m),
         ts_version = version m, ts_timestamp = timestamp m, ts_ephemeral = ephemeral m\<rparr>\<rparr>,
      [Alloc ''request'', Alloc ''pubsubTopic'', Alloc ''payload'', Alloc ''contentTopic'',
       Alloc ''meta''])"

definition relay_destroyShared :: "heap_op list" where
  "relay_destroyShared =
     [Free ''payload'', Free ''contentTopic'', Free ''meta'', Free ''request'']"

text \<open>\<^verbatim>\<open>toWakuMessage\<close> of the worker, compiled without \<^verbatim>\<open>rln\<close>: \<^verbatim>\<open>proof\<close> stays empty.\<close>

definition seq_bytes :: "shared_seq \<Rightarrow> bytes" where
  "seq_bytes m = concat (toSeq 1 m)"

definition ts_toWakuMessage :: "ThreadSafeWakuMessage \<Rightarrow> WakuMessage" where
  "ts_toWakuMessage m =
     empty_message\<lparr>payload := seq_bytes (ts_payload m), contentTopic := cstr (ts_contentTopic m),
       meta := seq_bytes (ts_meta m), version := ts_version m, timestamp := ts_timestamp m,
       ephemeral := ts_ephemeral m\<rparr>"

lemma seq_bytes_byte_seq [simp]: "seq_bytes (byte_seq junk s) = s"
  by (simp only: seq_bytes_def byte_seq_def toSeq_bytes)

lemma ts_toWakuMessage_createShared:
  "ts_toWakuMessage (rr_message (fst (relay_createShared junk op topic m)))
     = m\<lparr>contentTopic := cstr (contentTopic m), msg_proof := []\<rparr>"
  by (cases m) (simp add: ts_toWakuMessage_def relay_createShared_def empty_message_def cstr_alloc)

section \<open>Processing a request on the worker\<close>

text \<open>
  What the node answers: \<open>relayMounted\<close> is \<^verbatim>\<open>not node.wakuRelay.isNil()\<close>,
  \<open>relayPublish\<close> the number of peers a publish reached, \<open>msgHashHex\<close> the 0x-hex of the
  message hash, \<open>connectToNodes\<close> whether the dialling future completed, and
  \<open>listenAddresses\<close> the JSON list of listen addresses; errors are \<open>Inl\<close>.
\<close>

record node_ops =
  relayMounted :: bool
  relayPublish :: "PubsubTopic \<Rightarrow> WakuMessage \<Rightarrow> int"
  msgHashHex :: "PubsubTopic \<Rightarrow> WakuMessage \<Rightarrow> string"
  createWaku :: "string \<Rightarrow> string + unit"
  startWaku :: "string + unit"
  stopWaku :: "string + unit"
  connectToNodes :: "string list \<Rightarrow> bool"
  listenAddresses :: string

datatype node_effect =
    NodeCreated string
  | NodeStarted
  | NodeStopped
  | Dialled "string list"
  | RelaySubscribed PubsubTopic
  | RelayUnsubscribedAll PubsubTopic
  | RelayPublished PubsubTopic WakuMessage

type_synonym answer = "string + string"

fun process_lifecycle ::
  "node_ops \<Rightarrow> NodeLifecycleMsgType \<Rightarrow> string \<Rightarrow> answer \<times> node_effect list" where
  "process_lifecycle N CREATE_NODE cfg =
     (case createWaku N (cstr cfg) of
        Inl e \<Rightarrow> (Inl (''error processing createWaku request: '' @ e), [])
      | Inr _ \<Rightarrow> (Inr [], [NodeCreated (cstr cfg)]))"
| "process_lifecycle N START_NODE cfg =
     (case startWaku N of
        Inl e \<Rightarrow> (Inl (''problem starting waku: '' @ e), [])
      | Inr _ \<Rightarrow> (Inr [], [NodeStarted]))"
| "process_lifecycle N STOP_NODE cfg =
     (case stopWaku N of
        Inl e \<Rightarrow> (Inl (''exception stopping node: '' @ e), [])
      | Inr _ \<Rightarrow> (Inr [], [NodeStopped]))"

text \<open>Nim's \<^verbatim>\<open>strip\<close>: white space off both ends.\<close>

definition is_space :: "char \<Rightarrow> bool" where
  "is_space c \<longleftrightarrow> c \<in> {CHR '' '', CHR 0x09, CHR 0x0A, CHR 0x0B, CHR 0x0C, CHR 0x0D}"

definition strip :: "string \<Rightarrow> string" where
  "strip s = rev (dropWhile is_space (rev (dropWhile is_space s)))"

definition process_connect :: "node_ops \<Rightarrow> string \<Rightarrow> answer \<times> node_effect list" where
  "process_connect N peerMultiAddr =
     (let peers = map strip (split_on (CHR '','') (cstr peerMultiAddr))
      in if connectToNodes N peers then (Inr [], [Dialled peers])
         else (Inl ''Timeout expired.'', [Dialled peers]))"

definition process_relay :: "node_ops \<Rightarrow> RelayRequest \<Rightarrow> answer \<times> node_effect list" where
  "process_relay N r =
     (if \<not> relayMounted N then
        (Inl ''Operation not supported without Waku Relay enabled.'', [])
      else (let topic = cstr (rr_pubsubTopic r)
            in case rr_operation r of
                 SUBSCRIBE \<Rightarrow> (Inr [], [RelaySubscribed topic])
               | UNSUBSCRIBE \<Rightarrow> (Inr [], [RelayUnsubscribedAll topic])
               | PUBLISH \<Rightarrow>
                   (let msg = ts_toWakuMessage (rr_message r);
                        numPeers = relayPublish N topic msg
                    in (if numPeers = 0 then Inl ''Message not sent because no peers found.''
                        else if numPeers > 0 then Inr (msgHashHex N topic msg)
                        else Inr [],
                        [RelayPublished topic msg]))))"

text \<open>
  \<^verbatim>\<open>InterThreadRequest.process\<close>. The remote store query leaves its result unset, which
  for a \<^verbatim>\<open>Result\<close> is the empty error.
\<close>

fun process_request :: "node_ops \<Rightarrow> request \<Rightarrow> answer \<times> node_effect list" where
  "process_request N (LIFECYCLE op cfg) = process_lifecycle N op cfg"
| "process_request N (PEER_MANAGER CONNECT_TO addr timeout) = process_connect N addr"
| "process_request N (RELAY r) = process_relay N r"
| "process_request N (STORE REMOTE_QUERY) = (Inl [], [])"
| "process_request N (STORE LOCAL_QUERY) = (Inr [], [])"
| "process_request N (DEBUG RETRIEVE_LISTENING_ADDRESSES) = (Inr (listenAddresses N), [])"

section \<open>The round trip between the threads\<close>

text \<open>
  \<open>trySend\<close> and \<open>tryRecv\<close> say whether the one-slot channels take and deliver the
  request and the response, \<open>fire\<close> is what \<^verbatim>\<open>reqSignal.fireSync\<close> returns.
\<close>

record channel =
  trySend :: bool
  fire :: "string + bool"
  tryRecv :: bool

datatype ResponseType = RESP_OK | RESP_ERR

record InterThreadResponse =
  respType :: ResponseType
  content :: string

definition response_createShared :: "answer \<Rightarrow> InterThreadResponse" where
  "response_createShared res =
     (case res of
        Inr value \<Rightarrow> \<lparr>respType = RESP_OK, content = alloc_str value\<rparr>
      | Inl error \<Rightarrow> \<lparr>respType = RESP_ERR, content = alloc_str error\<rparr>)"

definition response_process :: "InterThreadResponse \<Rightarrow> answer" where
  "response_process resp =
     (case respType resp of
        RESP_OK \<Rightarrow> Inr (cstr (content resp))
      | RESP_ERR \<Rightarrow> Inl (cstr (content resp)))"

fun request_type :: "request \<Rightarrow> string" where
  "request_type (LIFECYCLE _ _) = ''LIFECYCLE''"
| "request_type (PEER_MANAGER _ _ _) = ''PEER_MANAGER''"
| "request_type (RELAY _) = ''RELAY''"
| "request_type (STORE _) = ''STORE''"
| "request_type (DEBUG _) = ''DEBUG''"

text \<open>One round of the worker loop \<^verbatim>\<open>run\<close>: process the request, pack the answer for the caller.\<close>

definition worker_round :: "node_ops \<Rightarrow> request \<Rightarrow> InterThreadResponse \<times> node_effect list" where
  "worker_round N req =
     (let (res, eff) = process_request N req in (response_createShared res, eff))"

definition sendRequestToWakuThread ::
  "channel \<Rightarrow> node_ops \<Rightarrow> request \<Rightarrow> answer \<times> node_effect list" where
  "sendRequestToWakuThread ch N req =
     (if \<not> trySend ch then
        (Inl (''Couldn't send a request to the waku thread: '' @ request_type req), [])
      else case fire ch of
        Inl e \<Rightarrow> (Inl (''failed fireSync: '' @ e), [])
      | Inr False \<Rightarrow> (Inl ''Couldn't fireSync in time'', [])
      | Inr True \<Rightarrow>
          (let (resp, eff) = worker_round N req
           in (if tryRecv ch then response_process resp
               else Inl (''Couldn't receive response from the waku thread: '' @ request_type req),
               eff)))"

definition healthy :: "channel \<Rightarrow> bool" where
  "healthy ch \<longleftrightarrow> trySend ch \<and> fire ch = Inr True \<and> tryRecv ch"

lemma response_roundtrip:
  "response_process (response_createShared res) = map_sum cstr cstr res"
  by (simp add: response_process_def response_createShared_def cstr_alloc split: sum.splits)

lemma send_healthy:
  "healthy ch \<Longrightarrow> sendRequestToWakuThread ch N req
     = (map_sum cstr cstr (fst (process_request N req)), snd (process_request N req))"
  by (simp add: healthy_def sendRequestToWakuThread_def worker_round_def response_roundtrip split: prod.splits)

end
