(* ===== verification/Json.thy ===== *)
theory Json
  imports Prelude "HOL-Library.AList" "HOL-Library.Sublist"
begin

text \<open>
  JSON trees as Nim's \<^verbatim>\<open>std/json\<close> has them, with the two functions of it the sources call:
  \<^verbatim>\<open>$\<close> (\<open>to_ugly\<close>, with \<^verbatim>\<open>escapeJson\<close>) and \<^verbatim>\<open>parseJson\<close> (the lexer \<open>lex\<close>
  with its escapes, comments and numbers, and the recursive descent \<open>parse_value\<close> with its depth
  limit). Printing then parsing gives the tree back (\<open>parse_to_ugly\<close>). A float is kept as
  the text it was read from: no source computes with one. Texts come from C strings, so the
  lexer has no case for NUL.
\<close>

section \<open>Trees and printing\<close>

text \<open>\<open>JRaw\<close> is the \<^verbatim>\<open>JString\<close> with \<^verbatim>\<open>isUnquoted\<close> a number becomes that does not fit.\<close>

datatype json =
    JNull
  | JBool bool
  | JInt int
  | JFloat string
  | JRaw string
  | JString string
  | JObject "(string \<times> json) list"
  | JArray "json list"

abbreviation QUOTE :: char where "QUOTE \<equiv> CHR 0x22"
abbreviation BACKSLASH :: char where "BACKSLASH \<equiv> CHR 0x5C"

definition hex_upper :: "nat \<Rightarrow> char" where
  "hex_upper d = (if d < 10 then digit_char d else char_of (55 + d))"

definition escape_char :: "char \<Rightarrow> string" where
  "escape_char c = (let n = of_char c :: nat in
     if n = 10 then [BACKSLASH, CHR ''n'']
     else if n = 8 then [BACKSLASH, CHR ''b'']
     else if n = 12 then [BACKSLASH, CHR ''f'']
     else if n = 9 then [BACKSLASH, CHR ''t'']
     else if n = 11 then BACKSLASH # ''u000b''
     else if n = 13 then [BACKSLASH, CHR ''r'']
     else if n = 34 then [BACKSLASH, QUOTE]
     else if n \<le> 7 then BACKSLASH # ''u000'' @ [digit_char n]
     else if 14 \<le> n \<and> n \<le> 31 then BACKSLASH # ''u00'' @ [hex_upper (n div 16), hex_upper (n mod 16)]
     else if n = 92 then [BACKSLASH, BACKSLASH]
     else [c])"

definition escapeJson :: "string \<Rightarrow> string" where
  "escapeJson s = QUOTE # concat (map escape_char s) @ [QUOTE]"

fun to_ugly :: "json \<Rightarrow> string" where
  "to_ugly JNull = ''null''"
| "to_ugly (JBool b) = (if b then ''true'' else ''false'')"
| "to_ugly (JInt i) = show_int i"
| "to_ugly (JFloat s) = s"
| "to_ugly (JRaw s) = s"
| "to_ugly (JString s) = escapeJson s"
| "to_ugly (JObject fs) =
     ''{'' @ join_with (CHR '','') (map (\<lambda>(k, v). escapeJson k @ '':'' @ to_ugly v) fs) @ ''}''"
| "to_ugly (JArray xs) = ''['' @ join_with (CHR '','') (map to_ugly xs) @ '']''"

section \<open>The lexer\<close>

datatype token =
    TStr string
  | TInt string
  | TFloat string
  | TTrue
  | TFalse
  | TNull
  | TCurlyLe
  | TCurlyRi
  | TBracketLe
  | TBracketRi
  | TColon
  | TComma
  | TError

text \<open>White space and comments; a block comment that is never closed runs to the end.\<close>

fun line_comment :: "string \<Rightarrow> string" where
  "line_comment [] = []"
| "line_comment (c # cs) = (if c = CHR 0x0D \<or> c = CHR 0x0A then cs else line_comment cs)"

fun block_comment :: "string \<Rightarrow> string" where
  "block_comment [] = []"
| "block_comment (c # cs) =
     (if c = CHR ''*'' \<and> take 1 cs = ''/'' then drop 1 cs else block_comment cs)"

text \<open>Every scanner leaves a suffix of what it is given; the lengths follow.\<close>

lemma suffix_line_comment: "suffix (line_comment s) s"
  by (induction s) (auto intro: suffix_ConsI)

lemma suffix_block_comment: "suffix (block_comment s) s"
  by (induction s) (auto intro: suffix_ConsI suffix_drop)

lemma suffix_drop1: "suffix s (drop 1 cs) \<Longrightarrow> suffix s (c # cs)"
  by (meson suffix_ConsI suffix_drop suffix_order.trans)

lemmas length_line_comment = suffix_length_le [OF suffix_line_comment]
lemmas length_block_comment = suffix_length_le [OF suffix_block_comment]

definition blank :: "char \<Rightarrow> bool" where
  "blank c \<longleftrightarrow> c \<in> {CHR '' '', CHR 0x09, CHR 0x0D, CHR 0x0A}"

function skip :: "string \<Rightarrow> string" where
  "skip s = (case s of [] \<Rightarrow> []
     | c # cs \<Rightarrow>
         if blank c then skip cs
         else if c = CHR ''/'' \<and> take 1 cs = ''/'' then skip (line_comment (drop 1 cs))
         else if c = CHR ''/'' \<and> take 1 cs = ''*'' then skip (block_comment (drop 1 cs))
         else s)"
  by pat_completeness auto
termination
  by (relation "measure length")
    (auto simp: less_Suc_eq_le intro: order_trans [OF length_line_comment] order_trans [OF length_block_comment])

declare skip.simps [simp del]

text \<open>Four hexadecimal digits (\<^verbatim>\<open>parseEscapedUTF16\<close>), which leaves the digits it read consumed.\<close>

definition hex_val :: "char \<Rightarrow> nat option" where
  "hex_val c = (let n = of_char c in
     if 48 \<le> n \<and> n \<le> 57 then Some (n - 48)
     else if 97 \<le> n \<and> n \<le> 102 then Some (n - 87)
     else if 65 \<le> n \<and> n \<le> 70 then Some (n - 55)
     else None)"

fun hex_run :: "nat \<Rightarrow> nat \<Rightarrow> string \<Rightarrow> nat option \<times> string" where
  "hex_run 0 acc s = (Some acc, s)"
| "hex_run (Suc k) acc [] = (None, [])"
| "hex_run (Suc k) acc (c # cs) =
     (case hex_val c of None \<Rightarrow> (None, c # cs) | Some v \<Rightarrow> hex_run k (16 * acc + v) cs)"

definition utf8 :: "nat \<Rightarrow> string" where
  "utf8 r =
     (if r < 0x80 then [char_of r]
      else if r < 0x800 then [char_of (0xC0 + r div 64), char_of (0x80 + r mod 64)]
      else if r < 0x10000 then
        [char_of (0xE0 + r div 4096), char_of (0x80 + r div 64 mod 64), char_of (0x80 + r mod 64)]
      else [char_of (0xF0 + r div 262144), char_of (0x80 + r div 4096 mod 64),
            char_of (0x80 + r div 64 mod 64), char_of (0x80 + r mod 64)])"

text \<open>After \<^verbatim>\<open>\u\<close>: a surrogate needs its second half; \<open>None\<close> is \<^verbatim>\<open>errInvalidToken\<close>.\<close>

definition utf16_escape :: "string \<Rightarrow> string option \<times> string" where
  "utf16_escape cs = (case hex_run 4 0 cs of
       (None, r) \<Rightarrow> (None, r)
     | (Some h, r) \<Rightarrow>
         if h div 1024 \<noteq> 54 then (Some (utf8 h), r)
         else if take 2 r \<noteq> [BACKSLASH, CHR ''u''] then (None, r)
         else (case hex_run 4 0 (drop 2 r) of
             (None, r') \<Rightarrow> (None, r')
           | (Some l, r') \<Rightarrow>
               if l div 1024 = 55 then (Some (utf8 (0x10000 + 1024 * (h - 0xD800) + (l - 0xDC00))), r')
               else (None, r')))"

text \<open>What follows a backslash: the text it stands for (an unknown escape is the backslash) and the rest.\<close>

definition escape_seq :: "string \<Rightarrow> string option \<times> string" where
  "escape_seq cs = (case cs of
       [] \<Rightarrow> (Some [BACKSLASH], [])
     | c # r \<Rightarrow>
         if c \<in> {BACKSLASH, QUOTE, CHR 0x27, CHR ''/''} then (Some [c], r)
         else if c = CHR ''b'' then (Some [CHR 0x08], r)
         else if c = CHR ''f'' then (Some [CHR 0x0C], r)
         else if c = CHR ''n'' then (Some [CHR 0x0A], r)
         else if c = CHR ''r'' then (Some [CHR 0x0D], r)
         else if c = CHR ''t'' then (Some [CHR 0x09], r)
         else if c = CHR ''v'' then (Some [CHR 0x0B], r)
         else if c = CHR ''u'' then utf16_escape r
         else (Some [BACKSLASH], cs))"

lemma suffix_hex_run: "suffix (snd (hex_run k a s)) s"
  by (induction k a s rule: hex_run.induct) (auto split: option.splits intro: suffix_ConsI)

lemma suffix_utf16_escape: "suffix (snd (utf16_escape s)) s"
proof -
  obtain h r where h: "hex_run 4 0 s = (h, r)" by fastforce
  obtain l r' where l: "hex_run 4 0 (drop 2 r) = (l, r')" by fastforce
  have "suffix r s" "suffix r' (drop 2 r)"
    using suffix_hex_run [of 4 0 s] suffix_hex_run [of 4 0 "drop 2 r"] h l by auto
  then have "suffix r s" "suffix r' s" by (meson suffix_drop suffix_order.trans)+
  then show ?thesis
    using h l by (auto simp: utf16_escape_def split: option.splits)
qed

lemma suffix_escape_seq: "suffix (snd (escape_seq s)) s"
proof (cases s)
  case (Cons c r)
  have "suffix r (x # r)" "suffix (snd (utf16_escape r)) (x # r)" for x
    by (simp_all add: suffix_ConsI suffix_utf16_escape)
  then show ?thesis by (simp add: Cons escape_seq_def)
qed (simp add: escape_seq_def)

lemmas length_escape_seq = suffix_length_le [OF suffix_escape_seq]

text \<open>
  A string literal after its opening quote, with the rest; \<open>None\<close> when the closing quote is
  missing. An invalid \<^verbatim>\<open>\u\<close> ends the literal where it stands. \<^verbatim>\<open>CR LF\<close> is read as \<^verbatim>\<open>CR\<close>.
\<close>

definition add_text :: "string \<Rightarrow> (string \<times> string) option \<Rightarrow> (string \<times> string) option" where
  "add_text a = map_option (\<lambda>(s, r). (a @ s, r))"

function scan_string :: "string \<Rightarrow> (string \<times> string) option" where
  "scan_string [] = None"
| "scan_string (c # cs) =
     (if c = QUOTE then Some ([], cs)
      else if c = BACKSLASH then
        (case fst (escape_seq cs) of
           None \<Rightarrow> Some ([], snd (escape_seq cs))
         | Some a \<Rightarrow> add_text a (scan_string (snd (escape_seq cs))))
      else if c = CHR 0x0D then add_text [c] (scan_string (if take 1 cs = [CHR 0x0A] then drop 1 cs else cs))
      else add_text [c] (scan_string cs))"
  by pat_completeness auto
termination
  by (relation "measure length") (auto simp: less_Suc_eq_le length_escape_seq)

lemma add_text_SomeE:
  "add_text a m = Some (s, r) \<Longrightarrow> (\<And>s'. m = Some (s', r) \<Longrightarrow> s = a @ s' \<Longrightarrow> P) \<Longrightarrow> P"
  by (auto simp: add_text_def)

lemma suffix_scan_string: "scan_string s = Some (a, r) \<Longrightarrow> strict_suffix r s"
proof (induction s arbitrary: a rule: scan_string.induct)
  case (2 c cs)
  have step: "strict_suffix r (c # cs)" if "strict_suffix r t" "suffix t cs" for t
    using that by (meson strict_suffix_def suffix_ConsI suffix_order.less_le_trans)
  have esc: "suffix (snd (escape_seq cs)) cs" by (rule suffix_escape_seq)
  consider "c = QUOTE" | "c = BACKSLASH" "fst (escape_seq cs) = None"
    | t where "c = BACKSLASH" "fst (escape_seq cs) = Some t" | "c = CHR 0x0D"
    | "c \<noteq> QUOTE" "c \<noteq> BACKSLASH" "c \<noteq> CHR 0x0D"
    by fastforce
  then show ?case
  proof cases
    case 3
    then show ?thesis using "2.prems" "2.IH"(1) step esc by (fastforce elim: add_text_SomeE)
  next
    case 4
    then show ?thesis using "2.prems" "2.IH"(2) step [of cs] step [of "drop 1 cs"]
      by (fastforce elim!: add_text_SomeE intro: suffix_drop split: if_splits)
  next
    case 5
    then show ?thesis using "2.prems" "2.IH"(3) step by (fastforce elim!: add_text_SomeE)
  qed (use "2.prems" esc in \<open>auto simp: strict_suffix_def suffix_def\<close>)
qed simp

lemma length_scan_string: "scan_string s = Some (a, r) \<Longrightarrow> length r < length s"
  by (auto dest!: suffix_scan_string simp: strict_suffix_def suffix_def)

text \<open>Numbers: the text of the token and the rest (a leading dot is read as \<^verbatim>\<open>0.\<close>).\<close>

definition digits :: "string \<Rightarrow> string" where "digits = takeWhile is_digit"
definition after_digits :: "string \<Rightarrow> string" where "after_digits = dropWhile is_digit"

definition scan_exponent :: "string \<Rightarrow> string \<times> string" where
  "scan_exponent s = (case s of [] \<Rightarrow> ([], [])
     | c # r \<Rightarrow>
         if c = CHR ''e'' \<or> c = CHR ''E'' then
           (let sg = (if take 1 r = ''+'' \<or> take 1 r = ''-'' then take 1 r else []);
                r' = drop (length sg) r
            in (c # sg @ digits r', after_digits r'))
         else ([], s))"

definition scan_number :: "string \<Rightarrow> string \<times> string" where
  "scan_number s =
     (let sg = (if take 1 s = ''-'' then ''-'' else []);
          s1 = drop (length sg) s;
          (m, s2) = (if take 1 s1 = ''.'' then (''0.'', drop 1 s1)
             else let r = after_digits s1 in
                if take 1 r = ''.'' then (digits s1 @ ''.'', drop 1 r) else (digits s1, r));
          s3 = after_digits s2;
          (e, s4) = scan_exponent s3
      in (sg @ m @ digits s2 @ e, s4))"

definition num_token :: "string \<Rightarrow> token" where
  "num_token a = (if CHR ''.'' \<in> set a \<or> CHR ''e'' \<in> set a \<or> CHR ''E'' \<in> set a then TFloat a else TInt a)"

definition num_start :: "char \<Rightarrow> bool" where
  "num_start c \<longleftrightarrow> is_digit c \<or> c = CHR ''-'' \<or> c = CHR ''.''"

definition ident_start :: "char \<Rightarrow> bool" where
  "ident_start c \<longleftrightarrow> (let n = of_char c :: nat in (65 \<le> n \<and> n \<le> 90) \<or> (97 \<le> n \<and> n \<le> 122) \<or> n = 95)"

definition ident_char :: "char \<Rightarrow> bool" where
  "ident_char c \<longleftrightarrow> ident_start c \<or> is_digit c"

definition name_token :: "string \<Rightarrow> token" where
  "name_token a =
     (if a = ''null'' then TNull else if a = ''true'' then TTrue else if a = ''false'' then TFalse else TError)"

fun punct :: "char \<Rightarrow> token" where
  "punct c =
     (if c = CHR ''['' then TBracketLe else if c = CHR '']'' then TBracketRi
      else if c = CHR ''{'' then TCurlyLe else if c = CHR ''}'' then TCurlyRi
      else if c = CHR '','' then TComma else if c = CHR '':'' then TColon else TError)"

lemma suffix_after_digits: "suffix (after_digits s) s"
  by (simp add: after_digits_def suffix_dropWhile)

lemma suffix_scan_exponent: "suffix (snd (scan_exponent s)) s"
proof (cases s)
  case (Cons c r)
  have "suffix (after_digits (drop n r)) (c # r)" for n
    by (meson suffix_ConsI suffix_after_digits suffix_drop suffix_order.trans)
  then show ?thesis by (simp add: Cons scan_exponent_def Let_def)
qed (simp add: scan_exponent_def)

lemma suffix_scan_number:
  assumes "num_start c" shows "suffix (snd (scan_number (c # cs))) cs"
proof -
  have tail: "suffix (snd (scan_exponent (after_digits t))) s" if "suffix t s" for s t
    using that by (meson suffix_after_digits suffix_order.trans suffix_scan_exponent)
  have drop1: "suffix (drop 1 t) s" if "suffix t s" for s t :: string
    using that by (meson suffix_drop suffix_order.trans)
  have first: "is_digit c \<Longrightarrow> suffix (after_digits (c # cs)) cs"
    by (simp add: after_digits_def suffix_dropWhile)
  consider "c = CHR ''-''" | "c = CHR ''.''" | "is_digit c" "c \<noteq> CHR ''-''" "c \<noteq> CHR ''.''"
    using assms by (auto simp: num_start_def)
  then show ?thesis
  proof cases
    case 1
    then show ?thesis
      using tail [OF drop1 [of cs cs]] tail [OF suffix_after_digits [of cs]]
        tail [OF drop1 [OF suffix_after_digits [of cs]]]
      by (simp add: scan_number_def Let_def case_prod_beta)
  next
    case 2
    then show ?thesis using tail [of cs cs] by (simp add: scan_number_def Let_def case_prod_beta)
  next
    case 3
    then show ?thesis
      using tail [OF first] tail [OF drop1, OF first]
      by (simp add: scan_number_def Let_def case_prod_beta)
  qed
qed

lemma suffix_skip: "suffix (skip s) s"
proof (induction s rule: skip.induct)
  case (1 s)
  show ?case
  proof (cases s)
    case (Cons c cs)
    have "suffix (line_comment (drop 1 cs)) (c # cs)" "suffix (block_comment (drop 1 cs)) (c # cs)"
      by (meson suffix_ConsI suffix_block_comment suffix_drop suffix_line_comment suffix_order.trans)+
    then show ?thesis
      using "1.IH" [OF Cons] Cons
      by (auto simp: skip.simps [of "c # cs"] intro: suffix_ConsI suffix_order.trans)
  qed (simp add: skip.simps)
qed

lemmas length_scan_number = suffix_length_le [OF suffix_scan_number]
lemmas length_skip = suffix_length_le [OF suffix_skip]

text \<open>The tokens of a text; the end of the list is \<^verbatim>\<open>tkEof\<close>.\<close>

function lex :: "string \<Rightarrow> token list" where
  "lex s = (case skip s of
       [] \<Rightarrow> []
     | c # cs \<Rightarrow>
         if c = QUOTE then (case scan_string cs of None \<Rightarrow> [TError] | Some (a, r) \<Rightarrow> TStr a # lex r)
         else if num_start c then
           num_token (fst (scan_number (c # cs))) # lex (snd (scan_number (c # cs)))
         else if ident_start c then
           name_token (takeWhile ident_char (c # cs)) # lex (dropWhile ident_char (c # cs))
         else punct c # lex cs)"
  by pat_completeness auto
termination
proof (relation "measure length", goal_cases)
  case (2 s c cs x a r)
  then show ?case using length_skip [of s] length_scan_string [of cs a r] by simp
next
  case (3 s c cs)
  then show ?case using length_skip [of s] length_scan_number [of c cs] by simp
next
  case (4 s c cs)
  then have "length (dropWhile ident_char (c # cs)) \<le> length cs"
    by (simp add: ident_char_def length_dropWhile_le)
  with 4 show ?case using length_skip [of s] by (simp only: in_measure) simp
next
  case (5 s c cs)
  then show ?case using length_skip [of s] by simp
qed simp

declare lex.simps [simp del]

section \<open>The parser\<close>

definition DepthLimit :: nat where "DepthLimit = 1000"

text \<open>A number too large for 64 bits, or an exponent without digits, stays the text it was.\<close>

definition int_node :: "string \<Rightarrow> json" where
  "int_node a = (case nim_parse_int a of Some i \<Rightarrow> JInt i | None \<Rightarrow> JRaw a)"

definition float_node :: "string \<Rightarrow> json" where
  "float_node a = (if is_digit (last a) \<or> last a = CHR ''.'' then JFloat a else JRaw a)"

text \<open>
  \<open>None\<close> is \<^verbatim>\<open>JsonParsingError\<close>. A repeated key replaces the value it had; a comma may
  precede the closing bracket. \<open>parse_members\<close> and \<open>parse_elems\<close> are the two loops, up to
  and with the closing bracket.
\<close>

function parse_value :: "nat \<Rightarrow> token list \<Rightarrow> (json \<times> token list) option"
  and parse_members :: "nat \<Rightarrow> (string \<times> json) list \<Rightarrow> token list \<Rightarrow> ((string \<times> json) list \<times> token list) option"
  and parse_elems :: "nat \<Rightarrow> json list \<Rightarrow> token list \<Rightarrow> (json list \<times> token list) option" where
  "parse_value d ts = (case ts of
       TStr s # r \<Rightarrow> Some (JString s, r)
     | TInt a # r \<Rightarrow> Some (int_node a, r)
     | TFloat a # r \<Rightarrow> Some (float_node a, r)
     | TTrue # r \<Rightarrow> Some (JBool True, r)
     | TFalse # r \<Rightarrow> Some (JBool False, r)
     | TNull # r \<Rightarrow> Some (JNull, r)
     | TCurlyLe # r \<Rightarrow>
         if d > DepthLimit then None else map_option (\<lambda>(fs, r'). (JObject fs, r')) (parse_members (Suc d) [] r)
     | TBracketLe # r \<Rightarrow>
         if d > DepthLimit then None else map_option (\<lambda>(xs, r'). (JArray xs, r')) (parse_elems (Suc d) [] r)
     | _ \<Rightarrow> None)"
| "parse_members d fs ts = (case ts of
       TCurlyRi # r \<Rightarrow> Some (fs, r)
     | TStr k # TColon # r \<Rightarrow> (case parse_value d r of
           None \<Rightarrow> None
         | Some (v, r') \<Rightarrow> (case r' of
               TComma # r'' \<Rightarrow> parse_members d (AList.update k v fs) r''
             | TCurlyRi # r'' \<Rightarrow> Some (AList.update k v fs, r'')
             | _ \<Rightarrow> None))
     | _ \<Rightarrow> None)"
| "parse_elems d xs ts =
     (if take 1 ts = [TBracketRi] then Some (xs, drop 1 ts)
      else (case parse_value d ts of
          None \<Rightarrow> None
        | Some (v, r) \<Rightarrow> (case r of
              TComma # r' \<Rightarrow> parse_elems d (xs @ [v]) r'
            | TBracketRi # r' \<Rightarrow> Some (xs @ [v], r')
            | _ \<Rightarrow> None)))"
  by pat_completeness auto

termination
proof -
  have shorter:
    "parse_value_parse_members_parse_elems_dom (Inl (d, ts)) \<Longrightarrow>
       parse_value d ts = Some (j, r) \<Longrightarrow> length r < length ts"
    "parse_value_parse_members_parse_elems_dom (Inr (Inl (d, fs, ts))) \<Longrightarrow>
       parse_members d fs ts = Some (gs, r) \<Longrightarrow> length r < length ts"
    "parse_value_parse_members_parse_elems_dom (Inr (Inr (d, xs, ts))) \<Longrightarrow>
       parse_elems d xs ts = Some (ys, r) \<Longrightarrow> length r < length ts"
    for d ts j r fs gs xs ys
  proof (induction d ts and d fs ts and d xs ts arbitrary: j r and gs r and ys r
      rule: parse_value_parse_members_parse_elems.pinduct)
    case (1 d ts)
    then show ?case
      by (fastforce simp: parse_value.psimps split: list.splits token.splits if_splits)
  next
    case (2 d fs ts)
    from "2.prems" "2.hyps" "2.IH" show ?case
      by (simp add: parse_members.psimps split: list.splits token.splits option.splits prod.splits) force+
  next
    case (3 d xs ts)
    show ?case
    proof (cases "take 1 ts = [TBracketRi]")
      case True
      then show ?thesis using "3.prems" "3.hyps" by (cases ts) (auto simp: parse_elems.psimps)
    next
      case False
      with "3.prems" "3.hyps" obtain v q where v: "parse_value d ts = Some (v, q)"
        by (auto simp: parse_elems.psimps split: option.splits)
      then have q: "length q < length ts" using "3.IH"(1) [OF False] by blast
      consider q' where "q = TComma # q'" "parse_elems d (xs @ [v]) q' = Some (ys, r)" | "q = TBracketRi # r"
        using "3.prems" "3.hyps" False v by (auto simp: parse_elems.psimps split: list.splits token.splits)
      then show ?thesis
      proof cases
        case 1
        then show ?thesis using "3.IH"(2) [OF False v refl 1(1)] q by auto
      qed (use q in auto)
    qed
  qed
  show ?thesis
    by (relation "measure (\<lambda>x. case x of Inl (d, ts) \<Rightarrow> 2 * length ts
          | Inr (Inl (d, fs, ts)) \<Rightarrow> 2 * length ts + 1 | Inr (Inr (d, xs, ts)) \<Rightarrow> 2 * length ts + 1)")
      (auto dest: shorter)
qed

declare parse_value.simps [simp del] parse_members.simps [simp del] parse_elems.simps [simp del]

definition parse_json :: "string \<Rightarrow> json option" where
  "parse_json s = (case parse_value 0 (lex s) of Some (j, []) \<Rightarrow> Some j | _ \<Rightarrow> None)"

section \<open>Printing, then parsing\<close>

text \<open>The trees the parser gives back: integers of 64 bits, no floats, distinct keys, nesting.\<close>

fun printable_json :: "json \<Rightarrow> bool" where
  "printable_json (JInt i) \<longleftrightarrow> - (2 ^ 63) \<le> i \<and> i < 2 ^ 63"
| "printable_json (JFloat s) \<longleftrightarrow> False"
| "printable_json (JRaw s) \<longleftrightarrow> False"
| "printable_json (JObject fs) \<longleftrightarrow> distinct (map fst fs) \<and> (\<forall>(k, v) \<in> set fs. printable_json v)"
| "printable_json (JArray xs) \<longleftrightarrow> (\<forall>v \<in> set xs. printable_json v)"
| "printable_json _ \<longleftrightarrow> True"

fun nesting :: "json \<Rightarrow> nat" where
  "nesting (JObject fs) = Suc (Max (insert 0 (set (map (\<lambda>(k, v). nesting v) fs))))"
| "nesting (JArray xs) = Suc (Max (insert 0 (set (map nesting xs))))"
| "nesting _ = 0"

fun toks :: "json \<Rightarrow> token list" where
  "toks JNull = [TNull]"
| "toks (JBool b) = [if b then TTrue else TFalse]"
| "toks (JInt i) = [TInt (show_int i)]"
| "toks (JFloat s) = [TFloat s]"
| "toks (JRaw s) = [TInt s]"
| "toks (JString s) = [TStr s]"
| "toks (JObject fs) =
     TCurlyLe # join_with TComma (map (\<lambda>(k, v). TStr k # TColon # toks v) fs) @ [TCurlyRi]"
| "toks (JArray xs) = TBracketLe # join_with TComma (map toks xs) @ [TBracketRi]"

lemma hex_val_upper: "d < 16 \<Longrightarrow> hex_val (hex_upper d) = Some d"
  by (auto simp: hex_val_def hex_upper_def of_char_digit_char Let_def)

lemma hex_val_digit: "d < 10 \<Longrightarrow> hex_val (digit_char d) = Some d"
  by (simp add: hex_val_def of_char_digit_char)

lemma utf16_escape_low:
  assumes "hex_val a = Some x" and "hex_val b = Some y" and "16 * x + y < 128"
  shows "utf16_escape (CHR ''0'' # CHR ''0'' # a # b # s) = (Some [char_of (16 * x + y)], s)"
proof -
  have "hex_val (CHR ''0'') = Some 0" by (simp add: hex_val_def)
  moreover have "(4::nat) = Suc (Suc (Suc (Suc 0)))" by simp
  ultimately have "hex_run 4 0 (CHR ''0'' # CHR ''0'' # a # b # s) = (Some (16 * x + y), s)"
    using assms by (simp only: hex_run.simps option.case) simp
  moreover have "(16 * x + y) div 1024 = 0" using assms(3) by simp
  ultimately show ?thesis
    using assms(3) by (simp add: utf16_escape_def utf8_def)
qed

lemma scan_u:
  assumes "hex_val a = Some x" and "hex_val b = Some y" and "16 * x + y < 128"
  shows "scan_string (BACKSLASH # CHR ''u'' # CHR ''0'' # CHR ''0'' # a # b # s)
    = add_text [char_of (16 * x + y)] (scan_string s)"
  by (simp add: escape_seq_def utf16_escape_low [OF assms])

lemma char_eq_iff: "c = d \<longleftrightarrow> (of_char c :: nat) = of_char d"
  by (metis char_of_char)

lemma scan_escape: "scan_string (escape_char c @ s) = add_text [c] (scan_string s)"
proof -
  define n :: nat where "n = of_char c"
  have c: "c = char_of n" by (simp add: n_def)
  consider "n \<le> 7" | "14 \<le> n \<and> n \<le> 31" | "n = 11" | "n \<in> {8, 9, 10, 12, 13, 34, 92}"
    | "7 < n" "n \<notin> {8, 9, 10, 11, 12, 13, 34, 92}" "\<not> (14 \<le> n \<and> n \<le> 31)"
    by fastforce
  then show ?thesis
  proof cases
    case 1
    have "hex_val (CHR ''0'') = Some 0" by (simp add: hex_val_def)
    from 1 scan_u [OF this hex_val_digit [of n], of s] c show ?thesis
      by (simp add: escape_char_def flip: n_def)
  next
    case 2
    then have "n div 16 < 16" "n mod 16 < 16" "16 * (n div 16) + n mod 16 < 128" by auto
    then show ?thesis
      using 2 scan_u [OF hex_val_upper hex_val_upper, of "n div 16" "n mod 16" s] c
      by (simp add: escape_char_def flip: n_def)
  next
    case 3
    have "hex_val (CHR ''0'') = Some 0" "hex_val (CHR ''b'') = Some 11" by (simp_all add: hex_val_def)
    from scan_u [OF this, of s] 3 c show ?thesis
      by (simp add: escape_char_def flip: n_def)
  next
    case 4
    with c have "c \<in> {CHR 0x08, CHR 0x09, CHR 0x0A, CHR 0x0C, CHR 0x0D, QUOTE, BACKSLASH}"
      by (auto simp: char_eq_iff)
    then show ?thesis
      by (auto simp: escape_char_def escape_seq_def)
  next
    case 5
    then have "c \<noteq> QUOTE" "c \<noteq> BACKSLASH" "c \<noteq> CHR 0x0D" by (auto simp: char_eq_iff simp flip: n_def)
    then show ?thesis using 5 by (simp add: escape_char_def flip: n_def)
  qed
qed

lemma scan_escaped: "scan_string (concat (map escape_char s) @ QUOTE # r) = Some (s, r)"
  by (induction s) (simp_all add: scan_escape add_text_def)

lemma skip_solid: "\<not> blank c \<Longrightarrow> c \<noteq> CHR ''/'' \<Longrightarrow> skip (c # s) = c # s"
  by (simp add: skip.simps)

lemma lex_string: "lex (escapeJson s @ r) = TStr s # lex r"
  by (simp add: escapeJson_def lex.simps [of "QUOTE # _"] skip_solid blank_def scan_escaped)

lemma lex_punct:
  "lex (CHR ''{'' # r) = TCurlyLe # lex r" "lex (CHR ''}'' # r) = TCurlyRi # lex r"
  "lex (CHR ''['' # r) = TBracketLe # lex r" "lex (CHR '']'' # r) = TBracketRi # lex r"
  "lex (CHR '','' # r) = TComma # lex r" "lex (CHR '':'' # r) = TColon # lex r"
  by (simp_all add: lex.simps [of "_ # r"] skip_solid blank_def num_start_def is_digit_def ident_start_def)

lemma lex_Nil [simp]: "lex [] = []"
  by (simp add: lex.simps skip.simps)

definition closes :: "string \<Rightarrow> bool" where
  "closes r \<longleftrightarrow> r = [] \<or> hd r \<in> {CHR '','', CHR '']'', CHR ''}''}"

lemma lex_name:
  assumes "closes r" and "\<forall>c \<in> set (x # xs). ident_char c" and "ident_start x"
  shows "lex ((x # xs) @ r) = name_token (x # xs) # lex r"
proof -
  have stop: "r = [] \<or> \<not> ident_char (hd r)"
    using assms(1) by (auto simp: closes_def ident_char_def ident_start_def is_digit_def)
  then have "takeWhile ident_char ((x # xs) @ r) = x # xs" "dropWhile ident_char ((x # xs) @ r) = r"
    using assms(2) by (cases r; simp add: takeWhile_append2 dropWhile_append2)+
  moreover have "\<not> blank x" "x \<noteq> CHR ''/''" "\<not> num_start x" "x \<noteq> QUOTE"
    using assms(3) by (auto simp: blank_def ident_start_def num_start_def is_digit_def)
  ultimately show ?thesis
    using assms(3) by (simp add: lex.simps [of "x # _"] skip_solid)
qed

lemma lex_literals:
  assumes "closes r"
  shows "lex (''null'' @ r) = TNull # lex r" "lex (''true'' @ r) = TTrue # lex r"
    "lex (''false'' @ r) = TFalse # lex r"
  by (subst lex_name [OF assms]; simp add: ident_char_def ident_start_def name_token_def)+

lemma lex_int:
  assumes "closes r" shows "lex (show_int i @ r) = TInt (show_int i) # lex r"
proof -
  define n where "n = nat \<bar>i\<bar>"
  have dig: "\<forall>c \<in> set (show_nat n). is_digit c" using show_nat_digits by blast
  obtain d ds where s: "show_nat n = d # ds" by (cases "show_nat n") auto
  have "r = [] \<or> \<not> is_digit (hd r) \<and> hd r \<noteq> CHR ''.'' \<and> hd r \<noteq> CHR ''e'' \<and> hd r \<noteq> CHR ''E''"
    using assms by (auto simp: closes_def is_digit_def)
  then have r: "take 1 r \<noteq> ''.''" "scan_exponent r = ([], r)" "digits (show_nat n @ r) = show_nat n"
      "after_digits (show_nat n @ r) = r" "digits r = []" "after_digits r = r"
    using dig by (cases r; simp add: scan_exponent_def digits_def after_digits_def takeWhile_append2 dropWhile_append2)+
  have d: "is_digit d" "d \<noteq> CHR ''.''" "d \<noteq> CHR ''-''" using dig s by (auto simp: is_digit_def)
  have i: "show_int i = (if i < 0 then CHR ''-'' # show_nat n else show_nat n)"
    by (simp add: show_int_def n_def)
  have scan: "scan_number (show_int i @ r) = (show_int i, r)"
    using r d s by (simp add: i scan_number_def Let_def del: append_Cons)
  have "CHR ''.'' \<notin> set (show_int i)" "CHR ''e'' \<notin> set (show_int i)" "CHR ''E'' \<notin> set (show_int i)"
    by (simp_all add: show_int_free is_digit_def)
  then have tok: "num_token (show_int i) = TInt (show_int i)" by (simp add: num_token_def)
  have "num_start d" "\<not> blank d" "d \<noteq> CHR ''/''" "d \<noteq> QUOTE"
    using d(1) by (auto simp: num_start_def blank_def is_digit_def)
  then obtain x xs where x: "show_int i = x # xs" "num_start x" "\<not> blank x" "x \<noteq> CHR ''/''" "x \<noteq> QUOTE"
    using s by (cases "i < 0") (simp_all add: i num_start_def blank_def)
  then show ?thesis using scan tok by (simp add: lex.simps [of "x # _"] skip_solid)
qed

lemma closesI [simp]: "closes []" "closes (CHR '','' # r)" "closes (CHR '']'' # r)" "closes (CHR ''}'' # r)"
  by (simp_all add: closes_def)

lemma lex_join:
  assumes "\<And>x r. x \<in> set xs \<Longrightarrow> closes r \<Longrightarrow> lex (f x @ r) = g x @ lex r" and "closes r"
  shows "lex (join_with (CHR '','') (map f xs) @ r) = join_with TComma (map g xs) @ lex r"
  using assms(1)
proof (induction xs rule: induct_list012)
  case (3 x y zs)
  then show ?case by (simp add: lex_punct)
qed (use assms(2) in simp_all)

lemma lex_to_ugly: "printable_json j \<Longrightarrow> closes r \<Longrightarrow> lex (to_ugly j @ r) = toks j @ lex r"
proof (induction j arbitrary: r rule: toks.induct)
  case (7 fs)
  let ?f = "\<lambda>(k, v). escapeJson k @ '':'' @ to_ugly v"
  let ?g = "\<lambda>(k, v). TStr k # TColon # toks v"
  have "lex (?f x @ r) = ?g x @ lex r" if "x \<in> set fs" "closes r" for x r
    using "7.IH" [OF that(1)] "7.prems"(1) that by (cases x) (auto simp: lex_string lex_punct)
  from lex_join [of fs ?f ?g "CHR ''}'' # r", OF this] show ?case by (simp add: lex_punct)
next
  case (8 xs)
  have "lex (to_ugly x @ r) = toks x @ lex r" if "x \<in> set xs" "closes r" for x r
    using "8.IH" [OF that(1)] "8.prems"(1) that by simp
  from lex_join [of xs to_ugly toks "CHR '']'' # r", OF this] show ?case by (simp add: lex_punct)
qed (simp_all add: lex_literals [simplified] lex_int lex_string)

lemma update_new: "k \<notin> fst ` set fs \<Longrightarrow> AList.update k v fs = fs @ [(k, v)]"
  by (induction fs) auto

lemma parse_members_toks:
  assumes "\<And>k v ts. (k, v) \<in> set fs \<Longrightarrow> parse_value d (toks v @ ts) = Some (v, ts)"
    and "distinct (map fst (acc @ fs))"
  shows "parse_members d acc (join_with TComma (map (\<lambda>(k, v). TStr k # TColon # toks v) fs) @ TCurlyRi # ts)
    = Some (acc @ fs, ts)"
  using assms
proof (induction fs arbitrary: acc rule: induct_list012)
  case 1
  show ?case by (simp add: parse_members.simps)
next
  case (2 x)
  then show ?case by (cases x) (simp add: parse_members.simps update_new)
next
  case (3 x y zs)
  obtain k v where x: "x = (k, v)" by fastforce
  have "distinct (map fst ((acc @ [x]) @ y # zs))" using "3.prems"(2) by auto
  have v: "parse_value d (toks v @ r) = Some (v, r)" for r
    using "3.prems"(1) [of k v r] x by simp
  have "parse_members d (acc @ [x])
      (join_with TComma (map (\<lambda>(k, v). TStr k # TColon # toks v) (y # zs)) @ TCurlyRi # ts)
    = Some ((acc @ [x]) @ y # zs, ts)"
    using "3.prems" by (intro "3.IH"(2)) auto
  then show ?case
    using "3.prems"(2) x v by (subst parse_members.simps) (simp add: update_new)
qed

lemma toks_head:
  assumes "printable_json j"
  shows "\<exists>t r. toks j = t # r \<and> t \<notin> {TBracketRi, TCurlyRi, TComma, TColon, TError}"
  using assms by (cases j) auto

lemma parse_elems_step:
  assumes "printable_json j"
  shows "parse_elems d acc (toks j @ ts) = (case parse_value d (toks j @ ts) of
      None \<Rightarrow> None
    | Some (v, r') \<Rightarrow> (case r' of
          TComma # r'' \<Rightarrow> parse_elems d (acc @ [v]) r''
        | TBracketRi # r'' \<Rightarrow> Some (acc @ [v], r'')
        | _ \<Rightarrow> None))"
  using toks_head [OF assms] by (auto simp: parse_elems.simps [of d acc "toks j @ ts"] split: token.splits)

lemma parse_elems_toks:
  assumes "\<And>v ts. v \<in> set xs \<Longrightarrow> printable_json v \<and> parse_value d (toks v @ ts) = Some (v, ts)"
  shows "parse_elems d acc (join_with TComma (map toks xs) @ TBracketRi # ts) = Some (acc @ xs, ts)"
  using assms
proof (induction xs arbitrary: acc rule: induct_list012)
  case 1
  show ?case by (simp add: parse_elems.simps)
next
  case (2 x)
  then show ?case by (simp add: parse_elems_step)
next
  case (3 x y zs)
  from "3.IH"(2) [of "acc @ [x]"] "3.prems" show ?case by (simp add: parse_elems_step)
qed

lemma nesting_member: "(k, v) \<in> set fs \<Longrightarrow> nesting v < nesting (JObject fs)"
  by (force simp: less_Suc_eq_le intro: Max_ge)

lemma nesting_elem: "v \<in> set xs \<Longrightarrow> nesting v < nesting (JArray xs)"
  by (force simp: less_Suc_eq_le intro: Max_ge)

lemma parse_toks:
  "printable_json j \<Longrightarrow> d + nesting j \<le> Suc DepthLimit \<Longrightarrow> parse_value d (toks j @ ts) = Some (j, ts)"
proof (induction j arbitrary: d ts rule: toks.induct)
  case (3 i)
  then show ?case
    using nim_parse_int_show_int [of i] by (simp add: parse_value.simps int_node_def)
next
  case (7 fs)
  have IH: "parse_value (Suc d) (toks v @ ts) = Some (v, ts)" if "(k, v) \<in> set fs" for k v ts
    using "7.IH" [OF that refl, of "Suc d"] nesting_member [OF that] "7.prems" that
    by (auto simp del: nesting.simps)
  have "d \<le> DepthLimit" using "7.prems"(2) by simp
  with "7.prems"(1) parse_members_toks [of fs "Suc d" "[]", OF IH] show ?case
    by (simp add: parse_value.simps)
next
  case (8 xs)
  have IH: "printable_json v \<and> parse_value (Suc d) (toks v @ ts) = Some (v, ts)" if "v \<in> set xs" for v ts
    using "8.IH" [OF that, of "Suc d"] nesting_elem [OF that] "8.prems" that
    by (auto simp del: nesting.simps)
  have "d \<le> DepthLimit" using "8.prems"(2) by simp
  with parse_elems_toks [of xs "Suc d" "[]", OF IH] show ?case
    by (simp add: parse_value.simps)
qed (auto simp: parse_value.simps)

lemma parse_to_ugly:
  assumes "printable_json j" and "nesting j \<le> Suc DepthLimit"
  shows "parse_json (to_ugly j) = Some j"
  using lex_to_ugly [OF assms(1), of "[]"] parse_toks [OF assms(1), of 0 "[]"] assms(2)
  by (simp add: parse_json_def)

text \<open>Printed text has no NUL: it survives as a C string.\<close>

lemma set_join_with: "set (join_with c xs) \<subseteq> insert c (\<Union>x \<in> set xs. set x)"
  by (induction c xs rule: join_with.induct) auto

lemma NUL_escape: "CHR 0x00 \<notin> set (escape_char c)"
proof -
  have d: "CHR 0x00 \<noteq> digit_char n" if "n < 10" for n
    using of_char_digit_char [OF that] by (auto simp: char_eq_iff)
  have h: "CHR 0x00 \<noteq> hex_upper n" if "n < 16" for n
    using d [of n] that by (auto simp: hex_upper_def char_eq_iff)
  have "CHR 0x00 \<noteq> c" if "7 < (of_char c :: nat)" using that by auto
  then show ?thesis
    using d [of "of_char c"] h [of "of_char c div 16"] h [of "of_char c mod 16"]
    by (auto simp: escape_char_def Let_def)
qed

lemma NUL_escapeJson [simp]: "CHR 0x00 \<notin> set (escapeJson s)"
  by (auto simp: escapeJson_def NUL_escape)

lemma to_ugly_NUL_free: "printable_json j \<Longrightarrow> CHR 0x00 \<notin> set (to_ugly j)"
proof (induction j rule: to_ugly.induct)
  case (3 i)
  show ?case by (simp add: show_int_free is_digit_def)
next
  case (7 fs)
  let ?f = "\<lambda>(k, v). escapeJson k @ '':'' @ to_ugly v"
  have "CHR 0x00 \<notin> set (?f x)" if "x \<in> set fs" for x
    using "7.IH" [OF that] "7.prems" that by (cases x) auto
  then show ?case using set_join_with [of "CHR '',''" "map ?f fs"] by auto
next
  case (8 xs)
  then have "CHR 0x00 \<notin> set (to_ugly x)" if "x \<in> set xs" for x using that by auto
  then show ?case using set_join_with [of "CHR '',''" "map to_ugly xs"] by auto
qed simp_all

section \<open>Texts built by hand, and texts cut off\<close>

text \<open>A string that needs no escape is read as it stands.\<close>

definition plain_string :: "string \<Rightarrow> bool" where
  "plain_string s \<longleftrightarrow> {QUOTE, BACKSLASH, CHR 0x0D} \<inter> set s = {}"

lemma scan_plain: "plain_string s \<Longrightarrow> scan_string (s @ QUOTE # r) = Some (s, r)"
  by (induction s) (auto simp: plain_string_def add_text_def)

lemma lex_plain: "plain_string s \<Longrightarrow> lex (QUOTE # s @ QUOTE # r) = TStr s # lex r"
  by (simp add: lex.simps [of "QUOTE # _"] skip_solid blank_def scan_plain)

text \<open>An object is not read from a text without a closing brace: a text cut off is rejected.\<close>

lemma lex_brace: "TCurlyRi \<in> set (lex s) \<Longrightarrow> CHR ''}'' \<in> set s"
proof (induction s rule: lex.induct)
  case (1 s)
  show ?case
  proof (cases "skip s")
    case Nil
    with "1.prems" show ?thesis by (simp add: lex.simps [of s])
  next
    case (Cons c cs)
    have s: "set (c # cs) \<subseteq> set s" using suffix_skip [of s] Cons set_mono_suffix by metis
    consider "c = QUOTE" "scan_string cs = None" | a r where "c = QUOTE" "scan_string cs = Some (a, r)"
      | "c \<noteq> QUOTE" "num_start c" | "c \<noteq> QUOTE" "\<not> num_start c" "ident_start c"
      | "c \<noteq> QUOTE" "\<not> num_start c" "\<not> ident_start c"
      by fastforce
    then show ?thesis
    proof cases
      case 1
      with "1.prems" Cons show ?thesis by (simp add: lex.simps [of s])
    next
      case 2
      then have "CHR ''}'' \<in> set r" using "1.IH"(1) [OF Cons] "1.prems" Cons by (auto simp: lex.simps [of s])
      moreover have "set r \<subseteq> set cs"
        using suffix_scan_string [OF 2(2)] by (auto dest: strict_suffix_def [THEN iffD1] set_mono_suffix)
      ultimately show ?thesis using s by auto
    next
      case 3
      have "TCurlyRi \<noteq> num_token a" for a by (simp add: num_token_def)
      then have "CHR ''}'' \<in> set (snd (scan_number (c # cs)))"
        using 3 "1.IH"(2) [OF Cons] "1.prems" Cons by (auto simp: lex.simps [of s])
      then show ?thesis using s set_mono_suffix [OF suffix_scan_number [OF 3(2), of cs]] by auto
    next
      case 4
      have "TCurlyRi \<noteq> name_token a" for a by (simp add: name_token_def)
      then have "CHR ''}'' \<in> set (dropWhile ident_char (c # cs))"
        using 4 "1.IH"(3) [OF Cons] "1.prems" Cons by (auto simp: lex.simps [of s] simp del: dropWhile.simps)
      then show ?thesis using s set_dropWhileD by fastforce
    next
      case 5
      with "1.IH"(4) [OF Cons] "1.prems" Cons s show ?thesis
        by (auto simp: lex.simps [of s] split: if_splits)
    qed
  qed
qed

lemma parse_rest:
  "parse_value d ts = Some (j, r) \<Longrightarrow> set r \<subseteq> set ts"
  "parse_members d fs ts = Some (gs, r) \<Longrightarrow> set r \<subseteq> set ts \<and> TCurlyRi \<in> set ts"
  "parse_elems d xs ts = Some (ys, r) \<Longrightarrow> set r \<subseteq> set ts"
proof (induction d ts and d fs ts and d xs ts arbitrary: j r and gs r and ys r
    rule: parse_value_parse_members_parse_elems.induct)
  case (1 d ts)
  from "1.prems" "1.IH" show ?case
    by (simp add: parse_value.simps [of d ts] split: list.splits token.splits if_splits) fastforce+
next
  case (2 d fs ts)
  consider "ts = TCurlyRi # r" | k q v q' where "ts = TStr k # TColon # q" "parse_value d q = Some (v, q')"
    using "2.prems" by (auto simp: parse_members.simps [of d fs ts] split: list.splits token.splits option.splits)
  then show ?case
  proof cases
    case 2
    then have q: "set q' \<subseteq> set q" using "2.IH"(1) by blast
    consider p where "q' = TComma # p" "parse_members d (AList.update k v fs) p = Some (gs, r)" | "q' = TCurlyRi # r"
      using "2.prems" 2 by (auto simp: parse_members.simps [of d fs "TStr k # _"] split: list.splits token.splits)
    then show ?thesis
    proof cases
      case 1
      then show ?thesis using "2.IH"(2) [OF 2(1) refl refl refl 2(2) refl 1(1) refl 1(2)] q 2(1) by auto
    qed (use q 2(1) in auto)
  qed auto
next
  case (3 d xs ts)
  show ?case
  proof (cases "take 1 ts = [TBracketRi]")
    case True
    then show ?thesis using "3.prems" by (cases ts) (auto simp: parse_elems.simps)
  next
    case False
    with "3.prems" obtain v q where v: "parse_value d ts = Some (v, q)"
      by (auto simp: parse_elems.simps [of d xs ts] split: option.splits)
    then have q: "set q \<subseteq> set ts" using "3.IH"(1) [OF False] by blast
    consider q' where "q = TComma # q'" "parse_elems d (xs @ [v]) q' = Some (ys, r)" | "q = TBracketRi # r"
      using "3.prems" False v by (auto simp: parse_elems.simps [of d xs ts] split: list.splits token.splits)
    then show ?thesis
    proof cases
      case 1
      then show ?thesis using "3.IH"(2) [OF False v refl 1(1)] q by auto
    qed (use q in auto)
  qed
qed

lemma parse_object_brace:
  assumes "parse_json (CHR ''{'' # s) = Some j"
  shows "CHR ''}'' \<in> set s"
proof -
  obtain gs r where "parse_members 1 [] (lex s) = Some (gs, r)"
    using assms
    by (simp add: parse_json_def lex_punct parse_value.simps split: option.splits list.splits if_splits) auto
  then show ?thesis using parse_rest(2) lex_brace by blast
qed

end
