(* ===== verification/Libwaku.thy ===== *)
theory Libwaku
  imports WakuThread Json
begin

text \<open>
  The C interface of the library: the header \<^verbatim>\<open>library/libwaku.h\<close> (return codes, callback,
  one constructor of \<open>api_call\<close> per declaration) and the exported functions of
  \<^verbatim>\<open>library/libwaku.nim\<close> behind it, with the JSON messages of
  \<^verbatim>\<open>library/events/json_message_event.nim\<close>. A function gets the context argument the caller
  passes (\<open>NilCtx\<close>, the live context, or a pointer that is not a context), and returns
  its code, the callback invocations in order, the new context, the effects on the node and
  the shared-memory traffic, or the fault it stops with. C strings are not NULL.
\<close>

section \<open>The header\<close>

definition RET_OK :: int where "RET_OK = 0"
definition RET_ERR :: int where "RET_ERR = 1"
definition RET_MISSING_CALLBACK :: int where "RET_MISSING_CALLBACK = 2"

lemmas ret_defs = RET_OK_def RET_ERR_def RET_MISSING_CALLBACK_def

type_synonym ptr = "nat option"  \<comment> \<open>user data; \<open>None\<close> is NULL\<close>
type_synonym cfun = "string option"  \<comment> \<open>a C function by name; \<open>None\<close> is NULL\<close>

datatype ctx_arg = NilCtx | LiveCtx | WildPtr

text \<open>\<^verbatim>\<open>WakuCallBack\<close>: which function was called back, and with what.\<close>

record callback =
  cb_fun :: string
  callerRet :: int
  cb_msg :: string
  cb_len :: nat
  cb_userData :: ptr

datatype api_call =
    Waku_new string cfun ptr
  | Waku_start ctx_arg cfun ptr
  | Waku_stop ctx_arg cfun ptr
  | Waku_destroy ctx_arg cfun ptr
  | Waku_version ctx_arg cfun ptr
  | Waku_set_event_callback ctx_arg cfun ptr
  | Waku_content_topic ctx_arg string u32 string string cfun ptr
  | Waku_pubsub_topic ctx_arg string cfun ptr
  | Waku_default_pubsub_topic ctx_arg cfun ptr
  | Waku_relay_publish ctx_arg string string u32 cfun ptr
  | Waku_relay_subscribe ctx_arg string cfun ptr
  | Waku_relay_unsubscribe ctx_arg string cfun ptr
  | Waku_connect ctx_arg string u32 cfun ptr
  | Waku_listen_addresses ctx_arg cfun ptr

section \<open>Library state and the helpers of the exported functions\<close>

record Context =
  userData :: ptr
  eventCallback :: cfun
  eventUserData :: ptr

text \<open>
  What the library links against: the text of a \<^verbatim>\<open>JsonParsingError\<close> (what \<^verbatim>\<open>parseJson\<close> accepts is
  in \<open>Json\<close>), the base64 decoder of \<^verbatim>\<open>stew\<close> and the worker thread.
\<close>

record lib =
  chan :: channel
  node :: node_ops
  parsing_error :: "string \<Rightarrow> string"
  b64dec :: "string \<Rightarrow> string + bytes"
  createThread :: "string + unit"
  stopThread :: "string + unit"
  WakuNodeVersionString :: string
  junk :: "nat \<Rightarrow> u8"

definition parseJson :: "lib \<Rightarrow> string \<Rightarrow> string + json" where
  "parseJson L s = (case parse_json s of None \<Rightarrow> Inl (parsing_error L s) | Some j \<Rightarrow> Inr j)"

record api =
  rc :: int
  calls :: "callback list"
  ctx_after :: "Context option"
  effects :: "node_effect list"
  heap :: "heap_op list"

definition deref :: "ctx_arg \<Rightarrow> Context option \<Rightarrow> Context exec" where
  "deref a c = (case a of
      NilCtx \<Rightarrow> Fault NilAccess
    | WildPtr \<Rightarrow> Fault WildPointer
    | LiveCtx \<Rightarrow> (case c of None \<Rightarrow> Fault WildPointer | Some x \<Rightarrow> Done x))"

text \<open>Every exported function starts with \<^verbatim>\<open>ctx[].userData = userData\<close>.\<close>

definition enter :: "ctx_arg \<Rightarrow> Context option \<Rightarrow> ptr \<Rightarrow> (Context \<Rightarrow> 'a exec) \<Rightarrow> 'a exec" where
  "enter a c u k = bind_exec (deref a c) (\<lambda>x. k (x\<lparr>userData := u\<rparr>))"

text \<open>
  \<^verbatim>\<open>callback(ret, unsafeAddr msg[0], len(msg), userData)\<close>: a jump through NULL when the
  callback is nil, \<^verbatim>\<open>IndexDefect\<close> when the message is empty.
\<close>

definition invoke :: "cfun \<Rightarrow> int \<Rightarrow> string \<Rightarrow> ptr \<Rightarrow> callback exec" where
  "invoke cb r m u =
     (if m = [] then Fault IndexDefect
      else case cb of None \<Rightarrow> Fault NilAccess
        | Some f \<Rightarrow> Done \<lparr>cb_fun = f, callerRet = r, cb_msg = m, cb_len = length m, cb_userData = u\<rparr>)"

definition done_api :: "int \<Rightarrow> Context \<Rightarrow> node_effect list \<Rightarrow> heap_op list \<Rightarrow> api exec" where
  "done_api r c eff h = Done \<lparr>rc = r, calls = [], ctx_after = Some c, effects = eff, heap = h\<rparr>"

definition call_api ::
  "cfun \<Rightarrow> int \<Rightarrow> string \<Rightarrow> ptr \<Rightarrow> int \<Rightarrow> Context \<Rightarrow> node_effect list \<Rightarrow> heap_op list \<Rightarrow> api exec" where
  "call_api cb r m u ret c eff h = bind_exec (invoke cb r m u)
     (\<lambda>k. Done \<lparr>rc = ret, calls = [k], ctx_after = Some c, effects = eff, heap = h\<rparr>)"

definition send :: "lib \<Rightarrow> request \<Rightarrow> answer \<times> node_effect list" where
  "send L req = sendRequestToWakuThread (chan L) (node L) req"

text \<open>The event handler the library registers on the relay (\<^verbatim>\<open>relayEventCallback\<close>);
  \<open>render\<close> is the JSON text of the event or the message of the exception it raised.\<close>

definition relayEventCallback ::
  "(PubsubTopic \<Rightarrow> WakuMessage \<Rightarrow> string + string) \<Rightarrow> Context \<Rightarrow> PubsubTopic \<Rightarrow> WakuMessage
     \<Rightarrow> callback list exec" where
  "relayEventCallback render c pubsubTopic msg =
     (if eventCallback c = None then Done []
      else if eventUserData c = None then Done []
      else case render pubsubTopic msg of
          Inr event \<Rightarrow> bind_exec (invoke (eventCallback c) RET_OK event (eventUserData c)) (\<lambda>k. Done [k])
        | Inl e \<Rightarrow> bind_exec (invoke (eventCallback c) RET_ERR
              (''Exception when calling 'eventCallBack': '' @ e) (eventUserData c)) (\<lambda>k. Done [k]))"

section \<open>JSON messages\<close>

text \<open>\<^verbatim>\<open>node["key"]\<close> asserts an object and raises \<^verbatim>\<open>KeyError\<close>; \<^verbatim>\<open>node{"key"}\<close> gives nil.\<close>

definition json_at :: "json \<Rightarrow> string \<Rightarrow> json exec" where
  "json_at j k = (case j of
      JObject fs \<Rightarrow> (case map_of fs k of None \<Rightarrow> Fault KeyError | Some v \<Rightarrow> Done v)
    | _ \<Rightarrow> Fault AssertionDefect)"

definition json_get :: "json \<Rightarrow> string \<Rightarrow> json option" where
  "json_get j k = (case j of JObject fs \<Rightarrow> map_of fs k | _ \<Rightarrow> None)"

fun getStr :: "json option \<Rightarrow> string" where
  "getStr (Some (JString s)) = s" | "getStr (Some (JRaw s)) = s" | "getStr _ = []"

fun getInt :: "json option \<Rightarrow> int" where
  "getInt (Some (JInt i)) = i" | "getInt _ = 0"

fun getBool :: "json option \<Rightarrow> bool" where
  "getBool (Some (JBool b)) = b" | "getBool _ = False"

record JsonMessage =
  jm_payload :: string
  jm_contentTopic :: string
  jm_version :: u64
  jm_timestamp :: Timestamp
  jm_ephemeral :: bool
  jm_meta :: string
  jm_proof :: string

definition fromJsonNode :: "json \<Rightarrow> JsonMessage exec" where
  "fromJsonNode j =
     bind_exec (json_at j ''payload'') (\<lambda>p.
     bind_exec (json_at j ''contentTopic'') (\<lambda>t.
     Done \<lparr>jm_payload = getStr (Some p), jm_contentTopic = getStr (Some t),
       jm_version = ucast (word_of_int (getInt (json_get j ''version'')) :: u32),
       jm_timestamp = getInt (json_get j ''timestamp''),
       jm_ephemeral = getBool (json_get j ''ephemeral''),
       jm_meta = getStr (json_get j ''meta''), jm_proof = getStr (json_get j ''proof'')\<rparr>))"

definition toWakuMessage :: "(string \<Rightarrow> string + bytes) \<Rightarrow> JsonMessage \<Rightarrow> string + WakuMessage" where
  "toWakuMessage dec m =
     (case dec (jm_payload m) of Inl e \<Rightarrow> Inl (''invalid payload format: '' @ e)
      | Inr pl \<Rightarrow> (case dec (jm_meta m) of Inl e \<Rightarrow> Inl (''invalid meta format: '' @ e)
      | Inr mt \<Rightarrow> (case dec (jm_proof m) of Inl e \<Rightarrow> Inl (''invalid proof format: '' @ e)
      | Inr pf \<Rightarrow> Inr \<lparr>payload = pl, contentTopic = jm_contentTopic m, meta = mt,
                       version = ucast (jm_version m), timestamp = jm_timestamp m,
                       ephemeral = jm_ephemeral m, msg_proof = pf\<rparr>)))"

section \<open>The exported functions\<close>

text \<open>
  \<^verbatim>\<open>waku_new\<close> returns a pointer: \<open>rc\<close> is 0 for NULL and 1 for a context. The \<open>heap\<close> of
  a result lists the temporaries of the function itself; the memory of a request is
  accounted for in \<open>WakuThread\<close>.
\<close>

definition waku_new :: "lib \<Rightarrow> string \<Rightarrow> cfun \<Rightarrow> ptr \<Rightarrow> api exec" where
  "waku_new L configJson cb u =
     (let null = \<lparr>rc = 0, calls = [], ctx_after = None, effects = [], heap = []\<rparr> in
      if cb = None then Done null
      else case createThread L of
        Inl e \<Rightarrow> bind_exec (invoke cb RET_ERR (''Error in createWakuThread: '' @ e) u)
                   (\<lambda>k. Done (null\<lparr>calls := [k]\<rparr>))
      | Inr _ \<Rightarrow>
          (case send L (LIFECYCLE CREATE_NODE (alloc_str (cstr configJson))) of
             (Inl e, eff) \<Rightarrow> bind_exec (invoke cb RET_ERR e u)
                (\<lambda>k. Done (null\<lparr>calls := [k], effects := eff\<rparr>))
           | (Inr _, eff) \<Rightarrow> Done (null\<lparr>rc := 1, effects := eff,
                ctx_after := Some \<lparr>userData = u, eventCallback = None, eventUserData = None\<rparr>\<rparr>)))"

definition waku_destroy :: "lib \<Rightarrow> ctx_arg \<Rightarrow> cfun \<Rightarrow> ptr \<Rightarrow> Context option \<Rightarrow> api exec" where
  "waku_destroy L a cb u c =
     (if cb = None then
        Done \<lparr>rc = RET_MISSING_CALLBACK, calls = [], ctx_after = c, effects = [], heap = []\<rparr>
      else bind_exec (deref a c) (\<lambda>x.
        case stopThread L of
          Inl e \<Rightarrow> call_api cb RET_ERR (''error in stopWakuThread: '' @ e) u RET_ERR x [] []
        | Inr _ \<Rightarrow> Done \<lparr>rc = RET_OK, calls = [], ctx_after = None, effects = [], heap = []\<rparr>))"

definition waku_version :: "lib \<Rightarrow> ctx_arg \<Rightarrow> cfun \<Rightarrow> ptr \<Rightarrow> Context option \<Rightarrow> api exec" where
  "waku_version L a cb u c = enter a c u (\<lambda>x.
     if cb = None then done_api RET_MISSING_CALLBACK x [] []
     else call_api cb RET_OK (WakuNodeVersionString L) u RET_OK x [] [])"

definition waku_set_event_callback :: "ctx_arg \<Rightarrow> cfun \<Rightarrow> ptr \<Rightarrow> Context option \<Rightarrow> api exec" where
  "waku_set_event_callback a cb u c = bind_exec (deref a c) (\<lambda>x.
     done_api RET_OK (x\<lparr>eventCallback := cb, eventUserData := u\<rparr>) [] [])"

definition content_topic_text :: "string \<Rightarrow> u32 \<Rightarrow> string \<Rightarrow> string \<Rightarrow> string" where
  "content_topic_text app v name enc =
     ''/'' @ cstr app @ ''/'' @ show_nat (unat v) @ ''/'' @ cstr name @ ''/'' @ cstr enc"

definition waku_content_topic ::
  "ctx_arg \<Rightarrow> string \<Rightarrow> u32 \<Rightarrow> string \<Rightarrow> string \<Rightarrow> cfun \<Rightarrow> ptr \<Rightarrow> Context option \<Rightarrow> api exec" where
  "waku_content_topic a app v name enc cb u c = enter a c u (\<lambda>x.
     if cb = None then done_api RET_MISSING_CALLBACK x [] []
     else call_api cb RET_OK (content_topic_text app v name enc) u RET_OK x []
       [Alloc ''appStr'', Alloc ''ctnStr'', Alloc ''encodingStr'',
        Free ''appStr'', Free ''ctnStr'', Free ''encodingStr''])"

definition waku_pubsub_topic :: "ctx_arg \<Rightarrow> string \<Rightarrow> cfun \<Rightarrow> ptr \<Rightarrow> Context option \<Rightarrow> api exec" where
  "waku_pubsub_topic a topicName cb u c = enter a c u (\<lambda>x.
     if cb = None then done_api RET_MISSING_CALLBACK x [] []
     else call_api cb RET_OK (''/waku/2/'' @ cstr topicName) u RET_OK x []
       [Alloc ''topicNameStr'', Free ''topicNameStr''])"

definition DefaultPubsubTopic :: PubsubTopic where
  "DefaultPubsubTopic = ''/waku/2/default-waku/proto''"

definition waku_default_pubsub_topic :: "ctx_arg \<Rightarrow> cfun \<Rightarrow> ptr \<Rightarrow> Context option \<Rightarrow> api exec" where
  "waku_default_pubsub_topic a cb u c = enter a c u (\<lambda>x.
     if cb = None then done_api RET_MISSING_CALLBACK x [] []
     else call_api cb RET_OK DefaultPubsubTopic u RET_OK x [] [])"

text \<open>
  \<^verbatim>\<open>targetPubSubTopic\<close> is computed and never used: the request carries \<open>pst\<close> as it came.
  On a parse error \<open>jwm\<close> is freed in the \<^verbatim>\<open>except\<close> branch and again in \<^verbatim>\<open>finally\<close>.
\<close>

definition waku_relay_publish ::
  "lib \<Rightarrow> ctx_arg \<Rightarrow> string \<Rightarrow> string \<Rightarrow> u32 \<Rightarrow> cfun \<Rightarrow> ptr \<Rightarrow> Context option \<Rightarrow> api exec" where
  "waku_relay_publish L a pst jsonWakuMessage timeoutMs cb u c = enter a c u (\<lambda>x.
     if cb = None then done_api RET_MISSING_CALLBACK x [] []
     else case parseJson L (cstr jsonWakuMessage) of
       Inl e \<Rightarrow> call_api cb RET_ERR (''Error parsing json message: '' @ e) u RET_ERR x []
                  [Alloc ''jwm'', Free ''jwm'', Free ''jwm'']
     | Inr j \<Rightarrow> bind_exec (fromJsonNode j) (\<lambda>jm.
         case toWakuMessage (b64dec L) jm of
           Inl e \<Rightarrow> call_api cb RET_ERR (''Problem building the WakuMessage: '' @ e) u RET_ERR x []
                      [Alloc ''jwm'', Free ''jwm'']
         | Inr w \<Rightarrow>
             (let req = RELAY (fst (relay_createShared (junk L) PUBLISH (cstr pst) w));
                  h = [Alloc ''jwm'', Free ''jwm'', Alloc ''pst'', Free ''pst'']
              in case send L req of
                   (Inl e, eff) \<Rightarrow> call_api cb RET_ERR e u RET_ERR x eff h
                 | (Inr msgHash, eff) \<Rightarrow> call_api cb RET_OK msgHash u RET_OK x eff h)))"

text \<open>\<^verbatim>\<open>waku_start\<close> and \<^verbatim>\<open>waku_stop\<close> discard the answer and leave their result at 0.\<close>

definition waku_start :: "lib \<Rightarrow> ctx_arg \<Rightarrow> cfun \<Rightarrow> ptr \<Rightarrow> Context option \<Rightarrow> api exec" where
  "waku_start L a cb u c = enter a c u (\<lambda>x.
     done_api 0 x (snd (send L (LIFECYCLE START_NODE (alloc_str [])))) [])"

definition waku_stop :: "lib \<Rightarrow> ctx_arg \<Rightarrow> cfun \<Rightarrow> ptr \<Rightarrow> Context option \<Rightarrow> api exec" where
  "waku_stop L a cb u c = enter a c u (\<lambda>x.
     done_api 0 x (snd (send L (LIFECYCLE STOP_NODE (alloc_str [])))) [])"

text \<open>Both \<^verbatim>\<open>waku_relay_subscribe\<close> and \<^verbatim>\<open>waku_relay_unsubscribe\<close> build a \<open>SUBSCRIBE\<close> request.\<close>

definition relay_request :: "lib \<Rightarrow> RelayMsgType \<Rightarrow> string \<Rightarrow> request" where
  "relay_request L op pst = RELAY (fst (relay_createShared (junk L) op (cstr pst) empty_message))"

definition waku_relay_subscribe ::
  "lib \<Rightarrow> ctx_arg \<Rightarrow> string \<Rightarrow> cfun \<Rightarrow> ptr \<Rightarrow> Context option \<Rightarrow> api exec" where
  "waku_relay_subscribe L a pst cb u c = enter a c u (\<lambda>x.
     let h = [Alloc ''pst'', Free ''pst'']
     in case send L (relay_request L SUBSCRIBE pst) of
          (Inl e, eff) \<Rightarrow> call_api cb RET_ERR e u RET_ERR x eff h
        | (Inr _, eff) \<Rightarrow> done_api RET_OK x eff h)"

definition waku_relay_unsubscribe ::
  "lib \<Rightarrow> ctx_arg \<Rightarrow> string \<Rightarrow> cfun \<Rightarrow> ptr \<Rightarrow> Context option \<Rightarrow> api exec" where
  "waku_relay_unsubscribe L a pst cb u c = enter a c u (\<lambda>x.
     let h = [Alloc ''pst'', Free ''pst'']
     in case send L (relay_request L SUBSCRIBE pst) of
          (Inl e, eff) \<Rightarrow> call_api cb RET_ERR e u RET_ERR x eff h
        | (Inr _, eff) \<Rightarrow> done_api RET_OK x eff h)"

definition waku_connect ::
  "lib \<Rightarrow> ctx_arg \<Rightarrow> string \<Rightarrow> u32 \<Rightarrow> cfun \<Rightarrow> ptr \<Rightarrow> Context option \<Rightarrow> api exec" where
  "waku_connect L a peerMultiAddr timeoutMs cb u c = enter a c u (\<lambda>x.
     case send L (PEER_MANAGER CONNECT_TO (alloc_str (cstr peerMultiAddr)) timeoutMs) of
       (Inl e, eff) \<Rightarrow> call_api cb RET_ERR e u RET_ERR x eff []
     | (Inr _, eff) \<Rightarrow> done_api RET_OK x eff [])"

definition waku_listen_addresses ::
  "lib \<Rightarrow> ctx_arg \<Rightarrow> cfun \<Rightarrow> ptr \<Rightarrow> Context option \<Rightarrow> api exec" where
  "waku_listen_addresses L a cb u c = enter a c u (\<lambda>x.
     case send L (DEBUG RETRIEVE_LISTENING_ADDRESSES) of
       (Inl e, eff) \<Rightarrow> call_api cb RET_ERR e u RET_ERR x eff []
     | (Inr m, eff) \<Rightarrow> call_api cb RET_OK m u RET_OK x eff [])"

text \<open>\<^verbatim>\<open>waku_store_query\<close>, which the header does not declare, sends no request yet.\<close>

definition waku_store_query ::
  "ctx_arg \<Rightarrow> string \<Rightarrow> string \<Rightarrow> int \<Rightarrow> cfun \<Rightarrow> ptr \<Rightarrow> Context option \<Rightarrow> api exec" where
  "waku_store_query a queryJson peerId timeoutMs cb u c = enter a c u (\<lambda>x. done_api RET_OK x [] [])"

text \<open>A call through the header.\<close>

fun run_api :: "lib \<Rightarrow> api_call \<Rightarrow> Context option \<Rightarrow> api exec" where
  "run_api L (Waku_new cfg cb u) c = waku_new L cfg cb u"
| "run_api L (Waku_start a cb u) c = waku_start L a cb u c"
| "run_api L (Waku_stop a cb u) c = waku_stop L a cb u c"
| "run_api L (Waku_destroy a cb u) c = waku_destroy L a cb u c"
| "run_api L (Waku_version a cb u) c = waku_version L a cb u c"
| "run_api L (Waku_set_event_callback a cb u) c = waku_set_event_callback a cb u c"
| "run_api L (Waku_content_topic a app v name enc cb u) c = waku_content_topic a app v name enc cb u c"
| "run_api L (Waku_pubsub_topic a t cb u) c = waku_pubsub_topic a t cb u c"
| "run_api L (Waku_default_pubsub_topic a cb u) c = waku_default_pubsub_topic a cb u c"
| "run_api L (Waku_relay_publish a t m ms cb u) c = waku_relay_publish L a t m ms cb u c"
| "run_api L (Waku_relay_subscribe a t cb u) c = waku_relay_subscribe L a t cb u c"
| "run_api L (Waku_relay_unsubscribe a t cb u) c = waku_relay_unsubscribe L a t cb u c"
| "run_api L (Waku_connect a p ms cb u) c = waku_connect L a p ms cb u c"
| "run_api L (Waku_listen_addresses a cb u) c = waku_listen_addresses L a cb u c"

lemmas waku_defs = waku_new_def waku_destroy_def waku_version_def waku_set_event_callback_def
  waku_content_topic_def waku_pubsub_topic_def waku_default_pubsub_topic_def
  waku_relay_publish_def waku_start_def waku_stop_def waku_relay_subscribe_def
  waku_relay_unsubscribe_def waku_connect_def waku_listen_addresses_def

lemmas api_defs = enter_def deref_def invoke_def done_api_def call_api_def

section \<open>The contract of the interface\<close>

fun api_args :: "api_call \<Rightarrow> ctx_arg option \<times> cfun \<times> ptr" where
  "api_args (Waku_new cfg cb u) = (None, cb, u)"
| "api_args (Waku_start a cb u) = (Some a, cb, u)"
| "api_args (Waku_stop a cb u) = (Some a, cb, u)"
| "api_args (Waku_destroy a cb u) = (Some a, cb, u)"
| "api_args (Waku_version a cb u) = (Some a, cb, u)"
| "api_args (Waku_set_event_callback a cb u) = (Some a, cb, u)"
| "api_args (Waku_content_topic a app v name enc cb u) = (Some a, cb, u)"
| "api_args (Waku_pubsub_topic a t cb u) = (Some a, cb, u)"
| "api_args (Waku_default_pubsub_topic a cb u) = (Some a, cb, u)"
| "api_args (Waku_relay_publish a t m ms cb u) = (Some a, cb, u)"
| "api_args (Waku_relay_subscribe a t cb u) = (Some a, cb, u)"
| "api_args (Waku_relay_unsubscribe a t cb u) = (Some a, cb, u)"
| "api_args (Waku_connect a p ms cb u) = (Some a, cb, u)"
| "api_args (Waku_listen_addresses a cb u) = (Some a, cb, u)"

text \<open>What a caller may rely on when a call returns.\<close>

definition well_formed_call :: "cfun \<Rightarrow> ptr \<Rightarrow> callback \<Rightarrow> bool" where
  "well_formed_call cb u k \<longleftrightarrow>
     cb = Some (cb_fun k) \<and> cb_userData k = u \<and> cb_msg k \<noteq> [] \<and> cb_len k = length (cb_msg k)"

definition contract :: "cfun \<Rightarrow> ptr \<Rightarrow> api \<Rightarrow> bool" where
  "contract cb u r \<longleftrightarrow>
     rc r \<in> {RET_OK, RET_ERR, RET_MISSING_CALLBACK}
     \<and> (case calls r of [] \<Rightarrow> rc r \<noteq> RET_ERR
        | [k] \<Rightarrow> well_formed_call cb u k \<and> callerRet k = rc r \<and> rc r \<noteq> RET_MISSING_CALLBACK
        | _ \<Rightarrow> False)"

lemma enterE:
  "enter a c u k = Done r \<Longrightarrow> (\<And>x. deref a c = Done x \<Longrightarrow> k (x\<lparr>userData := u\<rparr>) = Done r \<Longrightarrow> P) \<Longrightarrow> P"
  by (auto simp: enter_def)

lemma contract_call: "call_api cb r m u r x eff h = Done y \<Longrightarrow> r \<in> {RET_OK, RET_ERR} \<Longrightarrow> contract cb u y"
  by (auto simp: call_api_def invoke_def contract_def well_formed_call_def ret_defs split: if_splits option.splits)

lemma contract_done: "done_api r x eff h = Done y \<Longrightarrow> r \<in> {RET_OK, RET_MISSING_CALLBACK} \<Longrightarrow> contract cb u y"
  by (auto simp: done_api_def contract_def ret_defs)

lemma contract_intros:
  "call_api cb RET_ERR m u RET_ERR x eff h = Done y \<Longrightarrow> contract cb u y"
  "call_api cb RET_OK m u RET_OK x eff h = Done y \<Longrightarrow> contract cb u y"
  "done_api RET_OK x eff h = Done y \<Longrightarrow> contract cb u y"
  "done_api 0 x eff h = Done y \<Longrightarrow> contract cb u y"
  "done_api RET_MISSING_CALLBACK x eff h = Done y \<Longrightarrow> contract cb u y"
  by (auto intro: contract_call contract_done simp: ret_defs dest: contract_done)

lemma contract_destroyed:
  "contract cb u \<lparr>rc = RET_OK, calls = [], ctx_after = c, effects = [], heap = []\<rparr>"
  "contract cb u \<lparr>rc = RET_MISSING_CALLBACK, calls = [], ctx_after = c, effects = [], heap = []\<rparr>"
  by (auto simp: contract_def ret_defs)

lemma callback_contract:
  assumes "run_api L k c = Done r" and "api_args k = (Some a, cb, u)"
  shows "contract cb u r"
  using assms
  by (cases k)
    (auto simp: waku_defs Let_def contract_destroyed
      simp del: bind_exec_Done_iff append.simps split: if_splits sum.splits prod.splits
      elim!: enterE bind_execE, (erule contract_intros)+)

text \<open>C2: every function of the C header except \<^verbatim>\<open>waku_new\<close> (which returns a pointer), when it
  returns at all, returns one of the three documented codes; it calls back at most once,
  always when it returns \<^verbatim>\<open>RET_ERR\<close> and never with \<^verbatim>\<open>RET_MISSING_CALLBACK\<close>; the callback is
  the one the caller passed, with the caller's user data, the code that is returned, a
  non-empty message and its length.\<close>

theorem api_callback_contract:
  assumes "run_api L k c = Done r" and "api_args k = (Some a, cb, u)"
  shows "contract cb u r"
  using callback_contract [OF assms] .

text \<open>A publish of a JSON text the parser rejects: the caller is told so, once.\<close>

definition sample_node :: node_ops where
  "sample_node = \<lparr>relayMounted = True, relayPublish = (\<lambda>_ _. 2), msgHashHex = (\<lambda>_ _. ''0xab''),
     createWaku = (\<lambda>_. Inr ()), startWaku = Inr (), stopWaku = Inr (),
     connectToNodes = (\<lambda>_. True), listenAddresses = ''[]''\<rparr>"

definition sample_lib :: lib where
  "sample_lib = \<lparr>chan = \<lparr>trySend = True, fire = Inr True, tryRecv = True\<rparr>, node = sample_node,
     parsing_error = (\<lambda>s. ''input(1, 0) Error: { expected''),
     b64dec = (\<lambda>s. if s = [] then Inr [] else Inr [1, 2]),
     createThread = Inr (), stopThread = Inr (), WakuNodeVersionString = ''v0.28'', junk = (\<lambda>_. 0)\<rparr>"

lemma parse_json_Nil [simp]: "parse_json [] = None"
  by (simp add: parse_json_def parse_value.simps)

definition sample_json :: json where
  "sample_json = JObject [(''payload'', JString ''AQI=''), (''contentTopic'', JString ''/a/1/b/c'')]"

lemma parse_sample_json: "parseJson L (to_ugly sample_json) = Inr sample_json"
  by (subst parseJson_def, subst parse_to_ugly) (simp_all add: sample_json_def DepthLimit_def)

definition sample_ctx :: Context where
  "sample_ctx = \<lparr>userData = None, eventCallback = None, eventUserData = None\<rparr>"

theorem api_callback_contract_witness:
  "\<exists>r. run_api sample_lib (Waku_relay_publish LiveCtx ''t'' [] 10 (Some ''cb'') (Some 7)) (Some sample_ctx) = Done r
     \<and> contract (Some ''cb'') (Some 7) r"
proof -
  let ?k = "Waku_relay_publish LiveCtx ''t'' [] 10 (Some ''cb'') (Some 7)"
  obtain r where r: "run_api sample_lib ?k (Some sample_ctx) = Done r"
    by (simp add: waku_relay_publish_def api_defs parseJson_def sample_lib_def)
  from r api_callback_contract [OF r] show ?thesis by auto
qed

section \<open>Guards, memory and requests\<close>

text \<open>A NULL context is dereferenced before anything else by every function that takes
  one, even when the callback is missing; the only exception is \<^verbatim>\<open>waku_destroy\<close> without a
  callback, which answers \<^verbatim>\<open>RET_MISSING_CALLBACK\<close>. No call with a NULL context has an effect.\<close>

theorem api_null_context:
  assumes "api_args k = (Some NilCtx, cb, u)"
  shows "run_api L k c =
    (case k of
       Waku_destroy _ None _ \<Rightarrow>
         Done \<lparr>rc = RET_MISSING_CALLBACK, calls = [], ctx_after = c, effects = [], heap = []\<rparr>
     | _ \<Rightarrow> Fault NilAccess)"
  using assms
  by (cases k) (auto simp: waku_defs enter_def deref_def split: option.splits)

theorem api_null_context_witness:
  "run_api sample_lib (Waku_content_topic NilCtx ''app'' 1 ''name'' ''enc'' (Some ''cb'') None) (Some sample_ctx)
     = Fault NilAccess"
  using api_null_context [of "Waku_content_topic NilCtx ''app'' 1 ''name'' ''enc'' (Some ''cb'') None"
      "Some ''cb''" None sample_lib "Some sample_ctx"]
  by simp

fun checks_callback :: "api_call \<Rightarrow> bool" where
  "checks_callback (Waku_version _ _ _) = True"
| "checks_callback (Waku_content_topic _ _ _ _ _ _ _) = True"
| "checks_callback (Waku_pubsub_topic _ _ _ _) = True"
| "checks_callback (Waku_default_pubsub_topic _ _ _) = True"
| "checks_callback (Waku_relay_publish _ _ _ _ _ _) = True"
| "checks_callback _ = False"

text \<open>With a live context and a NULL callback, the five functions that check it answer
  \<^verbatim>\<open>RET_MISSING_CALLBACK\<close> and do nothing but record the user data; the functions that do
  not check it (\<^verbatim>\<open>waku_relay_subscribe\<close> here) jump through the NULL pointer as soon as the
  worker answers with an error.\<close>

theorem api_missing_callback:
  assumes "api_args k = (Some LiveCtx, None, u)" and "checks_callback k"
    and "send L (relay_request L SUBSCRIBE t) = (Inl e, eff)"
  shows "run_api L k (Some x) = Done \<lparr>rc = RET_MISSING_CALLBACK, calls = [],
      ctx_after = Some (x\<lparr>userData := u\<rparr>), effects = [], heap = []\<rparr>
    \<and> (\<exists>f \<in> {NilAccess, IndexDefect}.
         run_api L (Waku_relay_subscribe LiveCtx t None u) (Some x) = Fault f)"
proof
  show "run_api L k (Some x) = Done \<lparr>rc = RET_MISSING_CALLBACK, calls = [],
      ctx_after = Some (x\<lparr>userData := u\<rparr>), effects = [], heap = []\<rparr>"
    using assms(1,2) by (cases k) (auto simp: waku_defs api_defs)
  show "\<exists>f \<in> {NilAccess, IndexDefect}.
      run_api L (Waku_relay_subscribe LiveCtx t None u) (Some x) = Fault f"
    using assms(3) by (simp add: waku_relay_subscribe_def api_defs Let_def)
qed

theorem api_missing_callback_witness:
  "\<exists>f \<in> {NilAccess, IndexDefect}.
     run_api (sample_lib\<lparr>node := sample_node\<lparr>relayMounted := False\<rparr>\<rparr>)
       (Waku_relay_subscribe LiveCtx ''t'' None None) (Some sample_ctx) = Fault f"
proof -
  let ?L = "sample_lib\<lparr>node := sample_node\<lparr>relayMounted := False\<rparr>\<rparr>"
  obtain e eff where "send ?L (relay_request ?L SUBSCRIBE ''t'') = (Inl e, eff)"
    by (simp add: send_def sendRequestToWakuThread_def worker_round_def sample_lib_def relay_request_def process_relay_def
        response_process_def response_createShared_def)
  from api_missing_callback [OF _ _ this, of "Waku_version LiveCtx None None" None sample_ctx]
  show ?thesis by simp
qed

lemma balanced:
  "allocs [] x = frees [] x"
  "allocs [Alloc a, Free a] x = frees [Alloc a, Free a] x"
  "allocs [Alloc a, Free a, Alloc b, Free b] x = frees [Alloc a, Free a, Alloc b, Free b] x"
  "allocs [Alloc a, Alloc b, Alloc d, Free a, Free b, Free d] x
     = frees [Alloc a, Alloc b, Alloc d, Free a, Free b, Free d] x"
  by (simp_all add: allocs_def frees_def)

definition heap_ok :: "heap_op list \<Rightarrow> bool" where
  "heap_ok h \<longleftrightarrow> (\<forall>x. allocs h x = frees h x)"

lemma heap_okI:
  "call_api cb q m u q' x eff h = Done r \<Longrightarrow> heap_ok h \<Longrightarrow> heap_ok (heap r)"
  "done_api q x eff h = Done r \<Longrightarrow> heap_ok h \<Longrightarrow> heap_ok (heap r)"
  by (auto simp: call_api_def done_api_def)

fun malformed_publish :: "lib \<Rightarrow> api_call \<Rightarrow> bool" where
  "malformed_publish L (Waku_relay_publish a t m ms cb u) \<longleftrightarrow>
     cb \<noteq> None \<and> (\<exists>e. parseJson L (cstr m) = Inl e)"
| "malformed_publish L _ \<longleftrightarrow> False"

lemma api_heap_ok:
  assumes "run_api L k c = Done r" and "\<not> malformed_publish L k"
  shows "heap_ok (heap r)"
  using assms
  by (cases k)
    (auto simp: waku_defs Let_def
      simp del: bind_exec_Done_iff append.simps split: if_splits sum.splits prod.splits
      elim!: enterE bind_execE dest!: heap_okI simp: heap_ok_def balanced)

text \<open>C30: the temporaries an exported function copies into shared memory are each freed
  exactly once, on every path that returns, except one: \<^verbatim>\<open>waku_relay_publish\<close> of a text that
  is not JSON frees \<^verbatim>\<open>jwm\<close> in its \<^verbatim>\<open>except\<close> branch and again in \<^verbatim>\<open>finally\<close>.\<close>

theorem api_double_free_iff:
  assumes "run_api L k c = Done r"
  shows "((\<exists>x. double_free (heap r) x) \<longleftrightarrow> malformed_publish L k) \<and> (\<forall>x. leaked (heap r) x = 0)"
proof (cases "malformed_publish L k")
  case False
  then have "heap_ok (heap r)" using api_heap_ok assms by blast
  with False show ?thesis by (auto simp: heap_ok_def double_free_def leaked_def)
next
  case True
  then obtain a t m ms f u e where k: "k = Waku_relay_publish a t m ms (Some f) u"
    "parseJson L (cstr m) = Inl e"
    by (cases "(L, k)" rule: malformed_publish.cases) auto
  have "heap r = [Alloc ''jwm'', Free ''jwm'', Free ''jwm'']"
    using assms k by (auto simp: waku_relay_publish_def call_api_def elim!: enterE)
  then have "double_free (heap r) ''jwm''" "\<forall>x. leaked (heap r) x = 0"
    by (simp_all add: double_free_def leaked_def allocs_def frees_def)
  with True show ?thesis by blast
qed

theorem api_double_free_iff_witness:
  "\<exists>r x. run_api sample_lib (Waku_relay_publish LiveCtx ''t'' [] 10 (Some ''cb'') None) (Some sample_ctx) = Done r
     \<and> double_free (heap r) x"
proof -
  let ?k = "Waku_relay_publish LiveCtx ''t'' [] 10 (Some ''cb'') None"
  obtain r where r: "run_api sample_lib ?k (Some sample_ctx) = Done r"
    by (simp add: waku_relay_publish_def api_defs parseJson_def sample_lib_def)
  have "malformed_publish sample_lib ?k" by (simp add: parseJson_def)
  with r api_double_free_iff [OF r] show ?thesis by blast
qed

text \<open>What the worker publishes: the strings of a request are C strings, the \<^verbatim>\<open>proof\<close> is not copied.\<close>

definition sent_message :: "WakuMessage \<Rightarrow> WakuMessage" where
  "sent_message w = w\<lparr>contentTopic := cstr (contentTopic w), msg_proof := []\<rparr>"

text \<open>How \<^verbatim>\<open>to0xHex\<close> prints.\<close>

definition is_0xHex :: "string \<Rightarrow> bool" where
  "is_0xHex s \<longleftrightarrow> take 2 s = ''0x'' \<and> list_all (\<lambda>c. c \<in> set ''0123456789abcdef'') (drop 2 s)"

lemma is_0xHex_text:
  assumes "is_0xHex s"
  shows "s \<noteq> [] \<and> CHR 0x00 \<notin> set s"
proof -
  obtain d where s: "s = take 2 s @ d" "d = drop 2 s" using append_take_drop_id [of 2 s] by metis
  have "CHR 0x00 \<notin> set ''0123456789abcdef''" by simp
  then have "CHR 0x00 \<notin> set d" using assms unfolding is_0xHex_def list_all_iff s(2) by blast
  moreover have "take 2 s = ''0x''" using assms by (simp only: is_0xHex_def)
  then have "CHR 0x00 \<notin> set (take 2 s)" "take 2 s \<noteq> []" by simp_all
  ultimately show ?thesis using s(1) by (metis Un_iff set_append append_is_Nil_conv)
qed

lemma send_publish:
  assumes "healthy (chan L)" and "relayMounted (node L)"
  shows "send L (RELAY (fst (relay_createShared (junk L) PUBLISH (cstr pst) w))) =
    (let m = sent_message w; n = relayPublish (node L) (cstr pst) m
     in (if n = 0 then Inl ''Message not sent because no peers found.''
         else if n > 0 then Inr (cstr (msgHashHex (node L) (cstr pst) m)) else Inr [],
         [RelayPublished (cstr pst) m]))"
proof -
  have "cstr (cstr s) = cstr s" for s by (simp add: cstr_def)
  moreover have "cstr ''Message not sent because no peers found.'' = ''Message not sent because no peers found.''" by simp
  ultimately show ?thesis
    using assms ts_toWakuMessage_createShared [of "junk L" PUBLISH "cstr pst" w]
    by (simp add: send_def send_healthy process_relay_def Let_def sent_message_def)
      (simp add: relay_createShared_def cstr_alloc Let_def)
qed

lemma relay_publish_runs:
  assumes "healthy (chan L)" and "relayMounted (node L)"
    and "parseJson L (cstr txt) = Inr j" and "fromJsonNode j = Done jm" and "toWakuMessage (b64dec L) jm = Inr w"
    and "0 \<le> relayPublish (node L) (cstr pst) (sent_message w)"
    and "hash = msgHashHex (node L) (cstr pst) (sent_message w)" and "is_0xHex hash"
  shows "\<exists>r. run_api L (Waku_relay_publish LiveCtx pst txt ms (Some f) u) (Some x) = Done r
    \<and> effects r = [RelayPublished (cstr pst) (sent_message w)]
    \<and> (if relayPublish (node L) (cstr pst) (sent_message w) = 0
       then rc r = RET_ERR \<and> map cb_msg (calls r) = [''Message not sent because no peers found.'']
       else rc r = RET_OK \<and> map cb_msg (calls r) = [hash])"
proof -
  have "hash \<noteq> []" "cstr hash = hash" using is_0xHex_text [OF assms(8)] by simp_all
  then show ?thesis
    using assms send_publish [OF assms(1,2)]
    by (simp add: waku_relay_publish_def api_defs Let_def)
qed

text \<open>C3: publishing end to end. A caller with a callback gives a topic and a text, both read up to their first NUL, as C strings are.
  With a working channel, a mounted relay that answers how many peers got a message (not fewer than none)
  and hashes printed as \<^verbatim>\<open>to0xHex\<close> prints them: if the text parses to a message \<open>w\<close>, the worker publishes, on exactly
  the topic the caller named (an empty topic stays empty), \<open>w\<close> without its \<^verbatim>\<open>proof\<close> and with its content
  topic cut at a NUL, which JSON can write and the copy for the worker cannot keep; nothing else of \<open>w\<close>
  changes. If at least one peer got it the caller is called back with the hash and \<^verbatim>\<open>RET_OK\<close>, if none
  did with the ``no peers'' error.\<close>

theorem relay_publish_end_to_end:
  assumes "healthy (chan L)" and "relayMounted (node L)"
    and "parseJson L (cstr txt) = Inr j" and "fromJsonNode j = Done jm" and "toWakuMessage (b64dec L) jm = Inr w"
    and "m = w\<lparr>contentTopic := cstr (contentTopic w), msg_proof := []\<rparr>" and "0 \<le> relayPublish (node L) (cstr pst) m"
    and "hash = msgHashHex (node L) (cstr pst) m" and "is_0xHex hash"
  shows "\<exists>r. run_api L (Waku_relay_publish LiveCtx pst txt ms (Some f) u) (Some x) = Done r
    \<and> effects r = [RelayPublished (cstr pst) m]
    \<and> (if relayPublish (node L) (cstr pst) m = 0
       then rc r = RET_ERR \<and> map cb_msg (calls r) = [''Message not sent because no peers found.'']
       else rc r = RET_OK \<and> map cb_msg (calls r) = [hash])"
proof -
  have m: "m = sent_message w" by (simp add: assms(6) sent_message_def)
  show ?thesis unfolding m by (rule relay_publish_runs [OF assms(1-5)]) (use assms(7-9) m in simp_all)
qed

theorem relay_publish_end_to_end_witness:
  "\<exists>r. run_api sample_lib (Waku_relay_publish LiveCtx ''t'' (to_ugly sample_json) 10 (Some ''cb'') None) (Some sample_ctx) = Done r
     \<and> rc r = RET_OK \<and> map cb_msg (calls r) = [''0xab'']"
proof -
  let ?w = "\<lparr>payload = [1, 2], contentTopic = ''/a/1/b/c'', meta = [], version = 0, timestamp = 0,
    ephemeral = False, msg_proof = []\<rparr>"
  let ?jm = "\<lparr>jm_payload = ''AQI='', jm_contentTopic = ''/a/1/b/c'', jm_version = 0, jm_timestamp = 0,
    jm_ephemeral = False, jm_meta = [], jm_proof = []\<rparr>"
  have j: "fromJsonNode sample_json = Done ?jm" "toWakuMessage (b64dec sample_lib) ?jm = Inr ?w"
    by (simp_all add: fromJsonNode_def json_at_def json_get_def toWakuMessage_def sample_lib_def sample_json_def)
  have n: "healthy (chan sample_lib)" "relayMounted (node sample_lib)"
    "0 \<le> relayPublish (node sample_lib) (cstr ''t'') ?w" "?w = ?w\<lparr>contentTopic := cstr (contentTopic ?w), msg_proof := []\<rparr>"
    "''0xab'' = msgHashHex (node sample_lib) (cstr ''t'') ?w" "is_0xHex ''0xab''"
    "relayPublish (node sample_lib) (cstr ''t'') ?w \<noteq> 0"
    by (simp_all add: sample_lib_def sample_node_def healthy_def is_0xHex_def)
  have "CHR 0x00 \<notin> set (to_ugly sample_json)"
    by (simp add: sample_json_def escapeJson_def escape_char_def)
  then have p: "parseJson sample_lib (cstr (to_ugly sample_json)) = Inr sample_json"
    by (simp add: parse_sample_json)
  show ?thesis
    using relay_publish_end_to_end [OF n(1,2) p j n(4,3,5,6), of 10 "''cb''" None sample_ctx] n(7)
    by auto
qed

text \<open>The effects a call can have, with the requests it makes.\<close>

fun api_requests :: "lib \<Rightarrow> api_call \<Rightarrow> request list" where
  "api_requests L (Waku_new cfg cb u) = [LIFECYCLE CREATE_NODE (alloc_str (cstr cfg))]"
| "api_requests L (Waku_start a cb u) = [LIFECYCLE START_NODE (alloc_str [])]"
| "api_requests L (Waku_stop a cb u) = [LIFECYCLE STOP_NODE (alloc_str [])]"
| "api_requests L (Waku_relay_publish a t m ms cb u) =
     (case parseJson L (cstr m) of Inl e \<Rightarrow> []
      | Inr j \<Rightarrow> (case fromJsonNode j of Fault e \<Rightarrow> []
          | Done jm \<Rightarrow> (case toWakuMessage (b64dec L) jm of Inl e \<Rightarrow> []
              | Inr w \<Rightarrow> [RELAY (fst (relay_createShared (junk L) PUBLISH (cstr t) w))])))"
| "api_requests L (Waku_relay_subscribe a t cb u) = [relay_request L SUBSCRIBE t]"
| "api_requests L (Waku_relay_unsubscribe a t cb u) = [relay_request L SUBSCRIBE t]"
| "api_requests L (Waku_connect a p ms cb u) = [PEER_MANAGER CONNECT_TO (alloc_str (cstr p)) ms]"
| "api_requests L (Waku_listen_addresses a cb u) = [DEBUG RETRIEVE_LISTENING_ADDRESSES]"
| "api_requests L _ = []"

lemma effects_api [simp]:
  "call_api cb q m u q' x eff h = Done r \<Longrightarrow> effects r = eff"
  "done_api q x eff h = Done r \<Longrightarrow> effects r = eff"
  by (auto simp: call_api_def done_api_def)

lemma api_effects:
  assumes "run_api L k c = Done r" and "e \<in> set (effects r)"
  shows "\<exists>req \<in> set (api_requests L k). e \<in> set (snd (send L req))"
  using assms
  by (cases k)
    (auto simp: waku_defs Let_def
      simp del: bind_exec_Done_iff append.simps split: if_splits sum.splits prod.splits
      elim!: enterE bind_execE)

lemma send_effects: "e \<in> set (snd (send L req)) \<Longrightarrow> e \<in> set (snd (process_request (node L) req))"
  by (auto simp: send_def sendRequestToWakuThread_def worker_round_def split: if_splits sum.splits bool.splits prod.splits)

text \<open>Nothing a client can call ever unsubscribes: no function of the interface has the
  effect of unsubscribing, and \<^verbatim>\<open>waku_relay_unsubscribe\<close> behaves in every respect like
  \<^verbatim>\<open>waku_relay_subscribe\<close>, so that on a working node it subscribes the topic once more.\<close>

theorem relay_unsubscribe_subscribes:
  assumes "run_api L k c = Done r"
  shows "waku_relay_unsubscribe L = waku_relay_subscribe L \<and> RelayUnsubscribedAll t \<notin> set (effects r)"
proof
  show "waku_relay_unsubscribe L = waku_relay_subscribe L"
    by (intro ext) (simp add: waku_relay_unsubscribe_def waku_relay_subscribe_def)
  show "RelayUnsubscribedAll t \<notin> set (effects r)"
  proof
    assume "RelayUnsubscribedAll t \<in> set (effects r)"
    then obtain req where "req \<in> set (api_requests L k)"
      "RelayUnsubscribedAll t \<in> set (snd (process_request (node L) req))"
      using api_effects [OF assms] send_effects by blast
    then show False
      by (cases k)
        (auto simp: process_connect_def process_relay_def relay_createShared_def relay_request_def Let_def
          split: sum.splits if_splits exec.splits)
  qed
qed

theorem relay_unsubscribe_subscribes_witness:
  "\<exists>r. run_api sample_lib (Waku_relay_unsubscribe LiveCtx ''t'' None None) (Some sample_ctx) = Done r
     \<and> effects r = [RelaySubscribed ''t''] \<and> RelayUnsubscribedAll ''t'' \<notin> set (effects r)"
proof -
  let ?k = "Waku_relay_unsubscribe LiveCtx ''t'' None None"
  have "healthy (chan sample_lib)" by (simp add: sample_lib_def healthy_def)
  then obtain v where "send sample_lib (relay_request sample_lib SUBSCRIBE ''t'') = (Inr v, [RelaySubscribed ''t''])"
    by (simp add: send_def send_healthy process_relay_def relay_request_def relay_createShared_def
        sample_lib_def sample_node_def cstr_alloc)
  then obtain r where "run_api sample_lib ?k (Some sample_ctx) = Done r" "effects r = [RelaySubscribed ''t'']"
    by (auto simp: waku_relay_unsubscribe_def api_defs Let_def)
  with relay_unsubscribe_subscribes [of sample_lib ?k "Some sample_ctx" r "''t''"] show ?thesis by auto
qed

text \<open>Events reach the client only through a non-NULL user data pointer. After
  \<^verbatim>\<open>waku_set_event_callback\<close> with NULL user data (as both clients of the repository call it) no
  relayed message is ever delivered to the callback; with any other pointer each message is
  delivered exactly once, to that callback and with that pointer.\<close>

theorem event_delivery:
  assumes "run_api L (Waku_set_event_callback LiveCtx (Some f) u) (Some x) = Done r"
    and "ctx_after r = Some y" and "render t m = Inr event" and "event \<noteq> []"
  shows "relayEventCallback render y t m = Done
    (case u of None \<Rightarrow> [] | Some p \<Rightarrow>
       [\<lparr>cb_fun = f, callerRet = RET_OK, cb_msg = event, cb_len = length event, cb_userData = Some p\<rparr>])"
  using assms
  by (auto simp: waku_set_event_callback_def relayEventCallback_def api_defs split: option.splits)

theorem event_delivery_witness:
  "\<exists>y. ctx_after (case run_api sample_lib (Waku_set_event_callback LiveCtx (Some ''cb'') None) (Some sample_ctx) of
       Done r \<Rightarrow> r) = Some y
     \<and> relayEventCallback (\<lambda>_ _. Inr ''{}'') y ''t'' empty_message = Done []"
proof -
  let ?k = "Waku_set_event_callback LiveCtx (Some ''cb'') None"
  obtain r y where r: "run_api sample_lib ?k (Some sample_ctx) = Done r" "ctx_after r = Some y"
    by (simp add: waku_set_event_callback_def api_defs)
  from event_delivery [OF r, of "\<lambda>_ _. Inr ''{}''" "''t''" empty_message "''{}''"] r show ?thesis by simp
qed

end
