(* ===== verification/CStd.thy ===== *)
theory CStd
  imports Base64C Libwaku
begin

text \<open>
  What the two C clients of the library use of the C library: character arrays read by
  \<^verbatim>\<open>%s\<close>, \<^verbatim>\<open>snprintf\<close>, \<^verbatim>\<open>atoi\<close>, \<^verbatim>\<open>malloc\<close> of a message with \<^verbatim>\<open>strcpy\<close>, the input side of
  stdio, and a call of the library with its callbacks run on the state of the client.
\<close>

section \<open>Character arrays\<close>

text \<open>An array as a string; an array without a NUL is read past its end.\<close>

definition buf_str :: "string \<Rightarrow> string exec" where
  "buf_str b = (if CHR 0x00 \<in> set b then Done (cstr b) else Fault OutOfBounds)"

text \<open>\<^verbatim>\<open>snprintf(buf, n, ...)\<close> of a text \<open>s\<close> into an array with the contents \<open>b\<close>.\<close>

definition snprintf_text :: "nat \<Rightarrow> string \<Rightarrow> string" where
  "snprintf_text n s = take (n - 1) s"

definition snprintf_into :: "nat \<Rightarrow> string \<Rightarrow> string \<Rightarrow> string" where
  "snprintf_into n s b = (let w = snprintf_text n s @ [CHR 0x00] in w @ drop (length w) b)"

lemma cstr_append_NUL: "CHR 0x00 \<notin> set s \<Longrightarrow> cstr (s @ CHR 0x00 # r) = s"
  by (induction s) (auto simp: cstr_def)

lemma cstr_NUL_free [simp]: "CHR 0x00 \<notin> set (cstr s)"
  by (auto simp: cstr_def dest: set_takeWhileD)

lemma length_cstr_le: "length (cstr s) \<le> length s"
  by (simp add: cstr_def length_takeWhile_le)

lemma length_cstr_less: "CHR 0x00 \<in> set s \<Longrightarrow> length (cstr s) < length s"
proof (induction s)
  case (Cons c s)
  then show ?case by (cases "c = CHR 0x00") (auto simp: cstr_def)
qed simp

lemma set_cstr: "set (cstr s) \<subseteq> set s"
  by (auto simp: cstr_def dest: set_takeWhileD)

lemma buf_strD: "buf_str b = Done s \<Longrightarrow> length s < length b \<and> CHR 0x00 \<notin> set s"
  by (auto simp: buf_str_def length_cstr_less split: if_splits)

lemma buf_str_snprintf:
  "CHR 0x00 \<notin> set s \<Longrightarrow> buf_str (snprintf_into n s b) = Done (snprintf_text n s)"
  using cstr_append_NUL [of "take (n - 1) s"] in_set_takeD [of "CHR 0x00" "n - 1" s]
  by (auto simp: buf_str_def snprintf_into_def snprintf_text_def)

lemma length_snprintf_into: "0 < n \<Longrightarrow> n \<le> length b \<Longrightarrow> length (snprintf_into n s b) = length b"
  by (simp add: snprintf_into_def snprintf_text_def Let_def)

lemma NUL_snprintf_into [simp]: "CHR 0x00 \<in> set (snprintf_into n s b)"
  by (simp add: snprintf_into_def Let_def)

lemma snprintf_fits: "length s < n \<Longrightarrow> snprintf_text n s = s"
  by (simp add: snprintf_text_def)

text \<open>\<^verbatim>\<open>malloc(len + 1)\<close> followed by \<^verbatim>\<open>strcpy\<close>: the copy overruns when the text is longer than \<open>len\<close>.\<close>

definition malloc_strcpy :: "nat \<Rightarrow> string \<Rightarrow> string exec" where
  "malloc_strcpy len msg = (if length (cstr msg) \<le> len then Done (cstr msg) else Fault OutOfBounds)"

text \<open>glibc's \<^verbatim>\<open>atoi\<close> on an array: \<^verbatim>\<open>strtol\<close> saturates at 64 bits, the result is cut to an \<^verbatim>\<open>int\<close>.\<close>

definition int_of_32 :: "int \<Rightarrow> int" where
  "int_of_32 i = sint (word_of_int i :: u32)"

definition atoi :: "string \<Rightarrow> int exec" where
  "atoi b =
     (let r = dropWhile is_space b;
          neg = (r \<noteq> [] \<and> hd r = CHR ''-'');
          r = (if r \<noteq> [] \<and> hd r \<in> {CHR ''-'', CHR ''+''} then tl r else r);
          n = int (dec_val (takeWhile is_digit r));
          v = (if neg then max (- (2 ^ 63)) (- n) else min (2 ^ 63 - 1) n)
      in if dropWhile is_digit r = [] then Fault OutOfBounds else Done (int_of_32 v))"

lemma int_of_32_bounds: "- (2 ^ 31) \<le> int_of_32 i" "int_of_32 i < 2 ^ 31"
  using sint_greater_eq [of "word_of_int i :: u32"] sint_less [of "word_of_int i :: u32"]
  by (simp_all add: int_of_32_def)

lemma length_show_int_32: "- (2 ^ 31) \<le> i \<Longrightarrow> i < 2 ^ 31 \<Longrightarrow> length (show_int i) \<le> 11"
  using length_show_nat_le [of "nat i" 10] length_show_nat_le [of "nat (- i)" 10] nat_less_iff [of i]
  by (cases "i < 0") (auto simp: show_int_def intro: le_SucI)

lemma atoi_bounds: "atoi b = Done n \<Longrightarrow> - (2 ^ 31) \<le> n \<and> n < 2 ^ 31"
  using int_of_32_bounds by (auto simp: atoi_def Let_def split: if_splits)

section \<open>Options and texts\<close>

definition ARGP_ERR_UNKNOWN :: int where "ARGP_ERR_UNKNOWN = 7"
definition ARGP_KEY_ARG :: int where "ARGP_KEY_ARG = 0"
definition ARGP_KEY_END :: int where "ARGP_KEY_END = 0x1000001"

text \<open>An entry of an option table: the long name, the key, the name of its argument, the text of the help.\<close>

record argp_option =
  opt_name :: string
  opt_key :: char
  opt_arg :: string
  opt_doc :: string

definition peers_doc :: string where
  "peers_doc = ''Comma-separated list of peer-multiaddress to connect  to. (default: '' @ [CHR 0x22, CHR 0x22] @
     '') e.g. '' @ [CHR 0x22] @
     ''/ip4/127.0.0.1/tcp/60001/p2p/16Uiu2HAmVFXtAfSj4EiR7mL2KvL4EE2wztuQgUSBoj2Jx2KeXFLN'' @ [CHR 0x22]"

text \<open>\<^verbatim>\<open>argp_usage\<close> exits with \<^verbatim>\<open>EX_USAGE\<close>, 64. The argument strings end with a NUL.\<close>

definition bool_text :: "int \<Rightarrow> string" where
  "bool_text i = (if i \<noteq> 0 then ''true'' else ''false'')"

text \<open>Both clients leave with code 1; what a process prints before it exits is not kept.\<close>

definition show_help_and_exit :: "'a exec" where
  "show_help_and_exit = Fault (ExitCode 1)"

lemma show_help_not_Done [simp]: "show_help_and_exit \<noteq> Done x" "Done x \<noteq> show_help_and_exit"
  by (simp_all add: show_help_and_exit_def)

text \<open>A printed line, and the menu, which both clients print by four calls of \<^verbatim>\<open>printf\<close>.\<close>

definition line :: "string \<Rightarrow> string" where
  "line s = s @ [CHR 0x0A]"

definition menu_lines :: "string list" where
  "menu_lines =
     [CHR 0x0A # line ''Please, select an option:'', CHR 0x09 # line ''1.) Subscribe to topic'',
      CHR 0x09 # line ''2.) Connect to other node'', CHR 0x09 # line ''3.) Publish a message'']"

definition example_multiaddr :: string where
  "example_multiaddr =
     ''e.g.: /ip4/127.0.0.1/tcp/60001/p2p/16Uiu2HAmVFXtAfSj4EiR7mL2KvL4EE2wztuQgUSBoj2Jx2KeXFLN''"

definition spaces :: "nat \<Rightarrow> string" where
  "spaces n = replicate n (CHR '' '')"

section \<open>Input\<close>

text \<open>
  Standard input as the chunks the kernel delivers, one per \<^verbatim>\<open>read\<close> (an empty chunk, or none
  left, is the end of file), and the buffer of stdio, which \<^verbatim>\<open>read\<close> bypasses.
\<close>

definition kread :: "nat \<Rightarrow> string list \<Rightarrow> string \<times> string list" where
  "kread n ks = (case ks of [] \<Rightarrow> ([], [])
     | c # cs \<Rightarrow> (take n c, if length c \<le> n then cs else drop n c # cs))"

definition BUFSIZ :: nat where "BUFSIZ = 4096"

definition getchar :: "string \<Rightarrow> string list \<Rightarrow> (char \<times> string \<times> string list) option" where
  "getchar b ks = (case b of c # b' \<Rightarrow> Some (c, b', ks)
     | [] \<Rightarrow> (case kread BUFSIZ ks of ([], ks') \<Rightarrow> None | (c # b', ks') \<Rightarrow> Some (c, b', ks')))"

definition unread :: "string \<Rightarrow> string list \<Rightarrow> nat" where
  "unread b ks = length b + sum_list (map length ks)"

lemma kread_unread: "kread n ks = (d, ks') \<Longrightarrow> unread d ks' = unread [] ks"
  by (auto simp: kread_def unread_def split: list.splits if_splits)

lemma getchar_less: "getchar b ks = Some (c, b', ks') \<Longrightarrow> unread b' ks' < unread b ks"
  using kread_unread [of BUFSIZ ks "c # b'" ks']
  by (auto simp: getchar_def unread_def split: list.splits prod.splits)

text \<open>\<^verbatim>\<open>while ((c = getchar()) != '\n' && c != EOF) {}\<close>\<close>

function skip_line :: "string \<Rightarrow> string list \<Rightarrow> string \<times> string list" where
  "skip_line b ks = (case getchar b ks of None \<Rightarrow> ([], tl ks)
     | Some (c, b', ks') \<Rightarrow> if c = CHR 0x0A then (b', ks') else skip_line b' ks')"
  by pat_completeness auto
termination
  by (relation "measure (\<lambda>(b, ks). unread b ks)") (auto dest: getchar_less)

declare skip_line.simps [simp del]

function skip_spaces :: "string \<Rightarrow> string list \<Rightarrow> string \<times> string list" where
  "skip_spaces b ks = (case getchar b ks of None \<Rightarrow> ([], tl ks)
     | Some (c, b', ks') \<Rightarrow> if is_space c then skip_spaces b' ks' else (c # b', ks'))"
  by pat_completeness auto
termination
  by (relation "measure (\<lambda>(b, ks). unread b ks)") (auto dest: getchar_less)

declare skip_spaces.simps [simp del]

fun read_word :: "nat \<Rightarrow> string \<Rightarrow> string list \<Rightarrow> string \<times> string \<times> string list" where
  "read_word 0 b ks = ([], b, ks)"
| "read_word (Suc n) b ks = (case getchar b ks of None \<Rightarrow> ([], [], tl ks)
     | Some (c, b', ks') \<Rightarrow> if is_space c then ([], c # b', ks')
         else (let (w, r) = read_word n b' ks' in (c # w, r)))"

text \<open>\<^verbatim>\<open>scanf("%Ns", buf)\<close> with the array's contents before: at the end of file it is left as it was.\<close>

definition scanf_word :: "nat \<Rightarrow> string \<Rightarrow> string \<Rightarrow> string list \<Rightarrow> string \<times> string \<times> string list" where
  "scanf_word n old b ks =
     (let (b1, ks1) = skip_spaces b ks; (w, b2, ks2) = read_word n b1 ks1
      in (if w = [] then old else w @ [CHR 0x00], b2, ks2))"

lemma length_read_word: "length (fst (read_word n b ks)) \<le> n"
  by (induction n b ks rule: read_word.induct) (auto split: option.splits prod.splits)

lemma scanf_word_fits:
  "length old \<le> n + 1 \<Longrightarrow> length (fst (scanf_word n old b ks)) \<le> n + 1"
  using length_read_word [of n "fst (skip_spaces b ks)" "snd (skip_spaces b ks)"]
  by (auto simp: scanf_word_def split: prod.splits)

text \<open>
  Nothing is ever put back: \<open>pending\<close>, the characters and chunks still to come, never grows.
\<close>

definition pending :: "string \<Rightarrow> string list \<Rightarrow> nat" where
  "pending b ks = unread b ks + length ks"

lemma pending_Cons [simp]: "pending (c # b) ks = Suc (pending b ks)"
  by (simp add: pending_def unread_def)

lemma pending_tl: "pending [] (tl ks) \<le> pending [] ks"
  by (cases ks) (simp_all add: pending_def unread_def)

lemma kread_pending: "kread n ks = (d, ks') \<Longrightarrow> pending d ks' \<le> pending [] ks"
  using kread_unread [of n ks d ks'] by (auto simp: pending_def kread_def split: list.splits if_splits)

lemma kread_progress:
  "kread n ks = (d, ks') \<Longrightarrow> 0 < n \<Longrightarrow> ks \<noteq> [] \<Longrightarrow> pending b ks' < pending b ks"
  by (cases ks) (auto simp: pending_def unread_def kread_def split: if_splits)

lemma getchar_pending: "getchar b ks = Some (c, b', ks') \<Longrightarrow> pending b' ks' < pending b ks"
  using kread_pending [of BUFSIZ ks "c # b'" ks'] by (auto simp: getchar_def split: list.splits prod.splits)

lemma getchar_None: "getchar b ks = None \<Longrightarrow> b = []"
  by (auto simp: getchar_def split: list.splits)

lemma skip_line_pending: "skip_line b ks = (b', ks') \<Longrightarrow> pending b' ks' \<le> pending b ks"
proof (induction b ks rule: skip_line.induct)
  case (1 b ks)
  then show ?case
    using pending_tl [of ks] skip_line.simps [of b ks]
    by (fastforce dest: getchar_pending getchar_None split: option.splits if_splits prod.splits)
qed

lemma skip_spaces_pending: "skip_spaces b ks = (b', ks') \<Longrightarrow> pending b' ks' \<le> pending b ks"
proof (induction b ks rule: skip_spaces.induct)
  case (1 b ks)
  then show ?case
    using pending_tl [of ks] skip_spaces.simps [of b ks]
    by (fastforce dest: getchar_pending getchar_None split: option.splits if_splits prod.splits)
qed

lemma read_word_pending: "read_word n b ks = (w, b', ks') \<Longrightarrow> pending b' ks' \<le> pending b ks"
proof (induction n b ks arbitrary: w rule: read_word.induct)
  case (2 n b ks)
  then show ?case
    using pending_tl [of ks]
    by (fastforce dest: getchar_pending getchar_None split: option.splits if_splits prod.splits)
qed simp

lemma scanf_word_pending: "scanf_word n old b ks = (w, b', ks') \<Longrightarrow> pending b' ks' \<le> pending b ks"
  by (auto simp: scanf_word_def dest!: skip_spaces_pending read_word_pending intro: order_trans split: prod.splits)

section \<open>A loop that reads the input\<close>

text \<open>The first rounds of \<^verbatim>\<open>while (1) round();\<close>.\<close>

fun rounds :: "('s \<Rightarrow> 's exec) \<Rightarrow> nat \<Rightarrow> 's \<Rightarrow> 's exec" where
  "rounds f 0 s = Done s"
| "rounds f (Suc n) s = bind_exec (f s) (rounds f n)"

text \<open>
  A round that does nothing once the input is over and otherwise consumes some of it: what
  the menus of both clients promise. Such a loop stops with a fault or ends up spinning.
\<close>

locale input_loop =
  fixes round :: "'s \<Rightarrow> 's exec"
    and chunks :: "'s \<Rightarrow> string list"
    and buffer :: "'s \<Rightarrow> string"
  assumes idle: "chunks s = [] \<Longrightarrow> round s = Done s"
    and consumes: "chunks s \<noteq> [] \<Longrightarrow> round s = Done s' \<Longrightarrow>
      pending (buffer s') (chunks s') < pending (buffer s) (chunks s)"
begin

lemma spins: "chunks s = [] \<Longrightarrow> rounds round n s = Done s"
  by (induction n) (simp_all add: idle)

lemma ends_from:
  "\<exists>n \<le> pending (buffer s) (chunks s).
     (\<exists>e. rounds round n s = Fault e) \<or> (\<exists>s'. \<forall>m \<ge> n. rounds round m s = Done s')"
proof (induction "pending (buffer s) (chunks s)" arbitrary: s rule: less_induct)
  case less
  show ?case
  proof (cases "chunks s = []")
    case True
    then have "\<forall>m \<ge> 0. rounds round m s = Done s" using spins by blast
    then show ?thesis by blast
  next
    case False
    show ?thesis
    proof (cases "round s")
      case (Fault e)
      have "pending (buffer s) (chunks s) \<noteq> 0" using False by (simp add: pending_def)
      moreover have "rounds round 1 s = Fault e" using Fault by simp
      ultimately show ?thesis by (metis One_nat_def Suc_leI not_gr0)
    next
      case (Done s1)
      have l: "pending (buffer s1) (chunks s1) < pending (buffer s) (chunks s)"
        by (rule consumes [OF False Done])
      obtain n where n: "n \<le> pending (buffer s1) (chunks s1)"
        "(\<exists>e. rounds round n s1 = Fault e) \<or> (\<exists>s'. \<forall>m \<ge> n. rounds round m s1 = Done s')"
        using less [OF l] by blast
      have step: "rounds round (Suc m) s = rounds round m s1" for m using Done by simp
      have "(\<exists>e. rounds round (Suc n) s = Fault e) \<or> (\<exists>s'. \<forall>m \<ge> Suc n. rounds round m s = Done s')"
      proof (cases "\<exists>e. rounds round n s1 = Fault e")
        case True
        then show ?thesis unfolding step by blast
      next
        case False
        then obtain s' where "\<forall>m \<ge> n. rounds round m s1 = Done s'" using n(2) by blast
        then have "rounds round m s = Done s'" if "Suc n \<le> m" for m
          using that step [of "m - 1"] by (cases m) simp_all
        then show ?thesis by blast
      qed
      moreover have "Suc n \<le> pending (buffer s) (chunks s)" using n(1) l by simp
      ultimately show ?thesis by blast
    qed
  qed
qed

lemma ends:
  "\<exists>n. n \<le> pending (buffer s) (chunks s)
    \<and> ((\<exists>e. rounds round n s = Fault e) \<or> (\<exists>s'. \<forall>m. rounds round (n + m) s = Done s'))"
  using ends_from [of s] le_add1 by blast

end

section \<open>Running callbacks\<close>

fun fold_exec :: "('a \<Rightarrow> 's \<Rightarrow> 's exec) \<Rightarrow> 'a list \<Rightarrow> 's \<Rightarrow> 's exec" where
  "fold_exec f [] s = Done s"
| "fold_exec f (x # xs) s = bind_exec (f x s) (fold_exec f xs)"

lemma fold_exec_invariant:
  assumes "\<And>x s s'. f x s = Done s' \<Longrightarrow> P s \<Longrightarrow> P s'"
  shows "fold_exec f xs s = Done s' \<Longrightarrow> P s \<Longrightarrow> P s'"
  using assms by (induction xs arbitrary: s) auto

text \<open>A base64 call as the clients make it: \<^verbatim>\<open>%s\<close> of its result is \<^verbatim>\<open>(null)\<close> when it is NULL.\<close>

definition printable :: "string option \<Rightarrow> string" where
  "printable p = (case p of None \<Rightarrow> ''(null)'' | Some s \<Rightarrow> cstr s)"

definition encode_payload :: "bool \<Rightarrow> (nat \<Rightarrow> char) \<Rightarrow> string \<Rightarrow> string exec" where
  "encode_payload oom mem msg =
     (case b64_encode oom mem (Some (str_bytes msg)) (of_nat (length msg)) of
        None \<Rightarrow> Fault Hang
      | Some r \<Rightarrow> bind_exec r (\<lambda>p. Done (printable p)))"

text \<open>The text both clients build for a publish.\<close>

definition quoted :: "string \<Rightarrow> string" where
  "quoted s = [CHR 0x22] @ s @ [CHR 0x22]"

definition publish_text :: "string \<Rightarrow> string \<Rightarrow> string" where
  "publish_text msgPayload topic =
     ''{'' @ quoted ''payload'' @ '':'' @ quoted msgPayload @ '','' @ quoted ''content_topic'' @ '':''
       @ quoted topic @ ''}''"

lemma length_publish_text: "length (publish_text p t) = length p + length t + 33"
  by (simp add: publish_text_def quoted_def)

lemma encode_payload_spec:
  assumes "msg \<noteq> []" and "length msg < 2 ^ 32"
  shows "encode_payload False mem msg = Done (b64_spec (str_bytes msg))"
proof -
  have n: "str_bytes msg \<noteq> []" "unat (of_nat (length msg) :: u64) = length (str_bytes msg)"
    "length (str_bytes msg) \<le> 3 * (2 ^ 62 - 1)"
    using assms by (auto simp: str_bytes_def unat_of_nat)
  have "CHR 0x00 \<notin> set (b64_spec (str_bytes msg))"
    using set_b64_spec [of "str_bytes msg"] by (auto simp: b64_alphabet_def)
  then show ?thesis
    using b64_encode_run [OF n, of mem] by (simp add: encode_payload_def printable_def cstr_append_NUL)
qed

lemma length_encode_payload:
  assumes "msg \<noteq> []" and "length msg < 2 ^ 32" and "encode_payload False mem msg = Done p"
  shows "length p = 4 * ((length msg + 2) div 3)"
  using encode_payload_spec [OF assms(1,2), of mem] assms(3) length_b64_spec [of "str_bytes msg"] by simp

text \<open>How the library's parser reads that text, whole and cut off.\<close>

lemma plain_keys: "plain_string ''payload''" "plain_string ''content_topic''"
  by (simp_all add: plain_string_def)

lemma parse_publish_text:
  assumes "plain_string p" and "plain_string t"
  shows "parse_json (publish_text p t) =
    Some (JObject [(''payload'', JString p), (''content_topic'', JString t)])"
proof -
  have "lex (publish_text p t) =
      [TCurlyLe, TStr ''payload'', TColon, TStr p, TComma, TStr ''content_topic'', TColon, TStr t, TCurlyRi]"
    using lex_plain [OF assms(1)] lex_plain [OF assms(2)] lex_plain [OF plain_keys(1)] lex_plain [OF plain_keys(2)]
    by (simp add: publish_text_def quoted_def lex_punct)
  then show ?thesis
    by (simp add: parse_json_def parse_value.simps parse_members.simps DepthLimit_def)
qed

lemma parse_publish_text_cut:
  assumes "CHR ''}'' \<notin> set p" and "CHR ''}'' \<notin> set t" and "n < length (publish_text p t)"
  shows "parse_json (take n (publish_text p t)) = None"
proof -
  define b where "b = tl (publish_text p t)"
  have b: "publish_text p t = CHR ''{'' # b" "CHR ''}'' \<notin> set (butlast b)"
    using assms by (auto simp: b_def publish_text_def quoted_def butlast_append)
  show ?thesis
  proof (cases n)
    case 0
    then show ?thesis by (simp add: parse_json_def parse_value.simps)
  next
    case (Suc k)
    with assms(3) b(1) have "take k b = take k (butlast b)" by (simp add: take_butlast)
    then have "CHR ''}'' \<notin> set (take k b)" using b(2) by (metis in_set_takeD)
    then show ?thesis
      using parse_object_brace [of "take k b"] b(1) Suc by (cases "parse_json (CHR ''{'' # take k b)") auto
  qed
qed

lemma publish_text_calls:
  assumes "CHR 0x00 \<notin> set p" and "CHR 0x00 \<notin> set t"
  shows "cstr (publish_text p t) = publish_text p t"
    and "cstr (take n (publish_text p t)) = take n (publish_text p t)"
proof -
  have "CHR 0x00 \<notin> set (publish_text p t)" using assms by (auto simp: publish_text_def quoted_def)
  then show "cstr (publish_text p t) = publish_text p t"
    "cstr (take n (publish_text p t)) = take n (publish_text p t)"
    by (simp, metis cstr_id in_set_takeD)
qed

text \<open>C31: the text both clients publish is never accepted. For every payload and content topic
  without quotes, backslashes and carriage returns (a base64 payload has none), the library's
  parser reads the object the client wrote, the library finds no \<^verbatim>\<open>contentTopic\<close> in it (the
  clients write \<^verbatim>\<open>content_topic\<close>), and the publish stops with an uncaught \<^verbatim>\<open>KeyError\<close>.\<close>

theorem publish_text_rejected:
  assumes "plain_string p" and "plain_string t" and "CHR 0x00 \<notin> set p" and "CHR 0x00 \<notin> set t"
  shows "run_api L (Waku_relay_publish LiveCtx topic (publish_text p t) ms (Some f) u) (Some x) = Fault KeyError"
  using assms
  by (simp add: waku_relay_publish_def api_defs fromJsonNode_def json_at_def publish_text_calls parseJson_def
      parse_publish_text)

theorem publish_text_rejected_witness:
  "run_api sample_lib (Waku_relay_publish LiveCtx ''t'' (publish_text ''AQI='' ''/a/1/b/c'') 10 (Some ''cb'') None)
     (Some sample_ctx) = Fault KeyError"
  by (rule publish_text_rejected) (simp_all add: plain_string_def)

end
