(* ===== verification/Threads.thy ===== *)
theory Threads
  imports WakuThread
begin

text \<open>
  The two threads of the library, \<^verbatim>\<open>library/waku_thread/waku_thread.nim\<close>, step by step: callers
  in \<^verbatim>\<open>sendRequestToWakuThread\<close> and \<^verbatim>\<open>stopWakuThread\<close>, the worker in \<^verbatim>\<open>run\<close>, the two channels
  of one slot and the two signals between them. One step is one operation on a channel, a
  signal, the flag \<^verbatim>\<open>running\<close> or the node; steps of different threads interleave freely.
  \<open>WakuThread.sendRequestToWakuThread\<close> treats a call as one step: here that is shown for
  one caller, and what happens with more is shown too.
\<close>

section \<open>Threads, channels and signals\<close>

text \<open>A caller by the operation it does next; \<open>Returned\<close> holds what the call returns.\<close>

datatype caller =
    Idle
  | Sending request
  | Firing request
  | Waiting request
  | Receiving request
  | Returned request answer
  | Stopping
  | Joining
  | Destroyed

datatype worker =
    Checking
  | Awaiting
  | Taking
  | Processing request
  | Posting InterThreadResponse
  | Signalling
  | Exited

text \<open>
  The context: \<^verbatim>\<open>reqChannel\<close>, \<^verbatim>\<open>respChannel\<close> (one slot each), the signals (set or not: firing
  twice is firing once), the worker, the callers. \<open>history\<close> holds the finished calls and \<open>performed\<close>
  the effects on the node, both for the statements only.
\<close>

record thread_context =
  reqChannel :: "request option"
  reqSignal :: bool
  respChannel :: "InterThreadResponse option"
  respSignal :: bool
  worker :: worker
  callers :: "nat \<Rightarrow> caller"
  history :: "(request \<times> answer) list"
  performed :: "node_effect list"

text \<open>\<^verbatim>\<open>running\<close> is one flag for all contexts.\<close>

record threads =
  running :: bool
  contexts :: "nat \<Rightarrow> thread_context option"

definition new_context :: thread_context where
  "new_context = \<lparr>reqChannel = None, reqSignal = False, respChannel = None, respSignal = False,
     worker = Checking, callers = (\<lambda>_. Idle), history = [], performed = []\<rparr>"

section \<open>Steps\<close>

text \<open>Events of a context. The argument of \<open>Fire\<close> and \<open>StopFire\<close> is what \<^verbatim>\<open>fireSync\<close> returns.\<close>

datatype event =
    Create
  | Call nat request
  | Send nat
  | Fire nat "string + bool"
  | Wake nat
  | Recv nat
  | Return nat
  | Stop nat
  | StopFire nat "string + bool"
  | Join nat
  | WCheck
  | WWake
  | WTake
  | WProcess
  | WPost
  | WSignal

definition set_caller :: "nat \<Rightarrow> caller \<Rightarrow> thread_context \<Rightarrow> thread_context" where
  "set_caller i p x = x\<lparr>callers := (callers x)(i := p)\<rparr>"

definition couldnt_send :: "request \<Rightarrow> answer" where
  "couldnt_send r = Inl (''Couldn't send a request to the waku thread: '' @ request_type r)"

text \<open>\<^verbatim>\<open>sendRequestToWakuThread\<close>, its operations in order; \<^verbatim>\<open>err\<close> returns at once.\<close>

fun caller_event :: "event \<Rightarrow> thread_context \<Rightarrow> thread_context option" where
  "caller_event (Call i r) x =
     (case callers x i of Idle \<Rightarrow> Some (set_caller i (Sending r) x) | _ \<Rightarrow> None)"
| "caller_event (Send i) x =
     (case callers x i of
        Sending r \<Rightarrow>
          (case reqChannel x of
             None \<Rightarrow> Some (set_caller i (Firing r) (x\<lparr>reqChannel := Some r\<rparr>))
           | Some _ \<Rightarrow> Some (set_caller i (Returned r (couldnt_send r)) x))
      | _ \<Rightarrow> None)"
| "caller_event (Fire i res) x =
     (case callers x i of
        Firing r \<Rightarrow>
          Some (case res of
             Inl e \<Rightarrow> set_caller i (Returned r (Inl (''failed fireSync: '' @ e))) x
           | Inr False \<Rightarrow> set_caller i (Returned r (Inl ''Couldn't fireSync in time'')) x
           | Inr True \<Rightarrow> set_caller i (Waiting r) (x\<lparr>reqSignal := True\<rparr>))
      | _ \<Rightarrow> None)"
| "caller_event (Wake i) x =
     (case callers x i of
        Waiting r \<Rightarrow> if respSignal x then Some (set_caller i (Receiving r) (x\<lparr>respSignal := False\<rparr>)) else None
      | _ \<Rightarrow> None)"
| "caller_event (Recv i) x =
     (case callers x i of
        Receiving r \<Rightarrow>
          Some (case respChannel x of
             Some resp \<Rightarrow> set_caller i (Returned r (response_process resp)) (x\<lparr>respChannel := None\<rparr>)
           | None \<Rightarrow> set_caller i (Returned r
               (Inl (''Couldn't receive response from the waku thread: '' @ request_type r))) x)
      | _ \<Rightarrow> None)"
| "caller_event (Return i) x =
     (case callers x i of
        Returned r a \<Rightarrow> Some (set_caller i Idle (x\<lparr>history := history x @ [(r, a)]\<rparr>))
      | _ \<Rightarrow> None)"
| "caller_event _ x = None"

text \<open>\<^verbatim>\<open>stopWakuThread\<close>. When \<^verbatim>\<open>fireSync\<close> fails it returns, and the context stays.\<close>

fun stop_event :: "event \<Rightarrow> bool \<times> thread_context \<Rightarrow> (bool \<times> thread_context) option" where
  "stop_event (Stop i) (run, x) =
     (case callers x i of Idle \<Rightarrow> Some (False, set_caller i Stopping x) | _ \<Rightarrow> None)"
| "stop_event (StopFire i res) (run, x) =
     (case callers x i of
        Stopping \<Rightarrow>
          Some (run, case res of
             Inl e \<Rightarrow> set_caller i Idle x
           | Inr b \<Rightarrow> set_caller i Joining (if b then x\<lparr>reqSignal := True\<rparr> else x))
      | _ \<Rightarrow> None)"
| "stop_event (Join i) (run, x) =
     (case callers x i of
        Joining \<Rightarrow> if worker x = Exited then Some (run, set_caller i Destroyed x) else None
      | _ \<Rightarrow> None)"
| "stop_event _ _ = None"

text \<open>\<^verbatim>\<open>run\<close>. A response that finds its slot taken is dropped (\<^verbatim>\<open>discard\<close>).\<close>

fun worker_event :: "node_ops \<Rightarrow> bool \<Rightarrow> event \<Rightarrow> thread_context \<Rightarrow> thread_context option" where
  "worker_event N run WCheck x =
     (if worker x = Checking then Some (x\<lparr>worker := (if run then Awaiting else Exited)\<rparr>) else None)"
| "worker_event N run WWake x =
     (if worker x = Awaiting \<and> reqSignal x then Some (x\<lparr>worker := Taking, reqSignal := False\<rparr>) else None)"
| "worker_event N run WTake x =
     (if worker x = Taking
      then Some (case reqChannel x of
          None \<Rightarrow> x\<lparr>worker := Checking\<rparr>
        | Some r \<Rightarrow> x\<lparr>worker := Processing r, reqChannel := None\<rparr>)
      else None)"
| "worker_event N run WProcess x =
     (case worker x of
        Processing r \<Rightarrow>
          (let (resp, eff) = worker_round N r
           in Some (x\<lparr>worker := Posting resp, performed := performed x @ eff\<rparr>))
      | _ \<Rightarrow> None)"
| "worker_event N run WPost x =
     (case worker x of
        Posting resp \<Rightarrow>
          Some (x\<lparr>worker := Signalling, respChannel :=
            (case respChannel x of None \<Rightarrow> Some resp | Some old \<Rightarrow> Some old)\<rparr>)
      | _ \<Rightarrow> None)"
| "worker_event N run WSignal x =
     (if worker x = Signalling then Some (x\<lparr>worker := Checking, respSignal := True\<rparr>) else None)"
| "worker_event N run _ x = None"

definition context_event :: "node_ops \<Rightarrow> event \<Rightarrow> bool \<times> thread_context \<Rightarrow> (bool \<times> thread_context) option" where
  "context_event N e rx =
     (case caller_event e (snd rx) of
        Some x' \<Rightarrow> Some (fst rx, x')
      | None \<Rightarrow> (case worker_event N (fst rx) e (snd rx) of
            Some x' \<Rightarrow> Some (fst rx, x')
          | None \<Rightarrow> stop_event e rx))"

text \<open>A context is created once; \<^verbatim>\<open>createWakuThread\<close> sets \<^verbatim>\<open>running\<close>.\<close>

definition threads_event :: "node_ops \<Rightarrow> nat \<times> event \<Rightarrow> threads \<Rightarrow> threads option" where
  "threads_event N ce s =
     (case ce of (c, e) \<Rightarrow>
       (case contexts s c of
          None \<Rightarrow> (if e = Create then Some (s\<lparr>running := True, contexts := (contexts s)(c \<mapsto> new_context)\<rparr>) else None)
        | Some x \<Rightarrow>
            (case context_event N e (running s, x) of
               None \<Rightarrow> None
             | Some (run, x') \<Rightarrow> Some (s\<lparr>running := run, contexts := (contexts s)(c \<mapsto> x')\<rparr>))))"

fun run_threads :: "node_ops \<Rightarrow> (nat \<times> event) list \<Rightarrow> threads \<Rightarrow> threads option" where
  "run_threads N [] s = Some s"
| "run_threads N (e # es) s = Option.bind (threads_event N e s) (run_threads N es)"

lemma run_threads_append:
  "run_threads N (es @ fs) s = Option.bind (run_threads N es s) (run_threads N fs)"
proof (induction es arbitrary: s)
  case (Cons e es)
  then show ?case by (cases "threads_event N e s") simp_all
qed simp

definition no_threads :: threads where
  "no_threads = \<lparr>running = False, contexts = (\<lambda>_. None)\<rparr>"

section \<open>One caller\<close>

text \<open>The states that events allowed by \<open>ok\<close> lead to.\<close>

inductive reachable :: "node_ops \<Rightarrow> (nat \<times> event \<Rightarrow> bool) \<Rightarrow> threads \<Rightarrow> bool" for N ok where
  start: "reachable N ok no_threads"
| step: "reachable N ok s \<Longrightarrow> ok e \<Longrightarrow> threads_event N e s = Some s' \<Longrightarrow> reachable N ok s'"

text \<open>One context, one caller, and signals that work.\<close>

fun solo_event :: "event \<Rightarrow> bool" where
  "solo_event (Call i r) = (i = 0)"
| "solo_event (Send i) = (i = 0)"
| "solo_event (Fire i res) = (i = 0 \<and> res = Inr True)"
| "solo_event (Wake i) = (i = 0)"
| "solo_event (Recv i) = (i = 0)"
| "solo_event (Return i) = (i = 0)"
| "solo_event (Stop i) = (i = 0)"
| "solo_event (StopFire i res) = (i = 0 \<and> res = Inr True)"
| "solo_event (Join i) = (i = 0)"
| "solo_event _ = True"

definition solo :: "nat \<times> event \<Rightarrow> bool" where
  "solo ce \<longleftrightarrow> fst ce = 0 \<and> solo_event (snd ce)"

text \<open>The call as one step, on channels and signals that work.\<close>

definition atomic :: "node_ops \<Rightarrow> request \<Rightarrow> answer \<times> node_effect list" where
  "atomic N r = sendRequestToWakuThread \<lparr>trySend = True, fire = Inr True, tryRecv = True\<rparr> N r"

lemma atomic_round:
  "atomic N r = (response_process (fst (worker_round N r)), snd (worker_round N r))"
  by (simp add: atomic_def sendRequestToWakuThread_def split: prod.splits)

definition effects_of :: "node_ops \<Rightarrow> (request \<times> answer) list \<Rightarrow> node_effect list" where
  "effects_of N h = concat (map (\<lambda>(r, a). snd (atomic N r)) h)"

definition resting :: "worker \<Rightarrow> bool" where
  "resting w \<longleftrightarrow> w = Checking \<or> w = Awaiting"

definition slots :: "thread_context \<Rightarrow> request option \<Rightarrow> bool \<Rightarrow> InterThreadResponse option \<Rightarrow> bool \<Rightarrow> bool" where
  "slots x q qs p ps \<longleftrightarrow> reqChannel x = q \<and> reqSignal x = qs \<and> respChannel x = p \<and> respSignal x = ps"

text \<open>Where caller and worker can be at the same time, with what lies between them.\<close>

definition waiting_ok :: "node_ops \<Rightarrow> request \<Rightarrow> thread_context \<Rightarrow> bool" where
  "waiting_ok N r x \<longleftrightarrow>
     (let resp = fst (worker_round N r); before = effects_of N (history x); after = before @ snd (atomic N r) in
        (resting (worker x) \<and> slots x (Some r) True None False \<and> performed x = before)
      \<or> (worker x = Taking \<and> slots x (Some r) False None False \<and> performed x = before)
      \<or> (worker x = Processing r \<and> slots x None False None False \<and> performed x = before)
      \<or> (worker x = Posting resp \<and> slots x None False None False \<and> performed x = after)
      \<or> (worker x = Signalling \<and> slots x None False (Some resp) False \<and> performed x = after)
      \<or> (resting (worker x) \<and> slots x None False (Some resp) True \<and> performed x = after))"

definition phase_ok :: "node_ops \<Rightarrow> bool \<Rightarrow> thread_context \<Rightarrow> bool" where
  "phase_ok N run x =
     (case callers x 0 of
        Idle \<Rightarrow> run \<and> resting (worker x) \<and> slots x None False None False \<and> performed x = effects_of N (history x)
      | Sending r \<Rightarrow> run \<and> resting (worker x) \<and> slots x None False None False
          \<and> performed x = effects_of N (history x)
      | Firing r \<Rightarrow> run \<and> resting (worker x) \<and> slots x (Some r) False None False
          \<and> performed x = effects_of N (history x)
      | Waiting r \<Rightarrow> run \<and> waiting_ok N r x
      | Receiving r \<Rightarrow> run \<and> resting (worker x) \<and> slots x None False (Some (fst (worker_round N r))) False
          \<and> performed x = effects_of N (history x) @ snd (atomic N r)
      | Returned r a \<Rightarrow> run \<and> resting (worker x) \<and> slots x None False None False \<and> a = fst (atomic N r)
          \<and> performed x = effects_of N (history x) @ snd (atomic N r)
      | Stopping \<Rightarrow> \<not> run \<and> (resting (worker x) \<or> worker x = Exited) \<and> slots x None False None False
          \<and> performed x = effects_of N (history x)
      | Joining \<Rightarrow> \<not> run \<and> performed x = effects_of N (history x)
          \<and> (worker x = Awaiting \<and> slots x None True None False
            \<or> worker x \<in> {Checking, Exited} \<and> (\<exists>b. slots x None b None False)
            \<or> worker x = Taking \<and> slots x None False None False)
      | Destroyed \<Rightarrow> \<not> run \<and> worker x = Exited \<and> performed x = effects_of N (history x))"

definition history_ok :: "node_ops \<Rightarrow> thread_context \<Rightarrow> bool" where
  "history_ok N x \<longleftrightarrow> list_all (\<lambda>(r, a). a = fst (atomic N r)) (history x)"

definition solo_inv :: "node_ops \<Rightarrow> bool \<Rightarrow> thread_context \<Rightarrow> bool" where
  "solo_inv N run x \<longleftrightarrow> phase_ok N run x \<and> history_ok N x \<and> (\<forall>i. i \<noteq> 0 \<longrightarrow> callers x i = Idle)"

lemmas inv_defs = solo_inv_def phase_ok_def waiting_ok_def history_ok_def slots_def resting_def Let_def

lemma solo_new: "solo_inv N True new_context"
  by (simp add: inv_defs new_context_def effects_of_def)

lemma caller_keeps_inv:
  "caller_event e x = Some x' \<Longrightarrow> solo_event e \<Longrightarrow> solo_inv N run x \<Longrightarrow> solo_inv N run x'"
  by (cases e; cases "callers x 0")
    (auto simp: inv_defs set_caller_def atomic_round effects_of_def split: option.splits if_splits)

lemma worker_keeps_inv:
  "worker_event N run e x = Some x' \<Longrightarrow> solo_inv N run x \<Longrightarrow> solo_inv N run x'"
  by (cases e; cases "callers x 0")
    (auto simp: inv_defs atomic_round split: option.splits if_splits worker.splits prod.splits)

lemma stop_keeps_inv:
  "stop_event e (run, x) = Some (run', x') \<Longrightarrow> solo_event e \<Longrightarrow> solo_inv N run x \<Longrightarrow> solo_inv N run' x'"
  by (cases e; cases "callers x 0") (auto simp: inv_defs set_caller_def split: if_splits)

lemma context_keeps_inv:
  "context_event N e (run, x) = Some (run', x') \<Longrightarrow> solo_event e \<Longrightarrow> solo_inv N run x \<Longrightarrow> solo_inv N run' x'"
  by (auto simp: context_event_def intro: caller_keeps_inv worker_keeps_inv stop_keeps_inv split: option.splits)

lemma solo_reachable:
  assumes "reachable N solo s"
  shows "contexts s 0 = None \<or> (\<exists>x. contexts s 0 = Some x \<and> solo_inv N (running s) x)"
  using assms
proof (induction rule: reachable.induct)
  case (step s e s')
  obtain ev where e: "e = (0, ev)" "solo_event ev" using step(2) by (cases e) (simp add: solo_def)
  show ?case
  proof (cases "contexts s 0")
    case None
    then show ?thesis using step(3) solo_new by (auto simp: e threads_event_def split: if_splits)
  next
    case (Some x)
    then show ?thesis using step(3,4) e(2)
      by (auto simp: e(1) threads_event_def split: option.splits prod.splits dest: context_keeps_inv)
  qed
qed (simp add: no_threads_def)

text \<open>C38: with one caller and signals that work, the threads implement the call as one step. In
  every state the interleavings of caller and worker can reach, each finished call has
  returned the answer of the atomic call for its own request, and between calls the node
  has had exactly the effects of the finished calls, in their order.\<close>

theorem one_caller_atomic:
  assumes "reachable N solo s" and "contexts s 0 = Some x"
  shows "list_all (\<lambda>(r, a). a = fst (atomic N r)) (history x)
    \<and> (callers x 0 = Idle \<longrightarrow> performed x = concat (map (\<lambda>(r, a). snd (atomic N r)) (history x)))"
  using solo_reachable [OF assms(1)] assms(2)
  by (auto simp: solo_inv_def phase_ok_def history_ok_def effects_of_def)

lemma run_reachable:
  assumes "reachable N ok s" and "list_all ok es" and "run_threads N es s = Some s'"
  shows "reachable N ok s'"
  using assms
proof (induction es arbitrary: s)
  case (Cons e es)
  then show ?case by (auto simp: bind_eq_Some_conv intro: reachable.step)
qed simp

text \<open>A node without peers and a request to it, for concrete runs.\<close>

definition lone_node :: node_ops where
  "lone_node = \<lparr>relayMounted = True, relayPublish = (\<lambda>_ _. 0), msgHashHex = (\<lambda>_ _. ''0x''),
     createWaku = (\<lambda>_. Inr ()), startWaku = Inr (), stopWaku = Inr (), connectToNodes = (\<lambda>_. True),
     listenAddresses = ''[]''\<rparr>"

abbreviation ask :: request where "ask \<equiv> DEBUG RETRIEVE_LISTENING_ADDRESSES"

text \<open>A whole call, as it goes when nothing else happens.\<close>

definition call_events :: "nat \<Rightarrow> request \<Rightarrow> event list" where
  "call_events i r = [Call i r, Send i, Fire i (Inr True), WCheck, WWake, WTake, WProcess, WPost, WSignal,
     Wake i, Recv i, Return i]"

lemma one_caller_atomic_witness:
  "\<exists>s x. run_threads lone_node ((0, Create) # map (Pair 0) (call_events 0 ask)) no_threads = Some s
     \<and> contexts s 0 = Some x \<and> history x = [(ask, fst (atomic lone_node ask))] \<and> performed x = snd (atomic lone_node ask)"
proof -
  let ?es = "(0, Create) # map (Pair 0) (call_events 0 ask)"
  obtain s x a where s: "run_threads lone_node ?es no_threads = Some s" "contexts s 0 = Some x" "history x = [(ask, a)]"
    "callers x 0 = Idle"
    by (simp add: worker_round_def lone_node_def call_events_def no_threads_def threads_event_def context_event_def new_context_def set_caller_def)
  have "list_all solo ?es" by (simp add: solo_def call_events_def)
  from one_caller_atomic [OF run_reachable [OF reachable.start this s(1)] s(2)] s show ?thesis by simp
qed

section \<open>A call returns\<close>

text \<open>The steps both threads can still do before the caller needs the next call.\<close>

fun caller_todo :: "caller \<Rightarrow> nat" where
  "caller_todo (Sending r) = 11"
| "caller_todo (Firing r) = 10"
| "caller_todo (Waiting r) = 3"
| "caller_todo (Receiving r) = 2"
| "caller_todo (Returned r a) = 1"
| "caller_todo Stopping = 11"
| "caller_todo Joining = 1"
| "caller_todo _ = 0"

fun worker_todo :: "worker \<Rightarrow> bool \<Rightarrow> nat" where
  "worker_todo Checking sig = (if sig then 7 else 1)"
| "worker_todo Awaiting sig = (if sig then 6 else 0)"
| "worker_todo Taking sig = 5"
| "worker_todo (Processing r) sig = 4"
| "worker_todo (Posting p) sig = 3"
| "worker_todo Signalling sig = 2"
| "worker_todo Exited sig = 0"

definition todo :: "thread_context \<Rightarrow> nat" where
  "todo x = caller_todo (callers x 0) + worker_todo (worker x) (reqSignal x)"

definition busy :: "thread_context \<Rightarrow> bool" where
  "busy x \<longleftrightarrow> callers x 0 \<noteq> Idle \<and> callers x 0 \<noteq> Destroyed"

lemma caller_todo_less:
  "caller_event e x = Some x' \<Longrightarrow> solo_event e \<Longrightarrow> solo_inv N run x \<Longrightarrow> busy x \<Longrightarrow> todo x' < todo x"
  by (cases e; cases "callers x 0")
    (auto simp: inv_defs todo_def busy_def set_caller_def split: option.splits if_splits)

lemma worker_todo_less:
  "worker_event N run e x = Some x' \<Longrightarrow> solo_inv N run x \<Longrightarrow> busy x \<Longrightarrow> todo x' < todo x"
  by (cases e; cases "callers x 0")
    (auto simp: inv_defs todo_def busy_def split: option.splits if_splits worker.splits prod.splits)

lemma stop_todo_less:
  "stop_event e (run, x) = Some (run', x') \<Longrightarrow> solo_event e \<Longrightarrow> solo_inv N run x \<Longrightarrow> busy x \<Longrightarrow> todo x' < todo x"
  by (cases e; cases "callers x 0")
    (auto simp: inv_defs todo_def busy_def set_caller_def split: if_splits)

lemma context_todo_less:
  "context_event N e (run, x) = Some (run', x') \<Longrightarrow> solo_event e \<Longrightarrow> solo_inv N run x \<Longrightarrow> busy x \<Longrightarrow> todo x' < todo x"
  by (auto simp: context_event_def intro: caller_todo_less worker_todo_less stop_todo_less split: option.splits)

lemma todo_bound: "solo_inv N run x \<Longrightarrow> todo x \<le> 12"
  by (cases "callers x 0") (auto simp: inv_defs todo_def)

text \<open>Some thread can always go on: the caller, unless it waits, then the worker.\<close>

lemma worker_goes_on:
  "worker x \<noteq> Exited \<Longrightarrow> (worker x = Awaiting \<longrightarrow> reqSignal x) \<Longrightarrow>
     \<exists>e x'. solo_event e \<and> worker_event N run e x = Some x'"
  by (cases "worker x")
    (auto intro: exI [of _ WCheck] exI [of _ WWake] exI [of _ WTake] exI [of _ WProcess] exI [of _ WPost]
      exI [of _ WSignal] split: prod.splits)

lemma context_event_possible:
  "context_event N e (run, x) \<noteq> None \<longleftrightarrow>
     caller_event e x \<noteq> None \<or> worker_event N run e x \<noteq> None \<or> stop_event e (run, x) \<noteq> None"
  by (simp add: context_event_def split: option.splits)

lemma goes_on:
  assumes "solo_inv N run x" and "busy x"
  shows "\<exists>e. solo_event e \<and> context_event N e (run, x) \<noteq> None"
proof -
  have "(\<exists>e. solo_event e \<and> caller_event e x \<noteq> None) \<or> (\<exists>e. solo_event e \<and> stop_event e (run, x) \<noteq> None)
      \<or> worker x \<noteq> Exited \<and> (worker x = Awaiting \<longrightarrow> reqSignal x)"
  proof (cases "callers x 0")
    case (Sending r)
    then have "caller_event (Send 0) x \<noteq> None" by (simp split: option.splits)
    then show ?thesis using solo_event.simps(2) by blast
  next
    case (Firing r)
    then have "caller_event (Fire 0 (Inr True)) x \<noteq> None" by simp
    then show ?thesis using solo_event.simps(3) by blast
  next
    case (Receiving r)
    then have "caller_event (Recv 0) x \<noteq> None" by simp
    then show ?thesis using solo_event.simps(5) by blast
  next
    case (Returned r a)
    then have "caller_event (Return 0) x \<noteq> None" by simp
    then show ?thesis using solo_event.simps(6) by blast
  next
    case Stopping
    then have "stop_event (StopFire 0 (Inr True)) (run, x) \<noteq> None" by simp
    then show ?thesis using solo_event.simps(8) by blast
  next
    case (Waiting r)
    then have "caller_event (Wake 0) x \<noteq> None \<or> worker x \<noteq> Exited \<and> (worker x = Awaiting \<longrightarrow> reqSignal x)"
      using assms(1) by (auto simp: inv_defs)
    then show ?thesis using solo_event.simps(4) by blast
  next
    case Joining
    then have "stop_event (Join 0) (run, x) \<noteq> None \<or> worker x \<noteq> Exited \<and> (worker x = Awaiting \<longrightarrow> reqSignal x)"
      using assms(1) by (auto simp: inv_defs)
    then show ?thesis using solo_event.simps(9) by blast
  qed (use assms(2) in \<open>simp_all add: busy_def\<close>)
  then show ?thesis
    using worker_goes_on [of x N run] unfolding context_event_possible by blast
qed

lemma solo_threads_event:
  assumes "contexts s 0 = Some x" and "solo e"
  shows "threads_event N e s = Some s' \<longleftrightarrow>
    (\<exists>run x'. solo_event (snd e) \<and> context_event N (snd e) (running s, x) = Some (run, x')
      \<and> s' = s\<lparr>running := run, contexts := (contexts s)(0 \<mapsto> x')\<rparr>)"
  using assms by (cases e) (auto simp: solo_def threads_event_def split: option.splits)

lemma solo_reachable_inv:
  "reachable N solo s \<Longrightarrow> contexts s 0 = Some x \<Longrightarrow> solo_inv N (running s) x"
  using solo_reachable by fastforce

lemma returns_within:
  assumes "reachable N solo s" and "contexts s 0 = Some x" and "list_all solo es"
    and "run_threads N es s = Some s'" and "todo x \<le> length es"
  shows "\<exists>k t y. k \<le> todo x \<and> run_threads N (take k es) s = Some t \<and> contexts t 0 = Some y \<and> \<not> busy y"
  using assms
proof (induction "todo x" arbitrary: s x es rule: less_induct)
  case less
  show ?case
  proof (cases "busy x")
    case False
    then show ?thesis using less.prems(2) by (intro exI [of _ 0]) simp
  next
    case True
    then have "0 < todo x" by (cases "callers x 0") (auto simp: busy_def todo_def)
    then obtain e es' where es: "es = e # es'" using less.prems(5) by (cases es) auto
    obtain s1 where 1: "threads_event N e s = Some s1" "run_threads N es' s1 = Some s'"
      using less.prems(4) by (auto simp: es bind_eq_Some_conv)
    have e: "solo e" "list_all solo es'" using less.prems(3) by (simp_all add: es)
    obtain run x1 where x1: "solo_event (snd e)" "context_event N (snd e) (running s, x) = Some (run, x1)"
      "contexts s1 0 = Some x1"
      using 1(1) by (auto simp: solo_threads_event [OF less.prems(2) e(1)])
    have l: "todo x1 < todo x"
      by (rule context_todo_less [OF x1(2,1) solo_reachable_inv [OF less.prems(1,2)] True])
    have "\<exists>k t y. k \<le> todo x1 \<and> run_threads N (take k es') s1 = Some t \<and> contexts t 0 = Some y \<and> \<not> busy y"
      by (rule less.hyps [OF l reachable.step [OF less.prems(1) e(1) 1(1)] x1(3) e(2) 1(2)])
        (use l less.prems(5) in \<open>simp add: es\<close>)
    then obtain k t y where "k \<le> todo x1" "run_threads N (take k es') s1 = Some t" "contexts t 0 = Some y" "\<not> busy y"
      by blast
    then show ?thesis using l 1(1) by (intro exI [of _ "Suc k"]) (auto simp: es)
  qed
qed

text \<open>C39: with one caller and signals that work, every call of the library returns, destroying the context
  included. Whatever the interleaving so far, while a call is under way some thread can go on (there
  is no deadlock), and after at most twelve more steps, in whatever order the threads take them,
  the caller is back.\<close>

theorem one_caller_returns:
  assumes "reachable N solo s" and "contexts s 0 = Some x" and "busy x"
  shows "(\<exists>e s'. solo e \<and> threads_event N e s = Some s')
    \<and> (list_all solo es \<and> run_threads N es s = Some s' \<and> 12 \<le> length es \<longrightarrow>
        (\<exists>k t y. k \<le> 12 \<and> run_threads N (take k es) s = Some t \<and> contexts t 0 = Some y \<and> \<not> busy y))"
proof (intro conjI impI)
  note inv = solo_reachable_inv [OF assms(1,2)]
  obtain e r where "solo_event e" "context_event N e (running s, x) = Some r"
    using goes_on [OF inv assms(3)] by auto
  then show "\<exists>e s'. solo e \<and> threads_event N e s = Some s'"
    using solo_threads_event [OF assms(2), of "(0, e)"] by (cases r) (fastforce simp: solo_def)
  assume "list_all solo es \<and> run_threads N es s = Some s' \<and> 12 \<le> length es"
  then show "\<exists>k t y. k \<le> 12 \<and> run_threads N (take k es) s = Some t \<and> contexts t 0 = Some y \<and> \<not> busy y"
    using returns_within [OF assms(1,2), of es s'] todo_bound [OF inv] by (meson le_trans)
qed

lemma one_caller_returns_witness:
  "\<exists>s k t y. run_threads lone_node [(0, Create), (0, Call 0 ask)] no_threads = Some s
     \<and> run_threads lone_node (take k (map (Pair 0) (tl (call_events 0 ask) @ [WCheck]))) s = Some t
     \<and> contexts t 0 = Some y \<and> \<not> busy y"
proof -
  let ?es = "map (Pair 0) (tl (call_events 0 ask) @ [WCheck])"
  obtain s x where s: "run_threads lone_node [(0, Create), (0, Call 0 ask)] no_threads = Some s" "contexts s 0 = Some x" "busy x"
    by (simp add: no_threads_def threads_event_def context_event_def new_context_def set_caller_def busy_def)
  then have "run_threads lone_node ?es s \<noteq> None"
    by (auto simp: worker_round_def lone_node_def call_events_def no_threads_def threads_event_def context_event_def new_context_def set_caller_def)
  moreover have "list_all solo [(0, Create), (0, Call 0 ask)]" "list_all solo ?es" "12 \<le> length ?es"
    by (simp_all add: solo_def call_events_def)
  ultimately show ?thesis
    using one_caller_returns [OF run_reachable [OF reachable.start _ s(1)] s(2,3), of "?es"] s(1) by blast
qed

section \<open>Two callers\<close>

text \<open>What can still happen to a context in which caller \<open>i\<close> is left alone: only new calls of others.\<close>

definition stuck :: "node_ops \<Rightarrow> bool \<Rightarrow> nat \<Rightarrow> thread_context \<Rightarrow> bool" where
  "stuck N run i x \<longleftrightarrow> {e. context_event N e (run, x) \<noteq> None} = {e. \<exists>j q. j \<noteq> i \<and> (e = Call j q \<or> e = Stop j)}"

lemma stuckI:
  assumes "callers x i = Waiting r" and "\<And>j. j \<noteq> i \<Longrightarrow> callers x j = Idle" and "\<not> respSignal x"
    and "worker x = Exited \<or> worker x = Awaiting \<and> \<not> reqSignal x"
  shows "stuck N run i x"
proof -
  have c: "callers x j = (if j = i then Waiting r else Idle)" for j using assms(1,2) by simp
  have "context_event N e (run, x) \<noteq> None \<longleftrightarrow> (\<exists>j q. j \<noteq> i \<and> (e = Call j q \<or> e = Stop j))" for e
    unfolding context_event_possible using assms(3,4) by (cases e) (auto simp: c)
  then show ?thesis by (simp add: stuck_def)
qed

text \<open>Both requests are under way before the first answer is taken.\<close>

definition overlap :: "request \<Rightarrow> request \<Rightarrow> event list" where
  "overlap q r = [Call 0 q, Send 0, Fire 0 (Inr True), WCheck, WWake, WTake, Call 1 r, Send 1,
     Fire 1 (Inr True), WProcess, WPost, WSignal]"

definition crossing :: "request \<Rightarrow> request \<Rightarrow> event list" where
  "crossing q r = overlap q r @ [Wake 1, Recv 1, Return 1, WCheck, WWake, WTake, WProcess, WPost, WSignal,
     Wake 0, Recv 0, Return 0]"

definition losing :: "request \<Rightarrow> request \<Rightarrow> event list" where
  "losing q r = overlap q r @ [WCheck, WWake, WTake, WProcess, WPost, WSignal, WCheck, Wake 0, Recv 0, Return 0]"

lemmas step_defs = threads_event_def context_event_def new_context_def set_caller_def no_threads_def

text \<open>C40: two threads of a client must not use one context at the same time. Signals and response slot do not
  say whose answer they carry: for any node and any two requests there is a run in which each caller
  returns with the answer of the other, and one in which both requests are carried out
  on the node, the second answer is dropped, and its caller waits until somebody else calls.\<close>

theorem two_callers_cross:
  "(\<exists>s x. run_threads N ((0, Create) # map (Pair 0) (crossing q r)) no_threads = Some s \<and> contexts s 0 = Some x
      \<and> history x = [(r, fst (atomic N q)), (q, fst (atomic N r))])
   \<and> (\<exists>s x. run_threads N ((0, Create) # map (Pair 0) (losing q r)) no_threads = Some s \<and> contexts s 0 = Some x
      \<and> history x = [(q, fst (atomic N q))] \<and> performed x = snd (atomic N q) @ snd (atomic N r)
      \<and> callers x 1 = Waiting r \<and> stuck N True 1 x)"
proof (cases "worker_round N q"; cases "worker_round N r"; intro conjI)
  fix p e p' e' assume w: "worker_round N q = (p, e)" "worker_round N r = (p', e')"
  show "\<exists>s x. run_threads N ((0, Create) # map (Pair 0) (crossing q r)) no_threads = Some s \<and> contexts s 0 = Some x
      \<and> history x = [(r, fst (atomic N q)), (q, fst (atomic N r))]"
    by (simp add: crossing_def overlap_def step_defs w atomic_round)
  show "\<exists>s x. run_threads N ((0, Create) # map (Pair 0) (losing q r)) no_threads = Some s \<and> contexts s 0 = Some x
      \<and> history x = [(q, fst (atomic N q))] \<and> performed x = snd (atomic N q) @ snd (atomic N r)
      \<and> callers x 1 = Waiting r \<and> stuck N True 1 x"
    by (simp add: losing_def overlap_def step_defs w atomic_round stuckI)
qed

section \<open>A signal that fails\<close>

text \<open>The calls of one caller: \<open>solo\<close> without destroying the context.\<close>

fun calling_event :: "event \<Rightarrow> bool" where
  "calling_event (Stop i) = False"
| "calling_event (StopFire i res) = False"
| "calling_event e = solo_event e"

definition calling :: "nat \<times> event \<Rightarrow> bool" where
  "calling ce \<longleftrightarrow> fst ce = 0 \<and> calling_event (snd ce)"

definition refused :: "request \<times> answer \<Rightarrow> bool" where
  "refused ra \<longleftrightarrow> snd ra = couldnt_send (fst ra)"

definition jammed :: "request \<Rightarrow> request \<times> answer \<Rightarrow> thread_context \<Rightarrow> bool" where
  "jammed r h x \<longleftrightarrow> reqChannel x = Some r \<and> \<not> reqSignal x \<and> \<not> respSignal x \<and> resting (worker x) \<and> performed x = []
     \<and> (\<exists>t. history x = h # t \<and> list_all refused t)
     \<and> (callers x 0 = Idle \<or> (\<exists>q. callers x 0 = Sending q) \<or> (\<exists>q a. callers x 0 = Returned q a \<and> refused (q, a)))
     \<and> (\<forall>i. i \<noteq> 0 \<longrightarrow> callers x i = Idle)"

lemma jammed_context:
  "jammed r h x \<Longrightarrow> calling_event e \<Longrightarrow> context_event N e (True, x) = Some (run, x') \<Longrightarrow> run \<and> jammed r h x'"
  by (cases e; cases "callers x 0")
    (auto simp: context_event_def jammed_def refused_def resting_def set_caller_def split: option.splits if_splits)

lemma jammed_run:
  assumes "contexts s 0 = Some x" and "running s" and "jammed r h x" and "list_all calling es"
    and "run_threads N es s = Some s'"
  shows "\<exists>x'. contexts s' 0 = Some x' \<and> jammed r h x'"
  using assms
proof (induction es arbitrary: s x)
  case (Cons e es)
  obtain ev where e: "e = (0, ev)" "calling_event ev" using Cons.prems(4) by (cases e) (simp add: calling_def)
  obtain s1 where 1: "threads_event N e s = Some s1" "run_threads N es s1 = Some s'"
    using Cons.prems(5) by (auto simp: bind_eq_Some_conv)
  obtain run x1 where x1: "context_event N ev (True, x) = Some (run, x1)"
    "s1 = s\<lparr>running := run, contexts := (contexts s)(0 \<mapsto> x1)\<rparr>"
    using 1(1) Cons.prems(1,2) by (auto simp: e threads_event_def split: option.splits prod.splits)
  have "run \<and> jammed r h x1" by (rule jammed_context [OF Cons.prems(3) e(2) x1(1)])
  then show ?case using Cons.IH [of s1 x1] 1(2) x1(2) Cons.prems(4) by simp
qed simp

text \<open>One failing \<^verbatim>\<open>fireSync\<close> silences the context for good. The request stays in the channel without a
  signal, so the worker never takes it, and every later call fails to send its own before it
  could fire the signal: whatever the caller does, short of destroying the context, each
  call returns that error and the node never does anything.\<close>

theorem failed_signal_jams:
  assumes "run_threads N ((0, Create) # map (Pair 0) [Call 0 r, Send 0, Fire 0 (Inr False), Return 0] @ es)
      no_threads = Some s"
    and "list_all calling es"
  shows "\<exists>x. contexts s 0 = Some x \<and> performed x = [] \<and> hd (history x) = (r, Inl ''Couldn't fireSync in time'')
    \<and> list_all refused (tl (history x))"
proof -
  let ?e = "Inl ''Couldn't fireSync in time''"
  let ?es = "(0, Create) # map (Pair 0) [Call 0 r, Send 0, Fire 0 (Inr False), Return 0]"
  obtain s0 x0 where 0: "run_threads N ?es no_threads = Some s0" "running s0" "contexts s0 0 = Some x0"
    "jammed r (r, ?e) x0"
    by (simp add: step_defs jammed_def resting_def)
  have es: "run_threads N es s0 = Some s"
    using assms(1) 0(1) run_threads_append [of N ?es es no_threads] by simp
  obtain x where x: "contexts s 0 = Some x" "jammed r (r, ?e) x"
    using jammed_run [OF 0(3,2,4) assms(2) es] by blast
  then show ?thesis by (auto simp: jammed_def)
qed

lemma failed_signal_jams_witness:
  "\<exists>s x. run_threads lone_node ((0, Create) # map (Pair 0) ([Call 0 ask, Send 0, Fire 0 (Inr False), Return 0]
       @ [Call 0 ask, Send 0, Return 0])) no_threads = Some s
     \<and> contexts s 0 = Some x \<and> performed x = []"
proof -
  let ?es = "map (Pair 0) [Call 0 ask, Send 0, Return 0]"
  obtain s where s: "run_threads lone_node ((0, Create) # map (Pair 0) [Call 0 ask, Send 0, Fire 0 (Inr False), Return 0] @ ?es)
      no_threads = Some s"
    by (simp add: step_defs)
  have "list_all calling ?es" by (simp add: calling_def)
  from failed_signal_jams [OF s this] s show ?thesis by auto
qed

section \<open>Destroying one of several contexts\<close>

text \<open>Two contexts; the first is destroyed, the second makes two calls.\<close>

definition destroy_first :: "request \<Rightarrow> request \<Rightarrow> (nat \<times> event) list" where
  "destroy_first q r =
     [(0, Create), (1, Create), (0, WCheck), (1, WCheck)]
     @ map (Pair 0) [Stop 0, StopFire 0 (Inr True), WWake, WTake, WCheck, Join 0]
     @ map (Pair 1) [Call 0 q, Send 0, Fire 0 (Inr True), WWake, WTake, WProcess, WPost, WSignal, Wake 0, Recv 0,
         Return 0, WCheck, Call 0 r, Send 0, Fire 0 (Inr True)]"

text \<open>Destroying a context stops the workers of all others. The flag \<^verbatim>\<open>running\<close> is shared: after the
  first of two contexts is destroyed, the worker of the second serves one more request and
  exits, and the call after that waits for an answer that nobody can give.\<close>

theorem destroy_stops_others:
  "\<exists>s x y. run_threads N (destroy_first q r) no_threads = Some s \<and> contexts s 0 = Some x \<and> contexts s 1 = Some y
     \<and> callers x 0 = Destroyed \<and> history y = [(q, fst (atomic N q))]
     \<and> callers y 0 = Waiting r \<and> worker y = Exited \<and> stuck N (running s) 0 y"
  by (cases "worker_round N q") (simp add: destroy_first_def step_defs atomic_round stuckI)

end
