(* ===== verification/JsonEvents.thy ===== *)
theory JsonEvents
  imports Libwaku Base64C
begin

text \<open>
  The events the library delivers, \<^verbatim>\<open>library/events/json_message_event.nim\<close>: the event a relayed
  message becomes (\<open>new_event\<close>), its JSON tree and text, and what the other side reads back.
  The base64 encoder and the hexadecimal printer of \<^verbatim>\<open>stew\<close>, SHA-256 and \<^verbatim>\<open>toBytesBE\<close> are the
  parameters of \<open>event_lib\<close>; JSON is that of \<open>Json\<close>.
\<close>

section \<open>Events\<close>

record event_lib =
  b64enc :: "bytes \<Rightarrow> string"
  to0xHex :: "bytes \<Rightarrow> string"
  sha256 :: "bytes \<Rightarrow> bytes"
  toBytesBE :: "u64 \<Rightarrow> bytes"

record JsonMessageEvent =
  eventType :: string
  ev_pubsubTopic :: PubsubTopic
  messageHash :: bytes
  wakuMessage :: JsonMessage

definition message_of :: "event_lib \<Rightarrow> WakuMessage \<Rightarrow> JsonMessage" where
  "message_of E msg = \<lparr>jm_payload = b64enc E (payload msg), jm_contentTopic = contentTopic msg,
     jm_version = ucast (version msg), jm_timestamp = timestamp msg, jm_ephemeral = ephemeral msg,
     jm_meta = b64enc E (meta msg), jm_proof = b64enc E (msg_proof msg)\<rparr>"

definition new_event :: "event_lib \<Rightarrow> PubsubTopic \<Rightarrow> WakuMessage \<Rightarrow> JsonMessageEvent" where
  "new_event E pubSubTopic msg =
     \<lparr>eventType = ''message'', ev_pubsubTopic = pubSubTopic,
      messageHash = computeMessageHash (sha256 E) (toBytesBE E) pubSubTopic msg,
      wakuMessage = message_of E msg\<rparr>"

text \<open>
  \<^verbatim>\<open>%*\<close> on the event: an object of its fields, those of the type before the inherited
  \<^verbatim>\<open>eventType\<close>. A \<^verbatim>\<open>uint\<close> above the largest \<^verbatim>\<open>int\<close> becomes a string.
\<close>

definition json_of_uint :: "u64 \<Rightarrow> json" where
  "json_of_uint n = (if uint n < 2 ^ 63 then JInt (uint n) else JString (show_nat (unat n)))"

definition json_of_message :: "JsonMessage \<Rightarrow> json" where
  "json_of_message m = JObject
     [(''payload'', JString (jm_payload m)), (''contentTopic'', JString (jm_contentTopic m)),
      (''version'', json_of_uint (jm_version m)), (''timestamp'', JInt (jm_timestamp m)),
      (''ephemeral'', JBool (jm_ephemeral m)), (''meta'', JString (jm_meta m)),
      (''proof'', JString (jm_proof m))]"

definition json_of_event :: "event_lib \<Rightarrow> JsonMessageEvent \<Rightarrow> json" where
  "json_of_event E ev = JObject
     [(''pubsubTopic'', JString (ev_pubsubTopic ev)), (''messageHash'', JString (to0xHex E (messageHash ev))),
      (''wakuMessage'', json_of_message (wakuMessage ev)), (''eventType'', JString (eventType ev))]"

text \<open>\<^verbatim>\<open>$JsonMessageEvent.new(pubsubTopic, msg)\<close>, which raises nothing.\<close>

definition render_event :: "event_lib \<Rightarrow> PubsubTopic \<Rightarrow> WakuMessage \<Rightarrow> string + string" where
  "render_event E pubsubTopic msg = Inr (to_ugly (json_of_event E (new_event E pubsubTopic msg)))"

section \<open>Reading an event back\<close>

lemma json_of_uint_small [simp]: "json_of_uint (ucast (v :: u32)) = JInt (uint v)"
proof -
  have v: "uint v < 2 ^ 32" using unsigned_less [of v, where ?'a = int] by simp
  then have "uint (ucast v :: u64) = uint v"
    by (simp add: unsigned_ucast_eq take_bit_int_eq_self)
  then show ?thesis using v by (simp add: json_of_uint_def)
qed

lemma ucast_ucast_version: "ucast (ucast v :: u64) = (v :: u32)"
  by (rule bit_word_eqI) (auto simp: bit_simps)

lemma message_roundtrip:
  assumes "\<And>b. dec (b64enc E b) = Inr b"
  shows "\<exists>jm. fromJsonNode (json_of_message (message_of E msg)) = Done jm \<and> toWakuMessage dec jm = Inr msg"
  using ucast_ucast_version [of "version msg"]
  by (simp add: fromJsonNode_def json_of_message_def message_of_def json_at_def json_get_def toWakuMessage_def assms)

lemma printable_uint [simp]: "printable_json (json_of_uint n)"
proof -
  have "(- (2 ^ 63) :: int) \<le> 0" by simp
  also have "0 \<le> uint n" by simp
  finally show ?thesis by (simp add: json_of_uint_def)
qed

lemma printable_event:
  assumes "- (2 ^ 63) \<le> timestamp msg" and "timestamp msg < 2 ^ 63"
  shows "printable_json (json_of_message (message_of E msg))"
    and "printable_json (json_of_event E (new_event E t msg))"
proof -
  show "printable_json (json_of_message (message_of E msg))"
    using assms by (simp add: json_of_message_def message_of_def del: json_of_uint_small)
  then show "printable_json (json_of_event E (new_event E t msg))"
    by (simp add: json_of_event_def new_event_def)
qed

lemma parse_event:
  assumes "- (2 ^ 63) \<le> timestamp msg" and "timestamp msg < 2 ^ 63"
  shows "parse_json (to_ugly (json_of_message (message_of E msg))) = Some (json_of_message (message_of E msg))"
    and "parse_json (to_ugly (json_of_event E (new_event E t msg))) = Some (json_of_event E (new_event E t msg))"
  by (rule parse_to_ugly, rule printable_event [OF assms],
      simp add: json_of_event_def json_of_message_def new_event_def message_of_def DepthLimit_def)+

text \<open>What a client finds in the text of an event callback.\<close>

definition event_fields :: "event_lib \<Rightarrow> PubsubTopic \<Rightarrow> WakuMessage \<Rightarrow> json \<Rightarrow> bool" where
  "event_fields E t msg j \<longleftrightarrow>
     json_get j ''eventType'' = Some (JString ''message'') \<and> json_get j ''pubsubTopic'' = Some (JString t)
     \<and> json_get j ''messageHash'' = Some (JString (to0xHex E (computeMessageHash (sha256 E) (toBytesBE E) t msg)))"

text \<open>C4: an event loses nothing of the message, and publishing it again loses only what a C string cannot hold. With a
  callback and user data registered, a relayed message (its time an \<^verbatim>\<open>int64\<close>) is delivered exactly once, to
  that callback, as a JSON text with the event's type, the topic and the message hash; its \<^verbatim>\<open>wakuMessage\<close>,
  taken out of the parsed text, reads as the very message that came in. Printed and published through the same
  interface on a working node with peers, whose hashes print as \<^verbatim>\<open>to0xHex\<close> prints, it is published on the same topic as
  that message without its \<^verbatim>\<open>proof\<close>; topic and content topic are cut where they contain a NUL. The base64
  encoder and decoder of \<^verbatim>\<open>stew\<close> are inverse.\<close>

theorem event_republish:
  assumes "eventCallback x = Some f" and "eventUserData x = Some p"
    and "- (2 ^ 63) \<le> timestamp msg" and "timestamp msg < 2 ^ 63"
    and "\<And>b. b64dec L (b64enc E b) = Inr b"
    and "healthy (chan L)" and "relayMounted (node L)"
    and "m = msg\<lparr>contentTopic := cstr (contentTopic msg), msg_proof := []\<rparr>" and "0 < relayPublish (node L) (cstr t) m"
    and "hash = msgHashHex (node L) (cstr t) m" and "is_0xHex hash"
  shows "\<exists>k j w jm r. relayEventCallback (render_event E) x t msg = Done [k]
    \<and> cb_fun k = f \<and> callerRet k = RET_OK \<and> cb_userData k = Some p
    \<and> parse_json (cb_msg k) = Some j \<and> event_fields E t msg j \<and> json_get j ''wakuMessage'' = Some w
    \<and> fromJsonNode w = Done jm \<and> toWakuMessage (b64dec L) jm = Inr msg
    \<and> run_api L (Waku_relay_publish LiveCtx t (to_ugly w) ms (Some g) u) (Some x) = Done r
    \<and> effects r = [RelayPublished (cstr t) m] \<and> map cb_msg (calls r) = [hash]"
proof -
  let ?w = "json_of_message (message_of E msg)" and ?j = "json_of_event E (new_event E t msg)"
  obtain jm where jm: "fromJsonNode ?w = Done jm" "toWakuMessage (b64dec L) jm = Inr msg"
    using message_roundtrip [of "b64dec L" E msg] assms(5) by blast
  have "cstr (to_ugly ?w) = to_ugly ?w"
    using to_ugly_NUL_free [OF printable_event(1) [OF assms(3,4)]] by simp
  then have "parseJson L (cstr (to_ugly ?w)) = Inr ?w"
    using parse_event(1) [OF assms(3,4), of E] by (simp add: parseJson_def)
  note runs = relay_publish_runs [OF assms(6,7) this jm, of t hash ms g u x]
  have m: "m = sent_message msg" by (simp add: assms(8) sent_message_def)
  from runs assms(9-11) obtain r where
    r: "run_api L (Waku_relay_publish LiveCtx t (to_ugly ?w) ms (Some g) u) (Some x) = Done r"
      "effects r = [RelayPublished (cstr t) m]" "map cb_msg (calls r) = [hash]"
    by (auto simp: m simp del: run_api.simps)
  have ne: "to_ugly ?j \<noteq> []" by (simp add: json_of_event_def)
  have "event_fields E t msg ?j" "json_get ?j ''wakuMessage'' = Some ?w"
    by (simp_all add: event_fields_def json_of_event_def new_event_def json_get_def)
  moreover have "relayEventCallback (render_event E) x t msg = Done [\<lparr>cb_fun = f, callerRet = RET_OK,
      cb_msg = to_ugly ?j, cb_len = length (to_ugly ?j), cb_userData = Some p\<rparr>]"
    using assms(1,2) ne by (simp add: relayEventCallback_def render_event_def invoke_def)
  ultimately show ?thesis
    using r jm parse_event(2) [OF assms(3,4), of E t] by (auto simp del: run_api.simps)
qed

text \<open>With the reference encoder and decoder of \<open>Base64C\<close>.\<close>

definition sample_events :: event_lib where
  "sample_events = \<lparr>b64enc = b64_spec, to0xHex = (\<lambda>_. ''0x''), sha256 = id, toBytesBE = (\<lambda>_. [])\<rparr>"

definition base64_lib :: lib where
  "base64_lib = sample_lib\<lparr>b64dec := (\<lambda>s. case b64_decode s of None \<Rightarrow> Inl ''Incorrect base64 string'' | Some b \<Rightarrow> Inr b)\<rparr>"

theorem event_republish_witness:
  "\<exists>k j w r. relayEventCallback (render_event sample_events) (sample_ctx\<lparr>eventCallback := Some ''cb'', eventUserData := Some 5\<rparr>)
      ''t'' (empty_message\<lparr>payload := [1, 2, 3], contentTopic := ''/a/1/b/c'', timestamp := 99\<rparr>) = Done [k]
    \<and> parse_json (cb_msg k) = Some j \<and> json_get j ''wakuMessage'' = Some w
    \<and> run_api base64_lib (Waku_relay_publish LiveCtx ''t'' (to_ugly w) 10 (Some ''cb'') None)
        (Some (sample_ctx\<lparr>eventCallback := Some ''cb'', eventUserData := Some 5\<rparr>)) = Done r
    \<and> map cb_msg (calls r) = [''0xab'']"
proof -
  let ?m = "empty_message\<lparr>payload := [1, 2, 3], contentTopic := ''/a/1/b/c'', timestamp := 99\<rparr>"
  let ?x = "sample_ctx\<lparr>eventCallback := Some ''cb'', eventUserData := Some 5\<rparr>"
  have h: "eventCallback ?x = Some ''cb''" "eventUserData ?x = Some 5" "- (2 ^ 63) \<le> timestamp ?m" "timestamp ?m < 2 ^ 63"
    "\<And>b. b64dec base64_lib (b64enc sample_events b) = Inr b" "healthy (chan base64_lib)"
    "relayMounted (node base64_lib)" "?m = ?m\<lparr>contentTopic := cstr (contentTopic ?m), msg_proof := []\<rparr>"
    "0 < relayPublish (node base64_lib) (cstr ''t'') ?m" "''0xab'' = msgHashHex (node base64_lib) (cstr ''t'') ?m" "is_0xHex ''0xab''"
    by (simp_all add: is_0xHex_def empty_message_def base64_lib_def sample_lib_def sample_node_def sample_events_def healthy_def b64_decode_spec)
  from event_republish [OF h, of 10 "''cb''" None] show ?thesis
    by (elim exE conjE, intro exI conjI)
qed

end
