(* ===== verification/NodeAddon.thy ===== *)
theory NodeAddon
  imports CStd
begin

text \<open>
  The Node.js addon \<^verbatim>\<open>examples/nodejs/waku_addon.c\<close>: one definition per exported function
  (\<^verbatim>\<open>WakuNew\<close> to \<^verbatim>\<open>WakuRelaySubscribe\<close>) and per callback it hands to the library, on a state of
  its global variables, the N-API references it holds, the memory it allocates and the
  JavaScript functions it calls. An exported function gets the values JavaScript passes and
  returns the type error it throws, if any; \<^verbatim>\<open>napi_fatal_error\<close> is the fault
  \<open>FatalError\<close>. N-API itself follows its documentation: its calls succeed on valid
  arguments, except that a JavaScript function may throw (\<open>js_throws\<close>). Text is UTF-8
  bytes; \<open>utf8_cut\<close> is how N-API cuts it to a buffer.
\<close>

section \<open>State\<close>

datatype jsval =
    JsUndefined
  | JsString string
  | JsNumber int
  | JsFunction nat
  | JsOther

text \<open>A reference is its number; \<open>refs\<close> lists the live ones with their function.\<close>

record addon =
  ctx :: "Context option"
  ref_version_callback :: "nat option"
  ref_def_pubsub_topic_callback :: "nat option"
  ref_on_error_callback :: "nat option"
  thsafe_fn :: "nat option"
  contentTopicBuf :: "string option"
  refs :: "(nat \<times> nat) list"
  next_ref :: nat
  queued :: "string list"
  js_log :: "(nat \<times> string) list"
  mem :: "heap_op list"
  overrun :: bool
  node_log :: "node_effect list"

record js_env =
  js_throws :: "nat \<Rightarrow> string \<Rightarrow> bool"
  utf8_cut :: "nat \<Rightarrow> string \<Rightarrow> string"
  str_size_junk :: nat
  fresh :: "nat \<Rightarrow> char"
  oom :: bool

definition addon_init :: addon where
  "addon_init = \<lparr>ctx = None, ref_version_callback = None, ref_def_pubsub_topic_callback = None,
     ref_on_error_callback = None, thsafe_fn = None, contentTopicBuf = None, refs = [], next_ref = 0,
     queued = [], js_log = [], mem = [], overrun = False, node_log = []\<rparr>"

definition ctx_ptr :: "addon \<Rightarrow> ctx_arg" where
  "ctx_ptr st = (case ctx st of None \<Rightarrow> NilCtx | Some x \<Rightarrow> LiveCtx)"

definition malloc :: "string \<Rightarrow> addon \<Rightarrow> addon" where
  "malloc x st = st\<lparr>mem := mem st @ [Alloc x]\<rparr>"

definition free :: "string \<Rightarrow> addon \<Rightarrow> addon" where
  "free x st = st\<lparr>mem := mem st @ [Free x]\<rparr>"

section \<open>N-API\<close>

text \<open>\<^verbatim>\<open>napi_get_cb_info\<close>: missing arguments read as \<^verbatim>\<open>undefined\<close>.\<close>

definition arg :: "jsval list \<Rightarrow> nat \<Rightarrow> jsval" where
  "arg args i = (if i < length args then args ! i else JsUndefined)"

definition napi_create_reference :: "nat \<Rightarrow> addon \<Rightarrow> nat \<times> addon" where
  "napi_create_reference f st =
     (next_ref st, st\<lparr>refs := (next_ref st, f) # refs st, next_ref := next_ref st + 1\<rparr>)"

definition napi_delete_reference :: "nat \<Rightarrow> addon \<Rightarrow> addon" where
  "napi_delete_reference r st = st\<lparr>refs := filter (\<lambda>(i, f). i \<noteq> r) (refs st)\<rparr>"

definition napi_call_function :: "js_env \<Rightarrow> nat \<Rightarrow> string \<Rightarrow> addon \<Rightarrow> addon exec" where
  "napi_call_function J f msg st =
     (if js_throws J f msg then Fault (FatalError ''napi_call_function'')
      else Done (st\<lparr>js_log := js_log st @ [(f, msg)]\<rparr>))"

text \<open>A whole string: its length is asked for, then it is copied with its NUL.\<close>

definition napi_string :: "jsval \<Rightarrow> string" where
  "napi_string v = (case v of JsString s \<Rightarrow> s @ [CHR 0x00] | _ \<Rightarrow> [CHR 0x00])"

fun is_js_string :: "jsval \<Rightarrow> bool" where
  "is_js_string (JsString s) = True" | "is_js_string _ = False"

fun js_number :: "jsval \<Rightarrow> int option" where
  "js_number (JsNumber n) = Some n" | "js_number _ = None"

fun js_function :: "jsval \<Rightarrow> nat option" where
  "js_function (JsFunction f) = Some f" | "js_function _ = None"

section \<open>Callbacks\<close>

text \<open>
  The three callbacks into JavaScript have the same body on different references: they
  call the function with \<^verbatim>\<open>argc = 2\<close> and the address of one value, so N-API reads a second
  one past it (\<open>overrun\<close>).
\<close>

definition call_reference :: "js_env \<Rightarrow> nat option \<Rightarrow> callback \<Rightarrow> addon \<Rightarrow> addon exec" where
  "call_reference J ref k st =
     (case ref of None \<Rightarrow> Fault (FatalError ''napi_get_reference_value'')
      | Some r \<Rightarrow> (case map_of (refs st) r of
            None \<Rightarrow> Fault WildPointer
          | Some f \<Rightarrow> napi_call_function J f (cstr (cb_msg k)) (st\<lparr>overrun := True\<rparr>)))"

definition handle_waku_version :: "js_env \<Rightarrow> callback \<Rightarrow> addon \<Rightarrow> addon exec" where
  "handle_waku_version J k st = call_reference J (ref_version_callback st) k st"

definition handle_error :: "js_env \<Rightarrow> callback \<Rightarrow> addon \<Rightarrow> addon exec" where
  "handle_error J k st = call_reference J (ref_on_error_callback st) k st"

definition handle_default_pubsub_topic :: "js_env \<Rightarrow> callback \<Rightarrow> addon \<Rightarrow> addon exec" where
  "handle_default_pubsub_topic J k st = call_reference J (ref_def_pubsub_topic_callback st) k st"

text \<open>
  \<^verbatim>\<open>event_handler\<close>: the throw on a missing thread-safe function does not return, so the
  message is copied and N-API is called with NULL.
\<close>

definition event_handler_js :: "callback \<Rightarrow> addon \<Rightarrow> addon exec" where
  "event_handler_js k st =
     bind_exec (malloc_strcpy (cb_len k) (cb_msg k)) (\<lambda>s.
       case thsafe_fn st of None \<Rightarrow> Fault (FatalError ''napi_call_threadsafe_function'')
       | Some f \<Rightarrow> Done (malloc ''allocated_msg'' (st\<lparr>queued := queued st @ [s]\<rparr>)))"

definition handle_content_topic_js :: "callback \<Rightarrow> addon \<Rightarrow> addon exec" where
  "handle_content_topic_js k st =
     bind_exec (malloc_strcpy (cb_len k) (cb_msg k)) (\<lambda>s.
       let st = (if contentTopicBuf st \<noteq> None then free ''contentTopic'' st else st)
       in Done (malloc ''contentTopic'' (st\<lparr>contentTopicBuf := Some s\<rparr>)))"

text \<open>\<^verbatim>\<open>CallJs\<close> on the oldest queued item; \<open>env\<close> is false while Node.js cleans up.\<close>

definition CallJs :: "js_env \<Rightarrow> bool \<Rightarrow> addon \<Rightarrow> addon exec" where
  "CallJs J env st =
     (case (queued st, thsafe_fn st) of
        (msg # rest, Some js_cb) \<Rightarrow>
          bind_exec (if env then napi_call_function J js_cb msg st else Done st)
            (\<lambda>st. Done (free ''allocated_msg'' (st\<lparr>queued := rest\<rparr>)))
      | _ \<Rightarrow> Done st)"

definition run_callback_js :: "js_env \<Rightarrow> callback \<Rightarrow> addon \<Rightarrow> addon exec" where
  "run_callback_js J k st =
     (if cb_fun k = ''event_handler'' then event_handler_js k st
      else if cb_fun k = ''handle_waku_version'' then handle_waku_version J k st
      else if cb_fun k = ''handle_error'' then handle_error J k st
      else if cb_fun k = ''handle_content_topic'' then handle_content_topic_js k st
      else if cb_fun k = ''handle_default_pubsub_topic'' then handle_default_pubsub_topic J k st
      else Fault WildPointer)"

definition call_waku_js :: "lib \<Rightarrow> js_env \<Rightarrow> api_call \<Rightarrow> addon \<Rightarrow> (int \<times> addon) exec" where
  "call_waku_js L J k st =
     bind_exec (run_api L k (ctx st)) (\<lambda>r.
     bind_exec (fold_exec (run_callback_js J) (calls r)
         (st\<lparr>ctx := ctx_after r, node_log := node_log st @ effects r\<rparr>)) (\<lambda>st'.
     Done (rc r, st')))"

definition WAKU_CALL_js :: "lib \<Rightarrow> js_env \<Rightarrow> api_call \<Rightarrow> addon \<Rightarrow> addon exec" where
  "WAKU_CALL_js L J k st =
     bind_exec (call_waku_js L J k st)
       (\<lambda>(ret, st'). if ret \<noteq> 0 then Fault (FatalError ''WAKU_CALL'') else Done st')"

section \<open>Exported functions\<close>

type_synonym js_result = "(string option \<times> addon) exec"

definition throw :: "string \<Rightarrow> addon \<Rightarrow> js_result" where
  "throw e st = Done (Some e, st)"

definition ok :: "addon \<Rightarrow> js_result" where
  "ok st = Done (None, st)"

text \<open>\<^verbatim>\<open>WakuNew\<close> checks no type: on anything but a string the size stays uninitialised.\<close>

definition WakuNew :: "lib \<Rightarrow> js_env \<Rightarrow> jsval list \<Rightarrow> addon \<Rightarrow> js_result" where
  "WakuNew L J args st =
     (if length args < 1 then throw ''Wrong number of arguments'' st
      else let buf = (if is_js_string (arg args 0) then napi_string (arg args 0)
                      else map (fresh J) [0..<Suc (str_size_junk J)]);
               st = malloc ''jsonConfig'' st
           in bind_exec (buf_str buf) (\<lambda>jsonConfig.
              bind_exec (call_waku_js L J (Waku_new jsonConfig (Some ''event_handler'') None) st) (\<lambda>(_, st).
              ok (free ''jsonConfig'' st))))"

definition WakuVersion :: "lib \<Rightarrow> js_env \<Rightarrow> jsval list \<Rightarrow> addon \<Rightarrow> js_result" where
  "WakuVersion L J args st =
     (if length args < 1 then throw ''Wrong number of arguments'' st
      else case js_function (arg args 0) of
        None \<Rightarrow> throw ''The argument should be a napi_function'' st
      | Some cb \<Rightarrow>
          (let st = (case ref_version_callback st of None \<Rightarrow> st | Some r \<Rightarrow> napi_delete_reference r st);
               (r, st) = napi_create_reference cb st;
               st = st\<lparr>ref_version_callback := Some r\<rparr>
           in bind_exec (WAKU_CALL_js L J (Waku_version (ctx_ptr st) (Some ''handle_waku_version'') None) st) ok))"

text \<open>
  \<^verbatim>\<open>waku_set_event_callback\<close> is called with two of its three arguments: the handler lands
  in the place of the context and the user data in that of the callback.
\<close>

definition WakuSetEventCallback :: "lib \<Rightarrow> js_env \<Rightarrow> jsval list \<Rightarrow> addon \<Rightarrow> js_result" where
  "WakuSetEventCallback L J args st =
     (if length args < 1 then throw ''Wrong number of arguments'' st
      else case js_function (arg args 0) of
        None \<Rightarrow> throw ''The argument should be a napi_function'' st
      | Some cb \<Rightarrow>
          bind_exec (call_waku_js L J (Waku_set_event_callback WildPtr None None) (st\<lparr>thsafe_fn := Some cb\<rparr>))
            (\<lambda>(_, st). ok st))"

definition WakuStart :: "lib \<Rightarrow> js_env \<Rightarrow> jsval list \<Rightarrow> addon \<Rightarrow> js_result" where
  "WakuStart L J args st =
     bind_exec (call_waku_js L J (Waku_start (ctx_ptr st) (Some ''event_handler'') None) st) (\<lambda>(_, st). ok st)"

definition WakuConnect :: "lib \<Rightarrow> js_env \<Rightarrow> jsval list \<Rightarrow> addon \<Rightarrow> js_result" where
  "WakuConnect L J args st =
     (if length args < 3 then throw ''Wrong number of arguments'' st
      else if \<not> is_js_string (arg args 0) then throw ''The peers attribute should be a string'' st
      else let p = napi_string (arg args 0); st = malloc ''peers'' st
           in case js_number (arg args 1) of
                None \<Rightarrow> throw ''The timeout attribute should be a number'' st
              | Some n \<Rightarrow> (case js_function (arg args 2) of
                    None \<Rightarrow> throw ''The argument should be a napi_function'' st
                  | Some cb \<Rightarrow>
                      (let (r, st) = napi_create_reference cb st;
                           st = st\<lparr>ref_on_error_callback := Some r\<rparr>
                       in bind_exec (WAKU_CALL_js L J (Waku_connect (ctx_ptr st) p (word_of_int (int_of_32 n))
                            (Some ''handle_error'') None) st) (\<lambda>st. ok (free ''peers'' st)))))"

text \<open>
  \<^verbatim>\<open>WakuRelayPublish\<close>. The timeout is an \<^verbatim>\<open>unsigned int\<close> into which N-API stores 64 bits: the
  low half is the timeout, the high half overruns the variable.
\<close>

definition int64_of :: "int \<Rightarrow> int" where
  "int64_of n = max (- (2 ^ 63)) (min (2 ^ 63 - 1) n)"

definition publish_json :: "js_env \<Rightarrow> string \<Rightarrow> string option \<Rightarrow> string" where
  "publish_json J msgPayload topic = snprintf_text 1024 (publish_text msgPayload (printable topic))"

definition publish_waku_message ::
  "lib \<Rightarrow> js_env \<Rightarrow> jsval list \<Rightarrow> string \<Rightarrow> string \<Rightarrow> string \<Rightarrow> addon \<Rightarrow> js_result" where
  "publish_waku_message L J args pubsub_topic jsonWakuMsg content_topic_name st =
     (case js_number (arg args 3) of
        None \<Rightarrow> throw ''The argument should be a napi_number'' st
      | Some n \<Rightarrow>
         (let timeoutMs = word_of_int (int64_of n); st = st\<lparr>overrun := True\<rparr> in
          case js_function (arg args 4) of
            None \<Rightarrow> throw ''The argument should be a napi_function'' st
          | Some cb \<Rightarrow>
              (let (r, st) = napi_create_reference cb st;
                   st = st\<lparr>ref_on_error_callback := Some r\<rparr>
               in bind_exec (WAKU_CALL_js L J (Waku_relay_publish (ctx_ptr st) pubsub_topic jsonWakuMsg timeoutMs
                    (Some ''handle_error'') None) st)
                    (\<lambda>st. ok (free ''content_topic_name'' (free ''pubsub_topic'' st))))))"

definition build_waku_message ::
  "lib \<Rightarrow> js_env \<Rightarrow> string \<Rightarrow> string \<Rightarrow> addon \<Rightarrow> (string \<times> addon) exec" where
  "build_waku_message L J content_topic_name msg st =
      bind_exec (encode_payload (oom J) (fresh J) msg) (\<lambda>msgPayload.
      let st = (if msg = [] then st else malloc ''msgPayload'' st) in
      bind_exec (WAKU_CALL_js L J (Waku_content_topic (ctx_ptr st) ''appName'' 1 content_topic_name ''encoding''
          (Some ''handle_content_topic'') None) st) (\<lambda>st.
      Done (publish_json J msgPayload (contentTopicBuf st),
            if msg = [] then st else free ''msgPayload'' st)))"

definition WakuRelayPublish :: "lib \<Rightarrow> js_env \<Rightarrow> jsval list \<Rightarrow> addon \<Rightarrow> js_result" where
  "WakuRelayPublish L J args st =
     (if length args < 5 then throw ''Wrong number of arguments'' st
      else if \<not> is_js_string (arg args 0) then
        throw ''The napiPubsubTopic attribute should be a string'' st
      else let pubsub_topic = napi_string (arg args 0); st = malloc ''pubsub_topic'' st in
      if \<not> is_js_string (arg args 1) then throw ''The content topic attribute should be a string'' st
      else let content_topic_name = napi_string (arg args 1); st = malloc ''content_topic_name'' st in
      if \<not> is_js_string (arg args 2) then throw ''The message attribute should be a string'' st
      else let msg = cstr (utf8_cut J 2047 (butlast (napi_string (arg args 2)))) in
      bind_exec (build_waku_message L J content_topic_name msg st) (\<lambda>(jsonWakuMsg, st).
      publish_waku_message L J args pubsub_topic jsonWakuMsg content_topic_name st))"

lemmas publish_defs = WakuRelayPublish_def build_waku_message_def publish_waku_message_def

definition WakuDefaultPubsubTopic :: "lib \<Rightarrow> js_env \<Rightarrow> jsval list \<Rightarrow> addon \<Rightarrow> js_result" where
  "WakuDefaultPubsubTopic L J args st =
     (if length args < 1 then throw ''Wrong number of arguments'' st
      else case js_function (arg args 0) of
        None \<Rightarrow> throw ''The argument should be a napi_function'' st
      | Some cb \<Rightarrow>
          (let st = (case ref_def_pubsub_topic_callback st of None \<Rightarrow> st | Some r \<Rightarrow> napi_delete_reference r st);
               (r, st) = napi_create_reference cb st;
               st = st\<lparr>ref_def_pubsub_topic_callback := Some r\<rparr>
           in bind_exec (WAKU_CALL_js L J (Waku_default_pubsub_topic (ctx_ptr st)
                (Some ''handle_default_pubsub_topic'') None) st) ok))"

definition WakuRelaySubscribe :: "lib \<Rightarrow> js_env \<Rightarrow> jsval list \<Rightarrow> addon \<Rightarrow> js_result" where
  "WakuRelaySubscribe L J args st =
     (if length args < 2 then throw ''Wrong number of arguments'' st
      else if \<not> is_js_string (arg args 0) then throw ''The topic attribute should be a string'' st
      else let pubsub_topic = napi_string (arg args 0); st = malloc ''pubsub_topic'' st
           in case js_function (arg args 1) of
                None \<Rightarrow> throw ''The argument should be a napi_function'' st
              | Some cb \<Rightarrow>
                  (let (r, st) = napi_create_reference cb st;
                       st = st\<lparr>ref_on_error_callback := Some r\<rparr>
                   in bind_exec (WAKU_CALL_js L J (Waku_relay_subscribe (ctx_ptr st) pubsub_topic
                        (Some ''handle_error'') None) st) (\<lambda>st. ok (free ''pubsub_topic'' st))))"

text \<open>\<^verbatim>\<open>Init\<close>: the functions JavaScript sees, by the name it sees.\<close>

definition Init :: "(string \<times> (lib \<Rightarrow> js_env \<Rightarrow> jsval list \<Rightarrow> addon \<Rightarrow> js_result)) list" where
  "Init =
    [(''wakuVersion'', WakuVersion), (''wakuNew'', WakuNew), (''wakuStart'', WakuStart),
     (''wakuSetEventCallback'', WakuSetEventCallback),
     (''wakuDefaultPubsubTopic'', WakuDefaultPubsubTopic),
     (''wakuRelaySubscribe'', WakuRelaySubscribe), (''wakuConnect'', WakuConnect),
     (''wakuRelayPublish'', WakuRelayPublish)]"

section \<open>References and events\<close>

text \<open>The steps of the process: a call from JavaScript that returns, or a queued event.\<close>

inductive js_step :: "lib \<Rightarrow> js_env \<Rightarrow> addon \<Rightarrow> addon \<Rightarrow> bool" for L J where
  js_call: "(name, f) \<in> set Init \<Longrightarrow> f L J args st = Done (thrown, st') \<Longrightarrow> js_step L J st st'"
| js_event: "CallJs J env st = Done st' \<Longrightarrow> js_step L J st st'"

inductive js_reachable :: "lib \<Rightarrow> js_env \<Rightarrow> addon \<Rightarrow> bool" for L J where
  js_start: "js_reachable L J addon_init"
| js_next: "js_reachable L J st \<Longrightarrow> js_step L J st st' \<Longrightarrow> js_reachable L J st'"

inductive_cases js_stepE: "js_step L J st st'"

text \<open>What callbacks leave alone, and the invariant of the references.\<close>

definition ref_state :: "addon \<Rightarrow> _" where
  "ref_state st = (refs st, next_ref st, ref_version_callback st, ref_def_pubsub_topic_callback st,
     ref_on_error_callback st, thsafe_fn st)"

definition ref_inv :: "(nat \<times> nat) list \<Rightarrow> nat \<Rightarrow> nat option \<Rightarrow> nat option \<Rightarrow> nat option \<Rightarrow> bool" where
  "ref_inv rs n v d e \<longleftrightarrow> distinct (map fst rs) \<and> (\<forall>r \<in> fst ` set rs. r < n)
     \<and> set_option v \<subseteq> fst ` set rs \<and> set_option d \<subseteq> fst ` set rs \<and> set_option e \<subseteq> fst ` set rs
     \<and> set_option v \<inter> set_option d = {} \<and> set_option v \<inter> set_option e = {} \<and> set_option d \<inter> set_option e = {}"

definition refs_ok :: "addon \<Rightarrow> bool" where
  "refs_ok st \<longleftrightarrow> ref_inv (refs st) (next_ref st) (ref_version_callback st)
       (ref_def_pubsub_topic_callback st) (ref_on_error_callback st)
     \<and> thsafe_fn st = None \<and> queued st = []"

lemma ref_inv_add:
  assumes "ref_inv rs n v d e"
  shows "ref_inv ((n, f) # rs) (Suc n) (Some n) d e" "ref_inv ((n, f) # rs) (Suc n) v (Some n) e"
    "ref_inv ((n, f) # rs) (Suc n) v d (Some n)"
proof -
  have n: "n \<notin> fst ` set rs" and b: "\<forall>r \<in> fst ` set rs. r < Suc n"
    using assms unfolding ref_inv_def by (blast intro: less_SucI)+
  then have m: "n \<notin> set_option v" "n \<notin> set_option d" "n \<notin> set_option e"
    using assms unfolding ref_inv_def by blast+
  have i: "set_option v \<subseteq> insert n (fst ` set rs)" "set_option d \<subseteq> insert n (fst ` set rs)"
    "set_option e \<subseteq> insert n (fst ` set rs)" "distinct (map fst rs)"
    "set_option v \<inter> set_option d = {}" "set_option v \<inter> set_option e = {}" "set_option d \<inter> set_option e = {}"
    using assms unfolding ref_inv_def by blast+
  show "ref_inv ((n, f) # rs) (Suc n) (Some n) d e" "ref_inv ((n, f) # rs) (Suc n) v (Some n) e"
    "ref_inv ((n, f) # rs) (Suc n) v d (Some n)"
    unfolding ref_inv_def using n b m i by simp_all
qed

lemma ref_inv_del:
  assumes "ref_inv rs n v d e"
  shows "v = Some r \<Longrightarrow> ref_inv (filter (\<lambda>(i, f). i \<noteq> r) rs) n None d e"
    "d = Some r \<Longrightarrow> ref_inv (filter (\<lambda>(i, f). i \<noteq> r) rs) n v None e"
proof -
  have s: "fst ` set (filter (\<lambda>(i, f). i \<noteq> r) rs) = fst ` set rs - {r}" by force
  have d: "distinct (map fst (filter (\<lambda>(i, f). i \<noteq> r) rs))"
    using assms by (simp add: ref_inv_def distinct_map_filter)
  show "v = Some r \<Longrightarrow> ref_inv (filter (\<lambda>(i, f). i \<noteq> r) rs) n None d e"
    "d = Some r \<Longrightarrow> ref_inv (filter (\<lambda>(i, f). i \<noteq> r) rs) n v None e"
    unfolding ref_inv_def s using d assms unfolding ref_inv_def by auto
qed

lemma refs_ok_cong: "ref_state st' = ref_state st \<Longrightarrow> queued st' = queued st \<Longrightarrow> refs_ok st' = refs_ok st"
  by (simp add: refs_ok_def ref_state_def)

lemma ref_state_mem [simp]:
  "ref_state (malloc x st) = ref_state st" "ref_state (free x st) = ref_state st"
  "queued (malloc x st) = queued st" "queued (free x st) = queued st"
  "ref_state (st\<lparr>overrun := b\<rparr>) = ref_state st" "ref_state (st\<lparr>contentTopicBuf := c\<rparr>) = ref_state st"
  "ref_state (st\<lparr>ctx := k, node_log := l\<rparr>) = ref_state st"
  by (simp_all add: ref_state_def malloc_def free_def)

lemma call_reference_state:
  "call_reference J ref k st = Done st' \<Longrightarrow> ref_state st' = ref_state st \<and> queued st' = queued st"
  by (auto simp: call_reference_def napi_call_function_def ref_state_def split: option.splits if_splits)

lemma run_callback_state:
  assumes "run_callback_js J k st = Done st'" and "thsafe_fn st = None"
  shows "ref_state st' = ref_state st \<and> queued st' = queued st"
  using assms
  by (auto simp: run_callback_js_def handle_waku_version_def handle_error_def handle_default_pubsub_topic_def
      handle_content_topic_js_def event_handler_js_def Let_def split: if_splits option.splits
      dest: call_reference_state)

lemma thsafe_ref_state: "ref_state st' = ref_state st \<Longrightarrow> thsafe_fn st' = thsafe_fn st"
  by (simp add: ref_state_def)

lemma call_waku_js_state:
  assumes "call_waku_js L J k st = Done (ret, st')" and "thsafe_fn st = None"
  shows "ref_state st' = ref_state st \<and> queued st' = queued st"
proof -
  from assms(1) obtain r :: api where r: "fold_exec (run_callback_js J) (calls r)
      (st\<lparr>ctx := ctx_after r, node_log := node_log st @ effects r\<rparr>) = Done st'"
    by (auto simp: call_waku_js_def simp del: fold_exec.simps)
  show ?thesis
    by (rule fold_exec_invariant [OF _ r, of "\<lambda>s. ref_state s = ref_state st \<and> queued s = queued st"])
      (use assms(2) in \<open>auto dest!: run_callback_state dest: thsafe_ref_state\<close>)
qed

lemma WAKU_CALL_js_state:
  assumes "WAKU_CALL_js L J k st = Done st'" and "thsafe_fn st = None"
  shows "ref_state st' = ref_state st \<and> queued st' = queued st"
  using assms by (auto simp: WAKU_CALL_js_def split: if_splits dest: call_waku_js_state)

lemma refs_ok_call:
  "call_waku_js L J k st = Done (ret, st') \<Longrightarrow> refs_ok st \<Longrightarrow> refs_ok st'"
  "WAKU_CALL_js L J k st = Done st' \<Longrightarrow> refs_ok st \<Longrightarrow> refs_ok st'"
  using call_waku_js_state [of L J k st ret st'] WAKU_CALL_js_state [of L J k st st']
    refs_ok_cong [of st' st] by (auto simp: refs_ok_def)

lemma refs_ok_mem:
  "refs_ok st \<Longrightarrow> refs_ok (malloc x st)" "refs_ok st \<Longrightarrow> refs_ok (free x st)"
  "refs_ok st \<Longrightarrow> refs_ok (st\<lparr>overrun := b\<rparr>)"
  using refs_ok_cong [of "malloc x st" st] refs_ok_cong [of "free x st" st] refs_ok_cong [of "st\<lparr>overrun := b\<rparr>" st]
  by simp_all

lemma refs_ok_on_error:
  assumes "napi_create_reference cb st = (r, st1)" and "refs_ok st"
  shows "refs_ok (st1\<lparr>ref_on_error_callback := Some r\<rparr>)"
  using assms ref_inv_add(3) by (auto simp: refs_ok_def napi_create_reference_def)

lemma refs_ok_version:
  "napi_create_reference cb st = (r, st1) \<Longrightarrow> refs_ok st \<Longrightarrow> refs_ok (st1\<lparr>ref_version_callback := Some r\<rparr>)"
  "napi_create_reference cb (napi_delete_reference q st) = (r, st1) \<Longrightarrow> ref_version_callback st = Some q \<Longrightarrow>
     refs_ok st \<Longrightarrow> refs_ok (st1\<lparr>ref_version_callback := Some r\<rparr>)"
  using ref_inv_add(1) ref_inv_add(1) [OF ref_inv_del(1) [OF _ refl]]
  by (auto simp: refs_ok_def napi_create_reference_def napi_delete_reference_def)

lemma refs_ok_def_pubsub:
  "napi_create_reference cb st = (r, st1) \<Longrightarrow> refs_ok st \<Longrightarrow> refs_ok (st1\<lparr>ref_def_pubsub_topic_callback := Some r\<rparr>)"
  "napi_create_reference cb (napi_delete_reference q st) = (r, st1) \<Longrightarrow> ref_def_pubsub_topic_callback st = Some q \<Longrightarrow>
     refs_ok st \<Longrightarrow> refs_ok (st1\<lparr>ref_def_pubsub_topic_callback := Some r\<rparr>)"
  using ref_inv_add(2) ref_inv_add(2) [OF ref_inv_del(2) [OF _ refl]]
  by (auto simp: refs_ok_def napi_create_reference_def napi_delete_reference_def)

lemma set_event_callback_faults:
  "WakuSetEventCallback L J args st = Done (thrown, st') \<Longrightarrow> st' = st \<and> thrown \<noteq> None"
  by (auto simp: WakuSetEventCallback_def throw_def ok_def call_waku_js_def waku_set_event_callback_def
      deref_def split: if_splits option.splits)

lemmas js_simps = throw_def ok_def Let_def
lemmas refs_ok_chain = refs_ok_call refs_ok_on_error refs_ok_version(2) refs_ok_version(1)
  refs_ok_def_pubsub(2) refs_ok_def_pubsub(1)

lemma refs_ok_functions:
  "WakuNew L J args st = Done (thrown, st') \<Longrightarrow> refs_ok st \<Longrightarrow> refs_ok st'"
  "WakuVersion L J args st = Done (thrown, st') \<Longrightarrow> refs_ok st \<Longrightarrow> refs_ok st'"
  "WakuStart L J args st = Done (thrown, st') \<Longrightarrow> refs_ok st \<Longrightarrow> refs_ok st'"
  "WakuDefaultPubsubTopic L J args st = Done (thrown, st') \<Longrightarrow> refs_ok st \<Longrightarrow> refs_ok st'"
  "WakuConnect L J args st = Done (thrown, st') \<Longrightarrow> refs_ok st \<Longrightarrow> refs_ok st'"
  "WakuRelaySubscribe L J args st = Done (thrown, st') \<Longrightarrow> refs_ok st \<Longrightarrow> refs_ok st'"
  by (auto simp: WakuNew_def WakuVersion_def WakuStart_def WakuDefaultPubsubTopic_def WakuConnect_def
      WakuRelaySubscribe_def js_simps split: if_splits option.splits prod.splits,
    ((rule refs_ok_mem | erule refs_ok_chain | assumption)+))

lemma refs_ok_message:
  "build_waku_message L J n msg st = Done (j, st') \<Longrightarrow> refs_ok st \<Longrightarrow> refs_ok st'"
  by (auto simp: build_waku_message_def Let_def split: if_splits,
    ((rule refs_ok_mem | erule refs_ok_chain | assumption)+))

lemma refs_ok_send:
  "publish_waku_message L J args t j n st = Done (thrown, st') \<Longrightarrow> refs_ok st \<Longrightarrow> refs_ok st'"
  by (auto simp: publish_waku_message_def js_simps split: option.splits prod.splits,
    ((rule refs_ok_mem | erule refs_ok_chain | assumption)+))

lemma refs_ok_publish:
  "WakuRelayPublish L J args st = Done (thrown, st') \<Longrightarrow> refs_ok st \<Longrightarrow> refs_ok st'"
  by (auto simp: WakuRelayPublish_def js_simps split: if_splits prod.splits,
    ((rule refs_ok_mem | erule refs_ok_send refs_ok_message | assumption)+))

lemma refs_ok_step:
  assumes "js_step L J st st'" and "refs_ok st"
  shows "refs_ok st'"
  using assms(1)
proof (rule js_stepE)
  fix env
  assume "CallJs J env st = Done st'"
  with assms(2) show ?thesis by (auto simp: CallJs_def refs_ok_def)
next
  fix name f args thrown
  assume js_call: "(name, f) \<in> set Init" "f L J args st = Done (thrown, st')"
  then consider "f = WakuVersion" | "f = WakuNew" | "f = WakuStart" | "f = WakuSetEventCallback"
    | "f = WakuDefaultPubsubTopic" | "f = WakuRelaySubscribe" | "f = WakuConnect" | "f = WakuRelayPublish"
    by (auto simp: Init_def)
  then show ?thesis
    using js_call(2) assms(2)
    by cases (auto dest: refs_ok_functions refs_ok_publish set_event_callback_faults)
qed

text \<open>C6: in every state the process can be in, the references the addon keeps in its variables
  are live and distinct, so no callback reads a deleted one; and no event has been queued
  for JavaScript: \<^verbatim>\<open>WakuSetEventCallback\<close>, the only function that installs a receiver, never
  returns from its call of the library when it is given a function.\<close>

theorem addon_invariant:
  assumes "js_reachable L J st"
  shows "refs_ok st \<and> thsafe_fn st = None \<and> queued st = []
    \<and> (\<forall>cb. WakuSetEventCallback L J [JsFunction cb] st = Fault WildPointer)"
  using assms
proof induction
  case js_start
  show ?case
    by (simp add: addon_init_def refs_ok_def ref_inv_def WakuSetEventCallback_def arg_def call_waku_js_def
        waku_set_event_callback_def deref_def)
next
  case (js_next st st')
  then have "refs_ok st'" using refs_ok_step by blast
  then show ?case
    by (simp add: refs_ok_def WakuSetEventCallback_def arg_def call_waku_js_def waku_set_event_callback_def deref_def)
qed

definition sample_env :: js_env where
  "sample_env = \<lparr>js_throws = (\<lambda>_ _. False), utf8_cut = take, str_size_junk = 0,
     fresh = (\<lambda>_. CHR 0x00), oom = False\<rparr>"

text \<open>After \<^verbatim>\<open>wakuNew("{}")\<close> and \<^verbatim>\<open>wakuVersion(f)\<close>.\<close>

lemma sample_run:
  "\<exists>st. js_reachable sample_lib sample_env st \<and> ctx st \<noteq> None \<and> ref_version_callback st = Some 0"
proof -
  obtain st1 where 1: "WakuNew sample_lib sample_env [JsString ''{}''] addon_init = Done (None, st1)"
    "ctx st1 \<noteq> None" "refs st1 = []" "next_ref st1 = 0" "ref_version_callback st1 = None"
    by (simp add: WakuNew_def arg_def js_simps napi_string_def buf_str_def call_waku_js_def waku_new_def
        sample_lib_def sample_node_def send_def sendRequestToWakuThread_def worker_round_def response_process_def
        response_createShared_def malloc_def free_def addon_init_def)
  then obtain st2 where 2: "WakuVersion sample_lib sample_env [JsFunction 5] st1 = Done (None, st2)"
    "ctx st2 \<noteq> None" "ref_version_callback st2 = Some 0"
    by (auto simp: WakuVersion_def arg_def js_simps WAKU_CALL_js_def call_waku_js_def waku_version_def api_defs
        ctx_ptr_def sample_lib_def run_callback_js_def handle_waku_version_def call_reference_def
        napi_call_function_def napi_create_reference_def sample_env_def ret_defs)
  have "js_step sample_lib sample_env addon_init st1" "js_step sample_lib sample_env st1 st2"
    using js_step.js_call [where name = "''wakuNew''" and f = WakuNew, OF _ 1(1)]
      js_step.js_call [where name = "''wakuVersion''" and f = WakuVersion, OF _ 2(1)]
    by (simp_all add: Init_def)
  then have "js_reachable sample_lib sample_env st2" by (blast intro: js_start js_next)
  with 2 show ?thesis by blast
qed

theorem addon_invariant_witness:
  "\<exists>st. js_reachable sample_lib sample_env st \<and> ref_version_callback st = Some 0 \<and> refs_ok st"
proof -
  from sample_run obtain st where st: "js_reachable sample_lib sample_env st" "ref_version_callback st = Some 0" by blast
  with addon_invariant [OF st(1)] show ?thesis by blast
qed

section \<open>Errors and results\<close>

text \<open>A call of the library whose callback is \<^verbatim>\<open>handle_error\<close>.\<close>

lemma run_handle_error:
  assumes "fold_exec (run_callback_js J) ks st = Done st'"
    and "ks = [] \<or> (\<exists>k. ks = [k] \<and> cb_fun k = ''handle_error'')"
  shows "js_log st' = js_log st @ map (\<lambda>k. (the (map_of (refs st) (the (ref_on_error_callback st))), cstr (cb_msg k))) ks"
  using assms
  by (auto simp: run_callback_js_def handle_error_def call_reference_def napi_call_function_def
      split: option.splits if_splits)

lemma handle_error_call:
  assumes "WAKU_CALL_js L J k st = Done st'" and "api_args k = (Some a, Some ''handle_error'', u)"
  obtains r where "run_api L k (ctx st) = Done r" "rc r = RET_OK"
    "js_log st' = js_log st @ map (\<lambda>c. (the (map_of (refs st) (the (ref_on_error_callback st))), cstr (cb_msg c))) (calls r)"
proof -
  obtain r where r: "run_api L k (ctx st) = Done r" "rc r = 0"
    "fold_exec (run_callback_js J) (calls r) (st\<lparr>ctx := ctx_after r, node_log := node_log st @ effects r\<rparr>) = Done st'"
    using assms(1) by (auto simp: WAKU_CALL_js_def call_waku_js_def split: if_splits)
  have c: "contract (Some ''handle_error'') u r" using callback_contract [OF r(1) assms(2)] .
  then have "calls r = [] \<or> (\<exists>k. calls r = [k] \<and> cb_fun k = ''handle_error'')"
    by (auto simp: contract_def well_formed_call_def split: list.splits)
  from run_handle_error [OF r(3) this] r that show thesis by (simp add: ret_defs)
qed

lemma log_mem [simp]:
  "js_log (malloc x st) = js_log st" "js_log (free x st) = js_log st" "ctx (malloc x st) = ctx st"
  "refs (malloc x st) = refs st" "contentTopicBuf (malloc x st) = contentTopicBuf st"
  by (simp_all add: malloc_def free_def)

lemma quiet_calls:
  assumes "run_api L k c = Done r" and "rc r = RET_OK"
    and "(\<exists>a p ms. k = Waku_connect a p ms cb u) \<or> (\<exists>a t. k = Waku_relay_subscribe a t cb u)"
  shows "calls r = []"
  using assms
  by (auto simp: waku_connect_def waku_relay_subscribe_def call_api_def done_api_def ret_defs Let_def
      simp del: bind_exec_Done_iff split: sum.splits prod.splits elim!: enterE bind_execE)

lemma publish_calls:
  assumes "run_api L (Waku_relay_publish a t m ms (Some f) u) c = Done r" and "rc r = RET_OK"
  shows "\<exists>k. calls r = [k] \<and> cb_msg k \<noteq> []"
  using assms
  by (auto simp: waku_relay_publish_def call_api_def invoke_def ret_defs Let_def
      simp del: bind_exec_Done_iff split: sum.splits prod.splits if_splits elim!: enterE bind_execE)

lemma content_topic_call:
  assumes "WAKU_CALL_js L J (Waku_content_topic a app v n enc (Some ''handle_content_topic'') u) st = Done st'"
  shows "js_log st' = js_log st"
  using assms
  by (auto simp: WAKU_CALL_js_def call_waku_js_def waku_content_topic_def call_api_def invoke_def
      run_callback_js_def handle_content_topic_js_def Let_def malloc_def free_def
      simp del: bind_exec_Done_iff elim!: enterE bind_execE split: if_splits)

text \<open>A reference just made is the one \<^verbatim>\<open>handle_error\<close> reads.\<close>

lemma new_reference:
  assumes "napi_create_reference cb st = (r, st1)"
  shows "map_of (refs (st1\<lparr>ref_on_error_callback := Some r\<rparr>))
      (the (ref_on_error_callback (st1\<lparr>ref_on_error_callback := Some r\<rparr>))) = Some cb"
    and "js_log (st1\<lparr>ref_on_error_callback := Some r\<rparr>) = js_log st"
  using assms by (auto simp: napi_create_reference_def)

lemma js_function_Some [simp]: "js_function v = Some cb \<longleftrightarrow> v = JsFunction cb"
  by (cases v) auto

lemma quiet_error_call:
  assumes "WAKU_CALL_js L J k st = Done st'"
    and "(\<exists>a p ms. k = Waku_connect a p ms (Some ''handle_error'') u)
       \<or> (\<exists>a t. k = Waku_relay_subscribe a t (Some ''handle_error'') u)"
  shows "js_log st' = js_log st"
proof -
  from assms(2) obtain a where "api_args k = (Some a, Some ''handle_error'', u)" by auto
  from handle_error_call [OF assms(1) this] obtain r where r: "run_api L k (ctx st) = Done r" "rc r = RET_OK"
    "js_log st' = js_log st @ map (\<lambda>c. (the (map_of (refs st) (the (ref_on_error_callback st))), cstr (cb_msg c))) (calls r)"
    by blast
  from quiet_calls [OF r(1,2) assms(2)] r(3) show ?thesis by simp
qed

lemma publish_error_call:
  assumes "WAKU_CALL_js L J (Waku_relay_publish a t m ms (Some ''handle_error'') u) st = Done st'"
    and "map_of (refs st) (the (ref_on_error_callback st)) = Some cb"
  shows "\<exists>hash. js_log st' = js_log st @ [(cb, cstr hash)] \<and> hash \<noteq> []"
proof -
  from handle_error_call [OF assms(1)] obtain r where
    r: "run_api L (Waku_relay_publish a t m ms (Some ''handle_error'') u) (ctx st) = Done r" "rc r = RET_OK"
    "js_log st' = js_log st @ map (\<lambda>c. (the (map_of (refs st) (the (ref_on_error_callback st))), cstr (cb_msg c))) (calls r)"
    by auto
  from publish_calls [OF r(1,2)] r(3) assms(2) show ?thesis by auto
qed

lemma connect_log_js: "WakuConnect L J args st = Done (None, st') \<Longrightarrow> js_log st' = js_log st"
  by (auto simp: WakuConnect_def js_simps napi_create_reference_def split: if_splits option.splits
      dest!: quiet_error_call)

lemma subscribe_log_js: "WakuRelaySubscribe L J args st = Done (None, st') \<Longrightarrow> js_log st' = js_log st"
  by (auto simp: WakuRelaySubscribe_def js_simps napi_create_reference_def split: if_splits option.splits
      dest!: quiet_error_call)

lemma build_log_js: "build_waku_message L J n msg st = Done (j, st') \<Longrightarrow> js_log st' = js_log st"
  by (auto simp: build_waku_message_def Let_def split: if_splits dest!: content_topic_call)

lemma publish_message_log_js:
  assumes "publish_waku_message L J args t j n st = Done (None, st')"
  shows "\<exists>cb hash. arg args 4 = JsFunction cb \<and> js_log st' = js_log st @ [(cb, cstr hash)] \<and> hash \<noteq> []"
  using assms
  by (auto simp: publish_waku_message_def js_simps napi_create_reference_def split: option.splits
      dest!: publish_error_call)

lemma publish_log_js:
  "WakuRelayPublish L J args st = Done (None, st') \<Longrightarrow>
     \<exists>cb hash. arg args 4 = JsFunction cb \<and> js_log st' = js_log st @ [(cb, cstr hash)] \<and> hash \<noteq> []"
  by (auto simp: WakuRelayPublish_def js_simps split: if_splits prod.splits
      dest!: build_log_js publish_message_log_js)

text \<open>The \<^verbatim>\<open>onError\<close> function of \<^verbatim>\<open>wakuConnect\<close> and \<^verbatim>\<open>wakuRelaySubscribe\<close> is never called in a process
  that survives the call: an error reaches it and the process is then aborted by
  \<^verbatim>\<open>WAKU_CALL\<close>. That of \<^verbatim>\<open>wakuRelayPublish\<close> is called on success: after a publish that returns it
  has been called exactly once, with the message hash.\<close>

theorem on_error_calls:
  "(WakuConnect L J args st = Done (None, st') \<longrightarrow> js_log st' = js_log st)
   \<and> (WakuRelaySubscribe L J args st = Done (None, st') \<longrightarrow> js_log st' = js_log st)
   \<and> (WakuRelayPublish L J args st = Done (None, st') \<longrightarrow>
        (\<exists>cb hash. arg args 4 = JsFunction cb \<and> js_log st' = js_log st @ [(cb, cstr hash)] \<and> hash \<noteq> []))"
  using connect_log_js subscribe_log_js publish_log_js by blast

text \<open>
  The content topic name goes into the text unescaped: a name with a quote can smuggle in the
  \<^verbatim>\<open>contentTopic\<close> the text lacks, and only such a publish returns.
\<close>

lemma show_nat_1: "show_nat 1 = ''1''"
proof -
  have "char_of (of_char (CHR ''1'') :: nat) = CHR ''1''" by (rule char_of_char)
  then show ?thesis by (simp add: show_nat.simps digit_char_def)
qed

lemmas show_nat_Suc_0 = show_nat_1 [unfolded One_nat_def]

definition smuggle :: "string \<Rightarrow> string \<Rightarrow> string" where
  "smuggle a b = a @ [QUOTE] @ '','' @ quoted ''contentTopic'' @ '':'' @ [QUOTE] @ b"

lemma parse_smuggled:
  assumes "plain_string p" and "plain_string a" and "plain_string b"
  shows "parse_json (publish_text p (smuggle a b)) =
    Some (JObject [(''payload'', JString p), (''content_topic'', JString a), (''contentTopic'', JString b)])"
proof -
  have k: "plain_string ''contentTopic''" by (simp add: plain_string_def)
  have "lex (publish_text p (smuggle a b)) =
      [TCurlyLe, TStr ''payload'', TColon, TStr p, TComma, TStr ''content_topic'', TColon, TStr a, TComma,
       TStr ''contentTopic'', TColon, TStr b, TCurlyRi]"
    using lex_plain [OF assms(1)] lex_plain [OF assms(2)] lex_plain [OF assms(3)] lex_plain [OF k]
      lex_plain [OF plain_keys(1)] lex_plain [OF plain_keys(2)]
    by (simp add: publish_text_def smuggle_def quoted_def lex_punct)
  then show ?thesis
    by (simp add: parse_json_def parse_value.simps parse_members.simps DepthLimit_def)
qed

definition sample_publish :: "jsval list" where
  "sample_publish = [JsString ''t'', JsString (smuggle ''n'' ''/a/1/b/c''), JsString ''hi'', JsNumber 10, JsFunction 7]"

lemma malloc_strcpy_whole [simp]: "malloc_strcpy (length s) s = Done (cstr s)"
  by (simp add: malloc_strcpy_def length_cstr_le)

lemma content_topic_text_ne [simp]: "content_topic_text a v n e \<noteq> []"
  by (simp add: content_topic_text_def)

lemma sample_text:
  "cstr (publish_json sample_env (b64_spec (str_bytes ''hi''))
      (Some (cstr (content_topic_text ''appName'' 1 (smuggle ''n'' ''/a/1/b/c'' @ [CHR 0x00]) ''encoding''))))
   = publish_text (b64_spec (str_bytes ''hi'')) (smuggle ''/appName/1/n'' ''/a/1/b/c/encoding'')"
proof -
  have n: "CHR 0x00 \<notin> set (smuggle ''n'' ''/a/1/b/c'')" by (simp add: smuggle_def quoted_def)
  have "content_topic_text ''appName'' 1 (smuggle ''n'' ''/a/1/b/c'' @ [CHR 0x00]) ''encoding''
      = smuggle ''/appName/1/n'' ''/a/1/b/c/encoding''"
    using cstr_append_NUL [OF n, of "[]"]
    by (simp add: content_topic_text_def show_nat_Suc_0 smuggle_def quoted_def)
  moreover have "CHR 0x00 \<notin> set (smuggle ''/appName/1/n'' ''/a/1/b/c/encoding'')"
    by (simp add: smuggle_def quoted_def)
  moreover have "CHR 0x00 \<notin> set (b64_spec (str_bytes ''hi''))"
    using set_b64_spec [of "str_bytes ''hi''"] by (auto simp: b64_alphabet_def)
  moreover have "length (publish_text (b64_spec (str_bytes ''hi'')) (smuggle ''/appName/1/n'' ''/a/1/b/c/encoding'')) \<le> 1023"
    by (simp add: length_publish_text length_b64_spec str_bytes_def smuggle_def quoted_def)
  ultimately show ?thesis
    by (simp only: publish_json_def printable_def snprintf_text_def option.case cstr_id publish_text_calls(1)
        take_all_iff) (simp add: publish_text_calls(1) cstr_id)
qed

lemma sample_publish_returns:
  "\<exists>st. WakuRelayPublish sample_lib sample_env sample_publish (addon_init\<lparr>ctx := Some sample_ctx\<rparr>) = Done (None, st)"
proof -
  let ?p = "b64_spec (str_bytes ''hi'')"
  have e: "encode_payload False (\<lambda>_. CHR 0x00) ''hi'' = Done ?p"
    by (rule encode_payload_spec) simp_all
  have "plain_string ?p" "plain_string ''/appName/1/n''" "plain_string ''/a/1/b/c/encoding''"
    using set_b64_spec [of "str_bytes ''hi''"] by (auto simp: plain_string_def b64_alphabet_def)
  from parse_smuggled [OF this] have j: "parseJson L (cstr (publish_json sample_env ?p (Some (cstr
      (content_topic_text ''appName'' 1 (smuggle ''n'' ''/a/1/b/c'' @ [CHR 0x00]) ''encoding'')))))
    = Inr (JObject [(''payload'', JString ?p), (''content_topic'', JString ''/appName/1/n''),
        (''contentTopic'', JString ''/a/1/b/c/encoding'')])" for L
    by (simp add: sample_text parseJson_def)
  have s: "utf8_cut sample_env 2047 ''hi'' = ''hi''" "oom sample_env = False" "fresh sample_env = (\<lambda>_. CHR 0x00)"
    "js_throws sample_env f m = False" for f m
    by (simp_all add: sample_env_def)
  show ?thesis
    using e j s
    by (simp add: sample_lib_def sample_node_def fromJsonNode_def json_at_def json_get_def toWakuMessage_def
        send_def sendRequestToWakuThread_def worker_round_def process_relay_def relay_createShared_def response_process_def
        response_createShared_def cstr_alloc publish_defs sample_publish_def arg_def js_simps napi_string_def WAKU_CALL_js_def
        call_waku_js_def waku_content_topic_def waku_relay_publish_def api_defs ctx_ptr_def addon_init_def
        run_callback_js_def handle_content_topic_js_def handle_error_def call_reference_def
        napi_call_function_def napi_create_reference_def malloc_def free_def ret_defs)
qed

theorem on_error_calls_witness:
  "\<exists>st hash. WakuRelayPublish sample_lib sample_env sample_publish (addon_init\<lparr>ctx := Some sample_ctx\<rparr>) = Done (None, st)
     \<and> js_log st = [(7, cstr hash)]"
proof -
  from sample_publish_returns obtain st where
    st: "WakuRelayPublish sample_lib sample_env sample_publish (addon_init\<lparr>ctx := Some sample_ctx\<rparr>) = Done (None, st)"
    by blast
  with on_error_calls [of sample_lib sample_env sample_publish "addon_init\<lparr>ctx := Some sample_ctx\<rparr>" st]
  have "\<exists>cb hash. arg sample_publish 4 = JsFunction cb
      \<and> js_log st = js_log (addon_init\<lparr>ctx := Some sample_ctx\<rparr>) @ [(cb, cstr hash)] \<and> hash \<noteq> []" by blast
  with st show ?thesis by (auto simp: sample_publish_def arg_def addon_init_def)
qed

section \<open>Memory\<close>

definition live :: "addon \<Rightarrow> string \<Rightarrow> int" where
  "live st x = int (allocs (mem st) x) - int (frees (mem st) x)"

lemma live_malloc [simp]: "live (malloc y st) x = live st x + (if x = y then 1 else 0)"
  by (simp add: live_def malloc_def allocs_def frees_def)

lemma live_free [simp]: "live (free y st) x = live st x - (if x = y then 1 else 0)"
  by (simp add: live_def free_def allocs_def frees_def)

lemma live_update [simp]:
  "live (st\<lparr>overrun := b\<rparr>) x = live st x" "live (st\<lparr>ref_on_error_callback := r\<rparr>) x = live st x"
  "live (st\<lparr>refs := rs, next_ref := n\<rparr>) x = live st x"
  "live (st\<lparr>contentTopicBuf := c\<rparr>) x = live st x" "live (st\<lparr>queued := q\<rparr>) x = live st x"
  "live (st\<lparr>ctx := k, node_log := l\<rparr>) x = live st x" "live (st\<lparr>js_log := j\<rparr>) x = live st x"
  by (simp_all add: live_def)

lemma live_callback:
  assumes "run_callback_js J k st = Done st'" and "x \<notin> {''allocated_msg'', ''contentTopic''}"
  shows "live st' x = live st x"
  using assms
  by (auto simp: run_callback_js_def handle_waku_version_def handle_error_def handle_default_pubsub_topic_def
      handle_content_topic_js_def event_handler_js_def call_reference_def napi_call_function_def Let_def
      split: if_splits option.splits)

lemma live_WAKU_CALL:
  assumes "WAKU_CALL_js L J k st = Done st'" and "x \<notin> {''allocated_msg'', ''contentTopic''}"
  shows "live st' x = live st x"
proof -
  from assms(1) obtain r :: api where r: "fold_exec (run_callback_js J) (calls r)
      (st\<lparr>ctx := ctx_after r, node_log := node_log st @ effects r\<rparr>) = Done st'"
    by (auto simp: WAKU_CALL_js_def call_waku_js_def simp del: fold_exec.simps split: if_splits)
  have "live s' x = live st x" if "run_callback_js J k s = Done s'" "live s x = live st x" for k s s'
    using live_callback [OF that(1) assms(2)] that(2) by simp
  from fold_exec_invariant [where P = "\<lambda>s. live s x = live st x", OF this r] show ?thesis by simp
qed

lemma napi_create_reference_live:
  "napi_create_reference cb st = (r, st1) \<Longrightarrow> live (st1\<lparr>ref_on_error_callback := Some r\<rparr>) x = live st x"
  by (auto simp: napi_create_reference_def live_def)

lemma live_build:
  assumes "build_waku_message L J n msg st = Done (j, st')" and "x \<notin> {''allocated_msg'', ''contentTopic''}"
  shows "live st' x = live st x"
  using assms(1) live_WAKU_CALL [OF _ assms(2)]
  by (auto simp: build_waku_message_def Let_def split: if_splits)

lemma live_publish:
  assumes "publish_waku_message L J args t j n st = Done (thrown, st')" and "x \<notin> {''allocated_msg'', ''contentTopic''}"
  shows "live st' x = live st x
    - (if thrown = None \<and> x \<in> {''pubsub_topic'', ''content_topic_name''} then 1 else 0)"
proof -
  have n: "live (st2\<lparr>ref_on_error_callback := Some r\<rparr>) x = live st1 x"
    if "napi_create_reference cb st1 = (r, st2)" for cb st1 r st2
    using that by (rule napi_create_reference_live)
  show ?thesis
    using assms(1)
    by (auto simp: publish_waku_message_def js_simps split: option.splits prod.splits
        dest!: live_WAKU_CALL [OF _ assms(2)] n)
qed

lemma publish_live:
  assumes "WakuRelayPublish L J args st = Done (thrown, st')" and "x \<notin> {''allocated_msg'', ''contentTopic''}"
  shows "live st' x = live st x
    + (if length args < 5 \<or> \<not> is_js_string (arg args 0) \<or> thrown = None then 0
       else if x = ''pubsub_topic'' \<or> x = ''content_topic_name'' \<and> is_js_string (arg args 1) then 1 else 0)"
  using assms(1)
  by (auto simp: WakuRelayPublish_def js_simps split: if_splits prod.splits
      dest!: live_build [OF _ assms(2)] live_publish [OF _ assms(2)])

text \<open>\<^verbatim>\<open>wakuRelayPublish\<close> frees its copies of the topics only on the way that succeeds: each type
  error it throws after it has copied an argument leaves the copies allocated for good, two
  copies when the message, the timeout or the callback is of the wrong type. The encoded
  payload is always freed.\<close>

theorem publish_leaks:
  assumes "WakuRelayPublish L J args st = Done (thrown, st')"
  shows "live st' ''pubsub_topic'' = live st ''pubsub_topic''
      + (if length args < 5 \<or> \<not> is_js_string (arg args 0) \<or> thrown = None then 0 else 1)
    \<and> live st' ''content_topic_name'' = live st ''content_topic_name''
      + (if length args < 5 \<or> \<not> is_js_string (arg args 0) \<or> \<not> is_js_string (arg args 1) \<or> thrown = None
         then 0 else 1)
    \<and> live st' ''msgPayload'' = live st ''msgPayload''"
  using publish_live [OF assms, of "''pubsub_topic''"] publish_live [OF assms, of "''content_topic_name''"]
    publish_live [OF assms, of "''msgPayload''"] by auto

text \<open>A message of the wrong type: both copies stay.\<close>

theorem publish_leaks_witness:
  "\<exists>st. WakuRelayPublish sample_lib sample_env [JsString ''t'', JsString ''n'', JsNumber 1, JsNumber 10, JsFunction 7]
       addon_init = Done (Some ''The message attribute should be a string'', st)
     \<and> live st ''pubsub_topic'' = 1 \<and> live st ''content_topic_name'' = 1"
proof -
  let ?a = "[JsString ''t'', JsString ''n'', JsNumber 1, JsNumber 10, JsFunction 7]"
  obtain st where st: "WakuRelayPublish sample_lib sample_env ?a addon_init
      = Done (Some ''The message attribute should be a string'', st)"
    by (simp add: WakuRelayPublish_def arg_def js_simps)
  from publish_leaks [OF st] st show ?thesis
    by (simp add: arg_def live_def addon_init_def allocs_def frees_def)
qed

section \<open>The size of a message\<close>

lemma snprintf_whole: "snprintf_text n s = s \<longleftrightarrow> length s \<le> n - 1"
  by (simp add: snprintf_text_def)

text \<open>The text of a publish is built in 1024 characters although a message may have 2047. It
  is complete exactly when the encoded payload and the content topic have at most 990
  characters together; otherwise the library gets its first 1023 characters.\<close>

theorem publish_json_truncates:
  assumes "msg \<noteq> []" and "length msg < 2 ^ 32" and "encode_payload False mm msg = Done p"
  shows "(publish_json J p (Some t) = publish_text p (cstr t)
      \<longleftrightarrow> 4 * ((length msg + 2) div 3) + length (cstr t) \<le> 990)
    \<and> (4 * ((length msg + 2) div 3) + length (cstr t) > 990 \<longrightarrow>
        publish_json J p (Some t) = take 1023 (publish_text p (cstr t))
        \<and> length (publish_json J p (Some t)) = 1023)"
  using length_encode_payload [OF assms]
  by (auto simp: publish_json_def printable_def snprintf_whole length_publish_text)
    (simp_all add: snprintf_text_def length_publish_text)

theorem publish_json_truncates_witness:
  "\<exists>p. encode_payload False (\<lambda>_. CHR 0x00) (replicate 800 (CHR ''x'')) = Done p
     \<and> length (publish_json sample_env p (Some ''/a/1/b/c'')) = 1023"
proof -
  let ?m = "replicate 800 (CHR ''x'')"
  have m: "?m \<noteq> []" "length ?m < 2 ^ 32" by simp_all
  obtain p where p: "encode_payload False (\<lambda>_. CHR 0x00) ?m = Done p"
    using encode_payload_spec [OF m] by blast
  have "4 * ((length ?m + 2) div 3) + length (cstr ''/a/1/b/c'') > 990" by simp
  with publish_json_truncates [OF m p, of sample_env "''/a/1/b/c''"] p show ?thesis by blast
qed

section \<open>No message gets out\<close>

lemma encode_payload_text:
  assumes "encode_payload out mm msg = Done p" and "length msg < 2 ^ 32"
  shows "plain_string p \<and> CHR ''}'' \<notin> set p \<and> CHR 0x00 \<notin> set p"
proof (cases "msg = []")
  case True
  then show ?thesis
    using assms(1) by (auto simp: encode_payload_def b64_encode_def printable_def plain_string_def str_bytes_def)
next
  case False
  have n: "of_nat (length msg) \<noteq> (0 :: u64)"
  proof
    assume "of_nat (length msg) = (0 :: u64)"
    then have "unat (of_nat (length msg) :: u64) = 0" by simp
    then show False using False assms(2) by (simp add: unat_of_nat)
  qed
  with assms(1) have "out = False"
    by (cases out) (simp_all add: encode_payload_def b64_encode_def wr_def Let_def split: exec.splits if_splits)
  then have p: "p = b64_spec (str_bytes msg)"
    using encode_payload_spec [OF False assms(2), of mm] assms(1) by simp
  have "set p \<inter> {QUOTE, BACKSLASH, CHR 0x0D, CHR ''}'', CHR 0x00} = {}"
    using set_b64_spec [of "str_bytes msg"] by (auto simp: p b64_alphabet_def)
  then show ?thesis by (auto simp: plain_string_def)
qed

lemma content_topic_buf:
  assumes "WAKU_CALL_js L J (Waku_content_topic a app v n enc (Some ''handle_content_topic'') u) st = Done st'"
  shows "contentTopicBuf st' = Some (cstr (content_topic_text app v n enc)) \<and> node_log st' = node_log st"
  using assms
  by (auto simp: WAKU_CALL_js_def call_waku_js_def waku_content_topic_def call_api_def invoke_def
      run_callback_js_def handle_content_topic_js_def malloc_strcpy_def Let_def malloc_def free_def
      simp del: bind_exec_Done_iff elim!: enterE bind_execE split: if_splits)

text \<open>The library rejects every text the addon builds.\<close>

lemma publish_json_rejected:
  assumes "plain_string p" "CHR ''}'' \<notin> set p" "CHR 0x00 \<notin> set p"
    and "plain_string t" "CHR ''}'' \<notin> set t" "CHR 0x00 \<notin> set t"
    and "waku_relay_publish L a topic (publish_json J p (Some t)) ms (Some f) u c = Done r"
  shows "rc r = RET_ERR \<and> effects r = [] \<and> double_free (heap r) ''jwm''"
proof -
  let ?j = "publish_json J p (Some t)"
  have t: "?j = take 1023 (publish_text p t)" using assms(6) by (simp add: publish_json_def printable_def snprintf_text_def)
  then have c: "cstr ?j = ?j" using publish_text_calls(2) [OF assms(3,6)] by simp
  consider "?j = publish_text p t" | "1023 < length (publish_text p t)" using t by fastforce
  then show ?thesis
  proof cases
    case 1
    then show ?thesis
      using assms(7) c parse_publish_text [OF assms(1,4)]
      by (auto simp: waku_relay_publish_def parseJson_def fromJsonNode_def json_at_def elim!: enterE)
  next
    case 2
    then have "parse_json ?j = None" using parse_publish_text_cut [OF assms(2,5)] t by simp
    then show ?thesis
      using assms(7) c
      by (auto simp: waku_relay_publish_def parseJson_def call_api_def double_free_def allocs_def frees_def
          elim!: enterE)
  qed
qed

definition plain_topic :: "string \<Rightarrow> bool" where
  "plain_topic n \<longleftrightarrow> plain_string n \<and> CHR ''}'' \<notin> set n"

lemma content_topic_plain:
  assumes "plain_topic n"
  shows "plain_string (cstr (content_topic_text ''appName'' 1 (n @ [CHR 0x00]) ''encoding''))"
    and "CHR ''}'' \<notin> set (cstr (content_topic_text ''appName'' 1 (n @ [CHR 0x00]) ''encoding''))"
proof -
  have "set (cstr (n @ [CHR 0x00])) \<subseteq> set n"
    by (induction n) (auto simp: cstr_def)
  then have "set (cstr (content_topic_text ''appName'' 1 (n @ [CHR 0x00]) ''encoding''))
      \<subseteq> set ''/appName/1/encoding'' \<union> set n"
    using set_cstr [of "content_topic_text ''appName'' 1 (n @ [CHR 0x00]) ''encoding''"]
    by (auto simp: content_topic_text_def show_nat_Suc_0)
  then show "plain_string (cstr (content_topic_text ''appName'' 1 (n @ [CHR 0x00]) ''encoding''))"
    "CHR ''}'' \<notin> set (cstr (content_topic_text ''appName'' 1 (n @ [CHR 0x00]) ''encoding''))"
    using assms by (auto simp: plain_topic_def plain_string_def)
qed

lemma build_waku_message_text:
  assumes "build_waku_message L J (n @ [CHR 0x00]) msg st = Done (j, st')" and "length msg < 2 ^ 32"
  shows "\<exists>p. plain_string p \<and> CHR ''}'' \<notin> set p \<and> CHR 0x00 \<notin> set p \<and> node_log st' = node_log st
    \<and> j = publish_json J p (Some (cstr (content_topic_text ''appName'' 1 (n @ [CHR 0x00]) ''encoding'')))"
proof -
  obtain p where p: "encode_payload (oom J) (fresh J) msg = Done p"
    using assms(1) by (auto simp: build_waku_message_def)
  have m: "node_log (malloc x s) = node_log s" "node_log (free x s) = node_log s" for x s
    by (simp_all add: malloc_def free_def)
  show ?thesis
    using assms(1) p encode_payload_text [OF p assms(2)]
    by (auto simp: build_waku_message_def Let_def m split: if_splits dest!: content_topic_buf)
qed

lemma publish_waku_message_rejected:
  assumes "\<And>a ms c r. waku_relay_publish L a t j ms (Some ''handle_error'') None c = Done r \<Longrightarrow> rc r = RET_ERR"
    and "publish_waku_message L J args t j n st = Done (thrown, st')"
  shows "thrown \<noteq> None \<and> node_log st' = node_log st"
  using assms(2)
  by (auto simp: publish_waku_message_def js_simps WAKU_CALL_js_def call_waku_js_def ret_defs napi_create_reference_def
      split: option.splits if_splits dest!: assms(1))

text \<open>C5: no message of the addon ever gets out. Whatever the message, for every content
  topic name without quotes, backslashes, carriage returns and braces, a call of
  \<^verbatim>\<open>wakuRelayPublish\<close> that returns has thrown a type error and has not reached the node: the text
  it builds has no \<^verbatim>\<open>contentTopic\<close> when it fits its 1024 characters (uncaught \<^verbatim>\<open>KeyError\<close>) and is
  no JSON when it was cut off, which the library answers with \<^verbatim>\<open>RET_ERR\<close> and the addon by
  stopping the process. N-API copies at most as many bytes as it is told.\<close>

theorem addon_never_publishes:
  assumes "\<And>n s. length (utf8_cut J n s) \<le> n" and "arg args 1 = JsString n" and "plain_topic n"
    and "WakuRelayPublish L J args st = Done (thrown, st')"
  shows "thrown \<noteq> None \<and> node_log st' = node_log st"
proof -
  define msg where "msg = cstr (utf8_cut J 2047 (butlast (napi_string (arg args 2))))"
  let ?t = "cstr (content_topic_text ''appName'' 1 (n @ [CHR 0x00]) ''encoding'')"
  have len: "length msg < 2 ^ 32"
    using le_trans [OF length_cstr_le assms(1) [of 2047 "butlast (napi_string (arg args 2))"]]
    by (simp add: msg_def)
  have m: "node_log (malloc x s) = node_log s" for x s by (simp add: malloc_def)
  have n: "napi_string (JsString n) = n @ [CHR 0x00]" by (simp add: napi_string_def)
  consider "thrown \<noteq> None" "node_log st' = node_log st"
    | j st1 where "build_waku_message L J (n @ [CHR 0x00]) msg
          (malloc ''content_topic_name'' (malloc ''pubsub_topic'' st)) = Done (j, st1)"
        "publish_waku_message L J args (napi_string (arg args 0)) j (n @ [CHR 0x00]) st1 = Done (thrown, st')"
    using assms(4) by (auto simp: WakuRelayPublish_def js_simps n m assms(2) [unfolded One_nat_def] msg_def split: if_splits)
  then show ?thesis
  proof cases
    case 2
    then obtain p where p: "plain_string p" "CHR ''}'' \<notin> set p" "CHR 0x00 \<notin> set p"
      and j: "j = publish_json J p (Some ?t)" and log: "node_log st1 = node_log st"
      using build_waku_message_text [OF 2(1) len] by (auto simp: m)
    have "rc r = RET_ERR"
      if "waku_relay_publish L a ps j ms (Some ''handle_error'') None c = Done r" for a ps ms c r
      using publish_json_rejected [OF p content_topic_plain [OF assms(3)] cstr_NUL_free] that j by blast
    then show ?thesis using publish_waku_message_rejected [OF _ 2(2)] log by metis
  qed simp
qed

text \<open>A call that stops early: the message is no string.\<close>

theorem addon_never_publishes_witness:
  "\<exists>st'. WakuRelayPublish sample_lib sample_env [JsString ''t'', JsString ''n'', JsNumber 1, JsNumber 10, JsFunction 7]
      addon_init = Done (Some ''The message attribute should be a string'', st') \<and> node_log st' = []"
proof -
  let ?a = "[JsString ''t'', JsString ''n'', JsNumber 1, JsNumber 10, JsFunction 7]"
  obtain st' where st': "WakuRelayPublish sample_lib sample_env ?a addon_init
      = Done (Some ''The message attribute should be a string'', st')"
    by (simp add: WakuRelayPublish_def arg_def js_simps)
  have "length (utf8_cut sample_env n s) \<le> n" for n s by (simp add: sample_env_def)
  moreover have "arg ?a 1 = JsString ''n''" "plain_topic ''n''"
    by (simp_all add: arg_def plain_topic_def plain_string_def)
  ultimately have "node_log st' = node_log addon_init"
    using addon_never_publishes [of sample_env ?a "''n''", OF _ _ _ st'] by blast
  with st' show ?thesis by (auto simp: addon_init_def)
qed

end
