(* ===== verification/Base64Cpp.thy ===== *)
theory Base64Cpp
  imports Base64C
begin

text \<open>
  The base64 encoder of the C++ example, \<^verbatim>\<open>examples/cpp/base64.cpp\<close>. It differs from the C
  encoder in two ways that matter: the input is \<^verbatim>\<open>char*\<close>, which is signed on the platforms
  of the example, so a byte above 127 is sign-extended into the 64-bit accumulator; and
  the output is a \<^verbatim>\<open>std::vector<char>\<close> that is only reserved and then written through
  \<^verbatim>\<open>operator[]\<close>, so its size never changes. A vector is its storage (as long as its capacity)
  and its size. \<^verbatim>\<open>operator[]\<close> outside the size is undefined; \<open>checks\<close> tells the two behaviours
  of libstdc++ apart: with \<^verbatim>\<open>_GLIBCXX_ASSERTIONS\<close> the program aborts, otherwise the
  storage is accessed.
\<close>

section \<open>Vectors\<close>

record cpp_vector =
  storage :: string
  size_of :: nat

definition empty_vector :: cpp_vector where
  "empty_vector = \<lparr>storage = [], size_of = 0\<rparr>"

lemma size_empty [simp]: "size_of empty_vector = 0"
  by (simp add: empty_vector_def)

text \<open>What a reader of the vector sees.\<close>

definition contents :: "cpp_vector \<Rightarrow> string" where
  "contents v = take (size_of v) (storage v)"

record cpp_lib =
  checks :: bool
  bad_alloc :: bool
  fresh_mem :: "nat \<Rightarrow> char"

definition max_size :: nat where "max_size = 2 ^ 63 - 1"

definition reserve :: "cpp_lib \<Rightarrow> u64 \<Rightarrow> cpp_vector \<Rightarrow> cpp_vector exec" where
  "reserve R n v =
     (if unat n > max_size then Fault (FatalError ''length_error'')
      else if unat n \<le> length (storage v) then Done v
      else if bad_alloc R then Fault (FatalError ''bad_alloc'')
      else Done (v\<lparr>storage := contents v @ map (fresh_mem R) [size_of v..<unat n]\<rparr>))"

definition put :: "cpp_lib \<Rightarrow> cpp_vector \<Rightarrow> u64 \<Rightarrow> char \<Rightarrow> cpp_vector exec" where
  "put R v j c =
     (if checks R \<and> size_of v \<le> unat j then Fault (FatalError ''operator[]'')
      else bind_exec (wr (storage v) j c) (\<lambda>s. Done (v\<lparr>storage := s\<rparr>)))"

section \<open>The code\<close>

definition b64_load_char :: "bytes \<Rightarrow> u64 \<Rightarrow> u64 \<Rightarrow> u64 exec" where
  "b64_load_char inp len i =
     bind_exec (rd inp i) (\<lambda>b0. let v = scast b0 in
     bind_exec (if i + 1 < len then bind_exec (rd inp (i + 1)) (\<lambda>b. Done (push_bit 8 v OR scast b))
                else Done (push_bit 8 v)) (\<lambda>v.
     (if i + 2 < len then bind_exec (rd inp (i + 2)) (\<lambda>b. Done (push_bit 8 v OR scast b))
      else Done (push_bit 8 v))))"

definition b64_step_cpp :: "cpp_lib \<Rightarrow> bytes \<Rightarrow> u64 \<Rightarrow> u64 \<Rightarrow> u64 \<Rightarrow> cpp_vector \<Rightarrow> cpp_vector exec" where
  "b64_step_cpp R inp len i j out =
     bind_exec (b64_load_char inp len i) (\<lambda>v.
     bind_exec (b64char_at (drop_bit 18 v)) (\<lambda>c.
     bind_exec (put R out j c) (\<lambda>out.
     bind_exec (b64char_at (drop_bit 12 v)) (\<lambda>c.
     bind_exec (put R out (j + 1) c) (\<lambda>out.
     bind_exec (if i + 1 < len then b64char_at (drop_bit 6 v) else Done (CHR ''='')) (\<lambda>c.
     bind_exec (put R out (j + 2) c) (\<lambda>out.
     bind_exec (if i + 2 < len then b64char_at v else Done (CHR ''='')) (\<lambda>c.
     put R out (j + 3) c))))))))"

partial_function (option) b64_loop_cpp ::
  "cpp_lib \<Rightarrow> bytes \<Rightarrow> u64 \<Rightarrow> u64 \<Rightarrow> u64 \<Rightarrow> cpp_vector \<Rightarrow> cpp_vector exec option" where
  "b64_loop_cpp R inp len i j out =
     (if i < len then
        (case b64_step_cpp R inp len i j out of
           Fault e \<Rightarrow> Some (Fault e)
         | Done out' \<Rightarrow> b64_loop_cpp R inp len (i + 3) (j + 4) out')
      else Some (Done out))"

text \<open>The file has its own copies of the table and of the size function.\<close>

definition encoded_size :: "u64 \<Rightarrow> u64" where
  "encoded_size inlen =
     (let ret = inlen;
          ret = (if inlen mod 3 \<noteq> 0 then ret + (3 - inlen mod 3) else ret);
          ret = ret div 3;
          ret = ret * 4
      in ret)"

lemma encoded_size_C [simp]: "encoded_size = b64_encoded_size"
  by (rule ext) (simp add: encoded_size_def b64_encoded_size_def)

text \<open>\<^verbatim>\<open>b64_encode(in, len, out)\<close>; \<open>None\<close> for \<open>inp\<close> is the NULL pointer.\<close>

definition b64_encode_cpp ::
  "cpp_lib \<Rightarrow> bytes option \<Rightarrow> u64 \<Rightarrow> cpp_vector \<Rightarrow> cpp_vector exec option" where
  "b64_encode_cpp R inp len out =
     (case inp of
        None \<Rightarrow> Some (Done out)
      | Some xs \<Rightarrow>
          if len = 0 then Some (Done out)
          else (case reserve R (encoded_size len + 1) out of
                  Fault e \<Rightarrow> Some (Fault e)
                | Done out \<Rightarrow> b64_loop_cpp R xs len 0 0 out))"

section \<open>Relation to the C encoder\<close>

definition ascii :: "bytes \<Rightarrow> bool" where
  "ascii xs \<longleftrightarrow> (\<forall>b \<in> set xs. unat b < 128)"

lemma scast_small: "unat b < 128 \<Longrightarrow> (scast b :: u64) = ucast b" for b :: u8
proof -
  assume b: "unat b < 128"
  have "uint b = int (unat b)" by (rule uint_nat)
  with b have "uint b < 128" by linarith
  then have "sint b = uint b"
    using order_trans [OF _ uint_ge_0 [of b], of "- 128"] by (simp add: sint_uint signed_take_bit_int_eq_self_iff)
  moreover have "(scast b :: u64) = of_int (sint b)" by (rule of_int_sint [symmetric])
  moreover have "(ucast b :: u64) = of_int (uint b)" by (rule of_int_uint [symmetric])
  ultimately show "(scast b :: u64) = ucast b" by (simp only:)
qed

lemma load_ascii: "ascii inp \<Longrightarrow> b64_load_char inp len i = b64_load inp len i"
  by (auto simp: b64_load_char_def b64_load_def rd_def ascii_def scast_small Let_def)

lemma put_unchecked: "\<not> checks R \<Longrightarrow> put R v j c = bind_exec (wr (storage v) j c) (\<lambda>s. Done (v\<lparr>storage := s\<rparr>))"
  by (simp add: put_def)

lemma step_unchecked:
  assumes "\<not> checks R" "ascii inp"
  shows "b64_step_cpp R inp len i j out = bind_exec (b64_step inp len i j (storage out)) (\<lambda>s. Done (out\<lparr>storage := s\<rparr>))"
  by (simp add: b64_step_cpp_def b64_step_def load_ascii [OF assms(2)] put_unchecked [OF assms(1)]
      bind_exec_assoc)

text \<open>The loop of the C++ encoder is an instance of the same interface, on plain characters.\<close>

interpretation cpp_loop: base64_loop "b64_loop_cpp \<lparr>checks = False, bad_alloc = a, fresh_mem = f\<rparr>"
  "b64_step_cpp \<lparr>checks = False, bad_alloc = a, fresh_mem = f\<rparr>" storage "\<lambda>v s. v\<lparr>storage := s\<rparr>" ascii for a f
proof (unfold_locales, goal_cases)
  case (1 inp len i j out)
  show ?case by (rule b64_loop_cpp.simps)
next
  case (2 inp len i n j m out)
  then show ?case by (simp add: step_unchecked b64_step_writes)
qed simp_all

section \<open>What the encoder writes\<close>

lemma reserve_empty:
  "unat n \<le> max_size \<Longrightarrow> reserve \<lparr>checks = k, bad_alloc = False, fresh_mem = f\<rparr> n empty_vector
     = Done (empty_vector\<lparr>storage := map f [0..<unat n]\<rparr>)"
  by (simp add: reserve_def empty_vector_def contents_def)

lemma reserved_size:
  assumes "unat len \<le> 3 * (2 ^ 61 - 1)"
  shows "unat (b64_encoded_size len + 1) = 4 * ((unat len + 2) div 3) + 1"
    and "unat (b64_encoded_size len + 1) \<le> max_size"
proof -
  have size: "unat (b64_encoded_size len) = 4 * ((unat len + 2) div 3)"
    using b64_encoded_size_exact [of len] assms by simp
  have q: "(unat len + 2) div 3 \<le> 2 ^ 61 - 1" using assms by simp
  show e: "unat (b64_encoded_size len + 1) = 4 * ((unat len + 2) div 3) + 1"
    using unat_plus [of "b64_encoded_size len" 1] size q by simp
  show "unat (b64_encoded_size len + 1) \<le> max_size" unfolding e max_size_def using q by simp
qed

lemma encode_unchecked:
  assumes "inp \<noteq> []" and "unat len = length inp" and "length inp \<le> 3 * (2 ^ 61 - 1)" and "ascii inp"
  shows "b64_encode_cpp \<lparr>checks = False, bad_alloc = False, fresh_mem = f\<rparr> (Some inp) len empty_vector
    = Some (Done \<lparr>storage = b64_spec inp @ [f (length (b64_spec inp))], size_of = 0\<rparr>)"
proof -
  let ?q = "(length inp + 2) div 3"
  let ?out = "\<lparr>storage = map f [0..<4 * ?q + 1], size_of = 0\<rparr>"
  have size: "unat (b64_encoded_size len + 1) = 4 * ?q + 1" "unat (b64_encoded_size len + 1) \<le> max_size"
    using reserved_size [of len] assms by simp_all
  have "reserve \<lparr>checks = False, bad_alloc = False, fresh_mem = f\<rparr> (b64_encoded_size len + 1) empty_vector = Done ?out"
    using reserve_empty [OF size(2)] size(1) by (simp add: empty_vector_def)
  moreover have "len \<noteq> 0" using assms by auto
  moreover have "drop (4 * ?q) (map f [0..<4 * ?q + 1]) = [f (length (b64_spec inp))]"
    by (simp add: drop_map length_b64_spec)
  ultimately show ?thesis
    using cpp_loop.loop_writes [where inp = inp and len = len and i = 0 and j = 0 and k = 0 and out = ?out] assms
    by (simp add: b64_encode_cpp_def)
qed

lemma encode_checked:
  assumes "inp \<noteq> []" and "unat len = length inp" and "length inp \<le> 3 * (2 ^ 61 - 1)" and "ascii inp"
  shows "b64_encode_cpp \<lparr>checks = True, bad_alloc = False, fresh_mem = f\<rparr> (Some inp) len empty_vector
    = Some (Fault (FatalError ''operator[]''))"
proof -
  have len: "len \<noteq> 0" "0 < len" using assms by (auto simp: word_gt_0)
  obtain v where "b64_load inp len 0 = Done v"
    using b64_load_group [of len inp 0 0] assms by auto
  then have "b64_step_cpp \<lparr>checks = True, bad_alloc = False, fresh_mem = f\<rparr> inp len 0 0 out = Fault (FatalError ''operator[]'')"
    if "size_of out = 0" for out
    using that by (simp add: b64_step_cpp_def load_ascii [OF assms(4)] b64char_at_sextet put_def)
  moreover have "unat (b64_encoded_size len + 1) \<le> max_size"
    using reserved_size [of len] assms by simp
  ultimately show ?thesis using len
    by (simp add: b64_encode_cpp_def reserve_empty b64_loop_cpp.simps [of _ inp len 0])
qed

text \<open>The C++ encoder writes the right characters where nobody sees them. For every non-empty
  input of ASCII bytes (up to the largest vector) it ends, stays inside the storage it reserved and
  puts the reference encoding there; but the size of the vector is still 0, so its caller reads
  an empty text, and a library that checks \<^verbatim>\<open>operator[]\<close> stops the program at the first write.\<close>

theorem cpp_encode_lost:
  assumes "inp \<noteq> []" and "unat len = length inp" and "length inp \<le> 3 * (2 ^ 61 - 1)" and "ascii inp"
  shows "\<exists>v. b64_encode_cpp \<lparr>checks = False, bad_alloc = False, fresh_mem = f\<rparr> (Some inp) len empty_vector = Some (Done v)
      \<and> take (length (b64_spec inp)) (storage v) = b64_spec inp \<and> contents v = []
      \<and> b64_encode_cpp \<lparr>checks = True, bad_alloc = False, fresh_mem = f\<rparr> (Some inp) len empty_vector
        = Some (Fault (FatalError ''operator[]''))"
  using encode_unchecked [OF assms, of f] encode_checked [OF assms, of f] by (simp add: contents_def)

lemma cpp_encode_lost_witness:
  "\<exists>v. b64_encode_cpp \<lparr>checks = False, bad_alloc = False, fresh_mem = (\<lambda>_. CHR ''?'')\<rparr> (Some [102, 111]) 2 empty_vector
      = Some (Done v) \<and> take 4 (storage v) = ''Zm8='' \<and> contents v = []"
proof -
  have t: "b64_spec [102, 111] = ''Zm8=''" and l: "length ''Zm8='' = 4"
    by (simp_all add: sextet_def b64_alphabet_def Let_def)
  have "ascii [102, 111]" by (simp add: ascii_def)
  from cpp_encode_lost [of "[102, 111]" 2 "\<lambda>_. CHR ''?''", unfolded t l, OF _ _ _ this] show ?thesis by auto
qed

section \<open>Sign extension\<close>

lemma bit_scast: "n < 64 \<Longrightarrow> bit (scast c :: u64) n \<longleftrightarrow> bit c (min 7 n)" for c :: u8
  by (simp add: bit_signed_iff)

lemma load_negative:
  assumes "128 \<le> unat c"
  shows "\<exists>v. b64_load_char [a, b, c] 3 0 = Done v \<and> (\<forall>n < 64. bit v n \<longleftrightarrow> bit c (min 7 n))"
proof -
  define w :: u64 where "w = push_bit 8 (scast a) OR scast b"
  have "unat c div 128 = 1" using assms unat_bound8 [of c] by simp
  then have "bit (unat c) 7" by (simp add: bit_iff_odd)
  then have top: "bit c 7" by (simp add: bit_unsigned_iff)
  have "b64_load_char [a, b, c] 3 0 = Done (push_bit 8 w OR scast c)"
    by (simp add: b64_load_char_def rd_def Let_def w_def del: push_bit_push_bit push_bit_or)
  moreover have "bit (push_bit 8 w OR scast c) n \<longleftrightarrow> bit c (min 7 n)" if "n < 64" for n
  proof (cases "n < 8")
    case True
    then show ?thesis using that by (simp add: bit_or_iff bit_push_bit_iff bit_scast)
  next
    case False
    then show ?thesis using that top by (simp add: bit_or_iff bit_scast)
  qed
  ultimately show ?thesis by blast
qed

lemma negative_sextets:
  fixes v :: u64 and c :: u8
  assumes v: "\<forall>n < 64. bit v n \<longleftrightarrow> bit c (min 7 n)" and top: "bit c 7"
  shows "drop_bit 18 v AND 63 = 63" "drop_bit 12 v AND 63 = 63"
    "drop_bit 6 v AND 63 = (if bit c 6 then 63 else 62)" "v AND 63 = ucast c AND 63"
proof -
  have m: "bit (63 :: u64) n \<longleftrightarrow> n < 6" for n
    using bit_mask_iff [of 6 n, where ?'a = "64 word"] by (auto simp: mask_eq_exp_minus_1)
  have m1: "bit (62 :: u64) n \<longleftrightarrow> n \<noteq> 0 \<and> n < 6" for n
  proof -
    have "(62 :: u64) = 63 AND NOT 1" by simp
    then show ?thesis by (simp only: bit_and_iff bit_not_iff m bit_1_iff) auto
  qed
  have up: "bit v n" if "7 \<le> n" "n < 64" for n
    using v top that by (simp add: min_absorb1)
  have "bit (drop_bit k v AND 63) n \<longleftrightarrow> bit (63 :: u64) n" if "k = 18 \<or> k = 12" for k n
    using up [of "k + n"] that by (auto simp only: bit_and_iff m bit_drop_bit_eq comp_def)
  then show "drop_bit 18 v AND 63 = 63" "drop_bit 12 v AND 63 = 63"
    by (intro bit_word_eqI; simp only: simp_thms)+
  have "bit (v AND 63) n \<longleftrightarrow> bit (ucast c AND 63 :: u64) n" if "n < 64" for n
  proof (cases "n < 6")
    case True
    then show ?thesis using v that by (simp add: bit_and_iff bit_unsigned_iff)
  qed (simp only: bit_and_iff m simp_thms)
  then show "v AND 63 = ucast c AND 63" by (intro bit_word_eqI) simp
  show "drop_bit 6 v AND 63 = (if bit c 6 then 63 else 62)"
  proof (rule bit_word_eqI)
    fix n :: nat assume "n < LENGTH(64)"
    have l: "bit (drop_bit 6 v AND 63) n \<longleftrightarrow> bit v (6 + n) \<and> n < 6"
      by (simp only: bit_and_iff m bit_drop_bit_eq comp_def)
    have r: "bit (if bit c 6 then 63 else 62 :: u64) n \<longleftrightarrow> n < 6 \<and> (bit c 6 \<or> n \<noteq> 0)"
      by (cases "bit c 6") (auto simp only: if_True if_False m m1)
    have "n < 6 \<Longrightarrow> bit v (6 + n) \<longleftrightarrow> bit c 6 \<or> n \<noteq> 0"
      using v top up [of "6 + n"] by (cases "n = 0") simp_all
    with l r show "bit (drop_bit 6 v AND 63) n = bit (if bit c 6 then 63 else 62 :: u64) n" by blast
  qed
qed

text \<open>A byte above 127 at the end of a group of three hides the two before it. The accumulator is
  then all ones but for the low seven bits of that byte: whatever the first two bytes are, the first
  two characters are \<^verbatim>\<open>/\<close> and the third is \<^verbatim>\<open>/\<close> or \<^verbatim>\<open>+\<close>, so different inputs get the same encoding
  (the C encoder, whose input is unsigned, has no such case).\<close>

theorem cpp_encode_sign_extended:
  assumes "128 \<le> unat c"
  shows "b64_encode_cpp \<lparr>checks = False, bad_alloc = False, fresh_mem = f\<rparr> (Some [a, b, c]) 3 empty_vector
    = Some (Done \<lparr>storage = [CHR ''/'', CHR ''/'', if bit c 6 then CHR ''/'' else CHR ''+'', sextet (unat c), f 4],
        size_of = 0\<rparr>)"
proof -
  obtain v where v: "b64_load_char [a, b, c] 3 0 = Done v" "\<forall>n < 64. bit v n \<longleftrightarrow> bit c (min 7 n)"
    using load_negative [OF assms] by blast
  have "unat c div 128 = 1" using assms unat_bound8 [of c] by simp
  then have "bit (unat c) 7" by (simp add: bit_iff_odd)
  then have top: "bit c 7" by (simp add: bit_unsigned_iff)
  note n = negative_sextets [OF v(2) top]
  have s: "sextet (unat w) = b64_alphabet ! unat (w AND 63)" for w :: u64
    by (simp add: sextet_def unat_and_63)
  have al: "b64_alphabet ! 63 = CHR ''/''" "b64_alphabet ! 62 = CHR ''+''" by (simp_all add: b64_alphabet_def)
  have u: "unat (63 :: u64) = 63" "unat (62 :: u64) = 62" by simp_all
  have chars: "sextet (unat (drop_bit 18 v)) = CHR ''/''" "sextet (unat (drop_bit 12 v)) = CHR ''/''"
    "sextet (unat (drop_bit 6 v)) = (if bit c 6 then CHR ''/'' else CHR ''+'')"
    unfolding s n using al u by (simp_all only: split: if_split) simp_all
  have last: "sextet (unat v) = sextet (unat c)"
    using s [of v] s [of "ucast c"] unfolding n(4) unat_ucast8 by (simp only:)
  let ?R = "\<lparr>checks = False, bad_alloc = False, fresh_mem = f\<rparr>"
  have cells: "map f [0..<5] = [f 0, f 1, f 2, f 3, f 4]" by (simp add: upt_rec eval_nat_numeral)
  have step: "b64_step_cpp ?R [a, b, c] 3 0 0 \<lparr>storage = map f [0..<5], size_of = 0\<rparr>
    = Done \<lparr>storage = [CHR ''/'', CHR ''/'', if bit c 6 then CHR ''/'' else CHR ''+'', sextet (unat c), f 4], size_of = 0\<rparr>"
    by (simp add: b64_step_cpp_def v(1) b64char_at_sextet chars last put_def wr_def cells)
  have size: "b64_encoded_size 3 = 4" by (simp add: b64_encoded_size_def)
  have "reserve ?R 5 empty_vector = Done \<lparr>storage = map f [0..<5], size_of = 0\<rparr>"
    using reserve_empty [of 5 False f] by (simp add: max_size_def empty_vector_def)
  then show ?thesis
    by (simp add: b64_encode_cpp_def size step b64_loop_cpp.simps [of ?R "[a, b, c]" 3 0] b64_loop_cpp.simps [of ?R "[a, b, c]" 3 3])
qed

lemma cpp_encode_sign_extended_witness:
  "b64_encode_cpp \<lparr>checks = False, bad_alloc = False, fresh_mem = (\<lambda>_. CHR ''?'')\<rparr> (Some [97, 98, 233]) 3 empty_vector
    = Some (Done \<lparr>storage = ''///p?'', size_of = 0\<rparr>)"
proof -
  have "sextet 233 = CHR ''p''" "bit (233 :: u8) 6" by (simp_all add: sextet_def b64_alphabet_def bit_iff_odd)
  then show ?thesis
    using cpp_encode_sign_extended [of 233 "\<lambda>_. CHR ''?''" 97 98] by simp
qed

end
