(* ===== verification/CppExample.thy ===== *)
theory CppExample
  imports CStd Base64Cpp
begin

text \<open>
  The C++ client \<^verbatim>\<open>examples/cpp/waku.cpp\<close>: its configuration and command line, the
  configuration text and the menu. Its menu calls nothing of the library (those calls are
  commented out in the source), so its state is the console only. The library calls of \<^verbatim>\<open>main\<close> are
  those of an older header and do not type-check against \<^verbatim>\<open>library/libwaku.h\<close> (they
  lack the context and the user data): the library they were written for is a parameter, which says of every call what it returns and what it calls back with.
\<close>

section \<open>Configuration\<close>

record ConfigNode =
  host :: string
  port :: int
  key :: string
  relay :: int
  peers :: string

definition parse_opt :: "int \<Rightarrow> string \<Rightarrow> nat \<Rightarrow> ConfigNode \<Rightarrow> (int \<times> ConfigNode) exec" where
  "parse_opt k arg arg_num cfg =
     (if k = of_char CHR ''h'' then Done (0, cfg\<lparr>host := snprintf_into 128 (cstr arg) (host cfg)\<rparr>)
      else if k = of_char CHR ''p'' then
        bind_exec (atoi (arg @ [CHR 0x00])) (\<lambda>n. Done (0, cfg\<lparr>port := n\<rparr>))
      else if k = of_char CHR ''k'' then Done (0, cfg\<lparr>key := snprintf_into 128 (cstr arg) (key cfg)\<rparr>)
      else if k = of_char CHR ''r'' then
        bind_exec (atoi (arg @ [CHR 0x00])) (\<lambda>n. Done (0, cfg\<lparr>relay := n\<rparr>))
      else if k = of_char CHR ''a'' then Done (0, cfg\<lparr>peers := snprintf_into 2048 (cstr arg) (peers cfg)\<rparr>)
      else if k = ARGP_KEY_ARG then (if arg_num \<ge> 1 then Fault (ExitCode 64) else Done (0, cfg))
      else if k = ARGP_KEY_END then Done (0, cfg)
      else Done (ARGP_ERR_UNKNOWN, cfg))"

definition options :: "argp_option list" where
  "options =
     [\<lparr>opt_name = ''host'', opt_key = CHR ''h'', opt_arg = ''HOST'',
        opt_doc = ''IP to listen for for LibP2P traffic. (default: '' @ [CHR 0x22] @ ''0.0.0.0'' @ [CHR 0x22] @ '')''\<rparr>,
      \<lparr>opt_name = ''port'', opt_key = CHR ''p'', opt_arg = ''PORT'',
        opt_doc = ''TCP listening port. (default: '' @ [CHR 0x22] @ ''60000'' @ [CHR 0x22] @ '')''\<rparr>,
      \<lparr>opt_name = ''key'', opt_key = CHR ''k'', opt_arg = ''KEY'', opt_doc = ''P2P node private key as 64 char hex string.''\<rparr>,
      \<lparr>opt_name = ''relay'', opt_key = CHR ''r'', opt_arg = ''RELAY'', opt_doc = ''Enable relay protocol: 1 or 0. (default: 1)''\<rparr>,
      \<lparr>opt_name = ''peers'', opt_key = CHR ''a'', opt_arg = ''PEERS'', opt_doc = peers_doc\<rparr>]"

text \<open>The parser knows exactly the options of the table, and the two special keys.\<close>

lemma cpp_options_known:
  "parse_opt k arg n cfg = Done (ARGP_ERR_UNKNOWN, cfg) \<longleftrightarrow>
     k \<notin> (of_char \<circ> opt_key) ` set options \<and> k \<noteq> ARGP_KEY_ARG \<and> k \<noteq> ARGP_KEY_END"
  by (auto simp: parse_opt_def options_def ARGP_ERR_UNKNOWN_def ARGP_KEY_ARG_def ARGP_KEY_END_def)

definition parse_events :: "(int \<times> string \<times> nat) list \<Rightarrow> ConfigNode \<Rightarrow> ConfigNode exec" where
  "parse_events evs cfg =
     fold_exec (\<lambda>(k, arg, n) c. bind_exec (parse_opt k arg n c) (\<lambda>(err, c'). Done c')) evs cfg"

definition default_config :: "ConfigNode \<Rightarrow> ConfigNode" where
  "default_config stack =
     stack\<lparr>host := snprintf_into 128 ''0.0.0.0'' (host stack),
       key := snprintf_into 128 ''364d111d729a6eb6d2e6113e163f017b5ef03a6f94c9b5b7bb1bb36fa5cb07a9'' (key stack),
       port := 60000, relay := 1\<rparr>"

definition config_text :: "ConfigNode \<Rightarrow> string exec" where
  "config_text cfg =
     bind_exec (buf_str (host cfg)) (\<lambda>h.
     bind_exec (buf_str (key cfg)) (\<lambda>k.
     Done (''{'' @ spaces 37 @ quoted ''host'' @ '': '' @ quoted h @ '','' @ spaces 39
       @ quoted ''port'' @ '': '' @ show_int (port cfg) @ '','' @ spaces 43
       @ quoted ''key'' @ '': '' @ quoted k @ '','' @ spaces 40
       @ quoted ''relay'' @ '': '' @ bool_text (relay cfg) @ '','' @ spaces 42
       @ quoted ''logLevel'' @ '': '' @ quoted ''DEBUG'' @ spaces 33 @ ''}'')))"

text \<open>
  What \<^verbatim>\<open>main\<close> has before it calls the library: the configuration and the text in its 1024
  characters. \<open>unknown\<close> says that \<^verbatim>\<open>argp_parse\<close> returned \<^verbatim>\<open>ARGP_ERR_UNKNOWN\<close>.
\<close>

definition main_config ::
  "(int \<times> string \<times> nat) list \<Rightarrow> bool \<Rightarrow> ConfigNode \<Rightarrow> (ConfigNode \<times> string) exec" where
  "main_config evs unknown stack =
     bind_exec (parse_events evs (default_config stack)) (\<lambda>cfg.
     if unknown then show_help_and_exit
     else bind_exec (config_text cfg) (\<lambda>txt. Done (cfg, snprintf_text 1024 txt)))"

section \<open>The menu\<close>

record console =
  stdout :: "string list"
  kern :: "string list"
  iobuf :: string

datatype PROGRAM_STATE =
    MAIN_MENU
  | SUBSCRIBE_TOPIC_MENU
  | CONNECT_TO_OTHER_NODE_MENU
  | PUBLISH_MESSAGE_MENU

definition program_state :: "int \<Rightarrow> PROGRAM_STATE option" where
  "program_state n =
     (if n = 0 then Some MAIN_MENU else if n = 1 then Some SUBSCRIBE_TOPIC_MENU
      else if n = 2 then Some CONNECT_TO_OTHER_NODE_MENU
      else if n = 3 then Some PUBLISH_MESSAGE_MENU else None)"

definition print_line :: "string \<Rightarrow> console \<Rightarrow> console" where
  "print_line s st = st\<lparr>stdout := stdout st @ [line s]\<rparr>"

definition show_main_menu :: "console \<Rightarrow> console" where
  "show_main_menu st = st\<lparr>stdout := stdout st @ menu_lines\<rparr>"

definition scan :: "nat \<Rightarrow> string \<Rightarrow> console \<Rightarrow> string \<times> console" where
  "scan n old st =
     (let (w, b, ks) = scanf_word n old (iobuf st) (kern st) in (w, st\<lparr>iobuf := b, kern := ks\<rparr>))"

text \<open>
  The branches of \<^verbatim>\<open>switch (atoi(cmd))\<close>; \<open>stack n\<close> is what an array of \<open>n\<close> characters holds
  before it is written. A topic or address that is read is never looked at again.
\<close>

fun menu_branch :: "cpp_lib \<Rightarrow> (nat \<Rightarrow> string) \<Rightarrow> PROGRAM_STATE \<Rightarrow> console \<Rightarrow> console exec" where
  "menu_branch R stack SUBSCRIBE_TOPIC_MENU st =
     (let st = print_line ''Indicate the Pubsubtopic to subscribe:'' st;
          (topic, st) = scan 127 (stack 128) st
      in Done (show_main_menu st))"
| "menu_branch R stack CONNECT_TO_OTHER_NODE_MENU st =
     (let st = print_line ''Connecting to a node. Please indicate the peer Multiaddress:'' st;
          st = print_line example_multiaddr st;
          (addr, st) = scan 511 (stack 512) st
      in Done (show_main_menu st))"
| "menu_branch R stack PUBLISH_MESSAGE_MENU st =
     (let st = print_line ''Indicate the Pubsubtopic:'' st;
          (topic, st) = scan 127 (stack 128) st;
          st = print_line ''Type the message tp publish:'' st;
          (msg, st) = scan 1023 (stack 1024) st
      in bind_exec (buf_str msg) (\<lambda>m.
         case b64_encode_cpp R (Some (str_bytes m)) (of_nat (length m)) empty_vector of
           None \<Rightarrow> Fault Hang
         | Some r \<Rightarrow> bind_exec r (\<lambda>msgPayload. Done (show_main_menu st))))"
| "menu_branch R stack MAIN_MENU st = Done st"

definition handle_user_input :: "cpp_lib \<Rightarrow> (nat \<Rightarrow> string) \<Rightarrow> console \<Rightarrow> console exec" where
  "handle_user_input R stack st =
     (let (cmd, ks) = kread 1024 (kern st); st = st\<lparr>kern := ks\<rparr>
      in if cmd = [] then Done st
         else (let (b, ks) = skip_line (iobuf st) (kern st); st = st\<lparr>iobuf := b, kern := ks\<rparr>
               in bind_exec (atoi (cmd @ replicate (1024 - length cmd) (CHR 0x00))) (\<lambda>n.
                  case program_state n of None \<Rightarrow> Done st
                  | Some s \<Rightarrow> menu_branch R stack s st)))"

text \<open>\<^verbatim>\<open>while(1) handle_user_input();\<close>, its first \<open>n\<close> rounds.\<close>

definition menu_rounds :: "nat \<Rightarrow> cpp_lib \<Rightarrow> (nat \<Rightarrow> string) \<Rightarrow> console \<Rightarrow> console exec" where
  "menu_rounds n R stack st = rounds (handle_user_input R stack) n st"

lemma scan_pending: "scan n old st = (w, st') \<Longrightarrow> pending (iobuf st') (kern st') \<le> pending (iobuf st) (kern st)"
  by (auto simp: scan_def dest!: scanf_word_pending split: prod.splits)

lemma print_keeps [simp]:
  "iobuf (print_line s st) = iobuf st" "kern (print_line s st) = kern st"
  "iobuf (show_main_menu st) = iobuf st" "kern (show_main_menu st) = kern st"
  by (simp_all add: print_line_def show_main_menu_def)

lemma cpp_menu_branch_pending:
  "menu_branch R stack s st = Done st' \<Longrightarrow> pending (iobuf st') (kern st') \<le> pending (iobuf st) (kern st)"
  by (cases s) (auto dest!: scan_pending split: prod.splits option.splits intro: order_trans)

lemma cpp_round_Done: "handle_user_input R stack st = Done st' \<Longrightarrow> kern st \<noteq> [] \<Longrightarrow>
    pending (iobuf st') (kern st') < pending (iobuf st) (kern st)"
  by (auto simp: handle_user_input_def Let_def simp del: menu_branch.simps
      split: prod.splits if_splits option.splits dest!: skip_line_pending cpp_menu_branch_pending
      dest!: kread_progress [where b = "iobuf st"])

interpretation cpp_menu: input_loop "handle_user_input R stack" kern iobuf for R stack
proof (unfold_locales, goal_cases)
  case (1 s)
  then show ?case by (cases s) (simp add: handle_user_input_def kread_def)
next
  case (2 s s')
  then show ?case by (rule cpp_round_Done [rotated])
qed

lemma cpp_menu_loop_ends:
  "\<exists>n. n \<le> pending (iobuf st) (kern st)
    \<and> ((\<exists>e. menu_rounds n R stack st = Fault e) \<or> (\<exists>st'. \<forall>m. menu_rounds (n + m) R stack st = Done st'))"
  unfolding menu_rounds_def by (rule cpp_menu.ends)

section \<open>The start of \<^verbatim>\<open>main\<close>\<close>

text \<open>
  A call is its function and the arguments that are not callbacks. \<open>L\<close> answers it with the
  returned code and the messages its callback is called with before it returns.
\<close>

type_synonym old_library = "string \<Rightarrow> string list \<Rightarrow> int \<times> string list"

record cpp_client =
  con :: console
  defaultPubsubTopic :: string
  pubsubTopic :: string
  made :: "(string \<times> string list) list"

definition out_line :: "string \<Rightarrow> cpp_client \<Rightarrow> cpp_client" where
  "out_line s st = st\<lparr>con := print_line s (con st)\<rparr>"

definition lib_call ::
  "old_library \<Rightarrow> string \<Rightarrow> string list \<Rightarrow> (string \<Rightarrow> cpp_client \<Rightarrow> cpp_client exec)
     \<Rightarrow> cpp_client \<Rightarrow> (int \<times> cpp_client) exec" where
  "lib_call L f args handler st =
     (let (ret, msgs) = L f args
      in bind_exec (fold_exec handler msgs (st\<lparr>made := made st @ [(f, args)]\<rparr>)) (\<lambda>st. Done (ret, st)))"

text \<open>The macro; \<open>txt\<close> is the text of the call in the source. It goes on after a failure.\<close>

definition WAKU_CALL :: "string \<Rightarrow> (int \<times> cpp_client) exec \<Rightarrow> cpp_client exec" where
  "WAKU_CALL txt call =
     bind_exec call (\<lambda>(ret, st).
       Done (if ret \<noteq> 0 then out_line (''Failed the call to: '' @ txt @ ''. Code: '' @ show_int ret) st
             else st))"

definition handle_error :: "string \<Rightarrow> cpp_client \<Rightarrow> cpp_client exec" where
  "handle_error msg st = Fault (ExitCode 1)"

definition event_handler :: "string \<Rightarrow> cpp_client \<Rightarrow> cpp_client exec" where
  "event_handler msg st = Done (out_line (''Receiving message '' @ cstr msg) st)"

text \<open>The callbacks of \<^verbatim>\<open>main\<close> that \<^verbatim>\<open>cify\<close> makes of its lambdas.\<close>

definition set_default_topic :: "string \<Rightarrow> cpp_client \<Rightarrow> cpp_client exec" where
  "set_default_topic msg st = Done (st\<lparr>defaultPubsubTopic := cstr msg\<rparr>)"

definition print_git_version :: "string \<Rightarrow> cpp_client \<Rightarrow> cpp_client exec" where
  "print_git_version msg st = Done (out_line (''Git Version: '' @ cstr msg) st)"

definition set_custom_topic :: "string \<Rightarrow> cpp_client \<Rightarrow> cpp_client exec" where
  "set_custom_topic msg st = Done (st\<lparr>pubsubTopic := cstr msg\<rparr>)"

text \<open>The texts of the calls, as the preprocessor writes them.\<close>

definition waku_new_text :: string where
  "waku_new_text =
     ''waku_new(jsonConfig, cify([](const char* msg, size_t len) { std::cout << ''
           @ quoted ''Error: '' @ '' << msg << std::endl; exit(1); }))''"

definition default_topic_text :: string where
  "default_topic_text =
     ''waku_default_pubsub_topic(cify([&defaultPubsubTopic](const char* msg, ''
           @ ''size_t len) { defaultPubsubTopic = msg; }))''"

definition version_text :: string where
  "version_text =
     ''waku_version(cify([&](const char* msg, size_t len) { std::cout << ''
           @ quoted ''Git Version: '' @ '' << msg << std::endl; }))''"

definition custom_topic_text :: string where
  "custom_topic_text =
     ''waku_pubsub_topic('' @ quoted ''example''
           @ '', cify([&](const char* msg, size_t len) { pubsubTopic = msg; }))''"

definition connect_text :: string where
  "connect_text = ''waku_connect(cfgNode.peers, 10000 , handle_error)''"

definition subscribe_text :: string where
  "subscribe_text = ''waku_relay_subscribe(defaultPubsubTopic.c_str(), handle_error)''"

definition dial_cpp :: "old_library \<Rightarrow> string \<Rightarrow> cpp_client \<Rightarrow> cpp_client exec" where
  "dial_cpp L p st =
     bind_exec (WAKU_CALL connect_text
       (lib_call L ''waku_connect'' [p, ''10000''] handle_error st)) (\<lambda>st.
     bind_exec (WAKU_CALL subscribe_text
       (lib_call L ''waku_relay_subscribe'' [cstr (defaultPubsubTopic st)] handle_error st)) (\<lambda>st.
     let st = out_line (''Establishing connection with: '' @ p) st in
     bind_exec (WAKU_CALL connect_text
       (lib_call L ''waku_connect'' [p, ''10000''] handle_error st)) (\<lambda>st.
     Done (st\<lparr>con := show_main_menu (con st)\<rparr>))))"

definition start_cpp :: "old_library \<Rightarrow> ConfigNode \<Rightarrow> string \<Rightarrow> cpp_client \<Rightarrow> cpp_client exec" where
  "start_cpp L cfg jsonConfig st =
     bind_exec (WAKU_CALL waku_new_text
       (lib_call L ''waku_new'' [jsonConfig] handle_error st)) (\<lambda>st.
     bind_exec (WAKU_CALL default_topic_text
       (lib_call L ''waku_default_pubsub_topic'' [] set_default_topic st)) (\<lambda>st.
     let st = out_line (''Default pubsub topic: '' @ defaultPubsubTopic st) st in
     bind_exec (WAKU_CALL version_text
       (lib_call L ''waku_version'' [] print_git_version st)) (\<lambda>st.
     bind_exec (buf_str (host cfg)) (\<lambda>h.
     let st = out_line (''Bind addr: '' @ h @ '':'' @ show_nat (unat (word_of_int (port cfg) :: u32))) st;
         st = out_line (''Waku Relay enabled: '' @ (if relay cfg = 1 then ''YES'' else ''NO'')) st in
     bind_exec (WAKU_CALL custom_topic_text
       (lib_call L ''waku_pubsub_topic'' [''example''] set_custom_topic st)) (\<lambda>st.
     let st = out_line (''Custom pubsub topic: '' @ pubsubTopic st) st in
     bind_exec (lib_call L ''waku_set_event_callback'' [] event_handler st) (\<lambda>(_, st).
     bind_exec (lib_call L ''waku_start'' [] (\<lambda>_. Done) st) (\<lambda>(_, st).
     bind_exec (buf_str (peers cfg)) (\<lambda>p.
     dial_cpp L p st))))))))"

definition cpp_start :: "string list \<Rightarrow> cpp_client" where
  "cpp_start input = \<lparr>con = \<lparr>stdout = [], kern = input, iobuf = []\<rparr>, defaultPubsubTopic = [],
     pubsubTopic = [], made = []\<rparr>"

definition main_cpp ::
  "old_library \<Rightarrow> (int \<times> string \<times> nat) list \<Rightarrow> bool \<Rightarrow> ConfigNode \<Rightarrow> string list \<Rightarrow> cpp_client exec" where
  "main_cpp L evs unknown stack input =
     bind_exec (main_config evs unknown stack) (\<lambda>(cfg, txt). start_cpp L cfg txt (cpp_start input))"

section \<open>The configuration text\<close>

definition cpp_config_ok :: "ConfigNode \<Rightarrow> bool" where
  "cpp_config_ok c \<longleftrightarrow> length (host c) = 128 \<and> length (key c) = 128 \<and> length (peers c) = 2048
     \<and> - (2 ^ 31) \<le> port c \<and> port c < 2 ^ 31 \<and> CHR 0x00 \<in> set (host c) \<and> CHR 0x00 \<in> set (key c)"

definition cpp_stack_ok :: "ConfigNode \<Rightarrow> bool" where
  "cpp_stack_ok c \<longleftrightarrow> length (host c) = 128 \<and> length (key c) = 128 \<and> length (peers c) = 2048"

lemma cpp_default_config_ok: "cpp_stack_ok stack \<Longrightarrow> cpp_config_ok (default_config stack)"
  by (simp add: cpp_stack_ok_def cpp_config_ok_def default_config_def length_snprintf_into)

lemma cpp_parse_opt_ok: "parse_opt k arg n c = Done (err, c') \<Longrightarrow> cpp_config_ok c \<Longrightarrow> cpp_config_ok c'"
  by (auto simp: parse_opt_def cpp_config_ok_def length_snprintf_into dest: atoi_bounds split: if_splits)

lemma cpp_parse_events_ok:
  assumes "parse_events evs c = Done c'" and "cpp_config_ok c"
  shows "cpp_config_ok c'"
  by (rule fold_exec_invariant [OF _ assms(1) [unfolded parse_events_def], of cpp_config_ok])
    (use assms(2) cpp_parse_opt_ok in \<open>fastforce split: prod.splits\<close>)+

lemma cpp_config_text_fits:
  assumes "cpp_config_ok cfg"
  shows "\<exists>txt. config_text cfg = Done txt \<and> length txt < 1024"
proof -
  have "length (cstr (host cfg)) < 128" "length (cstr (key cfg)) < 128"
    using assms length_cstr_less [of "host cfg"] length_cstr_less [of "key cfg"] by (simp_all add: cpp_config_ok_def)
  moreover have "length (show_int (port cfg)) \<le> 11"
    using assms length_show_int_32 [of "port cfg"] by (simp add: cpp_config_ok_def)
  moreover have "length (bool_text (relay cfg)) \<le> 5" by (simp add: bool_text_def)
  ultimately show ?thesis
    using assms by (simp add: config_text_def cpp_config_ok_def buf_str_def spaces_def quoted_def)
qed

text \<open>The configuration of the C++ client. Whatever the command line holds, once it is parsed
  the text \<^verbatim>\<open>main\<close> hands to the library is the whole configuration text (its 1024 characters
  are enough), and nothing uninitialised is read: unlike the C client it gives the node key a default.\<close>

theorem cpp_config_complete:
  assumes "cpp_stack_ok stack" and "parse_events evs (default_config stack) = Done cfg"
  shows "\<exists>txt. config_text cfg = Done txt \<and> main_config evs False stack = Done (cfg, txt)"
  using cpp_config_text_fits [OF cpp_parse_events_ok [OF assms(2) cpp_default_config_ok [OF assms(1)]]] assms(2)
  by (auto simp: main_config_def snprintf_fits)

lemma cpp_config_complete_witness:
  "\<exists>r. main_config [(of_char CHR ''r'', ''0'', 0)] False
    \<lparr>host = replicate 128 CHR ''x'', port = 7, key = replicate 128 CHR ''y'', relay = 7, peers = replicate 2048 CHR ''z''\<rparr>
    = Done r"
proof -
  let ?stack = "\<lparr>host = replicate 128 CHR ''x'', port = 7, key = replicate 128 CHR ''y'', relay = 7,
    peers = replicate 2048 CHR ''z''\<rparr>"
  have "cpp_stack_ok ?stack" by (simp add: cpp_stack_ok_def)
  moreover have "atoi (''0'' @ [CHR 0x00]) = Done 0"
    by (simp add: atoi_def is_space_def is_digit_def dec_val_def digit_val_def int_of_32_def Let_def)
  then obtain cfg where "parse_events [(of_char CHR ''r'', ''0'', 0)] (default_config ?stack) = Done cfg"
    by (simp add: parse_events_def parse_opt_def)
  ultimately show ?thesis using cpp_config_complete by blast
qed

section \<open>The order of the calls\<close>

lemma fold_handle_error: "fold_exec handle_error ms st = (if ms = [] then Done st else Fault (ExitCode 1))"
  by (cases ms) (simp_all add: handle_error_def)

lemma fold_default_topic:
  "fold_exec set_default_topic ms st =
     Done (if ms = [] then st else st\<lparr>defaultPubsubTopic := cstr (last ms)\<rparr>)"
  by (induction ms arbitrary: st) (simp_all add: set_default_topic_def)

lemma fold_custom_topic:
  "fold_exec set_custom_topic ms st = Done (if ms = [] then st else st\<lparr>pubsubTopic := cstr (last ms)\<rparr>)"
  by (induction ms arbitrary: st) (simp_all add: set_custom_topic_def)

lemma out_line_keeps [simp]:
  "made (out_line s st) = made st" "defaultPubsubTopic (out_line s st) = defaultPubsubTopic st"
  by (simp_all add: out_line_def)

text \<open>\<open>adds cs m st\<close>: \<open>m\<close> ends and makes the calls \<open>cs\<close>, the default topic stays.\<close>

definition adds :: "(string \<times> string list) list \<Rightarrow> cpp_client \<Rightarrow> cpp_client \<Rightarrow> bool" where
  "adds cs st st' \<longleftrightarrow> made st' = made st @ cs \<and> defaultPubsubTopic st' = defaultPubsubTopic st"

lemma fold_prints:
  assumes "\<And>m st. f m st = Done (out_line (g m) st)"
  shows "\<exists>st'. fold_exec f ms st = Done st' \<and> adds [] st st'"
proof (induction ms arbitrary: st)
  case (Cons m ms)
  then obtain st' where "fold_exec f ms (out_line (g m) st) = Done st'" "adds [] (out_line (g m) st) st'"
    by blast
  then show ?case using assms [of m st] by (auto simp: adds_def)
qed (simp add: adds_def)

lemma WAKU_CALL_adds: "\<exists>st'. WAKU_CALL txt (Done (ret, st)) = Done st' \<and> adds [] st st'"
  by (cases "ret = 0") (simp_all add: WAKU_CALL_def adds_def)

lemma lib_call_runs:
  assumes "fold_exec h (snd (L f args)) (st\<lparr>made := made st @ [(f, args)]\<rparr>) = Done st1"
  shows "lib_call L f args h st = Done (fst (L f args), st1)"
  using assms by (simp add: lib_call_def split_beta Let_def)

lemma error_call:
  "\<exists>st'. (if snd (L f args) \<noteq> [] then WAKU_CALL src (lib_call L f args handle_error st) = Fault (ExitCode 1)
     else WAKU_CALL src (lib_call L f args handle_error st) = Done st' \<and> adds [(f, args)] st st')"
proof (cases "snd (L f args) = []")
  case True
  then have "lib_call L f args handle_error st = Done (fst (L f args), st\<lparr>made := made st @ [(f, args)]\<rparr>)"
    by (intro lib_call_runs) simp
  then show ?thesis
    using True WAKU_CALL_adds [of src "fst (L f args)" "st\<lparr>made := made st @ [(f, args)]\<rparr>"]
    by (auto simp: adds_def)
next
  case False
  then show ?thesis
    by (simp add: WAKU_CALL_def lib_call_def fold_handle_error split_beta Let_def)
qed

lemma printing_call:
  assumes "\<And>m st. h m st = Done (out_line (g m) st)"
  shows "\<exists>r st'. lib_call L f args h st = Done (r, st') \<and> adds [(f, args)] st st'"
proof -
  obtain st1 where "fold_exec h (snd (L f args)) (st\<lparr>made := made st @ [(f, args)]\<rparr>) = Done st1"
    "adds [] (st\<lparr>made := made st @ [(f, args)]\<rparr>) st1"
    using fold_prints [of h g, OF assms] by blast
  then show ?thesis using lib_call_runs by (fastforce simp: adds_def)
qed

text \<open>The calls \<^verbatim>\<open>main\<close> makes, with the topic it subscribes.\<close>

definition cpp_topic :: "string list \<Rightarrow> string" where
  "cpp_topic ms = (if ms = [] then [] else cstr (last ms))"

definition cpp_calls :: "string \<Rightarrow> string \<Rightarrow> string \<Rightarrow> (string \<times> string list) list" where
  "cpp_calls cfg p topic =
     [(''waku_new'', [cfg]), (''waku_default_pubsub_topic'', []), (''waku_version'', []),
      (''waku_pubsub_topic'', [''example'']), (''waku_set_event_callback'', []), (''waku_start'', []),
      (''waku_connect'', [p, ''10000'']), (''waku_relay_subscribe'', [topic]),
      (''waku_connect'', [p, ''10000''])]"

lemma default_topic_call:
  "\<exists>st'. WAKU_CALL src (lib_call L f args set_default_topic st) = Done st' \<and> made st' = made st @ [(f, args)]
     \<and> defaultPubsubTopic st' = (if snd (L f args) = [] then defaultPubsubTopic st else cstr (last (snd (L f args))))"
proof -
  let ?st = "st\<lparr>made := made st @ [(f, args)]\<rparr>"
  obtain st1 where 1: "fold_exec set_default_topic (snd (L f args)) ?st = Done st1" "made st1 = made st @ [(f, args)]"
    "defaultPubsubTopic st1 = (if snd (L f args) = [] then defaultPubsubTopic st else cstr (last (snd (L f args))))"
    by (simp add: fold_default_topic)
  then show ?thesis
    using lib_call_runs [of set_default_topic L f args st, OF 1(1)] WAKU_CALL_adds [of src "fst (L f args)" st1]
    by (auto simp: adds_def)
qed

lemma custom_topic_call:
  "\<exists>st'. WAKU_CALL src (lib_call L f args set_custom_topic st) = Done st' \<and> adds [(f, args)] st st'"
proof -
  let ?st = "st\<lparr>made := made st @ [(f, args)]\<rparr>"
  obtain st1 where 1: "fold_exec set_custom_topic (snd (L f args)) ?st = Done st1" "adds [(f, args)] st st1"
    by (simp add: fold_custom_topic adds_def)
  then show ?thesis
    using lib_call_runs [of set_custom_topic L f args st, OF 1(1)] WAKU_CALL_adds [of src "fst (L f args)" st1] by (auto simp: adds_def)
qed

lemma version_call:
  "\<exists>st'. WAKU_CALL src (lib_call L f args print_git_version st) = Done st' \<and> adds [(f, args)] st st'"
proof -
  obtain r st1 where "lib_call L f args print_git_version st = Done (r, st1)" "adds [(f, args)] st st1"
    using printing_call [of print_git_version "\<lambda>m. ''Git Version: '' @ cstr m" L f args st, OF print_git_version_def]
    by blast
  then show ?thesis using WAKU_CALL_adds [of src r st1] by (auto simp: adds_def)
qed

lemma event_call:
  "\<exists>r st'. lib_call L f args event_handler st = Done (r, st') \<and> adds [(f, args)] st st'"
  by (rule printing_call) (simp add: event_handler_def)

lemma start_call: "lib_call L f args (\<lambda>_. Done) st = Done (fst (L f args), st\<lparr>made := made st @ [(f, args)]\<rparr>)"
proof -
  have "fold_exec (\<lambda>_. Done) ms s = Done s" for ms and s :: cpp_client by (induction ms) simp_all
  then show ?thesis by (intro lib_call_runs)
qed

lemma config_text_host: "config_text cfg = Done t \<Longrightarrow> \<exists>h. buf_str (host cfg) = Done h"
  by (auto simp: config_text_def)

lemma error_call_made:
  "snd (L f args) = [] \<Longrightarrow>
     \<exists>st'. WAKU_CALL src (lib_call L f args handle_error st) = Done st' \<and> adds [(f, args)] st st'"
  using error_call [of L f args src st] by auto

lemma error_call_exits:
  "snd (L f args) \<noteq> [] \<Longrightarrow> WAKU_CALL src (lib_call L f args handle_error st) = Fault (ExitCode 1)"
  using error_call [of L f args src st] by auto

lemma dial_cpp_calls:
  assumes t: "cstr (defaultPubsubTopic st) = topic"
  shows "if snd (L ''waku_connect'' [p, ''10000'']) = [] \<and> snd (L ''waku_relay_subscribe'' [topic]) = []
    then \<exists>st'. dial_cpp L p st = Done st' \<and> made st' = made st
      @ [(''waku_connect'', [p, ''10000'']), (''waku_relay_subscribe'', [topic]), (''waku_connect'', [p, ''10000''])]
    else dial_cpp L p st = Fault (ExitCode 1)"
proof (cases "snd (L ''waku_connect'' [p, ''10000'']) = []")
  case connect: True
  obtain s1 where 1: "WAKU_CALL connect_text (lib_call L ''waku_connect'' [p, ''10000''] handle_error st) = Done s1"
    "adds [(''waku_connect'', [p, ''10000''])] st s1"
    using error_call_made [of L "''waku_connect''" "[p, ''10000'']", OF connect] by blast
  have t1: "cstr (defaultPubsubTopic s1) = topic" using 1(2) t by (simp add: adds_def)
  show ?thesis
  proof (cases "snd (L ''waku_relay_subscribe'' [topic]) = []")
    case True
    obtain s2 where 2: "WAKU_CALL subscribe_text
        (lib_call L ''waku_relay_subscribe'' [topic] handle_error s1) = Done s2"
      "adds [(''waku_relay_subscribe'', [topic])] s1 s2"
      using error_call_made [of L "''waku_relay_subscribe''" "[topic]", OF True] by blast
    let ?s2 = "out_line (''Establishing connection with: '' @ p) s2"
    obtain s3 where 3: "WAKU_CALL connect_text (lib_call L ''waku_connect'' [p, ''10000''] handle_error ?s2) = Done s3"
      "adds [(''waku_connect'', [p, ''10000''])] ?s2 s3"
      using error_call_made [of L "''waku_connect''" "[p, ''10000'']", OF connect] by blast
    have "dial_cpp L p st = Done (s3\<lparr>con := show_main_menu (con s3)\<rparr>)"
      by (simp only: dial_cpp_def Let_def 1(1) 2(1) 3(1) t1 bind_exec.simps)
    then show ?thesis using connect True 1(2) 2(2) 3(2) by (simp add: adds_def)
  next
    case False
    then show ?thesis
      using connect 1(1) by (simp add: dial_cpp_def t1 error_call_exits)
  qed
qed (simp add: dial_cpp_def error_call_exits)

lemma start_cpp_calls:
  assumes h: "buf_str (host cfg) = Done h" and p: "buf_str (peers cfg) = Done p"
    and new: "snd (L ''waku_new'' [json]) = []"
    and topic: "topic = cpp_topic (snd (L ''waku_default_pubsub_topic'' []))"
  shows "\<exists>st. start_cpp L cfg json (cpp_start input) = dial_cpp L p st \<and> defaultPubsubTopic st = topic
    \<and> made st = take 6 (cpp_calls json p topic)"
proof -
  obtain s1 where 1: "WAKU_CALL waku_new_text (lib_call L ''waku_new'' [json] handle_error (cpp_start input)) = Done s1"
    "adds [(''waku_new'', [json])] (cpp_start input) s1"
    using error_call_made [of L "''waku_new''" "[json]", OF new] by blast
  obtain s2 where 2: "WAKU_CALL default_topic_text (lib_call L ''waku_default_pubsub_topic'' [] set_default_topic s1) = Done s2"
    "made s2 = made s1 @ [(''waku_default_pubsub_topic'', [])]" "defaultPubsubTopic s2 = topic"
    using default_topic_call [of default_topic_text L "''waku_default_pubsub_topic''" "[]" s1] 1(2)
    by (auto simp: topic cpp_topic_def adds_def cpp_start_def)
  let ?s2 = "out_line (''Default pubsub topic: '' @ defaultPubsubTopic s2) s2"
  obtain s3 where 3: "WAKU_CALL version_text (lib_call L ''waku_version'' [] print_git_version ?s2) = Done s3"
    "adds [(''waku_version'', [])] ?s2 s3"
    using version_call by blast
  let ?s3 = "out_line (''Waku Relay enabled: '' @ (if relay cfg = 1 then ''YES'' else ''NO''))
    (out_line (''Bind addr: '' @ h @ '':'' @ show_nat (unat (word_of_int (port cfg) :: u32))) s3)"
  obtain s4 where 4: "WAKU_CALL custom_topic_text (lib_call L ''waku_pubsub_topic'' [''example''] set_custom_topic ?s3) = Done s4"
    "adds [(''waku_pubsub_topic'', [''example''])] ?s3 s4"
    using custom_topic_call by blast
  let ?s4 = "out_line (''Custom pubsub topic: '' @ pubsubTopic s4) s4"
  obtain r s5 where 5: "lib_call L ''waku_set_event_callback'' [] event_handler ?s4 = Done (r, s5)"
    "adds [(''waku_set_event_callback'', [])] ?s4 s5"
    using event_call by blast
  let ?s5 = "s5\<lparr>made := made s5 @ [(''waku_start'', [])]\<rparr>"
  have "start_cpp L cfg json (cpp_start input) = dial_cpp L p ?s5"
    by (simp only: start_cpp_def Let_def 1(1) 2(1) 3(1) 4(1) 5(1) h p start_call bind_exec.simps prod.case)
  then show ?thesis
    using 1(2) 2(2,3) 3(2) 4(2) 5(2) by (auto simp: adds_def cpp_calls_def cpp_start_def numeral_eq_Suc)
qed

text \<open>The start of the C++ client. \<^verbatim>\<open>WAKU_CALL\<close> only prints a failure, so whatever codes the library
  returns \<^verbatim>\<open>main\<close> makes the same nine calls in the same order, the peers dialled twice and the
  topic subscribed the one the library last reported; it leaves with code 1 exactly when the
  library calls back an error of \<^verbatim>\<open>waku_new\<close>, \<^verbatim>\<open>waku_connect\<close> or \<^verbatim>\<open>waku_relay_subscribe\<close>.\<close>

theorem cpp_startup:
  assumes "main_config evs False stack = Done (cfg, json)" and "buf_str (peers cfg) = Done p"
    and "topic = cpp_topic (snd (L ''waku_default_pubsub_topic'' []))"
  shows "if snd (L ''waku_new'' [json]) = [] \<and> snd (L ''waku_connect'' [p, ''10000'']) = []
       \<and> snd (L ''waku_relay_subscribe'' [topic]) = []
     then \<exists>st. main_cpp L evs False stack input = Done st \<and> made st = cpp_calls json p topic
     else main_cpp L evs False stack input = Fault (ExitCode 1)"
proof -
  obtain h where h: "buf_str (host cfg) = Done h"
    using assms(1) config_text_host by (auto simp: main_config_def)
  have run: "main_cpp L evs False stack input = start_cpp L cfg json (cpp_start input)"
    using assms(1) by (simp add: main_cpp_def)
  show ?thesis
  proof (cases "snd (L ''waku_new'' [json]) = []")
    case True
    obtain st where st: "start_cpp L cfg json (cpp_start input) = dial_cpp L p st" "defaultPubsubTopic st = topic"
      "made st = take 6 (cpp_calls json p topic)"
      using start_cpp_calls [of cfg h p L json topic input, OF h assms(2) True assms(3)] by blast
    have "cstr (defaultPubsubTopic st) = topic" using st(2) assms(3) by (simp add: cpp_topic_def)
    from dial_cpp_calls [of st topic L p, OF this] show ?thesis
      using True st(3) by (auto simp: run st(1) cpp_calls_def numeral_eq_Suc)
  next
    case False
    then have "start_cpp L cfg json (cpp_start input) = Fault (ExitCode 1)"
      by (simp add: start_cpp_def error_call_exits)
    with False run show ?thesis by simp
  qed
qed

definition failing_library :: old_library where
  "failing_library f args = (if f = ''waku_default_pubsub_topic'' then (1, [''/waku/2/default-waku/proto'']) else (1, []))"

definition sample_stack :: ConfigNode where
  "sample_stack = \<lparr>host = replicate 128 CHR ''x'', port = 7, key = replicate 128 CHR ''y'', relay = 7,
     peers = replicate 2048 (CHR 0x00)\<rparr>"

lemma cpp_startup_witness:
  "\<exists>st json. main_cpp failing_library [] False sample_stack [] = Done st
     \<and> made st = cpp_calls json [] ''/waku/2/default-waku/proto''"
proof -
  have NULs: "buf_str (replicate 2048 (CHR 0x00)) = Done []"
    by (simp add: buf_str_def cstr_def numeral_eq_Suc)
  have ok: "cpp_stack_ok sample_stack" by (simp add: cpp_stack_ok_def sample_stack_def)
  have e: "parse_events [] (default_config sample_stack) = Done (default_config sample_stack)"
    by (simp add: parse_events_def)
  obtain json where json: "config_text (default_config sample_stack) = Done json"
    using cpp_config_text_fits [OF cpp_default_config_ok [OF ok]] by blast
  have m: "main_config [] False sample_stack = Done (default_config sample_stack, snprintf_text 1024 json)"
    by (simp add: main_config_def e json)
  have p: "buf_str (peers (default_config sample_stack)) = Done []"
    using NULs by (simp add: default_config_def sample_stack_def)
  have t: "cpp_topic (snd (failing_library ''waku_default_pubsub_topic'' [])) = ''/waku/2/default-waku/proto''"
    by (simp add: cpp_topic_def failing_library_def)
  have "snd (failing_library f args) = []" if "f \<noteq> ''waku_default_pubsub_topic''" for f args
    using that by (simp add: failing_library_def)
  then show ?thesis
    using cpp_startup [where L = failing_library and input = "[]", OF m p t [symmetric]] by auto
qed

section \<open>Publishing from the menu\<close>

text \<open>Publishing from the menu of the C++ client. For a message of ASCII characters it encodes and
  then discards everything that was typed: without checks in the C++ library the round ends by showing the
  menu again, having printed its prompts and nothing else, and with checks the program stops in
  \<^verbatim>\<open>b64_encode\<close>.\<close>

theorem cpp_publish_branch:
  assumes "scan 127 (stack 128) (print_line ''Indicate the Pubsubtopic:'' st) = (topic, st1)"
    and "scan 1023 (stack 1024) (print_line ''Type the message tp publish:'' st1) = (msg, st2)"
    and "buf_str msg = Done m" and "m \<noteq> []" and "ascii (str_bytes m)" and "length (stack 1024) = 1024"
  shows "menu_branch \<lparr>checks = k, bad_alloc = False, fresh_mem = f\<rparr> stack PUBLISH_MESSAGE_MENU st =
      (if k then Fault (FatalError ''operator[]'') else Done (show_main_menu st2))
    \<and> stdout (show_main_menu st2) = stdout st @ [line ''Indicate the Pubsubtopic:'', line ''Type the message tp publish:''] @ menu_lines"
proof -
  have "length msg \<le> 1024"
    using assms(2,6) scanf_word_fits [of "stack 1024" 1023 "iobuf (print_line ''Type the message tp publish:'' st1)"
        "kern (print_line ''Type the message tp publish:'' st1)"]
    by (auto simp: scan_def split: prod.splits)
  then have l: "length m < 1024" using buf_strD [OF assms(3)] by simp
  have n: "str_bytes m \<noteq> []" "unat (of_nat (length m) :: u64) = length (str_bytes m)"
    "length (str_bytes m) \<le> 3 * (2 ^ 61 - 1)"
    using assms(4) l by (auto simp: str_bytes_def unsigned_of_nat take_bit_nat_eq_self)
  have "stdout st1 = stdout st @ [line ''Indicate the Pubsubtopic:'']"
    "stdout st2 = stdout st1 @ [line ''Type the message tp publish:'']"
    using assms(1,2) by (auto simp: scan_def print_line_def split: prod.splits)
  then show ?thesis
    using assms(1,2,3) encode_unchecked [OF n assms(5), of f] encode_checked [OF n assms(5), of f]
    by (cases k) (simp_all add: show_main_menu_def)
qed

lemma cpp_publish_branch_witness:
  "menu_branch \<lparr>checks = True, bad_alloc = False, fresh_mem = (\<lambda>_. CHR ''?'')\<rparr> (\<lambda>n. replicate n (CHR 0x00))
     PUBLISH_MESSAGE_MENU \<lparr>stdout = [], kern = [], iobuf = ''t hi ''\<rparr> = Fault (FatalError ''operator[]'')"
proof -
  let ?st1 = "\<lparr>stdout = [line ''Indicate the Pubsubtopic:''], kern = [], iobuf = '' hi ''\<rparr>"
  let ?st2 = "\<lparr>stdout = [line ''Indicate the Pubsubtopic:'', line ''Type the message tp publish:''], kern = [], iobuf = '' ''\<rparr>"
  have s1: "scan 127 (replicate 128 (CHR 0x00)) (print_line ''Indicate the Pubsubtopic:''
      \<lparr>stdout = [], kern = [], iobuf = ''t hi ''\<rparr>) = ([CHR ''t'', CHR 0x00], ?st1)" by code_simp
  have s2: "scan 1023 (replicate 1024 (CHR 0x00)) (print_line ''Type the message tp publish:'' ?st1)
      = ([CHR ''h'', CHR ''i'', CHR 0x00], ?st2)" by code_simp
  have b: "buf_str [CHR ''h'', CHR ''i'', CHR 0x00] = Done ''hi''" by (simp add: buf_str_def cstr_def)
  have a: "''hi'' \<noteq> []" "ascii (str_bytes ''hi'')" "length (replicate 1024 (CHR 0x00)) = 1024"
    by (simp_all add: ascii_def str_bytes_def unat_of_char)
  show ?thesis
    using cpp_publish_branch [where stack = "\<lambda>n. replicate n (CHR 0x00)", OF s1 s2 b a, of True "\<lambda>_. CHR ''?''"] by simp
qed

end
