(* ===== verification/MessageCache.thy ===== *)
theory MessageCache
  imports WakuMessage "HOL-Library.Multiset"
begin

text \<open>
  The message cache behind the REST and RPC interfaces, \<^verbatim>\<open>waku/waku_api/message_cache.nim\<close>:
  messages in a sequence, the subscribed topics in two sequences, and for each kind of topic
  an index of pairs of a topic position and a message position. Deletion is Nim's swap
  delete, so the loops that repair the indices run downwards while they delete.
\<close>

section \<open>State and searches\<close>

type_synonym index = "(nat \<times> nat) list"

record MessageCache =
  pubsubTopics :: "PubsubTopic list"
  contentTopics :: "ContentTopic list"
  pubsubIndex :: index
  contentIndex :: index
  messages :: "WakuMessage list"
  capacity :: int

definition DefaultMessageCacheCapacity :: int where "DefaultMessageCacheCapacity = 50"

definition init_cache :: "int \<Rightarrow> MessageCache" where
  "init_cache cap = \<lparr>pubsubTopics = [], contentTopics = [], pubsubIndex = [], contentIndex = [],
     messages = [], capacity = cap\<rparr>"

definition pubsubSearch :: "MessageCache \<Rightarrow> PubsubTopic \<Rightarrow> nat option" where
  "pubsubSearch c t = index_of t (pubsubTopics c)"

definition contentSearch :: "MessageCache \<Rightarrow> ContentTopic \<Rightarrow> nat option" where
  "contentSearch c t = index_of t (contentTopics c)"

definition isPubsubSubscribed :: "MessageCache \<Rightarrow> PubsubTopic \<Rightarrow> bool" where
  "isPubsubSubscribed c t = (pubsubSearch c t \<noteq> None)"

definition isContentSubscribed :: "MessageCache \<Rightarrow> ContentTopic \<Rightarrow> bool" where
  "isContentSubscribed c t = (contentSearch c t \<noteq> None)"

definition pubsubSubscribe :: "PubsubTopic \<Rightarrow> MessageCache \<Rightarrow> MessageCache" where
  "pubsubSubscribe t c =
     (if pubsubSearch c t = None then c\<lparr>pubsubTopics := pubsubTopics c @ [t]\<rparr> else c)"

definition contentSubscribe :: "ContentTopic \<Rightarrow> MessageCache \<Rightarrow> MessageCache" where
  "contentSubscribe t c =
     (if contentSearch c t = None then c\<lparr>contentTopics := contentTopics c @ [t]\<rparr> else c)"

section \<open>Repairing an index\<close>

definition swap_del :: "nat \<Rightarrow> 'a list \<Rightarrow> 'a list" where
  "swap_del j xs = butlast (xs[j := last xs])"

text \<open>
  The loop of \<^verbatim>\<open>removeMessage\<close> on one index: entries of message \<open>idx\<close> go, entries of the
  message that was last now point to \<open>idx\<close>. The loop of the unsubscriptions does the same
  on the topic positions and collects the messages of the entries it deletes.
\<close>

fun remove_msg_loop :: "nat \<Rightarrow> nat \<Rightarrow> nat \<Rightarrow> index \<Rightarrow> index" where
  "remove_msg_loop idx lastIndex 0 xs = xs"
| "remove_msg_loop idx lastIndex (Suc j) xs =
     (let (pId, mId) = xs ! j in
      remove_msg_loop idx lastIndex j
        (if mId = idx then swap_del j xs
         else if mId = lastIndex then xs[j := (pId, idx)] else xs))"

fun remove_topic_loop :: "nat \<Rightarrow> nat \<Rightarrow> nat \<Rightarrow> index \<Rightarrow> nat list \<Rightarrow> index \<times> nat list" where
  "remove_topic_loop idx lastIndex 0 xs acc = (xs, acc)"
| "remove_topic_loop idx lastIndex (Suc j) xs acc =
     (let (pId, mId) = xs ! j in
      if pId = idx then remove_topic_loop idx lastIndex j (swap_del j xs) (acc @ [mId])
      else remove_topic_loop idx lastIndex j
        (if pId = lastIndex then xs[j := (idx, mId)] else xs) acc)"

text \<open>\<^verbatim>\<open>seq.del\<close> takes a \<^verbatim>\<open>Natural\<close>: a negative position is a \<^verbatim>\<open>RangeDefect\<close>.\<close>

definition removeMessage :: "int \<Rightarrow> MessageCache \<Rightarrow> MessageCache exec" where
  "removeMessage i c =
     (if i < 0 then Fault RangeDefect
      else let idx = nat i; lastIndex = length (messages c) - 1 in
        bind_exec (seq_del idx (messages c)) (\<lambda>ms.
        Done (c\<lparr>messages := ms,
          pubsubIndex := remove_msg_loop idx lastIndex (length (pubsubIndex c)) (pubsubIndex c),
          contentIndex := remove_msg_loop idx lastIndex (length (contentIndex c)) (contentIndex c)\<rparr>)))"

section \<open>Operations\<close>

fun remove_all :: "nat list \<Rightarrow> MessageCache \<Rightarrow> MessageCache exec" where
  "remove_all [] c = Done c"
| "remove_all (i # is) c = bind_exec (removeMessage (int i) c) (remove_all is)"

fun remove_unindexed :: "(MessageCache \<Rightarrow> index) \<Rightarrow> nat list \<Rightarrow> MessageCache \<Rightarrow> MessageCache exec" where
  "remove_unindexed other [] c = Done c"
| "remove_unindexed other (m # ms) c =
     (if \<not> list_ex (\<lambda>(t, i). i = m) (other c)
      then bind_exec (removeMessage (int m) c) (remove_unindexed other ms)
      else remove_unindexed other ms c)"

definition descending :: "nat list \<Rightarrow> nat list" where
  "descending xs = rev (sort xs)"

definition pubsubUnsubscribe :: "PubsubTopic \<Rightarrow> MessageCache \<Rightarrow> MessageCache exec" where
  "pubsubUnsubscribe t c =
     (case pubsubSearch c t of None \<Rightarrow> Done c
      | Some pubsubIdx \<Rightarrow>
          (let lastIndex = length (pubsubTopics c) - 1;
               (pidx, msgIndices) = remove_topic_loop pubsubIdx lastIndex (length (pubsubIndex c)) (pubsubIndex c) []
           in remove_unindexed contentIndex (descending msgIndices)
                (c\<lparr>pubsubTopics := swap_del pubsubIdx (pubsubTopics c), pubsubIndex := pidx\<rparr>)))"

definition contentUnsubscribe :: "ContentTopic \<Rightarrow> MessageCache \<Rightarrow> MessageCache exec" where
  "contentUnsubscribe t c =
     (case contentSearch c t of None \<Rightarrow> Done c
      | Some contentIdx \<Rightarrow>
          (let lastIndex = length (contentTopics c) - 1;
               (cidx, msgIndices) = remove_topic_loop contentIdx lastIndex (length (contentIndex c)) (contentIndex c) []
           in remove_unindexed pubsubIndex (descending msgIndices)
                (c\<lparr>contentTopics := swap_del contentIdx (contentTopics c), contentIndex := cidx\<rparr>)))"

definition reset :: "MessageCache \<Rightarrow> MessageCache" where
  "reset c = c\<lparr>messages := [], pubsubTopics := [], contentTopics := [], pubsubIndex := [], contentIndex := []\<rparr>"

text \<open>
  The first loop of \<^verbatim>\<open>addMessage\<close> over the reversed messages: \<open>None\<close> when the message is there,
  otherwise the position (in the reversed sequence) of the oldest, \<^verbatim>\<open>int.high\<close> if no time
  stamp is below \<^verbatim>\<open>int64.high\<close>.
\<close>

definition int64_high :: int where "int64_high = 2 ^ 63 - 1"

fun oldest_loop :: "WakuMessage \<Rightarrow> int \<Rightarrow> int \<Rightarrow> int \<Rightarrow> WakuMessage list \<Rightarrow> int option" where
  "oldest_loop msg i oldestTime oldestMsg [] = Some oldestMsg"
| "oldest_loop msg i oldestTime oldestMsg (m # ms) =
     (if m = msg then None
      else if timestamp m < oldestTime then oldest_loop msg (i + 1) (timestamp m) i ms
      else oldest_loop msg (i + 1) oldestTime oldestMsg ms)"

definition addMessage :: "PubsubTopic \<Rightarrow> WakuMessage \<Rightarrow> MessageCache \<Rightarrow> MessageCache exec" where
  "addMessage t msg c =
     (case oldest_loop msg 0 int64_high int64_high (rev (messages c)) of
        None \<Rightarrow> Done c
      | Some o' \<Rightarrow>
          (let oldestMsg = int (length (messages c)) - 1 - o' in
           if pubsubSearch c t = None \<and> contentSearch c (contentTopic msg) = None then Done c
           else let c = pubsubSubscribe t c;
                    pubsubIdx = the (pubsubSearch c t);
                    c = contentSubscribe (contentTopic msg) c;
                    contentIdx = the (contentSearch c (contentTopic msg))
                in bind_exec (if int (length (messages c)) \<ge> capacity c then removeMessage oldestMsg c else Done c)
                  (\<lambda>c. let msgIdx = length (messages c) in
                    Done (c\<lparr>messages := messages c @ [msg],
                      pubsubIndex := pubsubIndex c @ [(pubsubIdx, msgIdx)],
                      contentIndex := contentIndex c @ [(contentIdx, msgIdx)]\<rparr>))))"

text \<open>The message positions under a topic, in the order of the index.\<close>

definition under :: "nat \<Rightarrow> index \<Rightarrow> nat list" where
  "under k xs = map snd (filter (\<lambda>x. fst x = k) xs)"

fun read_all :: "WakuMessage list \<Rightarrow> nat list \<Rightarrow> WakuMessage list exec" where
  "read_all ms [] = Done []"
| "read_all ms (i # is) =
     (if i < length ms then bind_exec (read_all ms is) (\<lambda>r. Done (ms ! i # r)) else Fault IndexDefect)"

definition getMessages :: "PubsubTopic \<Rightarrow> bool \<Rightarrow> MessageCache \<Rightarrow> ((string + WakuMessage list) \<times> MessageCache) exec" where
  "getMessages t clear c =
     (if pubsubTopics c = [] then Done (Inl ''not subscribed to any pubsub topics'', c)
      else case pubsubSearch c t of
        None \<Rightarrow> Done (Inl ''not subscribed to this pubsub topic'', c)
      | Some k \<Rightarrow> (let is = under k (pubsubIndex c) in
          bind_exec (read_all (messages c) is) (\<lambda>ms.
          bind_exec (if clear then remove_all (rev is) c else Done c) (\<lambda>c. Done (Inr ms, c)))))"

definition getAutoMessages :: "ContentTopic \<Rightarrow> bool \<Rightarrow> MessageCache \<Rightarrow> ((string + WakuMessage list) \<times> MessageCache) exec" where
  "getAutoMessages t clear c =
     (if contentTopics c = [] then Done (Inl ''not subscribed to any content topics'', c)
      else case contentSearch c t of
        None \<Rightarrow> Done (Inl ''not subscribed to this content topic'', c)
      | Some k \<Rightarrow> (let is = under k (contentIndex c) in
          bind_exec (read_all (messages c) is) (\<lambda>ms.
          bind_exec (if clear then remove_all (descending is) c else Done c) (\<lambda>c. Done (Inr ms, c)))))"

section \<open>Swap deletion\<close>

lemma swap_del_parts:
  assumes "j < length xs"
  shows "swap_del j xs = (if Suc j = length xs then take j xs else take j xs @ last xs # butlast (drop (Suc j) xs))"
proof (cases "Suc j = length xs")
  case True
  then have "length xs = Suc j" ..
  then show ?thesis by (simp add: swap_del_def butlast_conv_take)
next
  case False
  then have "drop (Suc j) xs \<noteq> []" using assms by simp
  then show ?thesis
    using assms False by (simp add: swap_del_def upd_conv_take_nth_drop butlast_append)
qed

lemma mset_swap_del:
  assumes j: "j < length xs"
  shows "add_mset (xs ! j) (mset (swap_del j xs)) = mset xs"
proof -
  have xs: "mset xs = mset (take j xs) + add_mset (xs ! j) (mset (drop (Suc j) xs))"
    using arg_cong [OF id_take_nth_drop [OF j], of mset] by simp
  show ?thesis
  proof (cases "Suc j = length xs")
    case False
    then have ne: "drop (Suc j) xs \<noteq> []" using j by simp
    have "last xs = last (drop (Suc j) xs)" using ne by simp
    then have "mset (drop (Suc j) xs) = add_mset (last xs) (mset (butlast (drop (Suc j) xs)))"
      using arg_cong [OF append_butlast_last_id [OF ne, symmetric], of mset] by simp
    then show ?thesis using xs swap_del_parts [OF j] False by simp
  qed (use swap_del_parts [OF j] xs in simp)
qed

lemma take_swap_del: "j < length xs \<Longrightarrow> take j (swap_del j xs) = take j xs"
  by (simp add: swap_del_parts)

lemma length_swap_del [simp]: "length (swap_del j xs) = length xs - 1"
  by (simp add: swap_del_def)

lemma nth_swap_del:
  "j < length xs \<Longrightarrow> i < length xs - 1 \<Longrightarrow> swap_del j xs ! i = (if i = j then last xs else xs ! i)"
  by (simp add: swap_del_def nth_butlast)

lemma seq_del_Done: "i < length xs \<Longrightarrow> seq_del i xs = Done (swap_del i xs)"
  by (simp add: seq_del_def swap_del_def)

text \<open>What the loops do to an index, as a multiset.\<close>

definition move :: "nat \<Rightarrow> nat \<Rightarrow> nat \<Rightarrow> nat" where
  "move idx l m = (if m = l then idx else m)"

lemma remove_msg_loop_take:
  assumes "j \<le> length xs"
  shows "mset (remove_msg_loop idx l j xs) =
    image_mset (\<lambda>(p, m). (p, move idx l m)) (filter_mset (\<lambda>(p, m). m \<noteq> idx) (mset (take j xs))) + mset (drop j xs)"
  using assms
proof (induction j arbitrary: xs)
  case (Suc j)
  obtain p m where e: "xs ! j = (p, m)" by fastforce
  have j: "j < length xs" using Suc.prems by simp
  have tk: "take (Suc j) xs = take j xs @ [(p, m)]" using j e by (simp add: take_Suc_conv_app_nth)
  have dr: "mset (drop j xs) = {#(p, m)#} + mset (drop (Suc j) xs)"
    using j e by (metis Cons_nth_drop_Suc add_mset_add_single mset.simps(2) union_commute)
  show ?case
  proof (cases "m = idx")
    case True
    have "mset xs = mset (take j xs) + mset (drop j xs)" by (metis append_take_drop_id mset_append)
    then have "mset (swap_del j xs) = mset (take j xs) + mset (drop (Suc j) xs)"
      using mset_swap_del [OF j] e dr by simp
    moreover have "mset (swap_del j xs) = mset (take j xs) + mset (drop j (swap_del j xs))"
      by (metis append_take_drop_id mset_append take_swap_del [OF j])
    ultimately have d: "mset (drop j (swap_del j xs)) = mset (drop (Suc j) xs)" by simp
    have le: "j \<le> length (swap_del j xs)" using Suc.prems by simp
    show ?thesis using Suc.IH [OF le] True e by (simp add: tk take_swap_del [OF j] d)
  next
    case False
    let ?x = "(p, move idx l m)"
    have s: "remove_msg_loop idx l (Suc j) xs = remove_msg_loop idx l j (xs[j := ?x])"
      using e False by (auto simp: move_def list_update_id [of xs j, unfolded e])
    have le: "j \<le> length (xs[j := ?x])" using j by simp
    have "mset (drop j (xs[j := ?x])) = {#?x#} + mset (drop (Suc j) xs)"
      using j by (simp add: drop_update_swap [of j j] ) (metis Cons_nth_drop_Suc list_update_code(2) mset.simps(2))
    then show ?thesis unfolding s using Suc.IH [OF le] False by (simp add: tk)
  qed
qed simp

lemma mset_remove_msg_loop:
  "mset (remove_msg_loop idx l (length xs) xs) =
     image_mset (\<lambda>(p, m). (p, move idx l m)) (filter_mset (\<lambda>(p, m). m \<noteq> idx) (mset xs))"
  by (simp add: remove_msg_loop_take)

lemma remove_topic_loop_take:
  assumes "j \<le> length xs"
  shows "mset (fst (remove_topic_loop idx l j xs acc)) =
      image_mset (\<lambda>(p, m). (move idx l p, m)) (filter_mset (\<lambda>(p, m). p \<noteq> idx) (mset (take j xs))) + mset (drop j xs)
    \<and> mset (snd (remove_topic_loop idx l j xs acc)) =
      mset acc + image_mset snd (filter_mset (\<lambda>(p, m). p = idx) (mset (take j xs)))"
  using assms
proof (induction j arbitrary: xs acc)
  case (Suc j)
  obtain p m where e: "xs ! j = (p, m)" by fastforce
  have j: "j < length xs" using Suc.prems by simp
  have tk: "take (Suc j) xs = take j xs @ [(p, m)]" using j e by (simp add: take_Suc_conv_app_nth)
  have dr: "mset (drop j xs) = {#(p, m)#} + mset (drop (Suc j) xs)"
    using j e by (metis Cons_nth_drop_Suc add_mset_add_single mset.simps(2) union_commute)
  show ?case
  proof (cases "p = idx")
    case True
    have "mset xs = mset (take j xs) + mset (drop j xs)" by (metis append_take_drop_id mset_append)
    then have "mset (swap_del j xs) = mset (take j xs) + mset (drop (Suc j) xs)"
      using mset_swap_del [OF j] e dr by simp
    moreover have "mset (swap_del j xs) = mset (take j xs) + mset (drop j (swap_del j xs))"
      by (metis append_take_drop_id mset_append take_swap_del [OF j])
    ultimately have d: "mset (drop j (swap_del j xs)) = mset (drop (Suc j) xs)" by simp
    have le: "j \<le> length (swap_del j xs)" using Suc.prems by simp
    show ?thesis using Suc.IH [OF le, of "acc @ [m]"] True e by (simp add: tk take_swap_del [OF j] d)
  next
    case False
    let ?x = "(move idx l p, m)"
    have s: "remove_topic_loop idx l (Suc j) xs acc = remove_topic_loop idx l j (xs[j := ?x]) acc"
      using e False by (auto simp: move_def list_update_id [of xs j, unfolded e])
    have le: "j \<le> length (xs[j := ?x])" using j by simp
    have "mset (drop j (xs[j := ?x])) = {#?x#} + mset (drop (Suc j) xs)"
      using j by (simp add: drop_update_swap [of j j] ) (metis Cons_nth_drop_Suc list_update_code(2) mset.simps(2))
    then show ?thesis unfolding s using Suc.IH [OF le, of acc] False by (simp add: tk)
  qed
qed simp

section \<open>Invariant and views\<close>

text \<open>
  Each message is listed at most once per index. The view of an index replaces positions by
  the topics and messages they point to, so it does not change when the sequences swap.
\<close>

definition index_ok :: "nat \<Rightarrow> nat \<Rightarrow> index \<Rightarrow> bool" where
  "index_ok k n xs \<longleftrightarrow> distinct (map snd xs) \<and> (\<forall>x \<in> set xs. fst x < k \<and> snd x < n)"

definition index_view :: "string list \<Rightarrow> WakuMessage list \<Rightarrow> index \<Rightarrow> (string \<times> WakuMessage) set" where
  "index_view ts ms xs = (\<lambda>(t, m). (ts ! t, ms ! m)) ` set xs"

definition pubsub_view :: "MessageCache \<Rightarrow> (string \<times> WakuMessage) set" where
  "pubsub_view c = index_view (pubsubTopics c) (messages c) (pubsubIndex c)"

definition content_view :: "MessageCache \<Rightarrow> (string \<times> WakuMessage) set" where
  "content_view c = index_view (contentTopics c) (messages c) (contentIndex c)"

definition cache_ok :: "MessageCache \<Rightarrow> bool" where
  "cache_ok c \<longleftrightarrow> distinct (pubsubTopics c) \<and> distinct (contentTopics c) \<and> distinct (messages c) \<and>
     index_ok (length (pubsubTopics c)) (length (messages c)) (pubsubIndex c) \<and>
     index_ok (length (contentTopics c)) (length (messages c)) (contentIndex c) \<and>
     int (length (messages c)) \<le> capacity c"

definition no_orphan :: "MessageCache \<Rightarrow> bool" where
  "no_orphan c \<longleftrightarrow> set (messages c) = snd ` (pubsub_view c \<union> content_view c)"

lemma move_inj: "inj_on (move idx l) {m. m \<noteq> idx \<and> m \<le> l}"
  by (auto simp: inj_on_def move_def)

lemma set_swap_del:
  assumes "distinct xs" "i < length xs"
  shows "set (swap_del i xs) = set xs - {xs ! i}" "distinct (swap_del i xs)"
proof -
  have m: "add_mset (xs ! i) (mset (swap_del i xs)) = mset xs" using assms(2) by (rule mset_swap_del)
  then have e: "mset (xs ! i # swap_del i xs) = mset xs" by simp
  then have d: "distinct (xs ! i # swap_del i xs)" using assms(1) mset_eq_imp_distinct_iff by blast
  then show "distinct (swap_del i xs)" by simp
  have "set (xs ! i # swap_del i xs) = set xs" using e by (rule mset_eq_setD)
  then show "set (swap_del i xs) = set xs - {xs ! i}" using d by auto
qed

lemma nth_swap_move:
  assumes "i < length xs" "m < length xs" "m \<noteq> i"
  shows "swap_del i xs ! move i (length xs - 1) m = xs ! m" "move i (length xs - 1) m < length xs - 1"
proof -
  have "xs \<noteq> []" using assms by auto
  then show "swap_del i xs ! move i (length xs - 1) m = xs ! m" "move i (length xs - 1) m < length xs - 1"
    using assms by (auto simp: move_def nth_swap_del last_conv_nth)
qed

lemma remove_msg_loop_spec:
  assumes ok: "index_ok k (length ms) xs" and i: "i < length ms" and d: "distinct ms"
  defines "xs' \<equiv> remove_msg_loop i (length ms - 1) (length xs) xs"
  shows "index_ok k (length ms - 1) xs'"
    "index_view ts (swap_del i ms) xs' = {x \<in> index_view ts ms xs. snd x \<noteq> ms ! i}"
proof -
  let ?ys = "map (\<lambda>(p, m). (p, move i (length ms - 1) m)) (filter (\<lambda>(p, m). m \<noteq> i) xs)"
  have m: "mset xs' = mset ?ys" unfolding xs'_def by (simp add: mset_remove_msg_loop)
  have b: "\<And>t q. (t, q) \<in> set xs \<Longrightarrow> t < k \<and> q < length ms" using ok by (auto simp: index_ok_def)
  have "distinct (map snd (filter (\<lambda>(p, m). m \<noteq> i) xs))"
    using ok by (simp add: index_ok_def distinct_map_filter)
  moreover have "snd ` set (filter (\<lambda>(p, m). m \<noteq> i) xs) \<subseteq> {m. m \<noteq> i \<and> m \<le> length ms - 1}"
    using b by fastforce
  ultimately have "distinct (map (move i (length ms - 1)) (map snd (filter (\<lambda>(p, m). m \<noteq> i) xs)))"
    using inj_on_subset [OF move_inj] by (subst distinct_map) auto
  moreover have "map snd ?ys = map (move i (length ms - 1)) (map snd (filter (\<lambda>(p, m). m \<noteq> i) xs))" by auto
  ultimately have "distinct (map snd ?ys)" by (simp only:)
  moreover have "mset (map snd xs') = mset (map snd ?ys)" using m by (simp only: mset_map)
  ultimately have dist: "distinct (map snd xs')" using mset_eq_imp_distinct_iff by blast
  have set: "set xs' = (\<lambda>(p, m). (p, move i (length ms - 1) m)) ` {x \<in> set xs. snd x \<noteq> i}"
    using mset_eq_setD [OF m] by auto
  show "index_ok k (length ms - 1) xs'"
    unfolding index_ok_def set using dist b nth_swap_move(2) [OF i] by (auto simp del: One_nat_def)
  have img: "index_view ts (swap_del i ms) xs' = (\<lambda>(t, m). (ts ! t, ms ! m)) ` {x \<in> set xs. snd x \<noteq> i}"
    unfolding index_view_def set image_image using nth_swap_move(1) [OF i] b by (intro image_cong) auto
  have "ms ! snd x \<noteq> ms ! i \<longleftrightarrow> snd x \<noteq> i" if "x \<in> set xs" for x
    using that b [of "fst x" "snd x"] i d by (simp add: nth_eq_iff_index_eq)
  then show "index_view ts (swap_del i ms) xs' = {x \<in> index_view ts ms xs. snd x \<noteq> ms ! i}"
    unfolding img by (force simp: index_view_def)
qed

lemma remove_topic_loop_spec:
  assumes ok: "index_ok (length ts) n xs" and i: "i < length ts" and d: "distinct ts"
  defines "r \<equiv> remove_topic_loop i (length ts - 1) (length xs) xs []"
  shows "index_ok (length ts - 1) n (fst r)"
    "index_view (swap_del i ts) ms (fst r) = {x \<in> index_view ts ms xs. fst x \<noteq> ts ! i}"
    "distinct (snd r)" "set (snd r) = snd ` {x \<in> set xs. fst x = i}"
proof -
  let ?ys = "map (\<lambda>(p, m). (move i (length ts - 1) p, m)) (filter (\<lambda>(p, m). p \<noteq> i) xs)"
  let ?zs = "map snd (filter (\<lambda>(p, m). p = i) xs)"
  have m: "mset (fst r) = mset ?ys" "mset (snd r) = mset ?zs"
    unfolding r_def using remove_topic_loop_take [of "length xs" xs i "length ts - 1" "[]"] by simp_all
  have b: "\<And>t q. (t, q) \<in> set xs \<Longrightarrow> t < length ts \<and> q < n" using ok by (auto simp: index_ok_def)
  have dx: "distinct (map snd xs)" using ok by (simp add: index_ok_def)
  have "distinct ?zs" using dx by (rule distinct_map_filter)
  then show "distinct (snd r)" using m(2) mset_eq_imp_distinct_iff by blast
  show "set (snd r) = snd ` {x \<in> set xs. fst x = i}" using mset_eq_setD [OF m(2)] by auto
  have "map snd ?ys = map snd (filter (\<lambda>(p, m). p \<noteq> i) xs)" by auto
  then have "distinct (map snd ?ys)" using distinct_map_filter [OF dx] by (simp only:)
  moreover have "mset (map snd (fst r)) = mset (map snd ?ys)" using m(1) by (simp only: mset_map)
  ultimately have dist: "distinct (map snd (fst r))" using mset_eq_imp_distinct_iff by blast
  have set: "set (fst r) = (\<lambda>(p, m). (move i (length ts - 1) p, m)) ` {x \<in> set xs. fst x \<noteq> i}"
    using mset_eq_setD [OF m(1)] by auto
  show "index_ok (length ts - 1) n (fst r)"
    unfolding index_ok_def set using dist b nth_swap_move(2) [OF i] by (auto simp del: One_nat_def)
  have img: "index_view (swap_del i ts) ms (fst r) = (\<lambda>(t, m). (ts ! t, ms ! m)) ` {x \<in> set xs. fst x \<noteq> i}"
    unfolding index_view_def set image_image using nth_swap_move(1) [OF i] b by (intro image_cong) auto
  have "ts ! fst x \<noteq> ts ! i \<longleftrightarrow> fst x \<noteq> i" if "x \<in> set xs" for x
    using that b [of "fst x" "snd x"] i d by (simp add: nth_eq_iff_index_eq)
  then show "index_view (swap_del i ts) ms (fst r) = {x \<in> index_view ts ms xs. fst x \<noteq> ts ! i}"
    unfolding img by (force simp: index_view_def)
qed

section \<open>Removing messages\<close>

text \<open>What is left after the messages of \<open>gone\<close> are removed: views, sequences and bounds.\<close>

definition removed :: "WakuMessage set \<Rightarrow> MessageCache \<Rightarrow> MessageCache \<Rightarrow> bool" where
  "removed gone c c' \<longleftrightarrow> cache_ok c' \<and> set (messages c') = set (messages c) - gone \<and>
     pubsub_view c' = {x \<in> pubsub_view c. snd x \<notin> gone} \<and>
     content_view c' = {x \<in> content_view c. snd x \<notin> gone} \<and>
     pubsubTopics c' = pubsubTopics c \<and> contentTopics c' = contentTopics c \<and> capacity c' = capacity c"

lemma removed_refl [simp]: "cache_ok c \<Longrightarrow> removed {} c c"
  by (simp add: removed_def)

lemma removed_trans: "removed A c c' \<Longrightarrow> removed B c' c'' \<Longrightarrow> removed (A \<union> B) c c''"
  by (auto simp: removed_def)

lemma removeMessage_spec:
  assumes ok: "cache_ok c" and i: "i < length (messages c)"
  shows "\<exists>c'. removeMessage (int i) c = Done c' \<and> messages c' = swap_del i (messages c) \<and>
    contentIndex c' = remove_msg_loop i (length (messages c) - 1) (length (contentIndex c)) (contentIndex c) \<and>
    pubsubIndex c' = remove_msg_loop i (length (messages c) - 1) (length (pubsubIndex c)) (pubsubIndex c) \<and>
    removed {messages c ! i} c c'"
proof -
  have d: "distinct (messages c)" and p: "index_ok (length (pubsubTopics c)) (length (messages c)) (pubsubIndex c)"
    and t: "index_ok (length (contentTopics c)) (length (messages c)) (contentIndex c)"
    using ok by (simp_all add: cache_ok_def)
  have le: "int (length (messages c) - 1) \<le> capacity c" using ok unfolding cache_ok_def by linarith
  note spec = remove_msg_loop_spec [OF p i d] remove_msg_loop_spec [OF t i d]
  show ?thesis
    using i ok le spec set_swap_del [OF d i]
    by (auto simp: removeMessage_def seq_del_Done removed_def cache_ok_def pubsub_view_def content_view_def Let_def)
qed

lemma nth_after_remove:
  "i < length xs \<Longrightarrow> j < i \<Longrightarrow> swap_del i xs ! j = xs ! j" "i < length xs \<Longrightarrow> j < i \<Longrightarrow> j < length (swap_del i xs)"
  by (auto simp: nth_swap_del)

lemma remove_all_descending:
  assumes "cache_ok c" "sorted_wrt (>) ns" "\<forall>i \<in> set ns. i < length (messages c)"
  shows "\<exists>c'. remove_all ns c = Done c' \<and> removed ((!) (messages c) ` set ns) c c'"
  using assms
proof (induction "ns" arbitrary: c)
  case (Cons i ns)
  then have i: "i < length (messages c)" and less: "\<forall>j \<in> set ns. j < i" by auto
  obtain c1 where c1: "removeMessage (int i) c = Done c1" "messages c1 = swap_del i (messages c)"
    "removed {messages c ! i} c c1"
    using removeMessage_spec [OF Cons.prems(1) i] by blast
  have ok1: "cache_ok c1" using c1(3) by (simp add: removed_def)
  have img: "(!) (messages c1) ` set ns = (!) (messages c) ` set ns"
    unfolding c1(2) using less i by (intro image_cong) (auto simp: nth_after_remove)
  have "\<forall>j \<in> set ns. j < length (messages c1)" unfolding c1(2) using less i nth_after_remove(2) by blast
  then obtain c' where c': "remove_all ns c1 = Done c'" "removed ((!) (messages c) ` set ns) c1 c'"
    using Cons.IH [OF ok1] Cons.prems(2) img by auto
  then show ?case using c1(1) removed_trans [OF c1(3) c'(2)] by (intro exI [of _ c']) simp
qed simp

text \<open>
  Only the entries above the position removed are moved, so for descending positions the test
  against the current index is the test against the index before the loop.
\<close>

lemma indexed_after_remove:
  assumes "index_ok k (length ms) xs" "i < length ms" "distinct ms" "j < i"
  shows "list_ex (\<lambda>(t, m). m = j) (remove_msg_loop i (length ms - 1) (length xs) xs)
    = list_ex (\<lambda>(t, m). m = j) xs"
proof -
  have set: "set (remove_msg_loop i (length ms - 1) (length xs) xs)
      = (\<lambda>(p, m). (p, move i (length ms - 1) m)) ` {x \<in> set xs. snd x \<noteq> i}"
    using mset_eq_setD [of "remove_msg_loop i (length ms - 1) (length xs) xs"
        "map (\<lambda>(p, m). (p, move i (length ms - 1) m)) (filter (\<lambda>(p, m). m \<noteq> i) xs)"]
    by (auto simp: mset_remove_msg_loop)
  show ?thesis
  proof -
    have b: "\<And>t q. (t, q) \<in> set xs \<Longrightarrow> q < length ms" using assms(1) by (auto simp: index_ok_def)
    have "move i (length ms - 1) q = j \<longleftrightarrow> q = j" if "q < length ms" "q \<noteq> i" for q
      using assms(2,4) that by (auto simp: move_def)
    then show ?thesis using b assms(4) unfolding list_ex_iff set by (force simp del: One_nat_def)
  qed
qed

lemma remove_unindexed_eq:
  assumes "cache_ok c" "sorted_wrt (>) ns" "\<forall>i \<in> set ns. i < length (messages c)"
    and "other = contentIndex \<or> other = pubsubIndex"
  shows "remove_unindexed other ns c = remove_all (filter (\<lambda>m. \<not> list_ex (\<lambda>(t, i). i = m) (other c)) ns) c"
  using assms(1-3)
proof (induction "ns" arbitrary: c)
  case (Cons i ns)
  then have i: "i < length (messages c)" and less: "\<forall>j \<in> set ns. j < i" by auto
  show ?case
  proof (cases "list_ex (\<lambda>(t, m). m = i) (other c)")
    case False
    obtain c1 where c1: "removeMessage (int i) c = Done c1" "messages c1 = swap_del i (messages c)"
      "contentIndex c1 = remove_msg_loop i (length (messages c) - 1) (length (contentIndex c)) (contentIndex c)"
      "pubsubIndex c1 = remove_msg_loop i (length (messages c) - 1) (length (pubsubIndex c)) (pubsubIndex c)"
      "removed {messages c ! i} c c1"
      using removeMessage_spec [OF Cons.prems(1) i] by blast
    have ok1: "cache_ok c1" using c1(5) by (simp add: removed_def)
    have lt: "\<forall>j \<in> set ns. j < length (messages c1)" unfolding c1(2) using less i nth_after_remove(2) by blast
    have ok: "index_ok (length (pubsubTopics c)) (length (messages c)) (pubsubIndex c)"
      "index_ok (length (contentTopics c)) (length (messages c)) (contentIndex c)" "distinct (messages c)"
      using Cons.prems(1) by (simp_all add: cache_ok_def)
    have "\<forall>j \<in> set ns. list_ex (\<lambda>(t, m). m = j) (other c1) = list_ex (\<lambda>(t, m). m = j) (other c)"
      using assms(4) less c1(3,4) indexed_after_remove [OF ok(1) i ok(3)] indexed_after_remove [OF ok(2) i ok(3)]
      by auto
    then have "filter (\<lambda>m. \<not> list_ex (\<lambda>(t, i). i = m) (other c1)) ns = filter (\<lambda>m. \<not> list_ex (\<lambda>(t, i). i = m) (other c)) ns"
      by (intro filter_cong) auto
    then show ?thesis using False c1(1) Cons.IH [OF ok1 _ lt] Cons.prems(2) by simp
  qed (use Cons in simp)
qed simp

lemma descending_sorted: "distinct xs \<Longrightarrow> sorted_wrt (>) (descending xs)"
  unfolding descending_def sorted_wrt_rev
  using strict_sorted_iff [of "sort xs"] by simp

lemma set_descending [simp]: "set (descending xs) = set xs"
  by (simp add: descending_def)

section \<open>Unsubscribing\<close>

lemma view_functional:
  assumes "index_ok k (length ms) xs" "distinct ms" "(t, m) \<in> index_view ts ms xs" "(t', m) \<in> index_view ts ms xs"
  shows "t = t'"
proof -
  obtain p q p' q' where e: "(p, q) \<in> set xs" "t = ts ! p" "m = ms ! q" "(p', q') \<in> set xs" "t' = ts ! p'" "m = ms ! q'"
    using assms(3,4) by (auto simp: index_view_def)
  have "q < length ms" "q' < length ms" using e assms(1) by (auto simp: index_ok_def)
  then have "q = q'" using e assms(2) by (simp add: nth_eq_iff_index_eq)
  then have "(p, q) = (p', q')"
    using e assms(1) inj_onD [of snd "set xs" "(p, q)" "(p', q')"] by (simp add: index_ok_def distinct_map)
  then show ?thesis using e by simp
qed

lemma gone_view:
  assumes "index_ok (length ts) (length ms) xs" "index_ok k (length ms) ys" "distinct ms" "distinct ts" "i < length ts"
  shows "(!) ms ` {m \<in> snd ` {x \<in> set xs. fst x = i}. \<not> list_ex (\<lambda>(t, j). j = m) ys}
    = {m. (ts ! i, m) \<in> index_view ts ms xs \<and> m \<notin> snd ` index_view us ms ys}" (is "?L = ?R")
proof -
  have b: "\<And>t q. (t, q) \<in> set xs \<Longrightarrow> t < length ts \<and> q < length ms" "\<And>t q. (t, q) \<in> set ys \<Longrightarrow> q < length ms"
    using assms(1,2) by (auto simp: index_ok_def)
  have sy: "ms ! q \<in> snd ` index_view us ms ys \<longleftrightarrow> list_ex (\<lambda>(t, j). j = q) ys" if "q < length ms" for q
    using b(2) that assms(3) by (force simp: index_view_def list_ex_iff nth_eq_iff_index_eq)
  have sx: "(ts ! i, m) \<in> index_view ts ms xs \<longleftrightarrow> (\<exists>q. (i, q) \<in> set xs \<and> m = ms ! q)" for m
    using b(1) assms(4,5) by (force simp: index_view_def nth_eq_iff_index_eq)
  show ?thesis
  proof (intro equalityI subsetI)
    fix m assume "m \<in> ?L"
    then obtain q where "(i, q) \<in> set xs" "\<not> list_ex (\<lambda>(t, j). j = q) ys" "m = ms ! q" by auto
    then have q: "(i, q) \<in> set xs" "\<not> list_ex (\<lambda>(t, j). j = q) ys" "m = ms ! q" by auto
    then have "q < length ms" using b(1) by blast
    then have "m \<notin> snd ` index_view us ms ys" using sy [of q] q by simp
    moreover have "(ts ! i, m) \<in> index_view ts ms xs" using sx [of m] q by blast
    ultimately show "m \<in> ?R" by simp
  next
    fix m assume m: "m \<in> ?R"
    then obtain q where q: "(i, q) \<in> set xs" "m = ms ! q" using sx [of m] by blast
    then have "\<not> list_ex (\<lambda>(t, j). j = q) ys" using m b(1) sy [of q] by blast
    then show "m \<in> ?L" using q by force
  qed
qed

lemma snd_without_topic:
  assumes "\<And>x. x \<in> P \<Longrightarrow> fst x \<noteq> t \<Longrightarrow> snd x \<notin> {m. (t, m) \<in> P \<and> m \<notin> snd ` C}"
  shows "snd ` (P \<union> C) - {m. (t, m) \<in> P \<and> m \<notin> snd ` C} = snd ` ({x \<in> P. fst x \<noteq> t} \<union> C)" (is "?L = ?R")
proof
  show "?L \<subseteq> ?R" by force
  show "?R \<subseteq> ?L" using assms by auto
qed

lemma pubsubUnsubscribe_spec:
  assumes ok: "cache_ok c" "no_orphan c" and t: "t \<in> set (pubsubTopics c)"
  shows "\<exists>c'. pubsubUnsubscribe t c = Done c' \<and> cache_ok c' \<and> no_orphan c' \<and>
    set (pubsubTopics c') = set (pubsubTopics c) - {t} \<and> contentTopics c' = contentTopics c \<and>
    capacity c' = capacity c \<and> content_view c' = content_view c \<and>
    pubsub_view c' = {x \<in> pubsub_view c. fst x \<noteq> t} \<and>
    set (messages c') = set (messages c) - {m. (t, m) \<in> pubsub_view c \<and> m \<notin> snd ` content_view c}"
proof -
  obtain i where si: "index_of t (pubsubTopics c) = Some i" using t by (cases "index_of t (pubsubTopics c)") auto
  then have i: "i < length (pubsubTopics c)" "pubsubTopics c ! i = t" using index_of_SomeD by fast+
  have d: "distinct (pubsubTopics c)" "distinct (messages c)"
    and p: "index_ok (length (pubsubTopics c)) (length (messages c)) (pubsubIndex c)"
    and q: "index_ok (length (contentTopics c)) (length (messages c)) (contentIndex c)"
    using ok(1) by (simp_all add: cache_ok_def)
  define r where "r = remove_topic_loop i (length (pubsubTopics c) - 1) (length (pubsubIndex c)) (pubsubIndex c) []"
  note spec = remove_topic_loop_spec [OF p i(1) d(1), folded r_def]
  define c1 where "c1 = c\<lparr>pubsubTopics := swap_del i (pubsubTopics c), pubsubIndex := fst r\<rparr>"
  have ok1: "cache_ok c1"
    using ok(1) spec(1) set_swap_del [OF d(1) i(1)] by (simp add: cache_ok_def c1_def)
  let ?ns = "filter (\<lambda>m. \<not> list_ex (\<lambda>(t, i). i = m) (contentIndex c1)) (descending (snd r))"
  have lt: "\<forall>j \<in> set (descending (snd r)). j < length (messages c1)"
    using spec(4) p by (auto simp: index_ok_def c1_def)
  have srt: "sorted_wrt (>) (descending (snd r))" using spec(3) by (rule descending_sorted)
  define gone where "gone = {m. (t, m) \<in> pubsub_view c \<and> m \<notin> snd ` content_view c}"
  have "(!) (messages c1) ` set ?ns = gone"
    using gone_view [OF p q d(2) d(1) i(1), of "contentTopics c"] spec(4) i(2)
    by (simp add: c1_def gone_def pubsub_view_def content_view_def)
  then obtain c' where c': "remove_all ?ns c1 = Done c'" "removed gone c1 c'"
    using remove_all_descending [OF ok1 sorted_wrt_filter [OF srt]] lt by auto
  have "pubsubUnsubscribe t c = Done c'"
    using c'(1) remove_unindexed_eq [OF ok1 srt lt, of contentIndex]
    by (simp add: pubsubUnsubscribe_def pubsubSearch_def si Let_def r_def [symmetric] c1_def split_beta del: One_nat_def)
  moreover have v1: "pubsub_view c1 = {x \<in> pubsub_view c. fst x \<noteq> t}" "content_view c1 = content_view c"
    using spec(2) i(2) by (simp_all add: pubsub_view_def content_view_def c1_def)
  moreover have u: "\<And>x. x \<in> pubsub_view c \<Longrightarrow> fst x \<noteq> t \<Longrightarrow> snd x \<notin> gone"
    using view_functional [OF p d(2)] unfolding gone_def pubsub_view_def by (metis (mono_tags, lifting) mem_Collect_eq prod.collapse)
  moreover have "\<And>x. x \<in> content_view c \<Longrightarrow> snd x \<notin> gone" by (auto simp: gone_def)
  ultimately have v: "pubsub_view c' = {x \<in> pubsub_view c. fst x \<noteq> t}" "content_view c' = content_view c"
    and r: "pubsubUnsubscribe t c = Done c'"
    using c'(2) by (auto simp: removed_def)
  have w: "snd ` (pubsub_view c \<union> content_view c) - gone = snd ` ({x \<in> pubsub_view c. fst x \<noteq> t} \<union> content_view c)"
    unfolding gone_def by (rule snd_without_topic) (rule u [unfolded gone_def])
  have m: "set (messages c') = set (messages c) - gone" using c'(2) by (simp add: removed_def c1_def)
  then have "no_orphan c'"
    using ok(2) w by (simp add: no_orphan_def v)
  then show ?thesis using r v m c'(2) set_swap_del [OF d(1) i(1)] i(2)
    by (intro exI [of _ c']) (simp add: removed_def c1_def gone_def)
qed

lemma contentUnsubscribe_spec:
  assumes ok: "cache_ok c" "no_orphan c" and t: "t \<in> set (contentTopics c)"
  shows "\<exists>c'. contentUnsubscribe t c = Done c' \<and> cache_ok c' \<and> no_orphan c' \<and>
    set (contentTopics c') = set (contentTopics c) - {t} \<and> pubsubTopics c' = pubsubTopics c \<and>
    capacity c' = capacity c \<and> pubsub_view c' = pubsub_view c \<and>
    content_view c' = {x \<in> content_view c. fst x \<noteq> t} \<and>
    set (messages c') = set (messages c) - {m. (t, m) \<in> content_view c \<and> m \<notin> snd ` pubsub_view c}"
proof -
  obtain i where si: "index_of t (contentTopics c) = Some i" using t by (cases "index_of t (contentTopics c)") auto
  then have i: "i < length (contentTopics c)" "contentTopics c ! i = t" using index_of_SomeD by fast+
  have d: "distinct (contentTopics c)" "distinct (messages c)"
    and p: "index_ok (length (contentTopics c)) (length (messages c)) (contentIndex c)"
    and q: "index_ok (length (pubsubTopics c)) (length (messages c)) (pubsubIndex c)"
    using ok(1) by (simp_all add: cache_ok_def)
  define r where "r = remove_topic_loop i (length (contentTopics c) - 1) (length (contentIndex c)) (contentIndex c) []"
  note spec = remove_topic_loop_spec [OF p i(1) d(1), folded r_def]
  define c1 where "c1 = c\<lparr>contentTopics := swap_del i (contentTopics c), contentIndex := fst r\<rparr>"
  have ok1: "cache_ok c1"
    using ok(1) spec(1) set_swap_del [OF d(1) i(1)] by (simp add: cache_ok_def c1_def)
  let ?ns = "filter (\<lambda>m. \<not> list_ex (\<lambda>(t, i). i = m) (pubsubIndex c1)) (descending (snd r))"
  have lt: "\<forall>j \<in> set (descending (snd r)). j < length (messages c1)"
    using spec(4) p by (auto simp: index_ok_def c1_def)
  have srt: "sorted_wrt (>) (descending (snd r))" using spec(3) by (rule descending_sorted)
  define gone where "gone = {m. (t, m) \<in> content_view c \<and> m \<notin> snd ` pubsub_view c}"
  have "(!) (messages c1) ` set ?ns = gone"
    using gone_view [OF p q d(2) d(1) i(1), of "pubsubTopics c"] spec(4) i(2)
    by (simp add: c1_def gone_def pubsub_view_def content_view_def)
  then obtain c' where c': "remove_all ?ns c1 = Done c'" "removed gone c1 c'"
    using remove_all_descending [OF ok1 sorted_wrt_filter [OF srt]] lt by auto
  have "contentUnsubscribe t c = Done c'"
    using c'(1) remove_unindexed_eq [OF ok1 srt lt, of pubsubIndex]
    by (simp add: contentUnsubscribe_def contentSearch_def si Let_def r_def [symmetric] c1_def split_beta del: One_nat_def)
  moreover have v1: "content_view c1 = {x \<in> content_view c. fst x \<noteq> t}" "pubsub_view c1 = pubsub_view c"
    using spec(2) i(2) by (simp_all add: pubsub_view_def content_view_def c1_def)
  moreover have u: "\<And>x. x \<in> content_view c \<Longrightarrow> fst x \<noteq> t \<Longrightarrow> snd x \<notin> gone"
    using view_functional [OF p d(2)] unfolding gone_def content_view_def by (metis (mono_tags, lifting) mem_Collect_eq prod.collapse)
  moreover have "\<And>x. x \<in> pubsub_view c \<Longrightarrow> snd x \<notin> gone" by (auto simp: gone_def)
  ultimately have v: "content_view c' = {x \<in> content_view c. fst x \<noteq> t}" "pubsub_view c' = pubsub_view c"
    and r: "contentUnsubscribe t c = Done c'"
    using c'(2) by (auto simp: removed_def)
  have w: "snd ` (content_view c \<union> pubsub_view c) - gone = snd ` ({x \<in> content_view c. fst x \<noteq> t} \<union> pubsub_view c)"
    unfolding gone_def by (rule snd_without_topic) (rule u [unfolded gone_def])
  have m: "set (messages c') = set (messages c) - gone" using c'(2) by (simp add: removed_def c1_def)
  then have "no_orphan c'"
    using ok(2) w by (simp add: no_orphan_def v Un_commute)
  then show ?thesis using r v m c'(2) set_swap_del [OF d(1) i(1)] i(2)
    by (intro exI [of _ c']) (simp add: removed_def c1_def gone_def)
qed

section \<open>Adding and reading\<close>

lemma oldest_loop_None: "oldest_loop msg i ot om ms = None \<longleftrightarrow> msg \<in> set ms"
  by (induction ms arbitrary: i ot om) auto

lemma oldest_loop_Some:
  "oldest_loop msg i ot om ms = Some r \<Longrightarrow>
    (r = om \<and> (\<forall>m \<in> set ms. ot \<le> timestamp m)) \<or>
    (\<exists>j < length ms. r = i + int j \<and> timestamp (ms ! j) < ot \<and> (\<forall>m \<in> set ms. timestamp (ms ! j) \<le> timestamp m))"
proof (induction ms arbitrary: i ot om)
  case (Cons m ms)
  have ne: "m \<noteq> msg" using Cons.prems by auto
  show ?case
  proof (cases "timestamp m < ot")
    case True
    then have "oldest_loop msg (i + 1) (timestamp m) i ms = Some r" using Cons.prems ne by simp
    then consider "r = i" "\<forall>x \<in> set ms. timestamp m \<le> timestamp x" |
      j where "j < length ms" "r = i + 1 + int j" "timestamp (ms ! j) < timestamp m" "\<forall>x \<in> set ms. timestamp (ms ! j) \<le> timestamp x"
      using Cons.IH [of "i + 1" "timestamp m" i] by auto
    then show ?thesis
    proof cases
      case 1
      then show ?thesis using True by (intro disjI2 exI [of _ 0]) auto
    next
      case (2 j)
      then show ?thesis using True by (intro disjI2 exI [of _ "Suc j"]) auto
    qed
  next
    case False
    then have "oldest_loop msg (i + 1) ot om ms = Some r" using Cons.prems ne by simp
    then consider "r = om" "\<forall>x \<in> set ms. ot \<le> timestamp x" |
      j where "j < length ms" "r = i + 1 + int j" "timestamp (ms ! j) < ot" "\<forall>x \<in> set ms. timestamp (ms ! j) \<le> timestamp x"
      using Cons.IH [of "i + 1" ot om] by auto
    then show ?thesis
    proof cases
      case 1
      then show ?thesis using False by auto
    next
      case (2 j)
      then show ?thesis using False by (intro disjI2 exI [of _ "Suc j"]) auto
    qed
  qed
qed simp

text \<open>A full cache in which the search for the oldest message finds none.\<close>

definition stuck :: "MessageCache \<Rightarrow> bool" where
  "stuck c \<longleftrightarrow> capacity c \<le> int (length (messages c)) \<and> (\<forall>m \<in> set (messages c). int64_high \<le> timestamp m)"

lemma oldest_position:
  assumes "oldest_loop msg 0 int64_high int64_high (rev (messages c)) = Some r"
    and "m \<in> set (messages c)" and "timestamp m < int64_high"
  shows "\<exists>i < length (messages c). int (length (messages c)) - 1 - r = int i \<and>
    (\<forall>m \<in> set (messages c). timestamp (messages c ! i) \<le> timestamp m)"
proof -
  let ?n = "length (messages c)"
  have "\<not> (\<forall>m \<in> set (rev (messages c)). int64_high \<le> timestamp m)" using assms(2,3) by force
  then obtain j where j: "j < ?n" "r = int j" "\<forall>m \<in> set (messages c). timestamp (rev (messages c) ! j) \<le> timestamp m"
    using oldest_loop_Some [OF assms(1)] by auto
  then show ?thesis by (intro exI [of _ "?n - 1 - j"]) (auto simp: rev_nth)
qed

lemma pubsubSubscribe_spec:
  assumes "cache_ok c"
  shows "cache_ok (pubsubSubscribe t c)" "pubsub_view (pubsubSubscribe t c) = pubsub_view c"
    "content_view (pubsubSubscribe t c) = content_view c"
    "set (pubsubTopics (pubsubSubscribe t c)) = insert t (set (pubsubTopics c))"
  using assms
  by (auto simp: pubsubSubscribe_def pubsubSearch_def cache_ok_def index_ok_def pubsub_view_def content_view_def
      index_view_def nth_append less_Suc_eq intro!: image_cong)

lemma contentSubscribe_spec:
  assumes "cache_ok c"
  shows "cache_ok (contentSubscribe t c)" "pubsub_view (contentSubscribe t c) = pubsub_view c"
    "content_view (contentSubscribe t c) = content_view c"
    "set (contentTopics (contentSubscribe t c)) = insert t (set (contentTopics c))"
  using assms
  by (auto simp: contentSubscribe_def contentSearch_def cache_ok_def index_ok_def pubsub_view_def content_view_def
      index_view_def nth_append less_Suc_eq intro!: image_cong)

lemma subscribe_frame [simp]:
  "messages (pubsubSubscribe t c) = messages c" "messages (contentSubscribe u c) = messages c"
  "capacity (pubsubSubscribe t c) = capacity c" "capacity (contentSubscribe u c) = capacity c"
  "contentTopics (pubsubSubscribe t c) = contentTopics c" "pubsubTopics (contentSubscribe u c) = pubsubTopics c"
  "contentSearch (pubsubSubscribe t c) u = contentSearch c u" "pubsubSearch (contentSubscribe u c) t = pubsubSearch c t"
  by (simp_all add: pubsubSubscribe_def contentSubscribe_def contentSearch_def pubsubSearch_def)

lemma append_message:
  assumes ok: "cache_ok c" and m: "msg \<notin> set (messages c)" and room: "int (length (messages c)) < capacity c"
    and i: "i < length (pubsubTopics c)" and j: "j < length (contentTopics c)"
  defines "n \<equiv> length (messages c)"
  defines "c' \<equiv> c\<lparr>messages := messages c @ [msg], pubsubIndex := pubsubIndex c @ [(i, n)],
    contentIndex := contentIndex c @ [(j, n)]\<rparr>"
  shows "cache_ok c'" "pubsub_view c' = insert (pubsubTopics c ! i, msg) (pubsub_view c)"
    "content_view c' = insert (contentTopics c ! j, msg) (content_view c)"
  unfolding c'_def n_def using ok m room i j
  by (force simp: cache_ok_def index_ok_def pubsub_view_def content_view_def index_view_def nth_append less_Suc_eq
      intro!: image_cong)+

text \<open>
  What storing a new message does: at capacity one message of minimal time stamp goes first,
  then the message is listed under both its topics, which are subscribed from then on.
\<close>

definition stored :: "PubsubTopic \<Rightarrow> WakuMessage \<Rightarrow> MessageCache \<Rightarrow> MessageCache \<Rightarrow> bool" where
  "stored t msg c c' \<longleftrightarrow>
     (\<exists>gone. (if int (length (messages c)) < capacity c then gone = {}
              else \<exists>m \<in> set (messages c). gone = {m} \<and> (\<forall>m' \<in> set (messages c). timestamp m \<le> timestamp m')) \<and>
       set (messages c') = insert msg (set (messages c) - gone) \<and>
       pubsub_view c' = insert (t, msg) {x \<in> pubsub_view c. snd x \<notin> gone} \<and>
       content_view c' = insert (contentTopic msg, msg) {x \<in> content_view c. snd x \<notin> gone} \<and>
       set (pubsubTopics c') = insert t (set (pubsubTopics c)) \<and>
       set (contentTopics c') = insert (contentTopic msg) (set (contentTopics c)) \<and> capacity c' = capacity c)"

lemma make_room:
  assumes ok: "cache_ok c" and st: "\<not> stuck c" and cap: "1 \<le> capacity c"
    and o: "oldest_loop msg 0 int64_high int64_high (rev (messages c)) = Some r"
  shows "\<exists>c' gone. (if capacity c \<le> int (length (messages c))
      then removeMessage (int (length (messages c)) - 1 - r) c else Done c) = Done c' \<and> removed gone c c' \<and>
    int (length (messages c')) < capacity c' \<and>
    (if int (length (messages c)) < capacity c then gone = {}
     else \<exists>m \<in> set (messages c). gone = {m} \<and> (\<forall>m' \<in> set (messages c). timestamp m \<le> timestamp m'))"
proof (cases "int (length (messages c)) < capacity c")
  case True
  then show ?thesis using ok by (intro exI [of _ c] exI [of _ "{}"]) simp
next
  case False
  then obtain m where m: "m \<in> set (messages c)" "timestamp m < int64_high"
    using st by (auto simp: stuck_def not_le)
  obtain i where i: "i < length (messages c)" "int (length (messages c)) - 1 - r = int i"
    "\<forall>m \<in> set (messages c). timestamp (messages c ! i) \<le> timestamp m"
    using oldest_position [OF o m] by blast
  obtain c' where c': "removeMessage (int i) c = Done c'" "messages c' = swap_del i (messages c)"
    "removed {messages c ! i} c c'"
    using removeMessage_spec [OF ok i(1)] by blast
  have "capacity c' = capacity c" using c'(3) by (simp add: removed_def)
  moreover have "int (length (messages c')) < capacity c"
    using c'(2) i(1) ok unfolding cache_ok_def by simp
  ultimately show ?thesis using False i c' by (intro exI [of _ c'] exI [of _ "{messages c ! i}"]) auto
qed

lemma addMessage_spec:
  assumes ok: "cache_ok c" "no_orphan c" and st: "\<not> stuck c" and cap: "1 \<le> capacity c"
    and new: "msg \<notin> set (messages c)"
    and sub: "t \<in> set (pubsubTopics c) \<or> contentTopic msg \<in> set (contentTopics c)"
  shows "\<exists>c'. addMessage t msg c = Done c' \<and> cache_ok c' \<and> no_orphan c' \<and> stored t msg c c'"
proof -
  obtain r where r: "oldest_loop msg 0 int64_high int64_high (rev (messages c)) = Some r"
    using oldest_loop_None [of msg 0 int64_high int64_high "rev (messages c)"] new by fastforce
  define c1 where "c1 = contentSubscribe (contentTopic msg) (pubsubSubscribe t c)"
  have v1: "cache_ok c1" "pubsub_view c1 = pubsub_view c" "content_view c1 = content_view c"
    "set (pubsubTopics c1) = insert t (set (pubsubTopics c))"
    "set (contentTopics c1) = insert (contentTopic msg) (set (contentTopics c))"
    "messages c1 = messages c" "capacity c1 = capacity c"
    unfolding c1_def using ok(1) by (simp_all add: pubsubSubscribe_spec contentSubscribe_spec)
  obtain i where i: "pubsubSearch c1 t = Some i" "i < length (pubsubTopics c1)" "pubsubTopics c1 ! i = t"
    using v1(4) index_of_SomeD [of t "pubsubTopics c1"] by (cases "pubsubSearch c1 t") (auto simp: pubsubSearch_def)
  obtain j where j: "contentSearch c1 (contentTopic msg) = Some j" "j < length (contentTopics c1)"
    "contentTopics c1 ! j = contentTopic msg"
    using v1(5) index_of_SomeD [of "contentTopic msg" "contentTopics c1"]
    by (cases "contentSearch c1 (contentTopic msg)") (auto simp: contentSearch_def)
  obtain c2 gone where c2: "(if capacity c1 \<le> int (length (messages c1))
      then removeMessage (int (length (messages c1)) - 1 - r) c1 else Done c1) = Done c2" "removed gone c1 c2"
    "int (length (messages c2)) < capacity c2"
    and gone: "if int (length (messages c1)) < capacity c1 then gone = {}
     else \<exists>m \<in> set (messages c1). gone = {m} \<and> (\<forall>m' \<in> set (messages c1). timestamp m \<le> timestamp m')"
    using make_room [of c1 msg r] v1 r st cap unfolding stuck_def by auto
  let ?n = "length (messages c2)"
  define c3 where "c3 = c2\<lparr>messages := messages c2 @ [msg], pubsubIndex := pubsubIndex c2 @ [(i, ?n)],
    contentIndex := contentIndex c2 @ [(j, ?n)]\<rparr>"
  have m2: "msg \<notin> set (messages c2)" using c2(2) new v1 by (simp add: removed_def)
  have ij: "i < length (pubsubTopics c2)" "j < length (contentTopics c2)" using c2(2) i j by (simp_all add: removed_def)
  have ok2: "cache_ok c2" using c2(2) by (simp add: removed_def)
  note a = append_message [OF ok2 m2 c2(3) ij, folded c3_def]
  have run: "addMessage t msg c = Done c3"
    using r sub i(1) j(1) c2(1) v1(6,7)
    by (simp add: addMessage_def Let_def c1_def [symmetric] c3_def) (auto simp: pubsubSearch_def contentSearch_def c1_def)
  have stored: "stored t msg c c3"
    using a(2,3) c2(2) gone [unfolded v1(6,7)] v1 i(3) j(3) unfolding stored_def
    by (intro exI [of _ gone]) (simp add: removed_def c3_def)
  have "no_orphan c3" using ok(2) a(2,3) c2(2) v1(2,3,6) by (auto simp: no_orphan_def removed_def c3_def)
  then show ?thesis using run a(1) stored by blast
qed

text \<open>Where no message is old enough to go, the position computed is negative.\<close>

lemma addMessage_stuck:
  assumes "stuck c" and "int (length (messages c)) \<le> int64_high" and "msg \<notin> set (messages c)"
    and "t \<in> set (pubsubTopics c) \<or> contentTopic msg \<in> set (contentTopics c)"
  shows "addMessage t msg c = Fault RangeDefect"
proof -
  obtain r where r: "oldest_loop msg 0 int64_high int64_high (rev (messages c)) = Some r"
    using oldest_loop_None [of msg 0 int64_high int64_high "rev (messages c)"] assms(3) by fastforce
  have "r = int64_high" using oldest_loop_Some [OF r] assms(1) by (force simp: stuck_def rev_nth not_less [symmetric])
  then show ?thesis
    using r assms(1,2,4) by (auto simp: addMessage_def pubsubSearch_def contentSearch_def stuck_def removeMessage_def Let_def)
qed

lemma addMessage_same:
  "msg \<in> set (messages c) \<or> (t \<notin> set (pubsubTopics c) \<and> contentTopic msg \<notin> set (contentTopics c)) \<Longrightarrow>
    addMessage t msg c = Done c"
  using oldest_loop_None [of msg 0 int64_high int64_high "rev (messages c)"]
  by (auto simp: addMessage_def pubsubSearch_def contentSearch_def split: option.split)

lemma read_all_map: "\<forall>i \<in> set ns. i < length ms \<Longrightarrow> read_all ms ns = Done (map ((!) ms) ns)"
  by (induction ns) auto

lemma under_props:
  assumes "index_ok (length ts) (length ms) xs" "distinct ts" "distinct ms" "i < length ts"
  shows "distinct (under i xs)" "\<forall>j \<in> set (under i xs). j < length ms"
    "(!) ms ` set (under i xs) = {m. (ts ! i, m) \<in> index_view ts ms xs}"
proof -
  show "distinct (under i xs)" using assms(1) by (simp add: under_def index_ok_def distinct_map_filter)
  show "\<forall>j \<in> set (under i xs). j < length ms" using assms(1) by (auto simp: under_def index_ok_def)
  show "(!) ms ` set (under i xs) = {m. (ts ! i, m) \<in> index_view ts ms xs}"
    using assms by (force simp: under_def index_view_def index_ok_def nth_eq_iff_index_eq)
qed

lemma distinct_map_nth: "distinct ms \<Longrightarrow> distinct ns \<Longrightarrow> \<forall>i \<in> set ns. i < length ms \<Longrightarrow> distinct (map ((!) ms) ns)"
  by (auto simp: distinct_map inj_on_def nth_eq_iff_index_eq)

lemma removed_no_orphan: "removed gone c c' \<Longrightarrow> no_orphan c \<Longrightarrow> no_orphan c'"
  by (auto simp: removed_def no_orphan_def)

text \<open>Removing whatever positions, as far as it goes without a defect.\<close>

lemma remove_all_removed: "cache_ok c \<Longrightarrow> remove_all ns c = Done c' \<Longrightarrow> \<exists>gone. removed gone c c'"
proof (induction "ns" arbitrary: c)
  case (Cons i ns)
  then obtain c1 where c1: "removeMessage (int i) c = Done c1" "remove_all ns c1 = Done c'" by auto
  then have "i < length (messages c)"
    by (auto simp: removeMessage_def seq_del_def Let_def split: if_splits)
  from removeMessage_spec [OF Cons.prems(1) this] c1(1) have r: "removed {messages c ! i} c c1" by auto
  then have "cache_ok c1" by (simp add: removed_def)
  with Cons.IH [OF _ c1(2)] removed_trans [OF r] show ?case by blast
qed (auto intro: exI [of _ "{}"])

definition listed :: "(string \<times> WakuMessage) set \<Rightarrow> string \<Rightarrow> WakuMessage list \<Rightarrow> bool" where
  "listed v t ms \<longleftrightarrow> distinct ms \<and> set ms = {m. (t, m) \<in> v}"

lemma getAutoMessages_spec:
  assumes ok: "cache_ok c" and t: "t \<in> set (contentTopics c)"
  shows "\<exists>ms c'. getAutoMessages t clear c = Done (Inr ms, c') \<and> listed (content_view c) t ms \<and>
    (if clear then removed (set ms) c c' else c' = c)"
proof -
  obtain i where si: "index_of t (contentTopics c) = Some i" using t by (cases "index_of t (contentTopics c)") auto
  then have i: "i < length (contentTopics c)" "contentTopics c ! i = t" using index_of_SomeD by fast+
  have d: "distinct (contentTopics c)" "distinct (messages c)"
    and q: "index_ok (length (contentTopics c)) (length (messages c)) (contentIndex c)"
    using ok by (simp_all add: cache_ok_def)
  let ?ns = "under i (contentIndex c)" and ?ms = "map ((!) (messages c)) (under i (contentIndex c))"
  note u = under_props [OF q d i(1)]
  have l: "listed (content_view c) t ?ms"
    using u i(2) distinct_map_nth [OF d(2) u(1,2)] by (simp add: listed_def content_view_def)
  have r: "read_all (messages c) ?ns = Done ?ms" using u(2) by (rule read_all_map)
  obtain c' where c': "remove_all (descending ?ns) c = Done c'" "removed (set ?ms) c c'"
    using remove_all_descending [OF ok descending_sorted [OF u(1)]] u(2) by auto
  show ?thesis
    using r l c' t si by (cases clear) (auto simp: getAutoMessages_def contentSearch_def Let_def)
qed

lemma getMessages_spec:
  assumes ok: "cache_ok c" and t: "t \<in> set (pubsubTopics c)"
  shows "\<exists>ms. getMessages t False c = Done (Inr ms, c) \<and> listed (pubsub_view c) t ms"
proof -
  obtain i where si: "index_of t (pubsubTopics c) = Some i" using t by (cases "index_of t (pubsubTopics c)") auto
  then have i: "i < length (pubsubTopics c)" "pubsubTopics c ! i = t" using index_of_SomeD by fast+
  have d: "distinct (pubsubTopics c)" "distinct (messages c)"
    and q: "index_ok (length (pubsubTopics c)) (length (messages c)) (pubsubIndex c)"
    using ok by (simp_all add: cache_ok_def)
  note u = under_props [OF q d i(1)]
  show ?thesis
    using u i(2) distinct_map_nth [OF d(2) u(1,2)] read_all_map [OF u(2)] t si
    by (auto simp: getMessages_def pubsubSearch_def Let_def listed_def pubsub_view_def)
qed

section \<open>Reachable caches\<close>

text \<open>Every operation of the interface, as far as it does not end in a defect.\<close>

inductive cache_step :: "MessageCache \<Rightarrow> MessageCache \<Rightarrow> bool" where
  subscribe_pubsub: "cache_step c (pubsubSubscribe t c)"
| subscribe_content: "cache_step c (contentSubscribe u c)"
| unsubscribe_pubsub: "pubsubUnsubscribe t c = Done c' \<Longrightarrow> cache_step c c'"
| unsubscribe_content: "contentUnsubscribe u c = Done c' \<Longrightarrow> cache_step c c'"
| add_message: "addMessage t msg c = Done c' \<Longrightarrow> cache_step c c'"
| read_pubsub: "getMessages t clear c = Done (r, c') \<Longrightarrow> cache_step c c'"
| read_content: "getAutoMessages u clear c = Done (r, c') \<Longrightarrow> cache_step c c'"
| reset_cache: "cache_step c (reset c)"

inductive cache_reachable :: "int \<Rightarrow> MessageCache \<Rightarrow> bool" for cap where
  cache_init: "cache_reachable cap (init_cache cap)"
| cache_next: "cache_reachable cap c \<Longrightarrow> cache_step c c' \<Longrightarrow> cache_reachable cap c'"

definition cache_inv :: "MessageCache \<Rightarrow> bool" where
  "cache_inv c \<longleftrightarrow> cache_ok c \<and> no_orphan c \<and> 1 \<le> capacity c \<and> capacity c \<le> int64_high"

lemma cache_inv_init: "1 \<le> cap \<Longrightarrow> cap \<le> int64_high \<Longrightarrow> cache_inv (init_cache cap)"
  by (simp add: cache_inv_def init_cache_def cache_ok_def index_ok_def no_orphan_def pubsub_view_def
      content_view_def index_view_def)

lemma subscribe_topic_inv:
  "cache_inv c \<Longrightarrow> cache_inv (pubsubSubscribe t c)" "cache_inv c \<Longrightarrow> cache_inv (contentSubscribe u c)"
  by (simp_all add: cache_inv_def no_orphan_def pubsubSubscribe_spec contentSubscribe_spec)

lemma pubsubUnsubscribe_inv:
  assumes inv: "cache_inv c"
  shows "\<exists>c'. pubsubUnsubscribe t c = Done c' \<and> cache_inv c' \<and> capacity c' = capacity c"
proof (cases "t \<in> set (pubsubTopics c)")
  case True
  have "cache_ok c" "no_orphan c" using inv by (simp_all add: cache_inv_def)
  then obtain c' where "pubsubUnsubscribe t c = Done c'" "cache_ok c'" "no_orphan c'" "capacity c' = capacity c"
    "set (messages c') \<subseteq> set (messages c)"
    using pubsubUnsubscribe_spec [OF _ _ True] by (metis (no_types, lifting) Diff_subset)
  then show ?thesis using inv by (intro exI [of _ c']) (auto simp: cache_inv_def)
next
  case False
  then have "pubsubSearch c t = None" by (simp add: pubsubSearch_def)
  then show ?thesis using inv by (simp add: pubsubUnsubscribe_def)
qed

lemma contentUnsubscribe_inv:
  assumes inv: "cache_inv c"
  shows "\<exists>c'. contentUnsubscribe t c = Done c' \<and> cache_inv c' \<and> capacity c' = capacity c"
proof (cases "t \<in> set (contentTopics c)")
  case True
  have "cache_ok c" "no_orphan c" using inv by (simp_all add: cache_inv_def)
  then obtain c' where "contentUnsubscribe t c = Done c'" "cache_ok c'" "no_orphan c'" "capacity c' = capacity c"
    "set (messages c') \<subseteq> set (messages c)"
    using contentUnsubscribe_spec [OF _ _ True] by (metis (no_types, lifting) Diff_subset)
  then show ?thesis using inv by (intro exI [of _ c']) (auto simp: cache_inv_def)
next
  case False
  then have "contentSearch c t = None" by (simp add: contentSearch_def)
  then show ?thesis using inv by (simp add: contentUnsubscribe_def)
qed

lemma addMessage_inv:
  assumes inv: "cache_inv c"
  shows "if msg \<in> set (messages c) \<or> (t \<notin> set (pubsubTopics c) \<and> contentTopic msg \<notin> set (contentTopics c))
    then addMessage t msg c = Done c
    else if stuck c then addMessage t msg c = Fault RangeDefect
    else \<exists>c'. addMessage t msg c = Done c' \<and> cache_inv c' \<and> capacity c' = capacity c \<and> stored t msg c c'"
proof (cases "msg \<in> set (messages c) \<or> (t \<notin> set (pubsubTopics c) \<and> contentTopic msg \<notin> set (contentTopics c))")
  case True
  then show ?thesis using inv addMessage_same by simp
next
  case False
  have i: "cache_ok c" "no_orphan c" "1 \<le> capacity c" "capacity c \<le> int64_high" using inv by (simp_all add: cache_inv_def)
  have len: "int (length (messages c)) \<le> int64_high" using i(1,4) by (simp add: cache_ok_def)
  show ?thesis
  proof (cases "stuck c")
    case True
    then have "addMessage t msg c = Fault RangeDefect" using False by (intro addMessage_stuck len) auto
    then show ?thesis using False True by simp
  next
    case room: False
    obtain c' where c': "addMessage t msg c = Done c'" "cache_ok c'" "no_orphan c'" "stored t msg c c'"
      using addMessage_spec [OF i(1,2) room i(3)] False by blast
    then have "capacity c' = capacity c" by (auto simp: stored_def)
    then show ?thesis using c' i False room by (auto simp: cache_inv_def)
  qed
qed

lemma getMessages_inv:
  assumes inv: "cache_inv c"
  shows "\<exists>r. getMessages t False c = Done (r, c)"
    and "getMessages t clear c = Done (r, c') \<Longrightarrow> cache_inv c' \<and> capacity c' = capacity c"
proof -
  show "\<exists>r. getMessages t False c = Done (r, c)"
  proof (cases "t \<in> set (pubsubTopics c)")
    case True
    have "cache_ok c" using inv by (simp add: cache_inv_def)
    then show ?thesis using getMessages_spec [OF _ True] by blast
  next
    case False
    then have "pubsubSearch c t = None" by (simp add: pubsubSearch_def)
    then show ?thesis by (simp add: getMessages_def)
  qed
  assume r: "getMessages t clear c = Done (r, c')"
  have "c' = c \<or> (\<exists>ns. remove_all ns c = Done c')"
    using r by (auto simp: getMessages_def Let_def split: if_splits option.splits)
  then show "cache_inv c' \<and> capacity c' = capacity c"
  proof
    assume "\<exists>ns. remove_all ns c = Done c'"
    moreover have "cache_ok c" using inv by (simp add: cache_inv_def)
    ultimately obtain gone where g: "removed gone c c'" using remove_all_removed by blast
    then show ?thesis using inv removed_no_orphan [OF g] by (simp add: cache_inv_def removed_def)
  qed (use inv in simp)
qed

lemma getAutoMessages_inv:
  assumes inv: "cache_inv c"
  shows "\<exists>r c'. getAutoMessages t clear c = Done (r, c') \<and> cache_inv c' \<and> capacity c' = capacity c"
proof (cases "t \<in> set (contentTopics c)")
  case True
  have "cache_ok c" using inv by (simp add: cache_inv_def)
  then obtain ms c' where c': "getAutoMessages t clear c = Done (Inr ms, c')"
    "if clear then removed (set ms) c c' else c' = c"
    using getAutoMessages_spec [OF _ True] by blast
  have "cache_inv c' \<and> capacity c' = capacity c"
  proof (cases clear)
    case True
    then have "removed (set ms) c c'" using c'(2) by simp
    then show ?thesis using inv removed_no_orphan by (auto simp: cache_inv_def) (auto simp: removed_def)
  qed (use c' inv in simp)
  then show ?thesis using c'(1) by blast
next
  case False
  then have "contentSearch c t = None" by (simp add: contentSearch_def)
  then show ?thesis using inv by (simp add: getAutoMessages_def)
qed

lemma reset_inv: "cache_inv c \<Longrightarrow> cache_inv (reset c)"
  using cache_inv_init [of "capacity c"] by (simp add: cache_inv_def reset_def init_cache_def
      cache_ok_def index_ok_def no_orphan_def pubsub_view_def content_view_def index_view_def)

lemma cache_step_inv:
  assumes "cache_step c c'" "cache_inv c"
  shows "cache_inv c'"
  using assms
proof (cases rule: cache_step.cases)
  case (unsubscribe_pubsub t)
  then show ?thesis using pubsubUnsubscribe_inv [OF assms(2), of t] by auto
next
  case (unsubscribe_content u)
  then show ?thesis using contentUnsubscribe_inv [OF assms(2), of u] by auto
next
  case (add_message t msg)
  then show ?thesis using addMessage_inv [OF assms(2), of msg t] assms(2) by (auto split: if_splits)
next
  case (read_pubsub t clear r)
  then show ?thesis using getMessages_inv(2) [OF assms(2)] by blast
next
  case (read_content u clear r)
  then show ?thesis using getAutoMessages_inv [OF assms(2), of u clear] by auto
qed (use subscribe_topic_inv reset_inv assms(2) in auto)

lemma cache_reachable_inv: "cache_reachable cap c \<Longrightarrow> 1 \<le> cap \<Longrightarrow> cap \<le> int64_high \<Longrightarrow> cache_inv c"
  by (induction rule: cache_reachable.induct) (auto intro: cache_inv_init cache_step_inv)

section \<open>A sample cache\<close>

definition sample_message :: "string \<Rightarrow> int \<Rightarrow> WakuMessage" where
  "sample_message ct ts = empty_message\<lparr>contentTopic := ct, timestamp := ts\<rparr>"

definition sample_cache :: MessageCache where
  "sample_cache = \<lparr>pubsubTopics = [''A'', ''B''], contentTopics = [''X'', ''Y''],
     pubsubIndex = [(0, 0), (1, 1)], contentIndex = [(0, 0), (1, 1)],
     messages = [sample_message ''X'' 7, sample_message ''Y'' 5], capacity = 2\<rparr>"

lemma sample_add:
  "addMessage ''B'' (sample_message ''Y'' 5)
     \<lparr>pubsubTopics = [''A'', ''B''], contentTopics = [''X''], pubsubIndex = [(0, 0)], contentIndex = [(0, 0)],
      messages = [sample_message ''X'' 7], capacity = 2\<rparr> = Done sample_cache"
  "addMessage ''A'' (sample_message ''X'' 7)
     \<lparr>pubsubTopics = [''A'', ''B''], contentTopics = [], pubsubIndex = [], contentIndex = [],
      messages = [], capacity = 2\<rparr> =
   Done \<lparr>pubsubTopics = [''A'', ''B''], contentTopics = [''X''], pubsubIndex = [(0, 0)], contentIndex = [(0, 0)],
      messages = [sample_message ''X'' 7], capacity = 2\<rparr>"
  by code_simp+

lemma sample_cache_reachable: "cache_reachable 2 sample_cache"
proof -
  have "cache_reachable 2 (pubsubSubscribe ''B'' (pubsubSubscribe ''A'' (init_cache 2)))"
    by (intro cache_init cache_next [OF _ subscribe_pubsub])
  then have "cache_reachable 2 \<lparr>pubsubTopics = [''A'', ''B''], contentTopics = [], pubsubIndex = [], contentIndex = [],
      messages = [], capacity = 2\<rparr>"
    by (simp add: pubsubSubscribe_def pubsubSearch_def init_cache_def)
  note cache_next [OF this add_message [OF sample_add(2)]]
  then have "cache_reachable 2 \<lparr>pubsubTopics = [''A'', ''B''], contentTopics = [''X''], pubsubIndex = [(0, 0)],
      contentIndex = [(0, 0)], messages = [sample_message ''X'' 7], capacity = 2\<rparr>"
    by (simp add: sample_message_def)
  from cache_next [OF this add_message [OF sample_add(1)]] show ?thesis .
qed

section \<open>Properties\<close>

text \<open>C10: the invariant of the message cache. A cache made by \<^verbatim>\<open>init\<close> with a capacity from one to \<^verbatim>\<open>int.high\<close>, after any
  sequence of its operations that ended without a defect, has no duplicate topic or message, indices that
  point into the sequences and list a message at most once each, no message that is in neither
  index, and at most \<^verbatim>\<open>capacity\<close> messages. In such a cache unsubscribing, reading without \<^verbatim>\<open>clear\<close> and reading a
  content topic raise no defect. Adding a message raises one exactly when the message is new, one of its topics is subscribed
  and the cache is full of messages stamped \<^verbatim>\<open>int64.high\<close>: no message is older than that, and the one at a negative
  position is removed. (A clearing read of a pubsub topic may raise one.)\<close>

theorem cache_invariant:
  assumes "cache_reachable cap c" and "1 \<le> cap" and "cap \<le> int64_high"
  shows "cache_ok c \<and> no_orphan c \<and> int (length (messages c)) \<le> capacity c \<and>
    (\<forall>t. \<exists>c'. pubsubUnsubscribe t c = Done c') \<and> (\<forall>u. \<exists>c'. contentUnsubscribe u c = Done c') \<and>
    (\<forall>t. \<exists>r. getMessages t False c = Done (r, c)) \<and>
    (\<forall>u clear. \<exists>r c'. getAutoMessages u clear c = Done (r, c')) \<and>
    (\<forall>t msg f. addMessage t msg c = Fault f \<longleftrightarrow> f = RangeDefect \<and> msg \<notin> set (messages c)
      \<and> (t \<in> set (pubsubTopics c) \<or> contentTopic msg \<in> set (contentTopics c))
      \<and> capacity c = int (length (messages c)) \<and> (\<forall>m \<in> set (messages c). int64_high \<le> timestamp m))"
proof -
  have inv: "cache_inv c" using assms by (rule cache_reachable_inv)
  then have ok: "cache_ok c" "no_orphan c" "int (length (messages c)) \<le> capacity c"
    by (simp_all add: cache_inv_def cache_ok_def)
  have stuck: "stuck c \<longleftrightarrow> capacity c = int (length (messages c)) \<and> (\<forall>m \<in> set (messages c). int64_high \<le> timestamp m)"
    using ok(3) by (auto simp: stuck_def)
  have add: "addMessage t msg c = Fault f \<longleftrightarrow> f = RangeDefect \<and> msg \<notin> set (messages c)
      \<and> (t \<in> set (pubsubTopics c) \<or> contentTopic msg \<in> set (contentTopics c)) \<and> stuck c" for t msg f
    using addMessage_inv [OF inv, of msg t] by (auto split: if_splits)
  show ?thesis
    using ok pubsubUnsubscribe_inv [OF inv] contentUnsubscribe_inv [OF inv] add [unfolded stuck]
      getMessages_inv(1) [OF inv] getAutoMessages_inv [OF inv] by blast
qed

lemma cache_invariant_witness: "cache_ok sample_cache \<and> no_orphan sample_cache \<and> (\<exists>c. addMessage ''A'' (sample_message ''Y'' 9) sample_cache = Done c)"
proof -
  note inv = cache_invariant [OF sample_cache_reachable, simplified int64_high_def, simplified]
  then have "addMessage ''A'' (sample_message ''Y'' 9) sample_cache \<noteq> Fault f" for f
    by (simp add: sample_cache_def sample_message_def)
  then show ?thesis using inv by (cases "addMessage ''A'' (sample_message ''Y'' 9) sample_cache") auto
qed

text \<open>C11: unsubscribing refines set deletion. In a cache made by \<^verbatim>\<open>init\<close> with a capacity from one to \<^verbatim>\<open>int.high\<close>, after any
  sequence of its operations that ended without a defect, unsubscribing a subscribed topic, of either kind,
  removes that topic and exactly its entries from the view of its index, leaves the other view as it is, and drops
  exactly the messages that were listed under that topic and under no topic of the other kind, whatever positions
  the swap deletions gave to the rest; the result satisfies the invariant again. Unsubscribing a topic that is
  not subscribed changes nothing.\<close>

theorem cache_unsubscribe:
  assumes "cache_reachable cap c" and "1 \<le> cap" and "cap \<le> int64_high"
  shows "(if t \<in> set (pubsubTopics c) then \<exists>c'. pubsubUnsubscribe t c = Done c' \<and> cache_ok c' \<and> no_orphan c' \<and>
      set (pubsubTopics c') = set (pubsubTopics c) - {t} \<and> contentTopics c' = contentTopics c \<and>
      capacity c' = capacity c \<and> content_view c' = content_view c \<and> pubsub_view c' = {x \<in> pubsub_view c. fst x \<noteq> t} \<and>
      set (messages c') = set (messages c) - {m. (t, m) \<in> pubsub_view c \<and> m \<notin> snd ` content_view c}
    else pubsubUnsubscribe t c = Done c) \<and>
    (if u \<in> set (contentTopics c) then \<exists>c'. contentUnsubscribe u c = Done c' \<and> cache_ok c' \<and> no_orphan c' \<and>
      set (contentTopics c') = set (contentTopics c) - {u} \<and> pubsubTopics c' = pubsubTopics c \<and>
      capacity c' = capacity c \<and> pubsub_view c' = pubsub_view c \<and> content_view c' = {x \<in> content_view c. fst x \<noteq> u} \<and>
      set (messages c') = set (messages c) - {m. (u, m) \<in> content_view c \<and> m \<notin> snd ` pubsub_view c}
    else contentUnsubscribe u c = Done c)"
proof -
  have ok: "cache_ok c" "no_orphan c" using cache_reachable_inv [OF assms] by (simp_all add: cache_inv_def)
  have "t \<notin> set (pubsubTopics c) \<Longrightarrow> pubsubSearch c t = None" "u \<notin> set (contentTopics c) \<Longrightarrow> contentSearch c u = None"
    by (simp_all add: pubsubSearch_def contentSearch_def)
  then have "t \<notin> set (pubsubTopics c) \<Longrightarrow> pubsubUnsubscribe t c = Done c" "u \<notin> set (contentTopics c) \<Longrightarrow> contentUnsubscribe u c = Done c"
    by (simp_all add: pubsubUnsubscribe_def contentUnsubscribe_def)
  with pubsubUnsubscribe_spec [OF ok, of t] contentUnsubscribe_spec [OF ok, of u] show ?thesis by simp
qed

lemma cache_unsubscribe_witness:
  "\<exists>c'. pubsubUnsubscribe ''A'' sample_cache = Done c' \<and> set (pubsubTopics c') = {''B''}"
  using cache_unsubscribe [OF sample_cache_reachable, of "''A''" "''X''"] by (auto simp: sample_cache_def int64_high_def)

text \<open>Adding a message. In a reachable cache a message that is already stored, or whose
  topics are both unsubscribed, leaves the cache as it is; any other message is stored and
  listed under both its topics (which are subscribed from then on), after the removal, only
  when the cache is full, of one stored message of minimal time stamp with its index entries.\<close>

theorem cache_add:
  assumes "cache_reachable cap c" "1 \<le> cap" "cap \<le> int64_high" "\<not> stuck c"
  shows "if msg \<in> set (messages c) \<or> (t \<notin> set (pubsubTopics c) \<and> contentTopic msg \<notin> set (contentTopics c))
    then addMessage t msg c = Done c
    else \<exists>c'. addMessage t msg c = Done c' \<and> cache_ok c' \<and> no_orphan c' \<and> stored t msg c c'"
  using addMessage_inv [OF cache_reachable_inv [OF assms(1-3)], of msg t] assms(4) by (auto simp: cache_inv_def)

lemma cache_add_witness:
  "\<exists>c'. addMessage ''A'' (sample_message ''Y'' 9) sample_cache = Done c' \<and>
    stored ''A'' (sample_message ''Y'' 9) sample_cache c'"
  using cache_add [OF sample_cache_reachable, of "sample_message ''Y'' 9" "''A''"]
  by (auto simp: sample_cache_def sample_message_def empty_message_def stuck_def int64_high_def)

text \<open>Reading. In a reachable cache a read of a subscribed topic returns each message listed
  under it exactly once; a clearing read of a content topic then leaves exactly the other
  messages, with both indices restricted to them and the subscriptions unchanged.\<close>

theorem cache_read:
  assumes "cache_reachable cap c" "1 \<le> cap" "cap \<le> int64_high" "t \<in> set (pubsubTopics c)" "u \<in> set (contentTopics c)"
  shows "(\<exists>ms. getMessages t False c = Done (Inr ms, c) \<and> listed (pubsub_view c) t ms) \<and>
    (\<exists>ms. getAutoMessages u False c = Done (Inr ms, c) \<and> listed (content_view c) u ms) \<and>
    (\<exists>ms c'. getAutoMessages u True c = Done (Inr ms, c') \<and> listed (content_view c) u ms \<and>
      removed (set ms) c c')"
proof -
  have "cache_ok c" using cache_reachable_inv [OF assms(1-3)] by (simp add: cache_inv_def)
  then show ?thesis
    using getMessages_spec [OF _ assms(4)] getAutoMessages_spec [OF _ assms(5), where clear = False]
      getAutoMessages_spec [OF _ assms(5), where clear = True] by fastforce
qed

lemma cache_read_witness:
  "\<exists>ms c'. getAutoMessages ''X'' True sample_cache = Done (Inr ms, c') \<and> removed (set ms) sample_cache c'"
  using cache_read [OF sample_cache_reachable, of "''A''" "''X''"] by (auto simp: sample_cache_def int64_high_def)

text \<open>Three messages under two topics, one unsubscribed, then a read of the other.\<close>

definition clear_scenario :: "bool \<Rightarrow> (string + WakuMessage list) exec" where
  "clear_scenario clear =
     bind_exec (addMessage ''A'' (sample_message ''X'' 1)
       (pubsubSubscribe ''B'' (pubsubSubscribe ''A'' (init_cache 3)))) (\<lambda>c.
     bind_exec (addMessage ''B'' (sample_message ''X'' 2) c) (\<lambda>c.
     bind_exec (addMessage ''B'' (sample_message ''X'' 3) c) (\<lambda>c.
     bind_exec (pubsubUnsubscribe ''A'' c) (\<lambda>c.
     bind_exec (getMessages ''B'' clear c) (\<lambda>(r, c). Done r)))))"

text \<open>The clearing read of a pubsub topic can stop the node. It removes in reverse index
  order, not by descending position as the content read does: after a topic is unsubscribed, the
  swap deletion leaves the index in descending order, and the read of the other topic returns
  its messages without \<^verbatim>\<open>clear\<close> but raises \<^verbatim>\<open>IndexDefect\<close> with it.\<close>

theorem getMessages_clear_defect:
  "clear_scenario True = Fault IndexDefect \<and>
   clear_scenario False = Done (Inr [sample_message ''X'' 3, sample_message ''X'' 2])"
proof
  show "clear_scenario True = Fault IndexDefect" by code_simp
  show "clear_scenario False = Done (Inr [sample_message ''X'' 3, sample_message ''X'' 2])" by code_simp
qed

end
