(* ===== verification/Topics.thy ===== *)
theory Topics
  imports WakuMessage
begin

text \<open>
  Content topics, pubsub topics and autosharding, \<^verbatim>\<open>waku/waku_core/topics\<close>. The decimal
  decoder \<^verbatim>\<open>Base10.decode(uint16, _)\<close> of stew and SHA-256 of nimcrypto are arguments; what is
  used of the decoder is \<open>base10_ok\<close>. A result is \<open>Inl\<close> a \<open>ParsingError\<close> or \<open>Inr\<close> a value;
  the parser of pubsub topics may also stop with \<^verbatim>\<open>RangeDefect\<close>.
\<close>

section \<open>Parsing errors\<close>

datatype ParsingError = InvalidFormat string | MissingPart string

fun show_error :: "ParsingError \<Rightarrow> string" where
  "show_error (InvalidFormat cause) = ''invalid format: '' @ cause"
| "show_error (MissingPart part) = ''missing part: '' @ part"

section \<open>Content topics\<close>

record NsContentTopic =
  generation :: "int option"
  application :: string
  app_version :: string
  topic_name :: string
  encoding :: string

definition show_content_topic :: "NsContentTopic \<Rightarrow> ContentTopic" where
  "show_content_topic t =
     (case generation t of None \<Rightarrow> [] | Some g \<Rightarrow> ''/'' @ show_int g)
     @ ''/'' @ application t @ ''/'' @ app_version t @ ''/'' @ topic_name t @ ''/'' @ encoding t"

definition content_topic_parts ::
  "int option \<Rightarrow> string \<Rightarrow> string \<Rightarrow> string \<Rightarrow> string \<Rightarrow> ParsingError + NsContentTopic" where
  "content_topic_parts gen app ver name enc =
     (if app = [] then Inl (MissingPart ''application'')
      else if ver = [] then Inl (MissingPart ''version'')
      else if name = [] then Inl (MissingPart ''topic-name'')
      else if enc = [] then Inl (MissingPart ''encoding'')
      else Inr \<lparr>generation = gen, application = app, app_version = ver, topic_name = name, encoding = enc\<rparr>)"

definition structure_msg :: string where
  "structure_msg =
     ''Invalid content topic structure. Expected either /<application>/<version>/<topic-name>/<encoding> '' @
     ''or /<gen>/<application>/<version>/<topic-name>/<encoding>''"

definition parse_content_topic :: "ContentTopic \<Rightarrow> ParsingError + NsContentTopic" where
  "parse_content_topic topic =
     (if \<not> starts_with topic ''/'' then Inl (InvalidFormat ''topic must start with slash'')
      else (case split_on (CHR ''/'') (tl topic) of
          [app, ver, name, enc] \<Rightarrow> content_topic_parts None app ver name enc
        | [gen, app, ver, name, enc] \<Rightarrow>
            if gen = [] then Inl (MissingPart ''generation'')
            else (case nim_parse_int gen of
                None \<Rightarrow> Inl (InvalidFormat ''generation should be a numeric value'')
              | Some g \<Rightarrow> content_topic_parts (Some g) app ver name enc)
        | _ \<Rightarrow> Inl (InvalidFormat structure_msg)))"

definition name_part :: "string \<Rightarrow> bool" where
  "name_part s \<longleftrightarrow> s \<noteq> [] \<and> CHR ''/'' \<notin> set s"

definition content_topic_ok :: "NsContentTopic \<Rightarrow> bool" where
  "content_topic_ok t \<longleftrightarrow> name_part (application t) \<and> name_part (app_version t)
     \<and> name_part (topic_name t) \<and> name_part (encoding t)
     \<and> (\<forall>g. generation t = Some g \<longrightarrow> - (2 ^ 63) \<le> g \<and> g < 2 ^ 63)"

lemma split_show:
  "content_topic_ok t \<Longrightarrow> split_on (CHR ''/'') (tl (show_content_topic t)) =
     (case generation t of None \<Rightarrow> [] | Some g \<Rightarrow> [show_int g])
     @ [application t, app_version t, topic_name t, encoding t]"
  by (auto simp: show_content_topic_def content_topic_ok_def name_part_def split_on_append split_on_free
      show_int_free split: option.splits)

lemma show_starts: "starts_with (show_content_topic t) ''/''"
  by (simp add: show_content_topic_def starts_with_def split: option.splits)

lemma parse_show_content_topic:
  assumes "content_topic_ok t"
  shows "parse_content_topic (show_content_topic t) = Inr t"
proof -
  have "nim_parse_int (show_int g) = Some g" if "generation t = Some g" for g
    using that assms nim_parse_int_show_int by (simp add: content_topic_ok_def)
  then show ?thesis
    using assms by (cases t)
      (auto simp: parse_content_topic_def show_starts split_show content_topic_parts_def content_topic_ok_def
        name_part_def split: option.splits)
qed

text \<open>Printing and parsing a content topic: a topic whose parts are non-empty and free of
  slashes, with a generation that fits 64 bits or none, is parsed back from its text exactly;
  and a text that parses to a topic without generation is the text of that topic.\<close>

theorem content_topic_roundtrip:
  "(content_topic_ok t \<longrightarrow> parse_content_topic (show_content_topic t) = Inr t)
   \<and> (parse_content_topic s = Inr t \<and> generation t = None \<longrightarrow> show_content_topic t = s \<and> content_topic_ok t)"
proof (intro conjI impI)
  assume "content_topic_ok t"
  then show "parse_content_topic (show_content_topic t) = Inr t" by (rule parse_show_content_topic)
next
  assume p: "parse_content_topic s = Inr t \<and> generation t = None"
  then obtain r where s: "s = CHR ''/'' # r"
    by (auto simp: parse_content_topic_def starts_with_iff split: if_splits)
  with p obtain a v n e where r: "split_on (CHR ''/'') r = [a, v, n, e]"
    "content_topic_parts None a v n e = Inr t"
    by (auto simp: parse_content_topic_def content_topic_parts_def split: if_splits list.splits option.splits)
  have "join_with (CHR ''/'') [a, v, n, e] = r" using join_split [of "CHR ''/''" r] r by simp
  moreover have "CHR ''/'' \<notin> set a" "CHR ''/'' \<notin> set v" "CHR ''/'' \<notin> set n" "CHR ''/'' \<notin> set e"
    using split_on_parts [of _ "CHR ''/''" r] r by simp_all
  ultimately show "show_content_topic t = s" "content_topic_ok t"
    using r(2) s
    by (auto simp: content_topic_parts_def show_content_topic_def content_topic_ok_def name_part_def
        split: if_splits)
qed

text \<open>An autosharding topic of generation 0.\<close>

definition sample_topic :: NsContentTopic where
  "sample_topic = \<lparr>generation = Some 0, application = ''toychat'', app_version = ''2'',
     topic_name = ''huilong'', encoding = ''proto''\<rparr>"

lemma sample_topic_ok: "content_topic_ok sample_topic"
  by (simp add: content_topic_ok_def name_part_def sample_topic_def)

theorem content_topic_roundtrip_witness:
  "parse_content_topic (show_content_topic sample_topic) = Inr sample_topic"
  using content_topic_roundtrip [of sample_topic] sample_topic_ok by blast

section \<open>Pubsub topics\<close>

datatype NsPubsubTopic = StaticSharding u16 u16 | NamedSharding string

definition show_pubsub_topic :: "NsPubsubTopic \<Rightarrow> PubsubTopic" where
  "show_pubsub_topic t =
     (case t of
        NamedSharding name \<Rightarrow> ''/waku/2/'' @ name
      | StaticSharding clusterId shardId \<Rightarrow>
          ''/waku/2/rs/'' @ show_nat (unat clusterId) @ ''/'' @ show_nat (unat shardId))"

type_synonym base10 = "string \<Rightarrow> string + u16"

definition parseStaticSharding :: "base10 \<Rightarrow> PubsubTopic \<Rightarrow> (ParsingError + NsPubsubTopic) exec" where
  "parseStaticSharding dec topic =
     (if \<not> starts_with topic ''/waku/2/rs'' then
        Done (Inl (InvalidFormat ''must start with /waku/2/rs''))
      else bind_exec (slice_from 11 topic) (\<lambda>raw.
        Done (case split_on (CHR ''/'') raw of
            [clusterPart, shardPart] \<Rightarrow>
              (if clusterPart = [] then Inl (MissingPart ''cluster_id'')
               else case dec clusterPart of
                 Inl e \<Rightarrow> Inl (InvalidFormat e)
               | Inr clusterId \<Rightarrow>
                   if shardPart = [] then Inl (MissingPart ''shard_number'')
                   else (case dec shardPart of
                     Inl e \<Rightarrow> Inl (InvalidFormat e)
                   | Inr shardId \<Rightarrow> Inr (StaticSharding clusterId shardId)))
          | _ \<Rightarrow> Inl (InvalidFormat ''invalid topic structure''))))"

definition parseNamedSharding :: "PubsubTopic \<Rightarrow> (ParsingError + NsPubsubTopic) exec" where
  "parseNamedSharding topic =
     (if \<not> starts_with topic ''/waku/2'' then Done (Inl (InvalidFormat ''must start with /waku/2''))
      else bind_exec (slice_from 8 topic) (\<lambda>raw.
        Done (if raw = [] then Inl (MissingPart ''topic-name'') else Inr (NamedSharding raw))))"

definition parse_pubsub_topic :: "base10 \<Rightarrow> PubsubTopic \<Rightarrow> (ParsingError + NsPubsubTopic) exec" where
  "parse_pubsub_topic dec topic =
     (if starts_with topic ''/waku/2/rs'' then parseStaticSharding dec topic
      else parseNamedSharding topic)"

text \<open>What is used of the decoder: it reads the decimal text of a 16-bit number, and nothing
  but texts of digits whose value it returns.\<close>

definition base10_ok :: "base10 \<Rightarrow> bool" where
  "base10_ok dec \<longleftrightarrow> (\<forall>w. dec (show_nat (unat w)) = Inr w)
     \<and> (\<forall>s w. dec s = Inr w \<longrightarrow> s \<noteq> [] \<and> (\<forall>c \<in> set s. is_digit c) \<and> dec_val s = unat w)"

definition sample_base10 :: base10 where
  "sample_base10 s =
     (if s \<noteq> [] \<and> (\<forall>c \<in> set s. is_digit c) \<and> dec_val s < 65536 then Inr (of_nat (dec_val s))
      else Inl ''invalid'')"

lemma sample_base10_ok: "base10_ok sample_base10"
  using show_nat_digits unat_bound16 by (auto simp: base10_ok_def sample_base10_def unat_of_nat split: if_splits)

text \<open>Parsing a pubsub topic stops with \<^verbatim>\<open>RangeDefect\<close> on exactly two texts, the bare prefixes
  \<^verbatim>\<open>/waku/2\<close> and \<^verbatim>\<open>/waku/2/rs\<close>; on every other text it returns a topic or an error.\<close>

theorem pubsub_parse_defect:
  "parse_pubsub_topic dec s = Fault f \<longleftrightarrow> f = RangeDefect \<and> (s = ''/waku/2'' \<or> s = ''/waku/2/rs'')"
proof (cases "starts_with s ''/waku/2/rs''")
  case True
  then obtain r where "s = ''/waku/2/rs'' @ r" by (rule starts_withE)
  then show ?thesis
    by (cases r) (auto simp: parse_pubsub_topic_def parseStaticSharding_def slice_from_def starts_with_def)
next
  case False
  then show ?thesis
    by (cases "starts_with s ''/waku/2''")
      (auto simp: parse_pubsub_topic_def parseNamedSharding_def slice_from_def starts_with_def elim!: starts_withE)
qed

lemma parse_static:
  assumes "base10_ok dec"
  shows "parse_pubsub_topic dec (show_pubsub_topic (StaticSharding c s)) = Done (Inr (StaticSharding c s))"
proof -
  have "split_on (CHR ''/'') (show_nat (unat c) @ CHR ''/'' # show_nat (unat s)) = [show_nat (unat c), show_nat (unat s)]"
    by (simp add: split_on_append split_on_free)
  then show ?thesis
    using assms
    by (simp add: parse_pubsub_topic_def show_pubsub_topic_def parseStaticSharding_def starts_with_def
        slice_from_def base10_ok_def)
qed

lemma parse_named:
  assumes "n \<noteq> []"
  shows "parse_pubsub_topic dec (show_pubsub_topic (NamedSharding n)) = Done (Inr (NamedSharding n))
    \<longleftrightarrow> \<not> starts_with n ''rs''"
  using assms
  by (auto simp: parse_pubsub_topic_def show_pubsub_topic_def parseStaticSharding_def parseNamedSharding_def
      starts_with_def slice_from_def split: list.splits sum.splits if_splits)

text \<open>Every static shard is parsed back from its text; a named topic is parsed back if and only
  if its name is non-empty and does not start with \<^verbatim>\<open>rs\<close> (a name such as \<^verbatim>\<open>rsvp\<close> is taken for a
  shard).\<close>

theorem pubsub_roundtrip:
  assumes "base10_ok dec"
  shows "parse_pubsub_topic dec (show_pubsub_topic t) = Done (Inr t)
    \<longleftrightarrow> (case t of StaticSharding c s \<Rightarrow> True | NamedSharding n \<Rightarrow> n \<noteq> [] \<and> \<not> starts_with n ''rs'')"
proof (cases t)
  case (NamedSharding n)
  then show ?thesis
    using parse_named [of n dec]
    by (cases "n = []") (auto simp: parse_pubsub_topic_def show_pubsub_topic_def parseNamedSharding_def
        starts_with_def slice_from_def)
qed (simp add: parse_static [OF assms])

theorem pubsub_roundtrip_witness:
  "parse_pubsub_topic sample_base10 (show_pubsub_topic (StaticSharding 1 7)) = Done (Inr (StaticSharding 1 7))
   \<and> parse_pubsub_topic sample_base10 (show_pubsub_topic (NamedSharding ''rsvp'')) \<noteq> Done (Inr (NamedSharding ''rsvp''))"
  using pubsub_roundtrip [OF sample_base10_ok, of "StaticSharding 1 7"]
    pubsub_roundtrip [OF sample_base10_ok, of "NamedSharding ''rsvp''"]
  by (simp add: starts_with_def)

end
