(* ===== verification/Sharding.thy ===== *)
theory Sharding
  imports Topics
begin

text \<open>
  Autosharding, \<^verbatim>\<open>waku/waku_core/topics/sharding.nim\<close>: the shard a content topic is assigned
  to, and the table of shards a subscription asks for. SHA-256 is an argument \<open>sha\<close>, used
  only through the 64-bit value of its last eight bytes.
\<close>

record Sharding =
  clusterId :: u32
  shardCountGenZero :: u32

definition from_be :: "bytes \<Rightarrow> u64" where
  "from_be bs = foldl (\<lambda>a b. push_bit 8 a OR ucast b) 0 bs"

definition hash_value :: "(bytes \<Rightarrow> bytes) \<Rightarrow> NsContentTopic \<Rightarrow> u64" where
  "hash_value sha t = from_be (take 8 (drop 24 (sha (str_bytes (application t) @ str_bytes (app_version t)))))"

text \<open>The conversions to \<^verbatim>\<open>uint16\<close> and \<^verbatim>\<open>uint64\<close> wrap; \<open>count\<close> is a Nim \<^verbatim>\<open>int\<close>.\<close>

definition getGenZeroShard :: "(bytes \<Rightarrow> bytes) \<Rightarrow> Sharding \<Rightarrow> NsContentTopic \<Rightarrow> int \<Rightarrow> NsPubsubTopic" where
  "getGenZeroShard sha s topic count =
     (let shard = hash_value sha topic AND word_of_int (count - 1)
      in StaticSharding (ucast (clusterId s)) (ucast shard))"

definition getShard :: "(bytes \<Rightarrow> bytes) \<Rightarrow> Sharding \<Rightarrow> NsContentTopic \<Rightarrow> string + NsPubsubTopic" where
  "getShard sha s topic =
     (case generation topic of
        None \<Rightarrow> Inr (getGenZeroShard sha s topic (uint (shardCountGenZero s)))
      | Some g \<Rightarrow> if g = 0 then Inr (getGenZeroShard sha s topic (uint (shardCountGenZero s)))
                 else Inl ''Generation > 0 are not supported yet'')"

definition getShard_text :: "(bytes \<Rightarrow> bytes) \<Rightarrow> Sharding \<Rightarrow> ContentTopic \<Rightarrow> string + PubsubTopic" where
  "getShard_text sha s topic =
     (case parse_content_topic topic of
        Inl e \<Rightarrow> Inl (show_error e)
      | Inr t \<Rightarrow> (case getShard sha s t of Inl e \<Rightarrow> Inl e | Inr shard \<Rightarrow> Inr (show_pubsub_topic shard)))"

text \<open>The shard \<^verbatim>\<open>parseSharding\<close> uses for one content topic.\<close>

definition shard_of ::
  "base10 \<Rightarrow> (bytes \<Rightarrow> bytes) \<Rightarrow> Sharding \<Rightarrow> PubsubTopic option \<Rightarrow> NsContentTopic \<Rightarrow> (string + NsPubsubTopic) exec" where
  "shard_of dec sha s pubsubTopic content =
     (case pubsubTopic of
        Some p \<Rightarrow> bind_exec (parse_pubsub_topic dec p) (\<lambda>r.
          Done (case r of Inl e \<Rightarrow> Inl (''Cannot parse pubsub topic: '' @ show_error e) | Inr t \<Rightarrow> Inr t))
      | None \<Rightarrow> Done (case getShard sha s content of
            Inl e \<Rightarrow> Inl (''Cannot autoshard content topic: '' @ e) | Inr t \<Rightarrow> Inr t))"

type_synonym topic_table = "NsPubsubTopic \<rightharpoonup> NsContentTopic list"

definition table_add :: "topic_table \<Rightarrow> NsPubsubTopic \<Rightarrow> NsContentTopic \<Rightarrow> topic_table" where
  "table_add m p c = m(p \<mapsto> (case m p of None \<Rightarrow> [] | Some cs \<Rightarrow> cs) @ [c])"

fun sharding_loop ::
  "base10 \<Rightarrow> (bytes \<Rightarrow> bytes) \<Rightarrow> Sharding \<Rightarrow> PubsubTopic option \<Rightarrow> ContentTopic list \<Rightarrow> topic_table
     \<Rightarrow> (string + topic_table) exec" where
  "sharding_loop dec sha s p [] m = Done (Inr m)"
| "sharding_loop dec sha s p (t # ts) m =
     (case parse_content_topic t of
        Inl e \<Rightarrow> Done (Inl (''Cannot parse content topic: '' @ show_error e))
      | Inr content \<Rightarrow> bind_exec (shard_of dec sha s p content) (\<lambda>r.
          case r of Inl e \<Rightarrow> Done (Inl e)
          | Inr pubsub \<Rightarrow> sharding_loop dec sha s p ts (table_add m pubsub content)))"

definition parseSharding ::
  "base10 \<Rightarrow> (bytes \<Rightarrow> bytes) \<Rightarrow> Sharding \<Rightarrow> PubsubTopic option \<Rightarrow> ContentTopic list
     \<Rightarrow> (string + topic_table) exec" where
  "parseSharding dec sha s pubsubTopic contentTopics =
     sharding_loop dec sha s pubsubTopic contentTopics Map.empty"

section \<open>The shard of a content topic\<close>

lemma and_mask_le: "unat (w AND m) \<le> unat m" for w m :: u64
  using word_and_le1 [of w m] by (simp only: word_le_nat_alt and.commute)

lemma word_count:
  assumes "1 \<le> c" and "c \<le> 2 ^ 32"
  shows "unat (word_of_int (c - 1) :: u64) = nat (c - 1)"
proof -
  have "take_bit LENGTH(64) (c - 1) = c - 1"
    by (rule take_bit_int_eq_self) (use assms in simp_all)
  then show ?thesis by (simp only: unsigned_of_int of_nat_id)
qed

lemma and_pow2: "unat (w AND word_of_int (2 ^ k - 1)) = unat w mod 2 ^ k" for w :: u64
proof -
  have "word_of_int (2 ^ k - 1) = (mask k :: u64)"
    by (simp add: mask_eq_exp_minus_1)
  then have "unat (w AND word_of_int (2 ^ k - 1)) = unat (take_bit k w)"
    by (simp only: take_bit_eq_mask)
  also have "\<dots> = take_bit k (unat w)" by (rule unsigned_take_bit_eq)
  also have "\<dots> = unat w mod 2 ^ k" by (rule take_bit_eq_mod)
  finally show ?thesis .
qed

lemma unat_ucast16: "unat w < 65536 \<Longrightarrow> unat (ucast w :: u16) = unat w" for w :: u64
  by (simp add: unsigned_ucast_eq take_bit_nat_eq_self)

text \<open>Autosharding picks a shard below the shard count, for every count from 1 to 65536, and
  when the count is a power of two it is the hash modulo the count. Only the application and
  its version choose the shard.\<close>

theorem autoshard_bounds:
  assumes "getShard sha s t = Inr (StaticSharding c i)" and "1 \<le> shardCountGenZero s" and "shardCountGenZero s \<le> 65536"
  shows "unat i < unat (shardCountGenZero s)
    \<and> (unat (shardCountGenZero s) = 2 ^ k \<longrightarrow> unat i = unat (hash_value sha t) mod 2 ^ k)
    \<and> getShard sha s (t\<lparr>topic_name := n, encoding := e\<rparr>) = Inr (StaticSharding c i)"
proof -
  let ?c = "uint (shardCountGenZero s)"
  have cb: "1 \<le> ?c" "?c \<le> 65536"
    using assms(2,3) by (simp_all add: word_le_def)
  have i: "i = ucast (hash_value sha t AND word_of_int (?c - 1))"
    using assms(1) by (auto simp: getShard_def getGenZeroShard_def Let_def split: option.splits if_splits)
  have le: "unat (hash_value sha t AND word_of_int (?c - 1)) \<le> nat (?c - 1)"
    using and_mask_le [of "hash_value sha t" "word_of_int (?c - 1)"] word_count [of ?c] cb by simp
  then have ui: "unat i = unat (hash_value sha t AND word_of_int (?c - 1))"
    unfolding i using cb by (intro unat_ucast16) simp
  have "unat i \<le> nat (?c - 1)" using ui le by (simp only:)
  moreover have "?c = int (unat (shardCountGenZero s))" by (rule uint_nat)
  ultimately have "unat i < unat (shardCountGenZero s)" using cb(1) by linarith
  moreover have "unat i = unat (hash_value sha t) mod 2 ^ k" if "unat (shardCountGenZero s) = 2 ^ k"
  proof -
    from that have "?c = 2 ^ k" by (simp only: uint_nat of_nat_power of_nat_numeral)
    then show ?thesis using ui and_pow2 [of "hash_value sha t" k] by simp
  qed
  moreover have "getShard sha s (t\<lparr>topic_name := n, encoding := e\<rparr>) = getShard sha s t"
    by (simp add: getShard_def getGenZeroShard_def hash_value_def split: option.splits)
  ultimately show ?thesis using assms(1) by simp
qed

definition sample_sha :: "bytes \<Rightarrow> bytes" where
  "sample_sha bs = replicate 24 0 @ [0, 0, 0, 0, 0, 0, 0, of_nat (length bs)]"

lemma hash_sample_topic: "hash_value sample_sha sample_topic = 8"
  by (simp add: hash_value_def sample_sha_def sample_topic_def str_bytes_def from_be_def)

theorem autoshard_bounds_witness:
  "\<exists>i. getShard sample_sha \<lparr>clusterId = 1, shardCountGenZero = 8\<rparr> sample_topic = Inr (StaticSharding 1 i)
     \<and> unat i = 0"
proof -
  let ?s = "\<lparr>clusterId = 1, shardCountGenZero = 8\<rparr>"
  obtain i where i: "getShard sample_sha ?s sample_topic = Inr (StaticSharding 1 i)"
    by (simp add: getShard_def getGenZeroShard_def sample_topic_def)
  have b: "1 \<le> shardCountGenZero ?s" "shardCountGenZero ?s \<le> 65536" by simp_all
  have "unat (shardCountGenZero ?s) = 2 ^ 3" by simp
  then have "unat i = unat (hash_value sample_sha sample_topic) mod 2 ^ 3"
    using autoshard_bounds [OF i b, of 3] by blast
  with i show ?thesis by (simp add: hash_sample_topic)
qed

text \<open>With a shard count that is not a power of two the mask is not a modulo: with three
  shards, shard 1 is never chosen, whatever the hash.\<close>

theorem autoshard_three_shards:
  assumes "shardCountGenZero s = 3"
  shows "getShard sha s t \<noteq> Inr (StaticSharding c 1)"
proof -
  have "\<not> bit (hash_value sha t AND 2) 0" by (simp add: bit_simps)
  then have "\<not> bit (ucast (hash_value sha t AND 2) :: u16) 0" by (simp add: bit_simps)
  then have "ucast (hash_value sha t AND 2) \<noteq> (1 :: u16)" by (metis bit_1_0 One_nat_def)
  then show ?thesis
    using assms by (auto simp: getShard_def getGenZeroShard_def Let_def split: option.splits)
qed

theorem autoshard_three_shards_witness:
  "getShard sample_sha \<lparr>clusterId = 1, shardCountGenZero = 3\<rparr> sample_topic \<noteq> Inr (StaticSharding 1 1)"
  by (rule autoshard_three_shards) simp

section \<open>The table of a subscription\<close>

text \<open>What the loop computes: the parsed topics and their shards, and the table grouping them.\<close>

fun sharded ::
  "base10 \<Rightarrow> (bytes \<Rightarrow> bytes) \<Rightarrow> Sharding \<Rightarrow> PubsubTopic option \<Rightarrow> ContentTopic \<Rightarrow> (NsPubsubTopic \<times> NsContentTopic) \<Rightarrow> bool" where
  "sharded dec sha s p t (pub, c) \<longleftrightarrow> parse_content_topic t = Inr c \<and> shard_of dec sha s p c = Done (Inr pub)"

definition grouped :: "topic_table \<Rightarrow> (NsPubsubTopic \<times> NsContentTopic) list \<Rightarrow> topic_table" where
  "grouped m xs = foldl (\<lambda>m (p, c). table_add m p c) m xs"

lemma grouped_lookup:
  "grouped m xs p =
     (let cs = (case m p of None \<Rightarrow> [] | Some cs \<Rightarrow> cs) @ map snd (filter (\<lambda>x. fst x = p) xs)
      in if m p = None \<and> p \<notin> fst ` set xs then None else Some cs)"
proof (induction xs arbitrary: m)
  case (Cons x xs)
  have "grouped m (x # xs) p = grouped (table_add m (fst x) (snd x)) xs p"
    by (simp add: grouped_def split: prod.splits)
  then show ?case
    unfolding Cons by (auto simp: table_add_def Let_def split: option.splits)
qed (simp add: grouped_def split: option.splits)

lemma sharding_loop_spec:
  "sharding_loop dec sha s p ts m = Done (Inr m') \<Longrightarrow>
     \<exists>xs. list_all2 (sharded dec sha s p) ts xs \<and> m' = grouped m xs"
proof (induction ts arbitrary: m)
  case Nil
  then show ?case by (simp add: grouped_def)
next
  case (Cons t ts)
  then obtain c pub where c: "parse_content_topic t = Inr c" "shard_of dec sha s p c = Done (Inr pub)"
    "sharding_loop dec sha s p ts (table_add m pub c) = Done (Inr m')"
    by (auto simp del: bind_exec_Done_iff elim!: bind_execE split: sum.splits)
  from Cons.IH [OF c(3)] obtain xs where
    "list_all2 (sharded dec sha s p) ts xs" "m' = grouped (table_add m pub c) xs" by blast
  with c show ?case by (intro exI [of _ "(pub, c) # xs"]) (simp add: grouped_def)
qed

text \<open>When \<^verbatim>\<open>parseSharding\<close> succeeds, every content topic parsed and got a shard, and the table
  groups them: under each shard exactly the topics assigned to it, in the order they were
  given, and nothing else. With an explicit pubsub topic they are all under that one.\<close>

theorem parseSharding_groups:
  assumes "parseSharding dec sha s p ts = Done (Inr m)"
  shows "\<exists>xs. list_all2 (sharded dec sha s p) ts xs
    \<and> (\<forall>k. m k = (if k \<in> fst ` set xs then Some (map snd (filter (\<lambda>x. fst x = k) xs)) else None))
    \<and> (\<forall>q. p = Some q \<longrightarrow> (\<forall>k \<in> dom m. parse_pubsub_topic dec q = Done (Inr k)))"
proof -
  from sharding_loop_spec [OF assms [unfolded parseSharding_def]] obtain xs where
    xs: "list_all2 (sharded dec sha s p) ts xs" "m = grouped Map.empty xs" by blast
  have m: "m k = (if k \<in> fst ` set xs then Some (map snd (filter (\<lambda>x. fst x = k) xs)) else None)" for k
    unfolding xs(2) by (simp add: grouped_lookup Let_def)
  have "parse_pubsub_topic dec q = Done (Inr k)" if "p = Some q" "k \<in> dom m" for q k
  proof -
    from that(2) have "k \<in> fst ` set xs" using m [of k] by (auto split: if_splits)
    then obtain c where "(k, c) \<in> set xs" by auto
    then obtain t where "sharded dec sha s p t (k, c)"
      using xs(1) by (metis list_all2_conv_all_nth in_set_conv_nth)
    with that(1) show ?thesis
      by (auto simp: shard_of_def simp del: bind_exec_Done_iff elim!: bind_execE split: sum.splits)
  qed
  with xs(1) m show ?thesis by blast
qed

theorem parseSharding_groups_witness:
  "\<exists>m. parseSharding sample_base10 sample_sha \<lparr>clusterId = 1, shardCountGenZero = 8\<rparr> (Some ''/waku/2/t'')
       [show_content_topic sample_topic] = Done (Inr m) \<and> m (NamedSharding ''t'') = Some [sample_topic]"
proof -
  note t = parse_show_content_topic [OF sample_topic_ok]
  have p: "parse_pubsub_topic sample_base10 ''/waku/2/t'' = Done (Inr (NamedSharding ''t''))"
    by (simp add: parse_pubsub_topic_def parseNamedSharding_def starts_with_def slice_from_def)
  obtain m where m: "parseSharding sample_base10 sample_sha \<lparr>clusterId = 1, shardCountGenZero = 8\<rparr> (Some ''/waku/2/t'')
       [show_content_topic sample_topic] = Done (Inr m)"
    by (simp add: parseSharding_def t shard_of_def p)
  from parseSharding_groups [OF m] obtain xs where
    xs: "list_all2 (sharded sample_base10 sample_sha \<lparr>clusterId = 1, shardCountGenZero = 8\<rparr> (Some ''/waku/2/t''))
        [show_content_topic sample_topic] xs"
    "m (NamedSharding ''t'') = (if NamedSharding ''t'' \<in> fst ` set xs
       then Some (map snd (filter (\<lambda>x. fst x = NamedSharding ''t'') xs)) else None)" by blast
  from xs(1) have "xs = [(NamedSharding ''t'', sample_topic)]"
    by (auto simp: list_all2_Cons1 t shard_of_def p)
  with xs(2) m show ?thesis by simp
qed

end
