(* ===== verification/EnrShards.thy ===== *)
theory EnrShards
  imports Topics
begin

text \<open>
  The shards and capabilities a node announces in its ENR, \<^verbatim>\<open>waku/waku_enr/sharding.nim\<close> and
  \<^verbatim>\<open>capabilities.nim\<close>: the index list (\<^verbatim>\<open>rs\<close>) and bit vector (\<^verbatim>\<open>rsv\<close>) encodings, the
  choice between them, reading them back, and the shards a list of topics stands for. The
  record of nim-eth is a map from field names to the bytes that were added (the decoding
  of the record itself is not modelled).
\<close>

section \<open>Relay shards\<close>

definition MaxShardIndex :: u16 where "MaxShardIndex = 1023"
definition ShardingIndicesListEnrField :: string where "ShardingIndicesListEnrField = ''rs''"
definition ShardingIndicesListMaxLength :: nat where "ShardingIndicesListMaxLength = 64"
definition ShardingBitVectorEnrField :: string where "ShardingBitVectorEnrField = ''rsv''"

record RelayShards =
  rs_clusterId :: u16
  shardIds :: "u16 list"

definition shard_topics :: "RelayShards \<Rightarrow> NsPubsubTopic list" where
  "shard_topics rs = map (StaticSharding (rs_clusterId rs)) (shardIds rs)"

text \<open>Nim's \<^verbatim>\<open>deduplicate\<close> keeps the first occurrences.\<close>

definition deduplicate :: "'a list \<Rightarrow> 'a list" where
  "deduplicate xs = rev (remdups (rev xs))"

definition init_shards :: "u16 \<Rightarrow> u16 list \<Rightarrow> string + RelayShards" where
  "init_shards c ids =
     (if \<exists>i \<in> set ids. i > MaxShardIndex then Inl ''invalid shard''
      else if length ids < 1 then Inl ''invalid shard count''
      else Inr \<lparr>rs_clusterId = c, shardIds = deduplicate ids\<rparr>)"

fun is_named :: "NsPubsubTopic \<Rightarrow> bool" where
  "is_named (NamedSharding n) = True" | "is_named (StaticSharding c i) = False"

fun static_cluster :: "NsPubsubTopic \<Rightarrow> u16" where
  "static_cluster (StaticSharding c i) = c" | "static_cluster (NamedSharding n) = 0"

fun static_shard :: "NsPubsubTopic \<Rightarrow> u16" where
  "static_shard (StaticSharding c i) = i" | "static_shard (NamedSharding n) = 0"

text \<open>\<^verbatim>\<open>topics.mapIt(NsPubsubTopic.parse(it))\<close> and the loop that returns the first error.\<close>

fun parse_topics :: "base10 \<Rightarrow> PubsubTopic list \<Rightarrow> (ParsingError + NsPubsubTopic) list exec" where
  "parse_topics dec [] = Done []"
| "parse_topics dec (t # ts) =
     bind_exec (parse_pubsub_topic dec t) (\<lambda>r. bind_exec (parse_topics dec ts) (\<lambda>rs. Done (r # rs)))"

fun first_error :: "(ParsingError + NsPubsubTopic) list \<Rightarrow> ParsingError + NsPubsubTopic list" where
  "first_error [] = Inr []"
| "first_error (Inl e # rs) = Inl e"
| "first_error (Inr t # rs) = (case first_error rs of Inl e \<Rightarrow> Inl e | Inr ts \<Rightarrow> Inr (t # ts))"

definition topicsToRelayShards :: "base10 \<Rightarrow> PubsubTopic list \<Rightarrow> (string + RelayShards option) exec" where
  "topicsToRelayShards dec topics =
     (if length topics < 1 then Done (Inr None)
      else bind_exec (parse_topics dec topics) (\<lambda>rs.
        Done (case first_error rs of
          Inl e \<Rightarrow> Inl (''failed to parse topic: '' @ show_error e)
        | Inr ts \<Rightarrow>
            if list_all is_named ts then Inr None
            else if list_ex is_named ts then
              Inl ''use named (/waku/2/*) OR static (/waku/2/rs/*/*) shards not both.''
            else if list_ex (\<lambda>t. static_cluster t \<noteq> static_cluster (hd ts)) ts then
              Inl ''use shards with the same cluster Id.''
            else (case init_shards (static_cluster (hd ts)) (map static_shard ts) of
                Inl e \<Rightarrow> Inl e | Inr s \<Rightarrow> Inr (Some s)))))"

fun contains_topic :: "RelayShards \<Rightarrow> NsPubsubTopic \<Rightarrow> bool" where
  "contains_topic rs (StaticSharding c i) \<longleftrightarrow> rs_clusterId rs = c \<and> i \<in> set (shardIds rs)"
| "contains_topic rs (NamedSharding n) \<longleftrightarrow> False"

definition contains_text :: "base10 \<Rightarrow> RelayShards \<Rightarrow> PubsubTopic \<Rightarrow> bool exec" where
  "contains_text dec rs topic = bind_exec (parse_pubsub_topic dec topic) (\<lambda>r.
     Done (case r of Inl e \<Rightarrow> False | Inr t \<Rightarrow> contains_topic rs t))"

section \<open>Encodings\<close>

definition be16 :: "u16 \<Rightarrow> bytes" where
  "be16 w = [ucast (drop_bit 8 w), ucast w]"

definition from_be16 :: "u8 \<Rightarrow> u8 \<Rightarrow> u16" where
  "from_be16 a b = push_bit 8 (ucast a) OR ucast b"

definition toIndicesList :: "RelayShards \<Rightarrow> string + bytes" where
  "toIndicesList rs =
     (if length (shardIds rs) > 255 then Inl ''shards list too long''
      else Inr (be16 (rs_clusterId rs) @ [of_nat (length (shardIds rs))] @ concat (map be16 (shardIds rs))))"

definition fromIndicesList :: "bytes \<Rightarrow> string + RelayShards" where
  "fromIndicesList buf =
     (if length buf < 3 then
        Inl (''insufficient data: expected at least 3 bytes, got '' @ show_nat (length buf) @ '' bytes'')
      else let n = unat (buf ! 2) in
        if length buf \<noteq> 3 + 2 * n then
          Inl (''invalid data: `length` field is '' @ show_nat n @ '' but '' @ show_nat (length buf)
            @ '' bytes were provided'')
        else Inr \<lparr>rs_clusterId = from_be16 (buf ! 0) (buf ! 1),
          shardIds = map (\<lambda>i. from_be16 (buf ! (3 + 2 * i)) (buf ! (4 + 2 * i))) [0..<n]\<rparr>)"

text \<open>\<^verbatim>\<open>vec[shardId div 8].setBit(shardId mod 8)\<close> on a vector of 128 bytes.\<close>

fun set_bits :: "u16 list \<Rightarrow> bytes \<Rightarrow> bytes exec" where
  "set_bits [] vec = Done vec"
| "set_bits (i # ids) vec =
     (let k = unat i div 8 in
      if k < length vec then set_bits ids (vec[k := set_bit (unat i mod 8) (vec ! k)])
      else Fault IndexDefect)"

definition toBitVector :: "RelayShards \<Rightarrow> bytes exec" where
  "toBitVector rs = bind_exec (set_bits (shardIds rs) (replicate 128 0))
     (\<lambda>vec. Done (be16 (rs_clusterId rs) @ vec))"

definition fromBitVector :: "bytes \<Rightarrow> string + RelayShards" where
  "fromBitVector buf =
     (if length buf \<noteq> 130 then Inl ''invalid data: expected 130 bytes''
      else Inr \<lparr>rs_clusterId = from_be16 (buf ! 0) (buf ! 1),
        shardIds = concat (map (\<lambda>i. concat (map (\<lambda>j.
          if bit (buf ! (2 + i)) j then [of_nat (j + 8 * i)] else []) [0..<8])) [0..<128])\<rparr>)"

section \<open>The record\<close>

type_synonym enr = "string \<rightharpoonup> bytes"

definition withWakuRelayShardingIndicesList :: "RelayShards \<Rightarrow> enr \<Rightarrow> string + enr" where
  "withWakuRelayShardingIndicesList rs r =
     (case toIndicesList rs of Inl e \<Rightarrow> Inl e | Inr v \<Rightarrow> Inr (r(ShardingIndicesListEnrField \<mapsto> v)))"

definition withWakuRelayShardingBitVector :: "RelayShards \<Rightarrow> enr \<Rightarrow> enr exec" where
  "withWakuRelayShardingBitVector rs r =
     bind_exec (toBitVector rs) (\<lambda>v. Done (r(ShardingBitVectorEnrField \<mapsto> v)))"

definition withWakuRelaySharding :: "RelayShards \<Rightarrow> enr \<Rightarrow> (string + enr) exec" where
  "withWakuRelaySharding rs r =
     (if length (shardIds rs) \<ge> ShardingIndicesListMaxLength then
        bind_exec (withWakuRelayShardingBitVector rs r) (\<lambda>r'. Done (Inr r'))
      else Done (withWakuRelayShardingIndicesList rs r))"

definition withShardedTopics :: "base10 \<Rightarrow> PubsubTopic list \<Rightarrow> enr \<Rightarrow> (string + enr) exec" where
  "withShardedTopics dec topics r = bind_exec (topicsToRelayShards dec topics) (\<lambda>res.
     case res of
       Inl e \<Rightarrow> Done (Inl (''building ENR with relay sharding failed: '' @ e))
     | Inr None \<Rightarrow> Done (Inr r)
     | Inr (Some rs) \<Rightarrow> withWakuRelaySharding rs r)"

definition relayShardingIndicesList :: "enr \<Rightarrow> RelayShards option" where
  "relayShardingIndicesList r =
     (case r ShardingIndicesListEnrField of None \<Rightarrow> None
      | Some field \<Rightarrow> (case fromIndicesList field of Inl e \<Rightarrow> None | Inr rs \<Rightarrow> Some rs))"

definition relayShardingBitVector :: "enr \<Rightarrow> RelayShards option" where
  "relayShardingBitVector r =
     (case r ShardingBitVectorEnrField of None \<Rightarrow> None
      | Some field \<Rightarrow> (case fromBitVector field of Inl e \<Rightarrow> None | Inr rs \<Rightarrow> Some rs))"

definition relaySharding :: "enr \<Rightarrow> RelayShards option" where
  "relaySharding r =
     (case relayShardingIndicesList r of None \<Rightarrow> relayShardingBitVector r | Some rs \<Rightarrow> Some rs)"

definition containsShard :: "enr \<Rightarrow> u16 \<Rightarrow> u16 \<Rightarrow> bool" where
  "containsShard r c i =
     (if i > MaxShardIndex then False
      else (case relaySharding r of None \<Rightarrow> False
        | Some rs \<Rightarrow> rs_clusterId rs = c \<and> i \<in> set (shardIds rs)))"

fun containsShard_topic :: "enr \<Rightarrow> NsPubsubTopic \<Rightarrow> bool" where
  "containsShard_topic r (StaticSharding c i) = containsShard r c i"
| "containsShard_topic r (NamedSharding n) = False"

definition containsShard_text :: "base10 \<Rightarrow> enr \<Rightarrow> PubsubTopic \<Rightarrow> bool exec" where
  "containsShard_text dec r topic = bind_exec (parse_pubsub_topic dec topic) (\<lambda>res.
     Done (case res of Inl e \<Rightarrow> False | Inr t \<Rightarrow> containsShard_topic r t))"

definition isClusterMismatched :: "enr \<Rightarrow> u32 \<Rightarrow> bool" where
  "isClusterMismatched r c =
     (case relaySharding r of None \<Rightarrow> False | Some rs \<Rightarrow> ucast (rs_clusterId rs) \<noteq> c)"

section \<open>Round trips\<close>

lemma be16_inverse [simp]: "from_be16 (ucast (drop_bit 8 w)) (ucast w) = w" for w :: u16
  by (rule bit_word_eqI) (auto simp: from_be16_def bit_simps)

lemma length_be16 [simp]: "length (be16 w) = 2"
  by (simp add: be16_def)

lemma length_concat_be16 [simp]: "length (concat (map be16 ids)) = 2 * length ids"
  by (induction ids) simp_all

lemma nth_concat_be16:
  "i < length ids \<Longrightarrow> concat (map be16 ids) ! (2 * i) = ucast (drop_bit 8 (ids ! i))
     \<and> concat (map be16 ids) ! Suc (2 * i) = ucast (ids ! i)"
proof (induction ids arbitrary: i)
  case (Cons x xs)
  then show ?case by (cases i) (auto simp: be16_def)
qed simp

lemma word_nat_rep: "of_nat (unat w) = w"
  by simp

lemma indices_roundtrip:
  assumes "toIndicesList rs = Inr v"
  shows "fromIndicesList v = Inr rs"
proof -
  let ?n = "length (shardIds rs)"
  have n: "?n \<le> 255" and v: "v = be16 (rs_clusterId rs) @ [of_nat ?n] @ concat (map be16 (shardIds rs))"
    using assms by (auto simp: toIndicesList_def split: if_splits)
  have u: "unat (of_nat ?n :: u8) = ?n" using n by (simp add: unat_of_nat)
  have l: "length v = 3 + 2 * ?n" and v2: "v ! 2 = of_nat ?n"
    and v01: "from_be16 (v ! 0) (v ! 1) = rs_clusterId rs"
    by (simp_all add: v be16_def)
  have "map (\<lambda>i. from_be16 (v ! (3 + 2 * i)) (v ! (4 + 2 * i))) [0..<?n] = shardIds rs"
  proof (rule nth_equalityI)
    fix i assume "i < length (map (\<lambda>i. from_be16 (v ! (3 + 2 * i)) (v ! (4 + 2 * i))) [0..<?n])"
    then have i: "i < ?n" by simp
    have "v ! (3 + 2 * i) = concat (map be16 (shardIds rs)) ! (2 * i)"
      "v ! (4 + 2 * i) = concat (map be16 (shardIds rs)) ! Suc (2 * i)"
      by (simp_all add: v be16_def numeral_eq_Suc)
    with nth_concat_be16 [OF i] i show
      "map (\<lambda>i. from_be16 (v ! (3 + 2 * i)) (v ! (4 + 2 * i))) [0..<?n] ! i = shardIds rs ! i" by simp
  qed simp
  then show ?thesis
    using v01 u by (cases rs) (simp add: fromIndicesList_def l v2 Let_def)
qed

lemma set_bits_spec:
  assumes "set_bits ids vec = Done vec'"
  shows "length vec' = length vec \<and>
    (\<forall>k < length vec. \<forall>j < 8. bit (vec' ! k) j \<longleftrightarrow> bit (vec ! k) j \<or> (\<exists>i \<in> set ids. unat i = 8 * k + j))"
  using assms
proof (induction ids arbitrary: vec)
  case (Cons i ids)
  let ?k = "unat i div 8"
  let ?v = "vec[?k := set_bit (unat i mod 8) (vec ! ?k)]"
  from Cons.prems have k: "?k < length vec" and r: "set_bits ids ?v = Done vec'"
    by (auto simp: Let_def split: if_splits)
  have split: "unat i = 8 * m + j \<longleftrightarrow> unat i div 8 = m \<and> unat i mod 8 = j" if "j < 8" for m j
    using that by auto
  have b: "bit (?v ! m) j \<longleftrightarrow> bit (vec ! m) j \<or> unat i = 8 * m + j" if "m < length vec" "j < 8" for m j
  proof (cases "m = ?k")
    case True
    with that k show ?thesis by (auto simp: bit_set_bit_iff split)
  next
    case False
    with that show ?thesis by (auto simp: split)
  qed
  from Cons.IH [OF r] b show ?case by auto
qed simp

lemma set_bits_done:
  "(\<forall>i \<in> set ids. unat i div 8 < length vec) \<Longrightarrow> \<exists>vec'. set_bits ids vec = Done vec'"
  by (induction ids arbitrary: vec) (auto simp: Let_def)

lemma valid_shard: "i \<le> MaxShardIndex \<longleftrightarrow> unat i div 8 < 128"
  by (simp add: MaxShardIndex_def word_le_nat_alt) linarith

lemma bit_vector_roundtrip:
  assumes "\<forall>i \<in> set (shardIds rs). i \<le> MaxShardIndex"
  shows "\<exists>v rs'. toBitVector rs = Done v \<and> fromBitVector v = Inr rs'
    \<and> rs_clusterId rs' = rs_clusterId rs \<and> set (shardIds rs') = set (shardIds rs)"
proof -
  obtain vec where vec: "set_bits (shardIds rs) (replicate 128 0) = Done vec"
    using set_bits_done [of "shardIds rs" "replicate 128 0"] assms valid_shard by auto
  note spec = set_bits_spec [OF vec]
  have l: "length vec = 128" using spec by simp
  have bits: "bit (vec ! k) j \<longleftrightarrow> (\<exists>i \<in> set (shardIds rs). unat i = 8 * k + j)" if "k < 128" "j < 8" for k j
    using spec that by simp
  let ?v = "be16 (rs_clusterId rs) @ vec"
  let ?ids = "concat (map (\<lambda>i. concat (map (\<lambda>j.
      if bit (?v ! (2 + i)) j then [of_nat (j + 8 * i)] else []) [0..<8])) [0..<128]) :: u16 list"
  have v: "?v ! (2 + i) = vec ! i" for i by (simp add: be16_def)
  have "set ?ids = (\<Union>k < 128. \<Union>j < 8. if bit (vec ! k) j then {of_nat (j + 8 * k)} else {})"
    unfolding v by (auto simp: atLeast0LessThan split: if_splits)
  also have "\<dots> = set (shardIds rs)"
  proof (intro equalityI subsetI)
    fix x :: u16 assume "x \<in> (\<Union>k < 128. \<Union>j < 8. if bit (vec ! k) j then {of_nat (j + 8 * k)} else {})"
    then obtain k j where kj: "k < 128" "j < 8" "bit (vec ! k) j" "x = of_nat (j + 8 * k)"
      by (auto split: if_splits)
    with bits obtain i where "i \<in> set (shardIds rs)" "unat i = 8 * k + j" by blast
    with kj(4) show "x \<in> set (shardIds rs)" by (metis add.commute word_nat_rep)
  next
    fix x :: u16 assume x: "x \<in> set (shardIds rs)"
    then have k: "unat x div 8 < 128" using assms valid_shard by blast
    have "bit (vec ! (unat x div 8)) (unat x mod 8)" using bits [OF k, of "unat x mod 8"] x by auto
    moreover have "x = of_nat (unat x mod 8 + 8 * (unat x div 8))"
      by (metis mod_mult_div_eq word_nat_rep)
    ultimately show "x \<in> (\<Union>k < 128. \<Union>j < 8. if bit (vec ! k) j then {of_nat (j + 8 * k)} else {})"
      using k by (intro UN_I [of "unat x div 8"] UN_I [of "unat x mod 8"]) auto
  qed
  finally have ids: "set ?ids = set (shardIds rs)" .
  have "toBitVector rs = Done ?v" by (simp add: toBitVector_def vec)
  moreover have "fromBitVector ?v = Inr \<lparr>rs_clusterId = rs_clusterId rs, shardIds = ?ids\<rparr>"
    by (simp add: fromBitVector_def l be16_def)
  ultimately show ?thesis using ids by (intro exI [of _ ?v] exI) auto
qed

text \<open>What a node announces is what a peer reads: for shards below 1024, whichever of the two
  encodings \<^verbatim>\<open>withWakuRelaySharding\<close> picks, building succeeds and \<^verbatim>\<open>relaySharding\<close> of a record
  that had no sharding field gives the same cluster and the same set of shards, in the
  same order when the index list is used; so \<^verbatim>\<open>containsShard\<close> answers for exactly those.\<close>

lemma sharding_announced:
  assumes "\<forall>i \<in> set (shardIds rs). i \<le> MaxShardIndex"
    and "r ShardingIndicesListEnrField = None" and "r ShardingBitVectorEnrField = None"
  shows "\<exists>r' rs'. withWakuRelaySharding rs r = Done (Inr r') \<and> relaySharding r' = Some rs'
    \<and> rs_clusterId rs' = rs_clusterId rs \<and> set (shardIds rs') = set (shardIds rs)
    \<and> (length (shardIds rs) < 64 \<longrightarrow> rs' = rs)
    \<and> (\<forall>c i. containsShard r' c i \<longleftrightarrow> c = rs_clusterId rs \<and> i \<in> set (shardIds rs))"
proof (cases "length (shardIds rs) < 64")
  case True
  then obtain v where v: "toIndicesList rs = Inr v" by (simp add: toIndicesList_def)
  have rd: "relaySharding (r(ShardingIndicesListEnrField \<mapsto> v)) = Some rs"
    using indices_roundtrip [OF v] by (simp add: relaySharding_def relayShardingIndicesList_def)
  have "withWakuRelaySharding rs r = Done (Inr (r(ShardingIndicesListEnrField \<mapsto> v)))"
    using True v by (simp add: withWakuRelaySharding_def withWakuRelayShardingIndicesList_def
        ShardingIndicesListMaxLength_def)
  moreover have "containsShard (r(ShardingIndicesListEnrField \<mapsto> v)) c i
      \<longleftrightarrow> c = rs_clusterId rs \<and> i \<in> set (shardIds rs)" for c i
    using rd assms(1) by (auto simp: containsShard_def not_less)
  ultimately show ?thesis using rd by blast
next
  case False
  obtain v rs' where v: "toBitVector rs = Done v" "fromBitVector v = Inr rs'"
    "rs_clusterId rs' = rs_clusterId rs" "set (shardIds rs') = set (shardIds rs)"
    using bit_vector_roundtrip [OF assms(1)] by blast
  have rd: "relaySharding (r(ShardingBitVectorEnrField \<mapsto> v)) = Some rs'"
    using assms(2) v(2) by (simp add: relaySharding_def relayShardingIndicesList_def relayShardingBitVector_def
        ShardingBitVectorEnrField_def ShardingIndicesListEnrField_def)
  have "withWakuRelaySharding rs r = Done (Inr (r(ShardingBitVectorEnrField \<mapsto> v)))"
    using False v by (simp add: withWakuRelaySharding_def withWakuRelayShardingBitVector_def
        ShardingIndicesListMaxLength_def)
  moreover have "containsShard (r(ShardingBitVectorEnrField \<mapsto> v)) c i
      \<longleftrightarrow> c = rs_clusterId rs \<and> i \<in> set (shardIds rs)" for c i
    using rd assms(1) v by (auto simp: containsShard_def not_less)
  ultimately show ?thesis using rd v False by blast
qed

text \<open>From the texts of topics to the shards and back.\<close>

lemma set_deduplicate [simp]: "set (deduplicate xs) = set xs"
  by (simp add: deduplicate_def)

lemma static_texts:
  "\<forall>t \<in> set topics. \<exists>i. t = show_pubsub_topic (StaticSharding c i) \<and> i \<le> MaxShardIndex \<Longrightarrow>
   \<exists>ids. topics = map (\<lambda>i. show_pubsub_topic (StaticSharding c i)) ids \<and> (\<forall>i \<in> set ids. i \<le> MaxShardIndex)"
proof (induction topics)
  case (Cons t ts)
  then obtain i ids where "t = show_pubsub_topic (StaticSharding c i)" "i \<le> MaxShardIndex"
    "ts = map (\<lambda>i. show_pubsub_topic (StaticSharding c i)) ids" "\<forall>i \<in> set ids. i \<le> MaxShardIndex" by auto
  then show ?case by (intro exI [of _ "i # ids"]) simp
qed simp

lemma show_static_inj:
  assumes "base10_ok dec"
  shows "show_pubsub_topic (StaticSharding c i) = show_pubsub_topic (StaticSharding d j) \<longleftrightarrow> c = d \<and> i = j"
proof
  assume "show_pubsub_topic (StaticSharding c i) = show_pubsub_topic (StaticSharding d j)"
  then have "Done (Inr (StaticSharding c i) :: ParsingError + NsPubsubTopic) = Done (Inr (StaticSharding d j))"
    using parse_static [OF assms, of c i] parse_static [OF assms, of d j] by metis
  then show "c = d \<and> i = j" by simp
qed simp

lemma parse_statics:
  assumes "base10_ok dec"
  shows "parse_topics dec (map (\<lambda>i. show_pubsub_topic (StaticSharding c i)) ids) = Done (map (\<lambda>i. Inr (StaticSharding c i)) ids)"
  by (induction ids) (simp_all add: parse_static [OF assms])

lemma first_error_none: "first_error (map (\<lambda>i. Inr (f i)) ids) = Inr (map f ids)"
  by (induction ids) simp_all

lemma topics_to_shards:
  assumes "base10_ok dec" and "ids \<noteq> []" and "\<forall>i \<in> set ids. i \<le> MaxShardIndex"
  shows "topicsToRelayShards dec (map (\<lambda>i. show_pubsub_topic (StaticSharding c i)) ids) =
    Done (Inr (Some \<lparr>rs_clusterId = c, shardIds = deduplicate ids\<rparr>))"
proof -
  obtain i ids' where "ids = i # ids'" using assms(2) by (cases ids) auto
  moreover have "\<not> (\<exists>i \<in> set ids. i > MaxShardIndex)" using assms(3) by (auto simp: not_less)
  ultimately show ?thesis
    unfolding topicsToRelayShards_def parse_statics [OF assms(1)] bind_exec.simps first_error_none
    by (auto simp: init_shards_def comp_def list_ex_iff list_all_iff)
qed

text \<open>A node that announces its topics is found under exactly those. For texts of static topics of
  one cluster, with shards below 1024, however many and with repetitions, building the record
  succeeds, and a peer that asks the record for any text that denotes a static topic (also one written
  with leading zeros) is told yes if and only if the topic is among those announced; a text
  of a named topic is never in the record, and a text that is no topic is not either.\<close>

theorem topics_announced:
  assumes "base10_ok dec" and "topics \<noteq> []"
    and "\<forall>t \<in> set topics. \<exists>i. t = show_pubsub_topic (StaticSharding c i) \<and> i \<le> MaxShardIndex"
    and "r ShardingIndicesListEnrField = None" and "r ShardingBitVectorEnrField = None"
  shows "\<exists>r'. withShardedTopics dec topics r = Done (Inr r')
    \<and> (\<forall>t p. parse_pubsub_topic dec t = Done p \<longrightarrow> containsShard_text dec r' t =
        Done (case p of Inr (StaticSharding d j) \<Rightarrow> show_pubsub_topic (StaticSharding d j) \<in> set topics | _ \<Rightarrow> False))"
proof -
  obtain ids where ids: "topics = map (\<lambda>i. show_pubsub_topic (StaticSharding c i)) ids" "\<forall>i \<in> set ids. i \<le> MaxShardIndex"
    using static_texts [OF assms(3)] by blast
  then have "ids \<noteq> []" using assms(2) by simp
  from topics_to_shards [OF assms(1) this ids(2), of c]
  have rs: "topicsToRelayShards dec topics = Done (Inr (Some \<lparr>rs_clusterId = c, shardIds = deduplicate ids\<rparr>))" (is "_ = Done (Inr (Some ?rs))")
    by (simp add: ids(1))
  have "\<forall>i \<in> set (shardIds ?rs). i \<le> MaxShardIndex" using ids(2) by simp
  from sharding_announced [OF this assms(4,5)] obtain r' where
    r': "withWakuRelaySharding ?rs r = Done (Inr r')" "\<And>d i. containsShard r' d i \<longleftrightarrow> d = c \<and> i \<in> set ids"
    by auto
  have "show_pubsub_topic (StaticSharding d j) \<in> set topics \<longleftrightarrow> d = c \<and> j \<in> set ids" for d j
    by (auto simp: ids(1) show_static_inj [OF assms(1)])
  then show ?thesis using rs r'
    by (auto simp: withShardedTopics_def containsShard_text_def split: sum.splits NsPubsubTopic.splits)
qed

theorem topics_announced_witness:
  "\<exists>r'. withShardedTopics sample_base10 [show_pubsub_topic (StaticSharding 16 1), show_pubsub_topic (StaticSharding 16 1023)]
      Map.empty = Done (Inr r')
    \<and> containsShard_text sample_base10 r' (show_pubsub_topic (StaticSharding 16 1023)) = Done True
    \<and> containsShard_text sample_base10 r' (show_pubsub_topic (StaticSharding 16 2)) = Done False"
proof -
  let ?ts = "[show_pubsub_topic (StaticSharding 16 1), show_pubsub_topic (StaticSharding 16 1023)]"
  have small: "\<forall>t \<in> set ?ts. \<exists>i. t = show_pubsub_topic (StaticSharding 16 i) \<and> i \<le> MaxShardIndex"
    by (auto simp: MaxShardIndex_def)
  obtain r' where r': "withShardedTopics sample_base10 ?ts Map.empty = Done (Inr r')"
    "\<And>t p. parse_pubsub_topic sample_base10 t = Done p \<Longrightarrow> containsShard_text sample_base10 r' t =
      Done (case p of Inr (StaticSharding d j) \<Rightarrow> show_pubsub_topic (StaticSharding d j) \<in> set ?ts | _ \<Rightarrow> False)"
    using topics_announced [OF sample_base10_ok _ small, of Map.empty] by auto
  show ?thesis
    using r'(1) r'(2) [OF parse_static [OF sample_base10_ok, of 16 1023]] r'(2) [OF parse_static [OF sample_base10_ok, of 16 2]]
    by (auto simp: show_static_inj [OF sample_base10_ok])
qed

text \<open>An index list read from a peer may hold shards above 1023; asked to announce those again
  as a bit vector, the code indexes past its 128 bytes. That happens exactly when some
  shard is above 1023.\<close>

theorem bit_vector_defect:
  "toBitVector rs = Fault f \<longleftrightarrow> f = IndexDefect \<and> (\<exists>i \<in> set (shardIds rs). i > MaxShardIndex)"
proof -
  have "set_bits ids vec = Fault f \<longleftrightarrow> f = IndexDefect \<and> (\<exists>i \<in> set ids. i > MaxShardIndex)"
    if "length vec = 128" for ids vec
    using that by (induction ids arbitrary: vec) (auto simp: Let_def valid_shard [symmetric] not_le)
  from this [of "replicate 128 0" "shardIds rs"] show ?thesis
    by (cases "set_bits (shardIds rs) (replicate 128 0)") (auto simp: toBitVector_def)
qed

theorem bit_vector_defect_witness:
  "toBitVector \<lparr>rs_clusterId = 1, shardIds = [5, 2000]\<rparr> = Fault IndexDefect"
  by (simp add: bit_vector_defect MaxShardIndex_def)

section \<open>Capabilities\<close>

datatype Capabilities = Relay | Store | Filter | Lightpush

fun cap_bit :: "Capabilities \<Rightarrow> nat" where
  "cap_bit Relay = 0" | "cap_bit Store = 1" | "cap_bit Filter = 2" | "cap_bit Lightpush = 3"

text \<open>Nim orders the values of an enumeration.\<close>

instantiation Capabilities :: linorder
begin

definition less_eq_Capabilities :: "Capabilities \<Rightarrow> Capabilities \<Rightarrow> bool" where
  "less_eq_Capabilities c d \<longleftrightarrow> cap_bit c \<le> cap_bit d"

definition less_Capabilities :: "Capabilities \<Rightarrow> Capabilities \<Rightarrow> bool" where
  "less_Capabilities c d \<longleftrightarrow> cap_bit c < cap_bit d"

instance
proof
  fix c d :: Capabilities
  show "c \<le> d \<Longrightarrow> d \<le> c \<Longrightarrow> c = d"
    by (cases c; cases d) (simp_all add: less_eq_Capabilities_def)
qed (auto simp: less_eq_Capabilities_def less_Capabilities_def)

end

definition CapabilitiesEnrField :: string where "CapabilitiesEnrField = ''waku2''"

definition init_capabilities :: "Capabilities list \<Rightarrow> u8" where
  "init_capabilities caps = foldl (\<lambda>b c. set_bit (cap_bit c) b) 0 caps"

definition capabilities_flags :: "bool \<Rightarrow> bool \<Rightarrow> bool \<Rightarrow> bool \<Rightarrow> u8" where
  "capabilities_flags lightpush filter' store relay =
     (let b = 0;
          b = (if relay then set_bit 0 b else b);
          b = (if store then set_bit 1 b else b);
          b = (if filter' then set_bit 2 b else b)
      in if lightpush then set_bit 3 b else b)"

definition supportsCapability :: "u8 \<Rightarrow> Capabilities \<Rightarrow> bool" where
  "supportsCapability b c = bit b (cap_bit c)"

definition toCapabilities :: "u8 \<Rightarrow> Capabilities list" where
  "toCapabilities b = filter (supportsCapability b) [Relay, Store, Filter, Lightpush]"

lemma toCapabilities_sorted: "sorted (toCapabilities b)" "distinct (toCapabilities b)"
  by (simp_all add: toCapabilities_def less_eq_Capabilities_def)

definition withWakuCapabilities :: "Capabilities list \<Rightarrow> enr \<Rightarrow> enr" where
  "withWakuCapabilities caps r = r(CapabilitiesEnrField \<mapsto> [init_capabilities caps])"

definition waku2_field :: "enr \<Rightarrow> u8 option" where
  "waku2_field r = (case r CapabilitiesEnrField of Some [b] \<Rightarrow> Some b | _ \<Rightarrow> None)"

definition record_supports :: "enr \<Rightarrow> Capabilities \<Rightarrow> bool" where
  "record_supports r c = (case waku2_field r of None \<Rightarrow> False | Some b \<Rightarrow> supportsCapability b c)"

definition getCapabilities :: "enr \<Rightarrow> Capabilities list" where
  "getCapabilities r = (case waku2_field r of None \<Rightarrow> [] | Some b \<Rightarrow> toCapabilities b)"

lemma cap_bit_small: "cap_bit c < 8"
  by (cases c) simp_all

lemma cap_bit_inj: "cap_bit c = cap_bit d \<longleftrightarrow> c = d"
  by (cases c; cases d) simp_all

lemma bit_foldl:
  "bit (foldl (\<lambda>b c. set_bit (cap_bit c) b) b0 caps) (cap_bit d) \<longleftrightarrow> bit b0 (cap_bit d) \<or> d \<in> set caps" for b0 :: u8
proof (induction caps arbitrary: b0)
  case (Cons c caps)
  show ?case
    using cap_bit_small [of d] Cons by (auto simp: bit_set_bit_iff cap_bit_inj)
qed simp

lemma supports_init: "supportsCapability (init_capabilities caps) = (\<lambda>c. c \<in> set caps)"
  by (simp add: fun_eq_iff supportsCapability_def init_capabilities_def bit_foldl)

text \<open>A record built with a list of capabilities supports exactly the capabilities of the list,
  and reading them back lists each once, in the order of the enumeration.\<close>

theorem capabilities_announced:
  "record_supports (withWakuCapabilities caps r) c = (c \<in> set caps)
   \<and> getCapabilities (withWakuCapabilities caps r)
       = filter (\<lambda>c. c \<in> set caps) [Relay, Store, Filter, Lightpush]"
  by (simp add: record_supports_def getCapabilities_def withWakuCapabilities_def waku2_field_def
      toCapabilities_def supports_init del: filter.simps)

end
