(* ===== verification/FilterSubs.thy ===== *)
theory FilterSubs
  imports WakuMessage
begin

text \<open>
  The subscriptions of the filter service, \<^verbatim>\<open>waku/waku_filter_v2/subscriptions.nim\<close>. The two
  tables are finite maps, a hash set of criteria is the list of its elements in the order
  it is iterated, \<^verbatim>\<open>Moment.now()\<close> is an argument of each operation that reads the clock (one
  reading per peer where the code reads it in a loop), and the unsigned counters are
  64-bit words, so that a decrement below zero would wrap.
\<close>

section \<open>State and operations\<close>

type_synonym PeerId = string
type_synonym Moment = int
type_synonym FilterCriterion = "PubsubTopic \<times> ContentTopic"

record PeerData =
  lastSeen :: Moment
  criteriaCount :: u64

record FilterSubscriptions =
  peersSubscribed :: "PeerId \<rightharpoonup> PeerData"
  subscriptions :: "FilterCriterion \<rightharpoonup> PeerId set"
  subscriptionTimeout :: int
  maxPeers :: u64
  maxCriteriaPerPeer :: u64

definition init_subs :: "int \<Rightarrow> u32 \<Rightarrow> u32 \<Rightarrow> FilterSubscriptions" where
  "init_subs timeout maxFilterPeers maxFilterCriteriaPerPeer =
     \<lparr>peersSubscribed = Map.empty, subscriptions = Map.empty, subscriptionTimeout = timeout,
      maxPeers = ucast maxFilterPeers, maxCriteriaPerPeer = ucast maxFilterCriteriaPerPeer\<rparr>"

definition isSubscribed :: "Moment \<Rightarrow> FilterSubscriptions \<Rightarrow> PeerId \<Rightarrow> bool" where
  "isSubscribed now s p =
     (case peersSubscribed s p of None \<Rightarrow> False | Some d \<Rightarrow> now - lastSeen d \<le> subscriptionTimeout s)"

definition subscribedPeerCount :: "FilterSubscriptions \<Rightarrow> nat" where
  "subscribedPeerCount s = card (dom (peersSubscribed s))"

text \<open>The peers under a criterion; a missing entry is an empty set.\<close>

definition peers_of :: "FilterSubscriptions \<Rightarrow> FilterCriterion \<Rightarrow> PeerId set" where
  "peers_of s c = (case subscriptions s c of None \<Rightarrow> {} | Some ps \<Rightarrow> ps)"

definition getPeerSubscriptions :: "FilterSubscriptions \<Rightarrow> PeerId \<Rightarrow> FilterCriterion set" where
  "getPeerSubscriptions s p =
     (case peersSubscribed s p of None \<Rightarrow> {}
      | Some d \<Rightarrow> if criteriaCount d = 0 then {} else {c \<in> dom (subscriptions s). p \<in> peers_of s c})"

definition findSubscribedPeers ::
  "(PeerId \<Rightarrow> Moment) \<Rightarrow> FilterSubscriptions \<Rightarrow> PubsubTopic \<Rightarrow> ContentTopic \<Rightarrow> PeerId set" where
  "findSubscribedPeers clk s pubsub topic =
     {p \<in> peers_of s (pubsub, topic). isSubscribed (clk p) s p}"

definition removePeer :: "PeerId \<Rightarrow> FilterSubscriptions \<Rightarrow> FilterSubscriptions" where
  "removePeer p s = s\<lparr>peersSubscribed := (peersSubscribed s)(p := None)\<rparr>"

definition removePeers :: "PeerId set \<Rightarrow> FilterSubscriptions \<Rightarrow> FilterSubscriptions" where
  "removePeers ps s = s\<lparr>peersSubscribed := (\<lambda>p. if p \<in> ps then None else peersSubscribed s p)\<rparr>"

text \<open>\<^verbatim>\<open>cleanUp\<close> reads the clock once for the peers and again for each peer of each criterion.\<close>

definition expire :: "Moment \<Rightarrow> FilterSubscriptions \<Rightarrow> FilterSubscriptions" where
  "expire now s = s\<lparr>peersSubscribed := (\<lambda>p. case peersSubscribed s p of None \<Rightarrow> None
     | Some d \<Rightarrow> if now - lastSeen d \<le> subscriptionTimeout s then Some d else None)\<rparr>"

definition cleanUp :: "Moment \<Rightarrow> (FilterCriterion \<Rightarrow> PeerId \<Rightarrow> Moment) \<Rightarrow> FilterSubscriptions \<Rightarrow> FilterSubscriptions" where
  "cleanUp now clk s =
     (let s1 = expire now s
      in s1\<lparr>subscriptions := (\<lambda>c. case subscriptions s1 c of None \<Rightarrow> None
            | Some ps \<Rightarrow> (let qs = {p \<in> ps. isSubscribed (clk c p) s1 p}
                         in if qs = {} then None else Some qs))\<rparr>)"

definition refreshSubscription :: "Moment \<Rightarrow> PeerId \<Rightarrow> FilterSubscriptions \<Rightarrow> FilterSubscriptions" where
  "refreshSubscription now p s =
     (case peersSubscribed s p of None \<Rightarrow> s
      | Some d \<Rightarrow> s\<lparr>peersSubscribed := (peersSubscribed s)(p \<mapsto> d\<lparr>lastSeen := now\<rparr>)\<rparr>)"

text \<open>The loop of \<^verbatim>\<open>addSubscription\<close> works on the entry of the peer through a pointer.\<close>

fun add_loop :: "PeerId \<Rightarrow> FilterCriterion list \<Rightarrow> FilterSubscriptions \<Rightarrow> FilterSubscriptions" where
  "add_loop p [] s = s"
| "add_loop p (c # cs) s =
     (let s1 = (if p \<in> peers_of s c then s\<lparr>subscriptions := (subscriptions s)(c \<mapsto> peers_of s c)\<rparr>
          else s\<lparr>subscriptions := (subscriptions s)(c \<mapsto> insert p (peers_of s c)),
                 peersSubscribed := (peersSubscribed s)(p :=
                   map_option (\<lambda>d. d\<lparr>criteriaCount := criteriaCount d + 1\<rparr>) (peersSubscribed s p))\<rparr>)
      in add_loop p cs s1)"

definition addSubscription ::
  "Moment \<Rightarrow> PeerId \<Rightarrow> FilterCriterion list \<Rightarrow> FilterSubscriptions \<Rightarrow> (string + unit) \<times> FilterSubscriptions" where
  "addSubscription now p filterCriteria s =
     (case peersSubscribed s p of
        Some d \<Rightarrow>
          (if criteriaCount d + of_nat (length filterCriteria) > maxCriteriaPerPeer s
           then (Inl ''peer has reached maximum number of filter criteria'', s)
           else (Inr (), add_loop p filterCriteria
             (s\<lparr>peersSubscribed := (peersSubscribed s)(p \<mapsto> d\<lparr>lastSeen := now\<rparr>)\<rparr>)))
      | None \<Rightarrow>
          (if of_nat (subscribedPeerCount s) \<ge> maxPeers s
           then (Inl ''node has reached maximum number of subscriptions'', s)
           else (Inr (), add_loop p filterCriteria
             (s\<lparr>peersSubscribed := (peersSubscribed s)(p \<mapsto> \<lparr>lastSeen = now, criteriaCount = 0\<rparr>)\<rparr>))))"

text \<open>
  The loop of \<^verbatim>\<open>removeSubscription\<close>. When the counter reaches zero the entry of the peer is
  deleted while the pointer to it lives on: a further decrement would go through it.
\<close>

fun remove_loop ::
  "PeerId \<Rightarrow> FilterCriterion list \<Rightarrow> FilterSubscriptions \<Rightarrow> ((string + unit) \<times> FilterSubscriptions) exec" where
  "remove_loop p [] s = Done (Inr (), s)"
| "remove_loop p (c # cs) s =
     (case subscriptions s c of
        None \<Rightarrow> Done (Inl ''Peer was not subscribed to criterion'', s)
      | Some ps \<Rightarrow>
          if p \<in> ps then
            (case peersSubscribed s p of
               None \<Rightarrow> Fault WildPointer
             | Some d \<Rightarrow>
                 (let d = d\<lparr>criteriaCount := criteriaCount d - 1\<rparr>;
                      subs = (subscriptions s)(c := (if ps - {p} = {} then None else Some (ps - {p})));
                      peers = (peersSubscribed s)(p := (if criteriaCount d = 0 then None else Some d))
                  in remove_loop p cs (s\<lparr>subscriptions := subs, peersSubscribed := peers\<rparr>)))
          else remove_loop p cs s)"

definition removeSubscription ::
  "Moment \<Rightarrow> PeerId \<Rightarrow> FilterCriterion list \<Rightarrow> FilterSubscriptions \<Rightarrow> ((string + unit) \<times> FilterSubscriptions) exec" where
  "removeSubscription now p filterCriteria s =
     (case peersSubscribed s p of
        None \<Rightarrow> Done (Inl ''Peer has no subscriptions'', s)
      | Some d \<Rightarrow> remove_loop p filterCriteria
          (s\<lparr>peersSubscribed := (peersSubscribed s)(p \<mapsto> d\<lparr>lastSeen := now\<rparr>)\<rparr>))"

section \<open>Invariant\<close>

declare split_paired_All [simp del] split_paired_Ex [simp del]

text \<open>The criteria a peer is listed under.\<close>

definition criteria_of :: "FilterSubscriptions \<Rightarrow> PeerId \<Rightarrow> FilterCriterion set" where
  "criteria_of s p = {c. p \<in> peers_of s c}"

text \<open>
  The counter of a peer bounds the criteria it is listed under and stays within the limit,
  there are no more peers than the limit, only known peers are listed, no criterion is kept
  without peers. A first subscription is not checked against the limit of criteria, so
  the bound is that limit or the size of one request, whichever is larger.
\<close>

definition max_request :: nat where "max_request = 100"

definition limit :: "FilterSubscriptions \<Rightarrow> nat" where
  "limit s = max (unat (maxCriteriaPerPeer s)) max_request"

definition subs_frame :: "FilterSubscriptions \<Rightarrow> bool" where
  "subs_frame s \<longleftrightarrow>
     finite (dom (peersSubscribed s)) \<and> card (dom (peersSubscribed s)) \<le> unat (maxPeers s)
     \<and> (\<forall>p d. peersSubscribed s p = Some d \<longrightarrow>
          card (criteria_of s p) \<le> unat (criteriaCount d) \<and> unat (criteriaCount d) \<le> limit s)
     \<and> (\<forall>p. finite (criteria_of s p)) \<and> (\<forall>c. subscriptions s c \<noteq> Some {})
     \<and> maxPeers s < 2 ^ 32 \<and> maxCriteriaPerPeer s < 2 ^ 32"

definition subs_inv :: "FilterSubscriptions \<Rightarrow> bool" where
  "subs_inv s \<longleftrightarrow> subs_frame s \<and> (\<forall>p. peersSubscribed s p = None \<longrightarrow> criteria_of s p = {})"

lemma subs_inv_init: "subs_inv (init_subs timeout mp mc)"
proof -
  have "(ucast w :: u64) < 2 ^ 32" for w :: u32
    using unat_bound32 [of w] by (simp add: word_less_nat_alt unsigned_ucast_eq take_bit_nat_eq_self)
  then show ?thesis
    by (simp add: subs_inv_def subs_frame_def init_subs_def criteria_of_def peers_of_def)
qed

section \<open>The loops\<close>

definition add_step :: "PeerId \<Rightarrow> FilterCriterion \<Rightarrow> FilterSubscriptions \<Rightarrow> FilterSubscriptions" where
  "add_step p c s =
     (if p \<in> peers_of s c then s\<lparr>subscriptions := (subscriptions s)(c \<mapsto> peers_of s c)\<rparr>
      else s\<lparr>subscriptions := (subscriptions s)(c \<mapsto> insert p (peers_of s c)),
             peersSubscribed := (peersSubscribed s)(p :=
               map_option (\<lambda>d. d\<lparr>criteriaCount := criteriaCount d + 1\<rparr>) (peersSubscribed s p))\<rparr>)"

lemma add_loop_Cons: "add_loop p (c # cs) s = add_loop p cs (add_step p c s)"
  by (simp add: add_step_def Let_def)

lemma peers_of_add_step: "peers_of (add_step p c s) x = (if x = c then insert p (peers_of s c) else peers_of s x)"
  by (auto simp: add_step_def peers_of_def)

lemma criteria_of_add_step: "criteria_of (add_step p c s) p = insert c (criteria_of s p)"
  by (auto simp: criteria_of_def peers_of_add_step)

lemma add_step_peers:
  "peersSubscribed s p = Some d \<Longrightarrow> peersSubscribed (add_step p c s) = (peersSubscribed s)(p \<mapsto>
     d\<lparr>criteriaCount := criteriaCount d + (if c \<in> criteria_of s p then 0 else 1)\<rparr>)"
  by (auto simp: add_step_def criteria_of_def fun_eq_iff)

lemma add_step_frame:
  "maxPeers (add_step p c s) = maxPeers s" "maxCriteriaPerPeer (add_step p c s) = maxCriteriaPerPeer s"
  "subscriptionTimeout (add_step p c s) = subscriptionTimeout s"
  "\<forall>x. subscriptions s x \<noteq> Some {} \<Longrightarrow> \<forall>x. subscriptions (add_step p c s) x \<noteq> Some {}"
  by (auto simp: add_step_def peers_of_def)

lemma add_loop_frame:
  "maxPeers (add_loop p cs s) = maxPeers s" "maxCriteriaPerPeer (add_loop p cs s) = maxCriteriaPerPeer s"
  "subscriptionTimeout (add_loop p cs s) = subscriptionTimeout s"
  "\<forall>x. subscriptions s x \<noteq> Some {} \<Longrightarrow> \<forall>x. subscriptions (add_loop p cs s) x \<noteq> Some {}"
  by (induction cs arbitrary: s) (simp_all del: add_loop.simps(2) add: add_loop_Cons add_step_frame)

lemma peers_of_add_loop:
  "peers_of (add_loop p cs s) c = (if c \<in> set cs then insert p (peers_of s c) else peers_of s c)"
  by (induction cs arbitrary: s) (auto simp del: add_loop.simps(2) simp add: add_loop_Cons peers_of_add_step)

lemma add_loop_peers:
  assumes "peersSubscribed s p = Some d"
  shows "peersSubscribed (add_loop p cs s) = (peersSubscribed s)(p \<mapsto>
      d\<lparr>criteriaCount := criteriaCount d + of_nat (card (set cs - criteria_of s p))\<rparr>)"
  using assms
proof (induction cs arbitrary: s d)
  case (Cons x cs)
  have "card (set (x # cs) - criteria_of s p)
      = card (set cs - insert x (criteria_of s p)) + (if x \<in> criteria_of s p then 0 else 1)"
  proof (cases "x \<in> criteria_of s p")
    case False
    then have "set (x # cs) - criteria_of s p = insert x (set cs - insert x (criteria_of s p))" by auto
    with False show ?thesis by simp
  qed (simp add: insert_absorb)
  note card = this
  let ?d1 = "d\<lparr>criteriaCount := criteriaCount d + (if x \<in> criteria_of s p then 0 else 1)\<rparr>"
  have 1: "peersSubscribed (add_step p x s) p = Some ?d1"
    by (simp add: add_step_peers [OF Cons.prems])
  show ?case
    unfolding add_loop_Cons Cons.IH [OF 1] criteria_of_add_step add_step_peers [OF Cons.prems] card
    by (simp add: fun_eq_iff)
qed auto

section \<open>The operations keep the invariant\<close>

lemma unat_add_small: "unat a + n < 2 ^ 64 \<Longrightarrow> unat (a + of_nat n :: u64) = unat a + n"
  by (simp add: unat_word_ariths unat_of_nat)

lemma unat_le_small: "w < 2 ^ 32 \<Longrightarrow> unat w < 2 ^ 32" for w :: u64
  by (simp add: word_less_nat_alt)

lemma limit_bound: "subs_frame s \<Longrightarrow> limit s < 2 ^ 32"
  using unat_le_small by (auto simp: subs_frame_def limit_def max_request_def)

lemma criteria_of_add_loop:
  "criteria_of (add_loop p cs s) q = (if q = p then criteria_of s p \<union> set cs else criteria_of s q)"
  by (auto simp: criteria_of_def peers_of_add_loop)

lemma add_loop_inv:
  assumes fr: "subs_frame s" and inv: "\<forall>q. peersSubscribed s q = None \<longrightarrow> criteria_of s q = {}"
    and p: "peersSubscribed s p = Some d" and n: "unat (criteriaCount d) + length cs \<le> limit s"
  shows "subs_inv (add_loop p cs s)"
proof -
  let ?k = "card (set cs - criteria_of s p)" and ?t = "add_loop p cs s"
  have k: "?k \<le> length cs" by (meson card_length card_mono Diff_subset finite_set le_trans)
  have small: "unat (criteriaCount d) + ?k < 2 ^ 64"
    using k n limit_bound [OF fr] by simp
  have cnt: "unat (criteriaCount d + of_nat ?k) = unat (criteriaCount d) + ?k" by (rule unat_add_small [OF small])
  have fin: "finite (criteria_of s q)" for q using fr by (simp add: subs_frame_def)
  have "card (criteria_of s p \<union> set cs) = card (criteria_of s p) + ?k"
    using fin by (metis Un_Diff_cancel Diff_disjoint card_Un_disjoint finite_Diff finite_set)
  moreover have "card (criteria_of s p) \<le> unat (criteriaCount d)" using fr p by (simp add: subs_frame_def)
  ultimately have "card (criteria_of ?t p) \<le> unat (criteriaCount d + of_nat ?k)"
    by (simp add: criteria_of_add_loop cnt)
  moreover have "unat (criteriaCount d + of_nat ?k) \<le> limit s" using cnt k n by simp
  moreover have "dom (peersSubscribed ?t) = dom (peersSubscribed s)"
    using p by (auto simp: add_loop_peers [OF p])
  moreover have "limit ?t = limit s" by (simp add: limit_def add_loop_frame)
  ultimately have "subs_frame ?t"
    using fr fin by (auto simp: subs_frame_def add_loop_frame add_loop_peers [OF p] criteria_of_add_loop
        split: if_splits)
  moreover have "\<forall>q. peersSubscribed ?t q = None \<longrightarrow> criteria_of ?t q = {}"
    using inv p by (auto simp: add_loop_peers [OF p] criteria_of_add_loop split: if_splits)
  ultimately show ?thesis by (simp add: subs_inv_def)
qed

lemma criteria_of_upd [simp]: "criteria_of (s\<lparr>peersSubscribed := m\<rparr>) p = criteria_of s p"
  "peers_of (s\<lparr>peersSubscribed := m\<rparr>) c = peers_of s c"
  by (simp_all add: criteria_of_def peers_of_def)

lemma limit_upd [simp]: "limit (s\<lparr>peersSubscribed := m\<rparr>) = limit s" "limit (s\<lparr>subscriptions := n\<rparr>) = limit s"
  by (simp_all add: limit_def)

lemma touch_inv:
  assumes "subs_inv s" and "peersSubscribed s p = Some d"
  shows "subs_inv (s\<lparr>peersSubscribed := (peersSubscribed s)(p \<mapsto> d\<lparr>lastSeen := now\<rparr>)\<rparr>)"
proof -
  have "insert p (dom (peersSubscribed s)) = dom (peersSubscribed s)" using assms(2) by auto
  then show ?thesis using assms by (auto simp: subs_inv_def subs_frame_def)
qed

lemma addSubscription_inv:
  assumes inv: "subs_inv s" and a: "addSubscription now p cs s = (res, s')" and len: "length cs \<le> max_request"
  shows "subs_inv s'"
proof (cases "peersSubscribed s p")
  case (Some d)
  let ?s1 = "s\<lparr>peersSubscribed := (peersSubscribed s)(p \<mapsto> d\<lparr>lastSeen := now\<rparr>)\<rparr>"
  show ?thesis
  proof (cases "criteriaCount d + of_nat (length cs) > maxCriteriaPerPeer s")
    case True
    with a Some inv show ?thesis by (simp add: addSubscription_def)
  next
    case False
    have cb: "unat (criteriaCount d) \<le> limit s" "limit s < 2 ^ 32"
      using inv Some limit_bound [of s] by (auto simp: subs_inv_def subs_frame_def)
    have "unat (criteriaCount d) + length cs < 2 ^ 64" using cb len by (simp add: max_request_def)
    with False have "unat (criteriaCount d) + length cs \<le> unat (maxCriteriaPerPeer s)"
      using unat_add_small [of "criteriaCount d" "length cs"] by (simp add: word_le_nat_alt not_less)
    then have n: "unat (criteriaCount (d\<lparr>lastSeen := now\<rparr>)) + length cs \<le> limit ?s1" by (simp add: limit_def)
    have i: "subs_inv ?s1" by (rule touch_inv [OF inv Some])
    have "subs_inv (add_loop p cs ?s1)"
      by (rule add_loop_inv [OF _ _ _ n]) (use i in \<open>simp_all add: subs_inv_def\<close>)
    with a Some False show ?thesis by (simp add: addSubscription_def)
  qed
next
  case None
  let ?s1 = "s\<lparr>peersSubscribed := (peersSubscribed s)(p \<mapsto> \<lparr>lastSeen = now, criteriaCount = 0\<rparr>)\<rparr>"
  show ?thesis
  proof (cases "of_nat (subscribedPeerCount s) \<ge> maxPeers s")
    case True
    with a None inv show ?thesis by (simp add: addSubscription_def)
  next
    case False
    have m: "subscribedPeerCount s \<le> unat (maxPeers s)" "unat (maxPeers s) < 2 ^ 32"
      using inv unat_le_small by (auto simp: subs_inv_def subs_frame_def subscribedPeerCount_def)
    then have "unat (of_nat (subscribedPeerCount s) :: u64) = subscribedPeerCount s" by (simp add: unat_of_nat)
    with False have lt: "subscribedPeerCount s < unat (maxPeers s)" by (simp add: word_le_nat_alt)
    have none: "criteria_of s p = {}" using inv None by (simp add: subs_inv_def)
    have pn: "p \<notin> dom (peersSubscribed s)" using None by auto
    have fr: "subs_frame ?s1"
      using inv lt none pn by (auto simp: subs_inv_def subs_frame_def subscribedPeerCount_def)
    have n: "unat (criteriaCount \<lparr>lastSeen = now, criteriaCount = 0\<rparr>) + length cs \<le> limit ?s1"
      using len by (simp add: limit_def)
    have "subs_inv (add_loop p cs ?s1)"
      by (rule add_loop_inv [OF fr _ _ n]) (use inv in \<open>auto simp: subs_inv_def\<close>)
    with a None False show ?thesis by (simp add: addSubscription_def)
  qed
qed

text \<open>One round of the removal, for a criterion the peer is listed under.\<close>

definition remove_step :: "PeerId \<Rightarrow> FilterCriterion \<Rightarrow> PeerData \<Rightarrow> FilterSubscriptions \<Rightarrow> FilterSubscriptions" where
  "remove_step p c d s =
     (let d = d\<lparr>criteriaCount := criteriaCount d - 1\<rparr>;
          subs = (subscriptions s)(c := (if peers_of s c - {p} = {} then None else Some (peers_of s c - {p})));
          peers = (peersSubscribed s)(p := (if criteriaCount d = 0 then None else Some d))
      in s\<lparr>subscriptions := subs, peersSubscribed := peers\<rparr>)"

lemma peers_of_remove_step: "peers_of (remove_step p c d s) x = (if x = c then peers_of s c - {p} else peers_of s x)"
  by (auto simp: remove_step_def peers_of_def Let_def)

lemma criteria_of_remove_step:
  "criteria_of (remove_step p c d s) q = (if q = p then criteria_of s p - {c} else criteria_of s q)"
  by (auto simp: criteria_of_def peers_of_remove_step)

lemma remove_step_frame [simp]:
  "maxPeers (remove_step p c d s) = maxPeers s" "maxCriteriaPerPeer (remove_step p c d s) = maxCriteriaPerPeer s"
  "limit (remove_step p c d s) = limit s" "subscriptionTimeout (remove_step p c d s) = subscriptionTimeout s"
  "peersSubscribed (remove_step p c d s) = (peersSubscribed s)(p :=
     if criteriaCount d - 1 = 0 then None else Some (d\<lparr>criteriaCount := criteriaCount d - 1\<rparr>))"
  by (simp_all add: remove_step_def limit_def Let_def)

lemma remove_step_nonempty:
  "\<forall>x. subscriptions s x \<noteq> Some {} \<Longrightarrow> subscriptions (remove_step p c d s) x \<noteq> Some {}"
  by (auto simp: remove_step_def Let_def)

lemma remove_step_inv:
  assumes inv: "subs_inv s" and d: "peersSubscribed s p = Some d" and c: "p \<in> peers_of s c"
  shows "subs_inv (remove_step p c d s)"
proof -
  let ?t = "remove_step p c d s" and ?n = "unat (criteriaCount d)"
  have fr: "subs_frame s" using inv by (simp add: subs_inv_def)
  have cin: "c \<in> criteria_of s p" using c by (simp add: criteria_of_def)
  have fin: "finite (criteria_of s q)" for q using fr by (simp add: subs_frame_def)
  have le: "card (criteria_of s p) \<le> ?n" "?n \<le> limit s" using fr d by (auto simp: subs_frame_def)
  have pos: "0 < card (criteria_of s p)" using cin fin by (auto simp: card_gt_0_iff)
  have dec: "unat (criteriaCount d - 1) = ?n - 1"
    using le pos by (simp add: unat_sub word_le_nat_alt)
  have card': "card (criteria_of ?t p) = card (criteria_of s p) - 1"
    using cin fin by (simp add: criteria_of_remove_step)
  have zero: "criteria_of ?t p = {}" if "criteriaCount d - 1 = 0"
  proof -
    from that have "unat (criteriaCount d - 1) = 0" by simp
    then have "card (criteria_of ?t p) = 0" using card' le(1) dec by linarith
    then show ?thesis using fin by (simp add: criteria_of_remove_step)
  qed
  have dom: "dom (peersSubscribed ?t) \<subseteq> dom (peersSubscribed s)"
    using d by (auto split: if_splits)
  have fd: "finite (dom (peersSubscribed s))" "card (dom (peersSubscribed s)) \<le> unat (maxPeers s)"
    using fr by (simp_all add: subs_frame_def)
  have "finite (dom (peersSubscribed ?t))" using finite_subset [OF dom fd(1)] .
  moreover have "card (dom (peersSubscribed ?t)) \<le> unat (maxPeers s)"
    using card_mono [OF fd(1) dom] fd(2) by (rule le_trans)
  moreover have "card (criteria_of ?t q) \<le> unat (criteriaCount e) \<and> unat (criteriaCount e) \<le> limit s"
    if "peersSubscribed ?t q = Some e" for q e
  proof (cases "q = p")
    case True
    with that have e: "criteriaCount e = criteriaCount d - 1" by (auto split: if_splits)
    show ?thesis unfolding True card' e dec using le by linarith
  next
    case False
    with that have "peersSubscribed s q = Some e" by simp
    with False fr show ?thesis by (simp add: subs_frame_def criteria_of_remove_step)
  qed
  moreover have "criteria_of ?t q = {}" if "peersSubscribed ?t q = None" for q
  proof (cases "q = p")
    case True
    with that have "criteriaCount d - 1 = 0" by (auto split: if_splits)
    with zero True show ?thesis by simp
  next
    case False
    with that inv show ?thesis by (simp add: subs_inv_def criteria_of_remove_step)
  qed
  moreover have "subscriptions ?t x \<noteq> Some {}" for x
    using fr by (intro remove_step_nonempty) (simp add: subs_frame_def)
  moreover have "finite (criteria_of ?t q)" for q using fin by (simp add: criteria_of_remove_step)
  moreover have "maxPeers s < 2 ^ 32" "maxCriteriaPerPeer s < 2 ^ 32" using fr by (simp_all add: subs_frame_def)
  ultimately show ?thesis unfolding subs_inv_def subs_frame_def remove_step_frame(1-4) by blast
qed

lemma remove_loop_Cons:
  assumes "subs_inv s"
  shows "remove_loop p (c # cs) s =
    (if subscriptions s c = None then Done (Inl ''Peer was not subscribed to criterion'', s)
     else if p \<in> peers_of s c then (case peersSubscribed s p of None \<Rightarrow> Fault WildPointer
       | Some d \<Rightarrow> remove_loop p cs (remove_step p c d s))
     else remove_loop p cs s)"
  by (auto simp: remove_step_def peers_of_def Let_def split: option.splits)

lemma listed_known: "subs_inv s \<Longrightarrow> p \<in> peers_of s c \<Longrightarrow> \<exists>d. peersSubscribed s p = Some d"
  by (cases "peersSubscribed s p") (auto simp: subs_inv_def criteria_of_def set_eq_iff)

text \<open>What the removal does: it always returns, drops the peer from criteria of the request only,
  from all of them when it succeeds, and leaves every other peer alone.\<close>

lemma remove_loop_spec:
  assumes "subs_inv s"
  shows "\<exists>res s'. remove_loop p cs s = Done (res, s') \<and> subs_inv s'
    \<and> (\<forall>q. q \<noteq> p \<longrightarrow> criteria_of s' q = criteria_of s q \<and> peersSubscribed s' q = peersSubscribed s q)
    \<and> criteria_of s p - set cs \<subseteq> criteria_of s' p \<and> criteria_of s' p \<subseteq> criteria_of s p
    \<and> (res = Inr () \<longrightarrow> criteria_of s' p = criteria_of s p - set cs)
    \<and> subscriptionTimeout s' = subscriptionTimeout s"
  using assms
proof (induction cs arbitrary: s)
  case Nil
  then show ?case by auto
next
  case (Cons c cs)
  show ?case
  proof (cases "subscriptions s c = None")
    case True
    with Cons.prems show ?thesis by (simp only: remove_loop_Cons) auto
  next
    case some: False
    show ?thesis
    proof (cases "p \<in> peers_of s c")
      case True
      then obtain d where d: "peersSubscribed s p = Some d" using listed_known Cons.prems by blast
      let ?t = "remove_step p c d s"
      have t: "peersSubscribed ?t q = peersSubscribed s q" "criteria_of ?t q = criteria_of s q" if "q \<noteq> p" for q
        using that by (simp_all add: criteria_of_remove_step)
      have tp: "criteria_of ?t p = criteria_of s p - {c}" by (simp add: criteria_of_remove_step)
      have tt: "subscriptionTimeout ?t = subscriptionTimeout s" by simp
      from Cons.IH [OF remove_step_inv [OF Cons.prems d True]] obtain res s' where
        r: "remove_loop p cs ?t = Done (res, s')" "subs_inv s'"
        "\<forall>q. q \<noteq> p \<longrightarrow> criteria_of s' q = criteria_of ?t q \<and> peersSubscribed s' q = peersSubscribed ?t q"
        "criteria_of ?t p - set cs \<subseteq> criteria_of s' p" "criteria_of s' p \<subseteq> criteria_of ?t p"
        "res = Inr () \<longrightarrow> criteria_of s' p = criteria_of ?t p - set cs"
        "subscriptionTimeout s' = subscriptionTimeout ?t" by blast
      have "remove_loop p (c # cs) s = Done (res, s')"
        using some True d r(1) by (simp only: remove_loop_Cons [OF Cons.prems]) simp
      with r(2-) t tp tt show ?thesis by (intro exI [of _ res] exI [of _ s']) auto
    next
      case False
      from Cons.IH [OF Cons.prems] obtain res s' where
        r: "remove_loop p cs s = Done (res, s')" "subs_inv s'"
        "\<forall>q. q \<noteq> p \<longrightarrow> criteria_of s' q = criteria_of s q \<and> peersSubscribed s' q = peersSubscribed s q"
        "criteria_of s p - set cs \<subseteq> criteria_of s' p" "criteria_of s' p \<subseteq> criteria_of s p"
        "res = Inr () \<longrightarrow> criteria_of s' p = criteria_of s p - set cs"
        "subscriptionTimeout s' = subscriptionTimeout s" by blast
      have "remove_loop p (c # cs) s = Done (res, s')"
        using some False r(1) by (simp only: remove_loop_Cons [OF Cons.prems]) simp
      moreover have "c \<notin> criteria_of s p" using False by (simp add: criteria_of_def)
      ultimately show ?thesis using r(2-) by (intro exI [of _ res] exI [of _ s']) auto
    qed
  qed
qed

lemma removeSubscription_spec:
  assumes "subs_inv s"
  shows "\<exists>res s'. removeSubscription now p cs s = Done (res, s') \<and> subs_inv s'
    \<and> (\<forall>q. q \<noteq> p \<longrightarrow> criteria_of s' q = criteria_of s q)
    \<and> criteria_of s' p \<subseteq> criteria_of s p
    \<and> (res = Inr () \<longrightarrow> criteria_of s' p = criteria_of s p - set cs)"
proof (cases "peersSubscribed s p")
  case None
  with assms show ?thesis by (simp add: removeSubscription_def)
next
  case (Some d)
  from remove_loop_spec [OF touch_inv [OF assms Some], of p cs now] Some show ?thesis
    by (auto simp: removeSubscription_def)
qed

section \<open>Cleaning up\<close>

lemma peers_of_cleanUp: "peers_of (cleanUp now clk s) c = {p \<in> peers_of s c. isSubscribed (clk c p) (expire now s) p}"
  by (cases "subscriptions s c") (simp_all add: peers_of_def cleanUp_def expire_def Let_def)

lemma peersSubscribed_cleanUp: "peersSubscribed (cleanUp now clk s) = peersSubscribed (expire now s)"
  by (simp add: cleanUp_def Let_def)

lemma isSubscribed_cleanUp: "isSubscribed t (cleanUp now clk s) p = isSubscribed t (expire now s) p"
  by (simp add: isSubscribed_def cleanUp_def Let_def split: option.split)

lemma criteria_of_cleanUp:
  "criteria_of (cleanUp now clk s) p = {c \<in> criteria_of s p. isSubscribed (clk c p) (cleanUp now clk s) p}"
  by (simp add: criteria_of_def peers_of_cleanUp isSubscribed_cleanUp)

lemma cleanUp_nonempty: "subscriptions (cleanUp now clk s) c \<noteq> Some {}"
  by (simp add: cleanUp_def Let_def split: option.split)

lemma cleanUp_peers: "peersSubscribed (cleanUp now clk s) p = Some d \<Longrightarrow> peersSubscribed s p = Some d"
  unfolding peersSubscribed_cleanUp by (auto simp: expire_def split: option.splits if_splits)

lemma cleanUp_inv:
  assumes "subs_frame s"
  shows "subs_inv (cleanUp now clk s)"
proof -
  let ?t = "cleanUp now clk s"
  have sub: "criteria_of ?t p \<subseteq> criteria_of s p" for p by (auto simp: criteria_of_cleanUp)
  have dom: "dom (peersSubscribed ?t) \<subseteq> dom (peersSubscribed s)" 
  proof
    fix q assume "q \<in> dom (peersSubscribed ?t)"
    then obtain d where "peersSubscribed ?t q = Some d" by blast
    from cleanUp_peers [OF this] show "q \<in> dom (peersSubscribed s)" by blast
  qed
  have fin: "finite (criteria_of s p)" for p using assms by (simp add: subs_frame_def)
  have frame: "maxPeers ?t = maxPeers s" "maxCriteriaPerPeer ?t = maxCriteriaPerPeer s" "limit ?t = limit s"
    by (simp_all add: cleanUp_def expire_def Let_def limit_def)
  have "card (criteria_of ?t p) \<le> unat (criteriaCount d) \<and> unat (criteriaCount d) \<le> limit ?t"
    if "peersSubscribed ?t p = Some d" for p d
  proof -
    have "card (criteria_of s p) \<le> unat (criteriaCount d) \<and> unat (criteriaCount d) \<le> limit s"
      using assms cleanUp_peers [OF that] by (simp add: subs_frame_def)
    with card_mono [OF fin sub [of p]] show ?thesis unfolding frame by (meson le_trans)
  qed
  moreover have "subscriptions ?t c \<noteq> Some {}" for c by (rule cleanUp_nonempty)
  moreover have "finite (dom (peersSubscribed ?t)) \<and> card (dom (peersSubscribed ?t)) \<le> unat (maxPeers ?t)"
  proof -
    have fd: "finite (dom (peersSubscribed s))" "card (dom (peersSubscribed s)) \<le> unat (maxPeers s)"
      using assms by (simp_all add: subs_frame_def)
    then show ?thesis
      unfolding frame using card_mono [OF fd(1) dom] finite_subset [OF dom fd(1)] by (meson le_trans)
  qed
  moreover have "criteria_of ?t p = {}" if "peersSubscribed ?t p = None" for p
    using that by (auto simp: criteria_of_cleanUp isSubscribed_def)
  ultimately show ?thesis
    using assms finite_subset [OF sub fin] by (auto simp: subs_inv_def subs_frame_def frame)
qed

lemma removePeers_frame: "subs_inv s \<Longrightarrow> subs_frame (removePeers ps s)"
proof -
  assume inv: "subs_inv s"
  have dom: "dom (peersSubscribed (removePeers ps s)) \<subseteq> dom (peersSubscribed s)"
    by (auto simp: removePeers_def split: if_splits)
  have "card (dom (peersSubscribed (removePeers ps s))) \<le> card (dom (peersSubscribed s))"
    using inv by (intro card_mono dom) (simp add: subs_inv_def subs_frame_def)
  then show ?thesis
    using inv finite_subset [OF dom]
    by (auto simp: subs_inv_def subs_frame_def removePeers_def split: if_splits)
qed

lemma removePeer_frame: "subs_inv s \<Longrightarrow> subs_frame (removePeer p s)"
proof -
  have "removePeer p s = removePeers {p} s" by (auto simp: removePeer_def removePeers_def fun_eq_iff)
  then show "subs_inv s \<Longrightarrow> subs_frame (removePeer p s)" using removePeers_frame by simp
qed

lemma refresh_inv: "subs_inv s \<Longrightarrow> subs_inv (refreshSubscription now p s)"
  using touch_inv by (auto simp: refreshSubscription_def split: option.splits)

end
