(* ===== verification/FilterProtocol.thy ===== *)
theory FilterProtocol
  imports FilterSubs
begin

text \<open>
  The filter service, \<^verbatim>\<open>waku/waku_filter_v2/protocol.nim\<close> with the request and response types
  of \<^verbatim>\<open>rpc.nim\<close> and the errors of \<^verbatim>\<open>common.nim\<close>. The table of \<open>FilterSubs\<close> is used through
  the contract of the locale \<open>subscription_store\<close>. Arguments: the clock readings of one request
  (\<open>clocks\<close>), the order in which a hash set of criteria is iterated (\<open>hs\<close>), and what the
  peer manager answers (\<open>hasPeer\<close>, \<open>dial\<close>). Metrics and logs are left out.
\<close>

section \<open>Errors, requests and responses\<close>

text \<open>\<open>INVALID_KIND\<close> is an object whose kind is a number that is no kind, with no field.\<close>

datatype FilterSubscribeError =
    UNKNOWN
  | INVALID_KIND u32
  | BAD_RESPONSE string
  | BAD_REQUEST string
  | NOT_FOUND string
  | SERVICE_UNAVAILABLE string
  | PEER_DIAL_FAILURE string

fun error_kind :: "FilterSubscribeError \<Rightarrow> u32" where
  "error_kind UNKNOWN = 0"
| "error_kind (INVALID_KIND w) = w"
| "error_kind (BAD_RESPONSE c) = 300"
| "error_kind (BAD_REQUEST c) = 400"
| "error_kind (NOT_FOUND c) = 404"
| "error_kind (SERVICE_UNAVAILABLE c) = 503"
| "error_kind (PEER_DIAL_FAILURE a) = 504"

fun show_filter_error :: "FilterSubscribeError \<Rightarrow> string" where
  "show_filter_error (PEER_DIAL_FAILURE a) = ''PEER_DIAL_FAILURE: '' @ a"
| "show_filter_error (BAD_RESPONSE c) = ''BAD_RESPONSE: '' @ c"
| "show_filter_error (BAD_REQUEST c) = ''BAD_REQUEST: '' @ c"
| "show_filter_error (NOT_FOUND c) = ''NOT_FOUND: '' @ c"
| "show_filter_error (SERVICE_UNAVAILABLE c) = ''SERVICE_UNAVAILABLE: '' @ c"
| "show_filter_error UNKNOWN = ''UNKNOWN''"
| "show_filter_error (INVALID_KIND w) = []"

text \<open>The list of known kinds holds 200, which is not a kind, and lacks 504.\<close>

definition parse_filter_error :: "u32 \<Rightarrow> string \<Rightarrow> string \<Rightarrow> FilterSubscribeError" where
  "parse_filter_error kind cause address =
     (if kind = 300 then BAD_RESPONSE cause else if kind = 400 then BAD_REQUEST cause
      else if kind = 404 then NOT_FOUND cause else if kind = 503 then SERVICE_UNAVAILABLE cause
      else if kind = 200 then INVALID_KIND 200 else UNKNOWN)"

definition peer_has_no_subscriptions :: FilterSubscribeError where
  "peer_has_no_subscriptions = NOT_FOUND ''peer has no subscriptions''"

datatype FilterSubscribeType = SUBSCRIBER_PING | SUBSCRIBE | UNSUBSCRIBE | UNSUBSCRIBE_ALL

record FilterSubscribeRequest =
  requestId :: string
  filterSubscribeType :: FilterSubscribeType
  rq_pubsubTopic :: "PubsubTopic option"
  contentTopics :: "ContentTopic list"

record FilterSubscribeResponse =
  rs_requestId :: string
  statusCode :: u32
  statusDesc :: "string option"

definition MaxContentTopicsPerRequest :: nat where "MaxContentTopicsPerRequest = 100"

section \<open>The handlers\<close>

record clocks =
  t_check :: Moment
  t_write :: Moment
  t_clean :: Moment
  t_each :: "FilterCriterion \<Rightarrow> PeerId \<Rightarrow> Moment"

type_synonym hash_order = "FilterCriterion list \<Rightarrow> FilterCriterion list"

definition hash_order_ok :: "hash_order \<Rightarrow> bool" where
  "hash_order_ok hs \<longleftrightarrow> (\<forall>cs. set (hs cs) = set cs \<and> length (hs cs) \<le> length cs)"

definition pingSubscriber ::
  "clocks \<Rightarrow> PeerId \<Rightarrow> FilterSubscriptions \<Rightarrow> (FilterSubscribeError + unit) \<times> FilterSubscriptions" where
  "pingSubscriber ck p s =
     (if \<not> isSubscribed (t_check ck) s p then (Inl peer_has_no_subscriptions, s)
      else (Inr (), refreshSubscription (t_write ck) p s))"

definition request_error :: "PubsubTopic option \<Rightarrow> ContentTopic list \<Rightarrow> FilterSubscribeError option" where
  "request_error topic cts =
     (if topic = None \<or> length cts = 0 then
        Some (BAD_REQUEST ''pubsubTopic and contentTopics must be specified'')
      else if length cts > MaxContentTopicsPerRequest then
        Some (BAD_REQUEST (''exceeds maximum content topics: '' @ show_nat MaxContentTopicsPerRequest))
      else None)"

definition subscribe ::
  "hash_order \<Rightarrow> clocks \<Rightarrow> PeerId \<Rightarrow> PubsubTopic option \<Rightarrow> ContentTopic list \<Rightarrow> FilterSubscriptions
     \<Rightarrow> (FilterSubscribeError + unit) \<times> FilterSubscriptions" where
  "subscribe hs ck p topic cts s =
     (case request_error topic cts of
        Some e \<Rightarrow> (Inl e, s)
      | None \<Rightarrow> (case addSubscription (t_write ck) p (hs (map (\<lambda>c. (the topic, c)) cts)) s of
            (Inl e, s') \<Rightarrow> (Inl (SERVICE_UNAVAILABLE e), s')
          | (Inr _, s') \<Rightarrow> (Inr (), s')))"

definition unsubscribe ::
  "hash_order \<Rightarrow> clocks \<Rightarrow> PeerId \<Rightarrow> PubsubTopic option \<Rightarrow> ContentTopic list \<Rightarrow> FilterSubscriptions
     \<Rightarrow> ((FilterSubscribeError + unit) \<times> FilterSubscriptions) exec" where
  "unsubscribe hs ck p topic cts s =
     (case request_error topic cts of
        Some e \<Rightarrow> Done (Inl e, s)
      | None \<Rightarrow> bind_exec (removeSubscription (t_write ck) p (hs (map (\<lambda>c. (the topic, c)) cts)) s)
          (\<lambda>(r, s'). Done (case r of Inl e \<Rightarrow> Inl peer_has_no_subscriptions | Inr _ \<Rightarrow> Inr (), s')))"

definition unsubscribeAll ::
  "clocks \<Rightarrow> PeerId \<Rightarrow> FilterSubscriptions \<Rightarrow> (FilterSubscribeError + unit) \<times> FilterSubscriptions" where
  "unsubscribeAll ck p s =
     (if \<not> isSubscribed (t_check ck) s p then (Inl peer_has_no_subscriptions, s)
      else (Inr (), cleanUp (t_clean ck) (t_each ck) (removePeer p s)))"

definition respond :: "string \<Rightarrow> FilterSubscribeError + unit \<Rightarrow> FilterSubscribeResponse" where
  "respond rid r =
     (case r of
        Inl e \<Rightarrow> \<lparr>rs_requestId = rid, statusCode = error_kind e, statusDesc = Some (show_filter_error e)\<rparr>
      | Inr _ \<Rightarrow> \<lparr>rs_requestId = rid, statusCode = 200, statusDesc = Some ''OK''\<rparr>)"

definition handleSubscribeRequest ::
  "hash_order \<Rightarrow> clocks \<Rightarrow> PeerId \<Rightarrow> FilterSubscribeRequest \<Rightarrow> FilterSubscriptions
     \<Rightarrow> (FilterSubscribeResponse \<times> FilterSubscriptions) exec" where
  "handleSubscribeRequest hs ck p rq s =
     bind_exec
       (case filterSubscribeType rq of
          SUBSCRIBER_PING \<Rightarrow> Done (pingSubscriber ck p s)
        | SUBSCRIBE \<Rightarrow> Done (subscribe hs ck p (rq_pubsubTopic rq) (contentTopics rq) s)
        | UNSUBSCRIBE \<Rightarrow> unsubscribe hs ck p (rq_pubsubTopic rq) (contentTopics rq) s
        | UNSUBSCRIBE_ALL \<Rightarrow> Done (unsubscribeAll ck p s))
       (\<lambda>(r, s'). Done (respond (requestId rq) r, s'))"

definition maintainSubscriptions ::
  "(PeerId \<Rightarrow> bool) \<Rightarrow> clocks \<Rightarrow> FilterSubscriptions \<Rightarrow> FilterSubscriptions" where
  "maintainSubscriptions hasPeer ck s =
     (let gone = {p \<in> dom (peersSubscribed s). \<not> hasPeer p}
      in cleanUp (t_clean ck) (t_each ck) (if gone \<noteq> {} then removePeers gone s else s))"

text \<open>\<^verbatim>\<open>handleMessage\<close>: the peers the message is pushed to.\<close>

definition pushToPeer :: "(PeerId \<Rightarrow> bool) \<Rightarrow> (PeerId \<Rightarrow> bool) \<Rightarrow> PeerId \<Rightarrow> bool" where
  "pushToPeer hasPeer dial p = (if \<not> hasPeer p then False else dial p)"

definition handleMessage ::
  "(PeerId \<Rightarrow> bool) \<Rightarrow> (PeerId \<Rightarrow> bool) \<Rightarrow> (PeerId \<Rightarrow> Moment) \<Rightarrow> PubsubTopic \<Rightarrow> WakuMessage
     \<Rightarrow> FilterSubscriptions \<Rightarrow> PeerId set" where
  "handleMessage hasPeer dial clk pubsubTopic message s =
     {p \<in> findSubscribedPeers clk s pubsubTopic (contentTopic message). pushToPeer hasPeer dial p}"

section \<open>The contract of the subscription table\<close>

locale subscription_store =
  fixes inv :: "'s \<Rightarrow> bool"
    and listed :: "'s \<Rightarrow> 'p \<Rightarrow> 'c set"
    and add :: "'t \<Rightarrow> 'p \<Rightarrow> 'c list \<Rightarrow> 's \<Rightarrow> ('e + unit) \<times> 's"
    and remove :: "'t \<Rightarrow> 'p \<Rightarrow> 'c list \<Rightarrow> 's \<Rightarrow> (('e + unit) \<times> 's) exec"
  assumes add_inv: "inv s \<Longrightarrow> length cs \<le> MaxContentTopicsPerRequest \<Longrightarrow> add t p cs s = (r, s') \<Longrightarrow> inv s'"
    and add_ok: "add t p cs s = (Inr (), s') \<Longrightarrow> listed s' q = (if q = p then listed s p \<union> set cs else listed s q)"
    and add_err: "add t p cs s = (Inl e, s') \<Longrightarrow> s' = s"
    and remove_ok: "inv s \<Longrightarrow> \<exists>r s'. remove t p cs s = Done (r, s') \<and> inv s'
      \<and> (\<forall>q. q \<noteq> p \<longrightarrow> listed s' q = listed s q) \<and> listed s' p \<subseteq> listed s p
      \<and> (r = Inr () \<longrightarrow> listed s' p = listed s p - set cs)"
begin

lemma remove_cases:
  assumes "inv s" and "remove t p cs s = Done (r, s')"
  shows "inv s'" and "q \<noteq> p \<Longrightarrow> listed s' q = listed s q" and "listed s' p \<subseteq> listed s p"
    and "r = Inr () \<Longrightarrow> listed s' p = listed s p - set cs"
  using remove_ok [OF assms(1), of t p cs] assms(2) by auto

lemma add_isolated: "add t p cs s = (r, s') \<Longrightarrow> q \<noteq> p \<Longrightarrow> listed s' q = listed s q"
  using add_ok [of t p cs s s' q] add_err [of t p cs s _ s'] by (cases r) auto

lemma add_remove:
  assumes "inv s" and "length cs \<le> MaxContentTopicsPerRequest" and "add t p cs s = (Inr (), s1)"
    and "remove t' p cs' s1 = Done (Inr (), s2)" and "set cs' = set cs" and "listed s p \<inter> set cs = {}"
  shows "listed s2 q = listed s q"
proof (cases "q = p")
  case True
  have "inv s1" using add_inv [OF assms(1,2,3)] .
  from remove_cases(4) [OF this assms(4)] add_ok [OF assms(3), of p] True assms(5,6) show ?thesis by auto
next
  case False
  have "inv s1" using add_inv [OF assms(1,2,3)] .
  from remove_cases(2) [OF this assms(4) False] add_ok [OF assms(3), of q] False show ?thesis by simp
qed

lemma never_stuck: "inv s \<Longrightarrow> remove t p cs s \<noteq> Fault f"
  using remove_ok [of s t p cs] by auto

end

lemma add_ok_subs:
  assumes "addSubscription now p cs s = (Inr (), s')"
  shows "criteria_of s' q = (if q = p then criteria_of s p \<union> set cs else criteria_of s q)"
  using assms by (auto simp: addSubscription_def criteria_of_add_loop split: option.splits if_splits)

lemma add_err_subs: "addSubscription now p cs s = (Inl e, s') \<Longrightarrow> s' = s"
  by (auto simp: addSubscription_def split: option.splits if_splits)

interpretation fs: subscription_store subs_inv criteria_of addSubscription removeSubscription
proof
  fix s cs t p r s'
  assume "subs_inv s" "length cs \<le> MaxContentTopicsPerRequest" "addSubscription t p cs s = (r, s')"
  then show "subs_inv s'" using addSubscription_inv by (simp add: MaxContentTopicsPerRequest_def max_request_def)
next
  fix t p cs s s' q
  assume "addSubscription t p cs s = (Inr (), s')"
  then show "criteria_of s' q = (if q = p then criteria_of s p \<union> set cs else criteria_of s q)"
    by (rule add_ok_subs)
next
  fix t p cs s e s'
  assume "addSubscription t p cs s = (Inl e, s')"
  then show "s' = s" by (rule add_err_subs)
next
  fix s t p cs
  assume "subs_inv s"
  then show "\<exists>r s'. removeSubscription t p cs s = Done (r, s') \<and> subs_inv s'
      \<and> (\<forall>q. q \<noteq> p \<longrightarrow> criteria_of s' q = criteria_of s q) \<and> criteria_of s' p \<subseteq> criteria_of s p
      \<and> (r = Inr () \<longrightarrow> criteria_of s' p = criteria_of s p - set cs)"
    by (rule removeSubscription_spec)
qed

section \<open>The service\<close>

text \<open>One step of the service: a request of a peer, or the periodic maintenance.\<close>

inductive filter_step :: "hash_order \<Rightarrow> FilterSubscriptions \<Rightarrow> FilterSubscriptions \<Rightarrow> bool" for hs where
  request: "handleSubscribeRequest hs ck p rq s = Done (resp, s') \<Longrightarrow> filter_step hs s s'"
| maintain: "filter_step hs s (maintainSubscriptions hasPeer ck s)"

inductive filter_reachable :: "hash_order \<Rightarrow> FilterSubscriptions \<Rightarrow> bool" for hs where
  start: "filter_reachable hs (init_subs timeout mp mc)"
| step: "filter_reachable hs s \<Longrightarrow> filter_step hs s s' \<Longrightarrow> filter_reachable hs s'"

inductive_cases filter_stepE: "filter_step hs s s'"

lemma hash_len:
  "hash_order_ok hs \<Longrightarrow> request_error topic cts = None \<Longrightarrow>
     length (hs (map (\<lambda>c. (the topic, c)) cts)) \<le> MaxContentTopicsPerRequest"
  unfolding hash_order_ok_def request_error_def
  by (metis (no_types, lifting) length_map not_le_imp_less option.distinct(1) order.trans)

lemma subscribe_inv:
  "hash_order_ok hs \<Longrightarrow> subs_inv s \<Longrightarrow> subscribe hs ck p topic cts s = (r, s') \<Longrightarrow> subs_inv s'"
  using fs.add_inv [OF _ hash_len] by (auto simp: subscribe_def split: option.splits prod.splits sum.splits)

lemma unsubscribe_inv:
  "subs_inv s \<Longrightarrow> unsubscribe hs ck p topic cts s = Done (r, s') \<Longrightarrow> subs_inv s'"
  by (auto simp: unsubscribe_def split: option.splits dest: fs.remove_cases(1))

lemma unsubscribeAll_inv: "subs_inv s \<Longrightarrow> unsubscribeAll ck p s = (r, s') \<Longrightarrow> subs_inv s'"
  using cleanUp_inv [OF removePeer_frame] by (auto simp: unsubscribeAll_def split: if_splits)

lemma ping_inv: "subs_inv s \<Longrightarrow> pingSubscriber ck p s = (r, s') \<Longrightarrow> subs_inv s'"
  using refresh_inv by (auto simp: pingSubscriber_def split: if_splits)

lemma handle_inv:
  "hash_order_ok hs \<Longrightarrow> subs_inv s \<Longrightarrow> handleSubscribeRequest hs ck p rq s = Done (resp, s') \<Longrightarrow> subs_inv s'"
  by (auto simp: handleSubscribeRequest_def split: FilterSubscribeType.splits prod.splits
      dest: subscribe_inv unsubscribe_inv unsubscribeAll_inv ping_inv)

lemma maintain_inv: "subs_inv s \<Longrightarrow> subs_inv (maintainSubscriptions hasPeer ck s)"
proof -
  assume inv: "subs_inv s"
  then have "subs_frame s" by (simp add: subs_inv_def)
  with cleanUp_inv removePeers_frame [OF inv] show ?thesis
    by (simp add: maintainSubscriptions_def Let_def)
qed

lemma handle_returns:
  "subs_inv s \<Longrightarrow> \<exists>resp s'. handleSubscribeRequest hs ck p rq s = Done (resp, s')"
proof -
  assume inv: "subs_inv s"
  have "\<exists>r s'. unsubscribe hs ck p topic cts s = Done (r, s')" for topic cts
  proof (cases "request_error topic cts")
    case None
    obtain r s' where "removeSubscription (t_write ck) p (hs (map (\<lambda>c. (the topic, c)) cts)) s = Done (r, s')"
      using fs.remove_ok [OF inv] by blast
    with None show ?thesis by (simp add: unsubscribe_def)
  qed (simp add: unsubscribe_def)
  then obtain r s' where "unsubscribe hs ck p (rq_pubsubTopic rq) (contentTopics rq) s = Done (r, s')" by blast
  then show ?thesis
    by (cases "filterSubscribeType rq") (simp_all add: handleSubscribeRequest_def split: prod.split)
qed

lemma reachable_inv: "filter_reachable hs s \<Longrightarrow> hash_order_ok hs \<Longrightarrow> subs_inv s"
proof (induction rule: filter_reachable.induct)
  case (step s s')
  from step.hyps(2) step.IH [OF step.prems] step.prems show ?case
    by (auto elim!: filter_stepE intro: maintain_inv dest: handle_inv)
qed (rule subs_inv_init)

text \<open>C12: in every reachable state of the service, whatever the clock reads and in whatever order hash
  sets are iterated: the service knows no more peers than its limit, a peer is listed under
  at most as many criteria as its counter says, the counter stays within the limit (or one
  request, when the limit is smaller), nobody is listed who is not a subscriber, and every
  request is answered (no counter wraps and no deleted entry is touched).\<close>

theorem filter_service_invariant:
  assumes "filter_reachable hs s" and "hash_order_ok hs"
  shows "subscribedPeerCount s \<le> unat (maxPeers s)
    \<and> (\<forall>p d. peersSubscribed s p = Some d \<longrightarrow> card (criteria_of s p) \<le> unat (criteriaCount d)
         \<and> unat (criteriaCount d) \<le> max (unat (maxCriteriaPerPeer s)) 100)
    \<and> (\<forall>p c. p \<in> peers_of s c \<longrightarrow> p \<in> dom (peersSubscribed s))
    \<and> (\<exists>resp s'. handleSubscribeRequest hs ck q rq s = Done (resp, s'))"
proof -
  have inv: "subs_inv s" using reachable_inv assms by blast
  have l: "limit s = max (unat (maxCriteriaPerPeer s)) 100" by (simp add: limit_def max_request_def)
  have "subscribedPeerCount s \<le> unat (maxPeers s)"
    using inv by (simp add: subs_inv_def subs_frame_def subscribedPeerCount_def)
  moreover have "card (criteria_of s p) \<le> unat (criteriaCount d)
      \<and> unat (criteriaCount d) \<le> max (unat (maxCriteriaPerPeer s)) 100" if "peersSubscribed s p = Some d" for p d
    using inv that by (simp add: subs_inv_def subs_frame_def l)
  moreover have "p \<in> dom (peersSubscribed s)" if "p \<in> peers_of s c" for p c
    using listed_known [OF inv that] by blast
  ultimately show ?thesis using handle_returns [OF inv] by blast
qed

text \<open>A service after one subscription.\<close>

definition sample_clocks :: clocks where
  "sample_clocks = \<lparr>t_check = 10, t_write = 20, t_clean = 30, t_each = (\<lambda>_ _. 30)\<rparr>"

definition sample_request :: FilterSubscribeRequest where
  "sample_request = \<lparr>requestId = ''r'', filterSubscribeType = SUBSCRIBE, rq_pubsubTopic = Some ''/waku/2/t'',
     contentTopics = [''/a/1/b/c'']\<rparr>"

definition sample_subs :: FilterSubscriptions where
  "sample_subs = init_subs 300 1000 1000"

lemma hash_order_id: "hash_order_ok id"
  by (simp add: hash_order_ok_def)

lemma sample_subscribed:
  "\<exists>s. handleSubscribeRequest id sample_clocks ''p'' sample_request sample_subs = Done (respond ''r'' (Inr ()), s)
     \<and> peers_of s (''/waku/2/t'', ''/a/1/b/c'') = {''p''}"
proof -
  have "\<not> (1000 :: u64) \<le> 0" by simp
  then show ?thesis
    by (simp add: handleSubscribeRequest_def sample_request_def subscribe_def request_error_def
        MaxContentTopicsPerRequest_def addSubscription_def sample_subs_def init_subs_def subscribedPeerCount_def
        peers_of_def)
qed

definition sample_after :: FilterSubscriptions where
  "sample_after = sample_subs\<lparr>peersSubscribed := [''p'' \<mapsto> \<lparr>lastSeen = 20, criteriaCount = 1\<rparr>],
     subscriptions := [(''/waku/2/t'', ''/a/1/b/c'') \<mapsto> {''p''}]\<rparr>"

lemma sample_after:
  "handleSubscribeRequest id sample_clocks ''p'' sample_request sample_subs = Done (respond ''r'' (Inr ()), sample_after)"
proof -
  have "\<not> (1000 :: u64) \<le> 0" by simp
  then show ?thesis
    by (simp add: handleSubscribeRequest_def sample_request_def subscribe_def request_error_def
        MaxContentTopicsPerRequest_def addSubscription_def sample_subs_def init_subs_def subscribedPeerCount_def
        peers_of_def sample_after_def sample_clocks_def)
qed

theorem filter_service_invariant_witness:
  "\<exists>s. filter_reachable id s \<and> subscribedPeerCount s \<le> 1000 \<and> peers_of s (''/waku/2/t'', ''/a/1/b/c'') = {''p''}"
proof -
  obtain s where s: "handleSubscribeRequest id sample_clocks ''p'' sample_request sample_subs = Done (respond ''r'' (Inr ()), s)"
    "peers_of s (''/waku/2/t'', ''/a/1/b/c'') = {''p''}" using sample_subscribed by blast
  have r: "filter_reachable id s"
    by (rule filter_reachable.step [OF _ filter_step.request [OF s(1)]]) (simp add: sample_subs_def start)
  have "maxPeers s = 1000"
    using s(1) by (auto simp: handleSubscribeRequest_def sample_request_def subscribe_def request_error_def
        addSubscription_def add_loop_frame sample_subs_def init_subs_def subscribedPeerCount_def
        MaxContentTopicsPerRequest_def split: if_splits)
  with filter_service_invariant [OF r hash_order_id] r s(2) show ?thesis by auto
qed

section \<open>What a request does\<close>

lemma subscribe_ok:
  assumes "hash_order_ok hs" and "subscribe hs ck p topic cts s = (Inr (), s')"
  shows "criteria_of s' q = (if q = p then criteria_of s p \<union> (\<lambda>c. (the topic, c)) ` set cts else criteria_of s q)"
    and "request_error topic cts = None"
  using assms add_ok_subs
  by (auto simp: subscribe_def hash_order_ok_def split: option.splits prod.splits sum.splits)

lemma subscribe_seen:
  assumes "subscribe hs ck p topic cts s = (Inr (), s')"
  shows "\<exists>d. peersSubscribed s' p = Some d \<and> lastSeen d = t_write ck"
    and "q \<noteq> p \<Longrightarrow> peersSubscribed s' q = peersSubscribed s q"
    and "subscriptionTimeout s' = subscriptionTimeout s"
  using assms
  by (auto simp: subscribe_def addSubscription_def add_loop_frame add_loop_peers
      split: option.splits prod.splits sum.splits if_splits)

text \<open>A subscription that is accepted is delivered: after a SUBSCRIBE answered with 200 a
  message on the pubsub topic and any content topic of the request is pushed to the peer, as
  long as the timeout has not passed and the peer can be dialled; what any other peer is
  subscribed to does not change.\<close>

lemma subscription_delivered:
  assumes "hash_order_ok hs" and "filterSubscribeType rq = SUBSCRIBE" and "rq_pubsubTopic rq = Some topic"
    and "handleSubscribeRequest hs ck p rq s = Done (resp, s')" and "statusCode resp = 200"
    and "contentTopic msg \<in> set (contentTopics rq)" and "clk p - t_write ck \<le> subscriptionTimeout s"
    and "hasPeer p" and "dial p"
  shows "p \<in> handleMessage hasPeer dial clk topic msg s'
    \<and> (\<forall>q. q \<noteq> p \<longrightarrow> criteria_of s' q = criteria_of s q)"
proof -
  obtain r where r: "subscribe hs ck p (Some topic) (contentTopics rq) s = (r, s')" "resp = respond (requestId rq) r"
    using assms(2-4) by (auto simp: handleSubscribeRequest_def split: prod.splits)
  have "r = Inr ()"
    using r assms(5)
    by (auto simp: subscribe_def respond_def request_error_def split: option.splits sum.splits if_splits prod.splits)
  note ok = r(1) [unfolded this]
  have "(topic, contentTopic msg) \<in> criteria_of s' p"
    using subscribe_ok(1) [OF assms(1) ok, of p] assms(6) by simp
  moreover obtain d where "peersSubscribed s' p = Some d" "lastSeen d = t_write ck"
    using subscribe_seen(1) [OF ok] by blast
  then have "isSubscribed (clk p) s' p"
    using assms(7) subscribe_seen(3) [OF ok] by (simp add: isSubscribed_def)
  ultimately have "p \<in> handleMessage hasPeer dial clk topic msg s'"
    using assms(8,9) by (simp add: handleMessage_def findSubscribedPeers_def pushToPeer_def criteria_of_def)
  moreover have "criteria_of s' q = criteria_of s q" if "q \<noteq> p" for q
    using subscribe_ok(1) [OF assms(1) ok, of q] that by simp
  ultimately show ?thesis by blast
qed

text \<open>Unsubscribing takes back exactly what a subscription added: an accepted SUBSCRIBE of criteria
  the peer did not have, followed by an accepted UNSUBSCRIBE of the same request, leaves
  every peer listed under the criteria it was listed under before.\<close>

theorem unsubscribe_undoes_subscribe:
  assumes "filter_reachable hs s" and "hash_order_ok hs" and "rq_pubsubTopic rq = Some topic"
    and "criteria_of s p \<inter> (\<lambda>c. (topic, c)) ` set (contentTopics rq) = {}"
    and "handleSubscribeRequest hs ck p (rq\<lparr>filterSubscribeType := SUBSCRIBE\<rparr>) s = Done (r1, s1)" and "statusCode r1 = 200"
    and "handleSubscribeRequest hs ck' p (rq\<lparr>filterSubscribeType := UNSUBSCRIBE\<rparr>) s1 = Done (r2, s2)" and "statusCode r2 = 200"
  shows "criteria_of s2 q = criteria_of s q"
proof -
  let ?cs = "hs (map (\<lambda>c. (topic, c)) (contentTopics rq))"
  have inv: "subs_inv s" using reachable_inv assms(1,2) by blast
  have none: "request_error (Some topic) (contentTopics rq) = None" and a: "addSubscription (t_write ck) p ?cs s = (Inr (), s1)"
    using assms(3,5,6)
    by (auto simp: handleSubscribeRequest_def subscribe_def respond_def request_error_def
        split: option.splits sum.splits prod.splits if_splits)
  have b: "removeSubscription (t_write ck') p ?cs s1 = Done (Inr (), s2)"
    using assms(3,7,8) none
    by (auto simp: handleSubscribeRequest_def unsubscribe_def respond_def peer_has_no_subscriptions_def
        simp del: bind_exec_Done_iff elim!: bind_execE split: sum.splits prod.splits)
  have len: "length ?cs \<le> MaxContentTopicsPerRequest"
    using hash_len [OF assms(2) none] by simp
  have "criteria_of s p \<inter> set ?cs = {}" using assms(2,4) by (simp add: hash_order_ok_def)
  from fs.add_remove [OF inv len a b refl this] show ?thesis .
qed

theorem unsubscribe_undoes_subscribe_witness:
  "\<exists>r2 s2. handleSubscribeRequest id sample_clocks ''p'' (sample_request\<lparr>filterSubscribeType := UNSUBSCRIBE\<rparr>) sample_after
     = Done (r2, s2) \<and> criteria_of s2 ''p'' = criteria_of sample_subs ''p''"
proof -
  let ?u = "sample_request\<lparr>filterSubscribeType := UNSUBSCRIBE\<rparr>"
  obtain s2 where s2: "handleSubscribeRequest id sample_clocks ''p'' ?u sample_after = Done (respond ''r'' (Inr ()), s2)"
    by (simp add: handleSubscribeRequest_def sample_request_def unsubscribe_def request_error_def
        MaxContentTopicsPerRequest_def removeSubscription_def sample_after_def sample_subs_def init_subs_def)
  have a: "handleSubscribeRequest id sample_clocks ''p'' (sample_request\<lparr>filterSubscribeType := SUBSCRIBE\<rparr>) sample_subs
      = Done (respond ''r'' (Inr ()), sample_after)"
    using sample_after by (simp add: sample_request_def)
  have t: "rq_pubsubTopic sample_request = Some ''/waku/2/t''" by (simp add: sample_request_def)
  have e: "criteria_of sample_subs ''p'' \<inter> (\<lambda>c. (''/waku/2/t'', c)) ` set (contentTopics sample_request) = {}"
    by (simp add: criteria_of_def peers_of_def sample_subs_def init_subs_def)
  have k: "statusCode (respond ''r'' (Inr ())) = 200" by (simp add: respond_def)
  have r: "filter_reachable id sample_subs" unfolding sample_subs_def by (rule start)
  from unsubscribe_undoes_subscribe [OF r hash_order_id t e a k s2 k, of "''p''"] s2 show ?thesis by blast
qed

text \<open>An UNSUBSCRIBE_ALL answered with 200 removes the peer: it is neither known nor listed under
  any criterion, so no message is pushed to it.\<close>

theorem unsubscribe_all_complete:
  assumes "filterSubscribeType rq = UNSUBSCRIBE_ALL"
    and "handleSubscribeRequest hs ck p rq s = Done (resp, s')" and "statusCode resp = 200"
  shows "peersSubscribed s' p = None \<and> criteria_of s' p = {} \<and> p \<notin> handleMessage hasPeer dial clk topic msg s'"
proof -
  have s': "s' = cleanUp (t_clean ck) (t_each ck) (removePeer p s)"
    using assms by (auto simp: handleSubscribeRequest_def unsubscribeAll_def respond_def
        peer_has_no_subscriptions_def split: if_splits)
  have n: "peersSubscribed s' p = None" unfolding s' peersSubscribed_cleanUp by (simp add: expire_def removePeer_def)
  then have "criteria_of s' p = {}" unfolding s' by (auto simp: criteria_of_cleanUp isSubscribed_def)
  with n show ?thesis by (simp add: handleMessage_def findSubscribedPeers_def isSubscribed_def)
qed

theorem unsubscribe_all_complete_witness:
  "\<exists>resp s'. handleSubscribeRequest id sample_clocks ''p'' (sample_request\<lparr>filterSubscribeType := UNSUBSCRIBE_ALL\<rparr>)
      sample_after = Done (resp, s') \<and> peersSubscribed s' ''p'' = None"
proof -
  let ?u = "sample_request\<lparr>filterSubscribeType := UNSUBSCRIBE_ALL\<rparr>"
  obtain s' where s': "handleSubscribeRequest id sample_clocks ''p'' ?u sample_after = Done (respond ''r'' (Inr ()), s')"
    by (simp add: handleSubscribeRequest_def sample_request_def unsubscribeAll_def isSubscribed_def
        sample_clocks_def sample_after_def sample_subs_def init_subs_def)
  have "filterSubscribeType ?u = UNSUBSCRIBE_ALL" "statusCode (respond ''r'' (Inr ())) = 200"
    by (simp_all add: respond_def)
  from unsubscribe_all_complete [OF this(1) s' this(2)] s' show ?thesis by blast
qed

text \<open>The limit on the criteria of a peer does not bind its first request: a peer the service does
  not know yet is accepted with any number of criteria up to 100, however small the
  configured limit is.\<close>

theorem first_request_unlimited:
  assumes "peersSubscribed s p = None" and "of_nat (subscribedPeerCount s) < maxPeers s"
    and "filterSubscribeType rq = SUBSCRIBE" and "rq_pubsubTopic rq = Some topic"
    and "contentTopics rq \<noteq> []" and "length (contentTopics rq) \<le> 100"
  shows "\<exists>resp s'. handleSubscribeRequest hs ck p rq s = Done (resp, s') \<and> statusCode resp = 200"
  using assms(1,3-) assms(2) [unfolded not_le [symmetric]]
  by (simp add: handleSubscribeRequest_def subscribe_def request_error_def MaxContentTopicsPerRequest_def
      addSubscription_def respond_def)

theorem first_request_unlimited_witness:
  "\<exists>resp s'. handleSubscribeRequest id sample_clocks ''p''
      (sample_request\<lparr>contentTopics := [''/a/1/b/c'', ''/a/1/d/c'', ''/a/1/e/c'']\<rparr>) (init_subs 300 1000 2)
      = Done (resp, s') \<and> statusCode resp = 200"
  by (rule first_request_unlimited [where topic = "''/waku/2/t''"])
    (simp_all add: sample_request_def init_subs_def subscribedPeerCount_def)

text \<open>A request that is refused changes nothing but the time a peer was last seen and, when some
  criterion of an UNSUBSCRIBE is unknown, the criteria of the peer itself: its listing can
  only shrink, and no other peer is affected. The answer is 400 exactly for a missing or
  oversized list of topics.\<close>

theorem refused_requests:
  assumes "filter_reachable hs s" and "hash_order_ok hs"
    and "handleSubscribeRequest hs ck p rq s = Done (resp, s')" and "statusCode resp \<noteq> 200"
  shows "(\<forall>q. q \<noteq> p \<longrightarrow> criteria_of s' q = criteria_of s q) \<and> criteria_of s' p \<subseteq> criteria_of s p
    \<and> (filterSubscribeType rq \<noteq> UNSUBSCRIBE \<longrightarrow> s' = s)
    \<and> (statusCode resp = 400 \<longleftrightarrow> filterSubscribeType rq \<in> {SUBSCRIBE, UNSUBSCRIBE}
         \<and> request_error (rq_pubsubTopic rq) (contentTopics rq) \<noteq> None)"
proof -
  have inv: "subs_inv s" using reachable_inv assms(1,2) by blast
  have kind: "\<exists>m. request_error t c = Some (BAD_REQUEST m)" if "request_error t c \<noteq> None" for t c
    using that by (auto simp: request_error_def split: if_splits)
  show ?thesis
  proof (cases "filterSubscribeType rq")
    case SUBSCRIBER_PING
    with assms(3,4) show ?thesis
      by (auto simp: handleSubscribeRequest_def pingSubscriber_def respond_def peer_has_no_subscriptions_def
          split: if_splits)
  next
    case SUBSCRIBE
    with assms(3,4) kind [of "rq_pubsubTopic rq" "contentTopics rq"] show ?thesis
      by (auto simp: handleSubscribeRequest_def subscribe_def respond_def
          split: option.splits sum.splits prod.splits dest: add_err_subs)
  next
    case UNSUBSCRIBE
    with assms(3,4) kind [of "rq_pubsubTopic rq" "contentTopics rq"] show ?thesis
      by (auto simp: handleSubscribeRequest_def unsubscribe_def respond_def peer_has_no_subscriptions_def
          simp del: bind_exec_Done_iff elim!: bind_execE
          split: option.splits sum.splits prod.splits dest: fs.remove_cases(2,3) [OF inv])
  next
    case UNSUBSCRIBE_ALL
    with assms(3,4) show ?thesis
      by (auto simp: handleSubscribeRequest_def unsubscribeAll_def respond_def peer_has_no_subscriptions_def
          split: if_splits)
  qed
qed

theorem refused_requests_witness:
  "\<exists>resp. handleSubscribeRequest id sample_clocks ''q'' (sample_request\<lparr>filterSubscribeType := SUBSCRIBER_PING\<rparr>)
      sample_subs = Done (resp, sample_subs) \<and> statusCode resp \<noteq> 400"
proof -
  let ?u = "sample_request\<lparr>filterSubscribeType := SUBSCRIBER_PING\<rparr>"
  obtain s' where s': "handleSubscribeRequest id sample_clocks ''q'' ?u sample_subs
      = Done (respond ''r'' (Inl peer_has_no_subscriptions), s')"
    by (simp add: handleSubscribeRequest_def sample_request_def pingSubscriber_def isSubscribed_def
        sample_subs_def init_subs_def)
  have r: "filter_reachable id sample_subs" unfolding sample_subs_def by (rule start)
  have k: "statusCode (respond ''r'' (Inl peer_has_no_subscriptions)) \<noteq> 200"
    by (simp add: respond_def peer_has_no_subscriptions_def)
  from refused_requests [OF r hash_order_id s' k] s' show ?thesis by simp
qed

text \<open>The status code of an error is parsed back to the same kind of error, except that a failed
  dial (504) becomes \<^verbatim>\<open>UNKNOWN\<close>, and the success code 200 becomes an error.\<close>

theorem filter_error_codes:
  "(parse_filter_error (error_kind e) c a = e
     \<longleftrightarrow> (case e of BAD_RESPONSE m \<Rightarrow> m = c | BAD_REQUEST m \<Rightarrow> m = c | NOT_FOUND m \<Rightarrow> m = c
          | SERVICE_UNAVAILABLE m \<Rightarrow> m = c | UNKNOWN \<Rightarrow> True | INVALID_KIND w \<Rightarrow> w = 200
          | PEER_DIAL_FAILURE m \<Rightarrow> False))"
  by (cases e) (auto simp: parse_filter_error_def)

end
