(* ===== verification/Protobuf.thy ===== *)
theory Protobuf
  imports WakuMessage
begin

text \<open>
  What the codecs of the repository use of the protobuf library of libp2p
  (\<^verbatim>\<open>minprotobuf\<close>, extended in \<^verbatim>\<open>waku/common/protobuf.nim\<close>). The library is a
  parameter, the record \<open>pbuf\<close>: it finishes a buffer from the fields written, in order, and reads
  fields back from bytes. The locale \<open>protobuf\<close> states what the codecs rely on: a field that
  was written is read back with its type (the last one of its number, or all for a
  repeated field), one that was not is absent. The wire format of the protobuf specification, for
  these types of field, is an instance: an interpretation at the end shows it.
\<close>

section \<open>Results\<close>

datatype ProtoError =
    VarintDecode
  | MessageIncomplete
  | BufferOverflow
  | MessageTooBig
  | BadWireType
  | IncorrectBlob
  | RequiredFieldMissing

datatype ProtobufError =
    DecodeFailure ProtoError
  | MissingRequiredField string
  | InvalidLengthField string

fun toProtobufError :: "ProtoError \<Rightarrow> ProtobufError" where
  "toProtobufError RequiredFieldMissing = MissingRequiredField ''unknown''"
| "toProtobufError err = DecodeFailure err"

fun show_proto_error :: "ProtoError \<Rightarrow> string" where
  "show_proto_error VarintDecode = ''VarintDecode''"
| "show_proto_error MessageIncomplete = ''MessageIncomplete''"
| "show_proto_error BufferOverflow = ''BufferOverflow''"
| "show_proto_error MessageTooBig = ''MessageTooBig''"
| "show_proto_error BadWireType = ''BadWireType''"
| "show_proto_error IncorrectBlob = ''IncorrectBlob''"
| "show_proto_error RequiredFieldMissing = ''RequiredFieldMissing''"

fun show_protobuf_error :: "ProtobufError \<Rightarrow> string" where
  "show_protobuf_error (DecodeFailure e) = show_proto_error e"
| "show_protobuf_error (MissingRequiredField f) = ''MissingRequiredField '' @ f"
| "show_protobuf_error (InvalidLengthField f) = ''InvalidLengthField '' @ f"

text \<open>Nim's \<^verbatim>\<open>?\<close> on a result: an error returns at once.\<close>

fun bind_res :: "'e + 'a \<Rightarrow> ('a \<Rightarrow> 'e + 'b) \<Rightarrow> 'e + 'b" where
  "bind_res (Inl e) f = Inl e"
| "bind_res (Inr x) f = f x"

lemma bind_res_Inr_iff [simp]: "bind_res m f = Inr y \<longleftrightarrow> (\<exists>x. m = Inr x \<and> f x = Inr y)"
  by (cases m) auto

section \<open>Buffers\<close>

text \<open>A field as it is written: \<open>Z64\<close> is a \<^verbatim>\<open>zint64\<close>, \<open>Blob\<close> a byte sequence, string or message.\<close>

datatype pval = U32 u32 | U64 u64 | Z64 u64 | Blob bytes

type_synonym fields = "(nat \<times> pval) list"
type_synonym 'a got = "ProtoError + 'a option"

record pbuf =
  pb_finish :: "fields \<Rightarrow> bytes"
  pb_u32 :: "nat \<Rightarrow> bytes \<Rightarrow> u32 got"
  pb_u64 :: "nat \<Rightarrow> bytes \<Rightarrow> u64 got"
  pb_z64 :: "nat \<Rightarrow> bytes \<Rightarrow> u64 got"
  pb_blob :: "nat \<Rightarrow> bytes \<Rightarrow> bytes got"
  pb_blobs :: "nat \<Rightarrow> bytes \<Rightarrow> (bytes list) got"

text \<open>The field of a number, if there is at most one; all blobs of a number.\<close>

definition field_of :: "nat \<Rightarrow> fields \<Rightarrow> pval option" where
  "field_of n fs = map_of (rev fs) n"

definition blobs_of :: "nat \<Rightarrow> fields \<Rightarrow> bytes list" where
  "blobs_of n fs = concat (map (\<lambda>(k, v). case v of Blob b \<Rightarrow> if k = n then [b] else [] | _ \<Rightarrow> []) fs)"

text \<open>
  The laws: a number is written with one type; field numbers are those of the messages
  of the repository, the sizes those of a message that fits in memory.
\<close>

definition writable :: "fields \<Rightarrow> bool" where
  "writable fs \<longleftrightarrow> (\<forall>(n, v) \<in> set fs. 1 \<le> n \<and> n < 2 ^ 29 \<and> (case v of Blob b \<Rightarrow> length b < 2 ^ 63 | _ \<Rightarrow> True))"

locale protobuf =
  fixes P :: pbuf
  assumes u32_written: "writable fs \<Longrightarrow> field_of n fs = Some (U32 v) \<Longrightarrow> pb_u32 P n (pb_finish P fs) = Inr (Some v)"
    and u64_written: "writable fs \<Longrightarrow> field_of n fs = Some (U64 w) \<Longrightarrow> pb_u64 P n (pb_finish P fs) = Inr (Some w)"
    and z64_written: "writable fs \<Longrightarrow> field_of n fs = Some (Z64 w) \<Longrightarrow> pb_z64 P n (pb_finish P fs) = Inr (Some w)"
    and blob_written: "writable fs \<Longrightarrow> field_of n fs = Some (Blob b) \<Longrightarrow> pb_blob P n (pb_finish P fs) = Inr (Some b)"
    and u32_absent: "writable fs \<Longrightarrow> field_of n fs = None \<Longrightarrow> pb_u32 P n (pb_finish P fs) = Inr None"
    and u64_absent: "writable fs \<Longrightarrow> field_of n fs = None \<Longrightarrow> pb_u64 P n (pb_finish P fs) = Inr None"
    and z64_absent: "writable fs \<Longrightarrow> field_of n fs = None \<Longrightarrow> pb_z64 P n (pb_finish P fs) = Inr None"
    and blob_absent: "writable fs \<Longrightarrow> field_of n fs = None \<Longrightarrow> pb_blob P n (pb_finish P fs) = Inr None"
    and blobs_written: "writable fs \<Longrightarrow> \<forall>v. (n, v) \<in> set fs \<longrightarrow> (\<exists>b. v = Blob b) \<Longrightarrow>
      pb_blobs P n (pb_finish P fs) = Inr (if blobs_of n fs = [] then None else Some (blobs_of n fs))"

text \<open>Fields of the shapes the codecs write.\<close>

definition opt_field :: "nat \<Rightarrow> pval option \<Rightarrow> fields" where
  "opt_field n v = (case v of None \<Rightarrow> [] | Some x \<Rightarrow> [(n, x)])"

definition rep_field :: "nat \<Rightarrow> bytes list \<Rightarrow> fields" where
  "rep_field n bs = map (\<lambda>b. (n, Blob b)) bs"

named_theorems field_simps

lemma field_of_simps [field_simps]:
  "field_of n [] = None"
  "field_of n ((k, v) # fs) = (case field_of n fs of None \<Rightarrow> if k = n then Some v else None | Some w \<Rightarrow> Some w)"
  "field_of n (fs @ gs) = (case field_of n gs of None \<Rightarrow> field_of n fs | Some w \<Rightarrow> Some w)"
  "field_of n (opt_field k w) = (if k = n then w else None)"
  "k \<noteq> n \<Longrightarrow> field_of n (rep_field k bs) = None"
proof -
  show "k \<noteq> n \<Longrightarrow> field_of n (rep_field k bs) = None"
    by (auto simp: field_of_def rep_field_def map_of_eq_None_iff)
qed (auto simp: field_of_def opt_field_def map_add_def split: option.splits)

lemma blobs_of_simps [field_simps]:
  "blobs_of n [] = []"
  "blobs_of n ((k, v) # fs) = (case v of Blob b \<Rightarrow> if k = n then [b] else [] | _ \<Rightarrow> []) @ blobs_of n fs"
  "blobs_of n (fs @ gs) = blobs_of n fs @ blobs_of n gs"
  "k \<noteq> n \<Longrightarrow> blobs_of n (opt_field k w) = []"
  "blobs_of n (rep_field k bs) = (if k = n then bs else [])"
proof -
  show "blobs_of n (rep_field k bs) = (if k = n then bs else [])"
    by (induction bs) (auto simp: blobs_of_def rep_field_def)
qed (auto simp: blobs_of_def opt_field_def split: option.splits pval.splits)

lemma set_fields [field_simps]:
  "(n, v) \<in> set (opt_field k w) \<longleftrightarrow> k = n \<and> w = Some v"
  "(n, v) \<in> set (rep_field k bs) \<longleftrightarrow> k = n \<and> (\<exists>b \<in> set bs. v = Blob b)"
  by (auto simp: opt_field_def rep_field_def split: option.splits)

section \<open>Reading as the code does\<close>

text \<open>\<^verbatim>\<open>?pb.getField(n, x)\<close>, and what follows for a field that is required, or has a default.\<close>

definition get :: "'a got \<Rightarrow> ProtobufError + 'a option" where
  "get g = (case g of Inl e \<Rightarrow> Inl (toProtobufError e) | Inr r \<Rightarrow> Inr r)"

definition required :: "string \<Rightarrow> 'a got \<Rightarrow> ProtobufError + 'a" where
  "required f g =
     bind_res (get g) (\<lambda>r. case r of None \<Rightarrow> Inl (MissingRequiredField f) | Some x \<Rightarrow> Inr x)"

definition default :: "'a \<Rightarrow> 'a got \<Rightarrow> ProtobufError + 'a" where
  "default d g = bind_res (get g) (\<lambda>r. case r of None \<Rightarrow> Inr d | Some x \<Rightarrow> Inr x)"

text \<open>The messages of a repeated field, one after the other.\<close>

fun decode_all :: "(bytes \<Rightarrow> 'e + 'a) \<Rightarrow> bytes list \<Rightarrow> 'e + 'a list" where
  "decode_all dec [] = Inr []"
| "decode_all dec (b # bs) = bind_res (dec b) (\<lambda>x. bind_res (decode_all dec bs) (\<lambda>xs. Inr (x # xs)))"

lemma got_simps [simp]:
  "get (Inr r) = Inr r" "required f (Inr None) = Inl (MissingRequiredField f)" "required f (Inr (Some x)) = Inr x"
  "default d (Inr None) = Inr d" "default d (Inr (Some x)) = Inr x"
  by (simp_all add: get_def required_def default_def)

context protobuf
begin

lemma blob_opt:
  assumes "writable fs" and "field_of n fs = map_option Blob ob"
  shows "pb_blob P n (pb_finish P fs) = Inr ob"
  using assms blob_written blob_absent by (cases ob) simp_all

lemma u64_opt:
  assumes "writable fs" and "field_of n fs = map_option U64 ob"
  shows "pb_u64 P n (pb_finish P fs) = Inr ob"
  using assms u64_written u64_absent by (cases ob) simp_all

lemma blobs_rep:
  assumes "writable fs" and "blobs_of n fs = bs" and "\<forall>v. (n, v) \<in> set fs \<longrightarrow> (\<exists>b. v = Blob b)"
  shows "default [] (pb_blobs P n (pb_finish P fs)) = Inr bs"
  using blobs_written [OF assms(1,3)] assms(2) by simp

end

section \<open>The wire format\<close>

fun varint :: "nat \<Rightarrow> bytes" where
  "varint v = (if v < 128 then [of_nat v] else of_nat (v mod 128 + 128) # varint (v div 128))"

declare varint.simps [simp del]

fun unvarint :: "bytes \<Rightarrow> (nat \<times> bytes) option" where
  "unvarint [] = None"
| "unvarint (b # bs) =
     (if unat b < 128 then Some (unat b, bs)
      else map_option (\<lambda>(v, r). (unat b - 128 + 128 * v, r)) (unvarint bs))"

lemma unvarint_varint [simp]: "unvarint (varint v @ r) = Some (v, r)"
proof (induction v rule: varint.induct)
  case (1 v)
  have u: "unat (of_nat n :: u8) = n" if "n < 256" for n using that by (simp add: unsigned_of_nat take_bit_nat_eq_self)
  show ?case
  proof (cases "v < 128")
    case True
    then show ?thesis by (simp add: varint.simps [of v] u)
  next
    case False
    have "v mod 128 + 128 < 256" using mod_less_divisor [of 128 v] by linarith
    then have "unat (of_nat (v mod 128 + 128) :: u8) = v mod 128 + 128" by (rule u)
    then show ?thesis using False 1 by (simp add: varint.simps [of v] del: of_nat_add)
  qed
qed

lemma unvarint_shorter: "unvarint bs = Some (v, r) \<Longrightarrow> length r < length bs"
  by (induction bs arbitrary: v r) (fastforce split: if_splits)+

lemma length_varint: "v < 128 ^ k \<Longrightarrow> 0 < k \<Longrightarrow> length (varint v) \<le> k"
proof (induction v arbitrary: k rule: varint.induct)
  case (1 v)
  show ?case
  proof (cases "v < 128")
    case False
    then have "1 < k" using 1(2,3) by (cases "k = 1") auto
    then obtain j where j: "k = Suc j" "0 < j" by (cases k) auto
    have "v div 128 < 128 ^ j" using 1(2) j by (simp add: less_mult_imp_div_less)
    from 1(1) [OF False this j(2)] show ?thesis using False j by (simp add: varint.simps [of v])
  qed (use 1(3) in \<open>simp add: varint.simps [of v]\<close>)
qed

text \<open>Zigzag on 64 bits.\<close>

definition zigzag :: "u64 \<Rightarrow> u64" where
  "zigzag w = push_bit 1 w XOR (if bit w 63 then NOT 0 else 0)"

definition unzigzag :: "u64 \<Rightarrow> u64" where
  "unzigzag z = drop_bit 1 z XOR (if bit z 0 then NOT 0 else 0)"

lemma bit_zigzag: "bit (zigzag w) n \<longleftrightarrow> n < 64 \<and> (if n = 0 then bit w 63 else bit w (n - 1) \<noteq> bit w 63)"
proof -
  have "bit (zigzag w) n \<longleftrightarrow> (1 \<le> n \<and> n < 64 \<and> bit w (n - 1)) \<noteq> (n < 64 \<and> bit w 63)"
    by (simp only: zigzag_def bit_xor_iff bit_push_bit_iff) (auto simp: bit_not_iff)
  then show ?thesis by (cases n) auto
qed

lemma unzigzag_zigzag [simp]: "unzigzag (zigzag w) = w"
proof (rule bit_word_eqI)
  fix n assume n: "n < LENGTH(64)"
  have "bit (unzigzag (zigzag w)) n \<longleftrightarrow> bit (zigzag w) (Suc n) \<noteq> bit (zigzag w) 0"
    using n by (simp add: unzigzag_def bit_xor_iff bit_drop_bit_eq bit_not_iff)
  then show "bit (unzigzag (zigzag w)) n = bit w n"
    using n by (cases "n = 63") (auto simp: bit_zigzag)
qed

text \<open>A key is the number and the type of a field: 0 for a varint, 2 for a blob.\<close>

fun put_field :: "nat \<times> pval \<Rightarrow> bytes" where
  "put_field (n, U32 v) = varint (8 * n) @ varint (unat v)"
| "put_field (n, U64 v) = varint (8 * n) @ varint (unat v)"
| "put_field (n, Z64 v) = varint (8 * n) @ varint (unat (zigzag v))"
| "put_field (n, Blob b) = varint (8 * n + 2) @ varint (length b) @ b"

datatype raw = Varint nat | Raw bytes

function parse_fields :: "bytes \<Rightarrow> ProtoError + (nat \<times> raw) list" where
  "parse_fields [] = Inr []"
| "parse_fields (b # bs) =
     (case unvarint (b # bs) of None \<Rightarrow> Inl VarintDecode
      | Some (key, r) \<Rightarrow>
          (case unvarint r of None \<Rightarrow> Inl VarintDecode
           | Some (v, r') \<Rightarrow>
               if key mod 8 = 0 then bind_res (parse_fields r') (\<lambda>fs. Inr ((key div 8, Varint v) # fs))
               else if key mod 8 = 2 then
                 (if length r' < v then Inl MessageIncomplete
                  else bind_res (parse_fields (drop v r')) (\<lambda>fs. Inr ((key div 8, Raw (take v r')) # fs)))
               else Inl BadWireType))"
  by pat_completeness auto
termination
  by (relation "measure length") (auto simp del: unvarint.simps dest!: unvarint_shorter)

fun raw_of :: "pval \<Rightarrow> raw" where
  "raw_of (U32 v) = Varint (unat v)"
| "raw_of (U64 v) = Varint (unat v)"
| "raw_of (Z64 v) = Varint (unat (zigzag v))"
| "raw_of (Blob b) = Raw b"

lemma varint_nonempty: "varint v \<noteq> []"
  by (simp add: varint.simps [of v])

lemma parse_put:
  "parse_fields (put_field (n, v) @ r) = bind_res (parse_fields r) (\<lambda>fs. Inr ((n, raw_of v) # fs))"
proof -
  obtain b bs where "put_field (n, v) @ r = b # bs"
    using varint_nonempty by (cases "put_field (n, v) @ r"; cases v) auto
  moreover have "unvarint (put_field (n, v) @ r) \<noteq> None" by (cases v) simp_all
  ultimately have "parse_fields (put_field (n, v) @ r) =
     (case unvarint (put_field (n, v) @ r) of None \<Rightarrow> Inl VarintDecode
      | Some (key, r) \<Rightarrow>
          (case unvarint r of None \<Rightarrow> Inl VarintDecode
           | Some (v, r') \<Rightarrow>
               if key mod 8 = 0 then bind_res (parse_fields r') (\<lambda>fs. Inr ((key div 8, Varint v) # fs))
               else if key mod 8 = 2 then
                 (if length r' < v then Inl MessageIncomplete
                  else bind_res (parse_fields (drop v r')) (\<lambda>fs. Inr ((key div 8, Raw (take v r')) # fs)))
               else Inl BadWireType))"
    by (simp only: parse_fields.simps(2))
  also have "\<dots> = bind_res (parse_fields r) (\<lambda>fs. Inr ((n, raw_of v) # fs))"
    by (cases v) (simp_all add: mod_Suc div_Suc)
  finally show ?thesis .
qed

definition wire_finish :: "fields \<Rightarrow> bytes" where
  "wire_finish fs = concat (map put_field fs)"

text \<open>What a field takes: a key of at most five bytes, a varint of at most ten.\<close>

definition field_size :: "nat \<times> pval \<Rightarrow> nat" where
  "field_size f = 15 + (case snd f of Blob b \<Rightarrow> length b | _ \<Rightarrow> 0)"

lemma length_put_field:
  assumes "writable [f]"
  shows "length (put_field f) \<le> field_size f"
proof -
  obtain n v where f: "f = (n, v)" by (cases f)
  have "8 * n + 2 < 128 ^ 5" using assms by (simp add: writable_def f)
  then have key: "length (varint (8 * n)) \<le> 5" "length (varint (8 * n + 2)) \<le> 5"
    using length_varint [of "8 * n" 5] length_varint [of "8 * n + 2" 5] by simp_all
  have word: "length (varint (unat w)) \<le> 10" for w :: u64
    by (rule length_varint) (use unat_bound64 [of w] in simp_all)
  have word32: "length (varint (unat w)) \<le> 10" for w :: u32
    by (rule length_varint) (use unat_bound32 [of w] in simp_all)
  show ?thesis
  proof (cases v)
    case (Blob b)
    then have "length (varint (length b)) \<le> 10" using assms by (intro length_varint) (simp_all add: writable_def f)
    then show ?thesis using key by (simp add: f Blob field_size_def)
  qed (use key word word32 in \<open>simp_all add: f field_size_def add_mono [where b = 5 and d = 10, simplified]\<close>)
qed

lemma length_wire_finish: "writable fs \<Longrightarrow> length (wire_finish fs) \<le> sum_list (map field_size fs)"
  using length_put_field by (induction fs) (auto simp: wire_finish_def writable_def intro!: add_mono)

lemma parse_wire: "parse_fields (wire_finish fs) = Inr (map (\<lambda>(n, v). (n, raw_of v)) fs)"
  by (induction fs) (simp_all add: wire_finish_def parse_put split: prod.splits)

text \<open>Fields of another wire type are skipped.\<close>

definition varint_field :: "nat \<Rightarrow> bytes \<Rightarrow> nat got" where
  "varint_field n bs = bind_res (parse_fields bs) (\<lambda>fs.
     Inr (map_of (concat (map (\<lambda>(k, v). case v of Varint x \<Rightarrow> [(k, x)] | Raw b \<Rightarrow> []) (rev fs))) n))"

definition raw_fields :: "nat \<Rightarrow> bytes \<Rightarrow> ProtoError + bytes list" where
  "raw_fields n bs = bind_res (parse_fields bs) (\<lambda>fs.
     Inr (concat (map (\<lambda>(k, v). case v of Raw b \<Rightarrow> if k = n then [b] else [] | Varint x \<Rightarrow> []) fs)))"

definition map_got :: "('a \<Rightarrow> 'b) \<Rightarrow> 'a got \<Rightarrow> 'b got" where
  "map_got f g = map_sum id (map_option f) g"

definition wire_format :: pbuf where
  "wire_format =
     \<lparr>pb_finish = wire_finish, pb_u32 = (\<lambda>n bs. map_got of_nat (varint_field n bs)),
      pb_u64 = (\<lambda>n bs. map_got of_nat (varint_field n bs)),
      pb_z64 = (\<lambda>n bs. map_got (unzigzag \<circ> of_nat) (varint_field n bs)),
      pb_blob = (\<lambda>n bs. bind_res (raw_fields n bs) (\<lambda>l. Inr (if l = [] then None else Some (last l)))),
      pb_blobs = (\<lambda>n bs. bind_res (raw_fields n bs) (\<lambda>l. Inr (if l = [] then None else Some l)))\<rparr>"

abbreviation varints :: "fields \<Rightarrow> (nat \<times> nat) list" where
  "varints fs \<equiv> concat (map (\<lambda>(k, v). case raw_of v of Varint x \<Rightarrow> [(k, x)] | Raw b \<Rightarrow> []) fs)"

lemma varint_field_wire: "varint_field n (wire_finish fs) = Inr (map_of (varints (rev fs)) n)"
proof -
  have "concat (map (\<lambda>(k, v). case v of Varint x \<Rightarrow> [(k, x)] | Raw b \<Rightarrow> []) (map (\<lambda>(n, v). (n, raw_of v)) gs))
      = varints gs" for gs
    by (induction gs) auto
  then show ?thesis by (simp only: varint_field_def parse_wire bind_res.simps rev_map)
qed

lemma raw_fields_wire: "raw_fields n (wire_finish fs) = Inr (blobs_of n fs)"
proof -
  have "concat (map (\<lambda>(k, v). case v of Raw b \<Rightarrow> if k = n then [b] else [] | Varint x \<Rightarrow> [])
      (map (\<lambda>(n, v). (n, raw_of v)) fs)) = blobs_of n fs"
    by (induction fs) (auto simp: blobs_of_def split: pval.splits)
  then show ?thesis by (simp only: raw_fields_def parse_wire bind_res.simps)
qed

lemma varints_some: "map_of gs n = Some v \<Longrightarrow> raw_of v = Varint x \<Longrightarrow> map_of (varints gs) n = Some x"
  by (induction gs) (auto split: raw.splits if_splits)

lemma varint_field_some:
  "field_of n fs = Some v \<Longrightarrow> raw_of v = Varint x \<Longrightarrow> varint_field n (wire_finish fs) = Inr (Some x)"
  unfolding field_of_def varint_field_wire by (simp add: varints_some)

lemma varint_field_none:
  "field_of n fs = None \<Longrightarrow> varint_field n (wire_finish fs) = Inr None"
  unfolding field_of_def varint_field_wire by (auto simp: map_of_eq_None_iff image_iff split: raw.splits)

lemma blobs_of_last: "field_of n fs = Some (Blob b) \<Longrightarrow> blobs_of n fs \<noteq> [] \<and> last (blobs_of n fs) = b"
  by (induction fs rule: rev_induct) (auto simp: field_of_def blobs_of_def split: if_splits pval.splits)

lemma blobs_of_none: "field_of n fs = None \<Longrightarrow> blobs_of n fs = []"
  by (auto simp: field_of_def blobs_of_def map_of_eq_None_iff image_iff split: pval.splits)

interpretation wire: protobuf wire_format
proof (unfold_locales, goal_cases)
  case (9 fs n)
  then show ?case by (simp add: wire_format_def raw_fields_wire)
qed (auto simp: wire_format_def map_got_def varint_field_some varint_field_none raw_fields_wire blobs_of_last
    blobs_of_none)

end
