(* ===== verification/Codecs.thy ===== *)
theory Codecs
  imports Protobuf
begin

text \<open>
  The codecs of messages (\<^verbatim>\<open>waku_core/message/codec.nim\<close>) and of lightpush
  (\<^verbatim>\<open>waku_lightpush/rpc_codec.nim\<close>), over any protobuf library \<open>P\<close>. A codec is the list of fields
  it writes, in the order of the code, and a reader; under the laws of \<open>protobuf\<close> the reader gives
  back what was written, in the cases the theorems state.
\<close>

section \<open>Messages\<close>

definition message_fields :: "WakuMessage \<Rightarrow> fields" where
  "message_fields m =
     [(1, Blob (payload m)), (2, Blob (str_bytes (contentTopic m))), (3, U32 (version m)),
      (10, Z64 (word_of_int (timestamp m))), (11, Blob (meta m)), (21, Blob (msg_proof m)),
      (31, U32 (of_bool (ephemeral m)))]"

definition encode_message :: "pbuf \<Rightarrow> WakuMessage \<Rightarrow> bytes" where
  "encode_message P m = pb_finish P (message_fields m)"

definition decode_message :: "pbuf \<Rightarrow> bytes \<Rightarrow> ProtobufError + WakuMessage" where
  "decode_message P buffer =
     bind_res (required ''payload'' (pb_blob P 1 buffer)) (\<lambda>payload.
     bind_res (required ''content_topic'' (pb_blob P 2 buffer)) (\<lambda>topic.
     bind_res (default 0 (pb_u32 P 3 buffer)) (\<lambda>version.
     bind_res (default 0 (pb_z64 P 10 buffer)) (\<lambda>timestamp.
     bind_res (bind_res (default [] (pb_blob P 11 buffer)) (\<lambda>meta.
       if length meta > MaxMetaAttrLength then Inl (InvalidLengthField ''meta'') else Inr meta)) (\<lambda>meta.
     bind_res (default [] (pb_blob P 21 buffer)) (\<lambda>proof.
     bind_res (default 0 (pb_u32 P 31 buffer)) (\<lambda>ephemeral.
     Inr \<lparr>payload = payload, contentTopic = bytes_str topic, meta = meta, version = version,
       timestamp = sint timestamp, ephemeral = (ephemeral \<noteq> 0), msg_proof = proof\<rparr>)))))))"

text \<open>A timestamp is an int64, and what is encoded fits in memory.\<close>

definition int64 :: "int \<Rightarrow> bool" where
  "int64 t \<longleftrightarrow> - (2 ^ 63) \<le> t \<and> t < 2 ^ 63"

lemma sint_int64: "int64 t \<Longrightarrow> sint (word_of_int t :: u64) = t"
  by (simp add: int64_def signed_of_int signed_take_bit_int_eq_self_iff)

definition encodable :: "WakuMessage \<Rightarrow> bool" where
  "encodable m \<longleftrightarrow> int64 (timestamp m) \<and> writable (message_fields m)"

context protobuf
begin

lemma decode_encode_message:
  assumes "encodable m"
  shows "decode_message P (encode_message P m) =
    (if length (meta m) > MaxMetaAttrLength then Inl (InvalidLengthField ''meta'') else Inr m)"
proof -
  let ?buf = "pb_finish P (message_fields m)"
  have w: "writable (message_fields m)" and t: "int64 (timestamp m)" using assms by (simp_all add: encodable_def)
  have "pb_blob P 1 ?buf = Inr (Some (payload m))" "pb_blob P 2 ?buf = Inr (Some (str_bytes (contentTopic m)))"
    "pb_blob P 11 ?buf = Inr (Some (meta m))" "pb_blob P 21 ?buf = Inr (Some (msg_proof m))"
    by (rule blob_written [OF w]; simp add: message_fields_def field_simps)+
  moreover have "pb_u32 P 3 ?buf = Inr (Some (version m))" "pb_u32 P 31 ?buf = Inr (Some (of_bool (ephemeral m)))"
    by (rule u32_written [OF w]; simp add: message_fields_def field_simps)+
  moreover have "pb_z64 P 10 ?buf = Inr (Some (word_of_int (timestamp m)))"
    by (rule z64_written [OF w]) (simp add: message_fields_def field_simps)
  ultimately show ?thesis
    by (simp add: encode_message_def decode_message_def sint_int64 [OF t])
qed

end

section \<open>Lightpush\<close>

record PushRequest =
  pq_pubSubTopic :: PubsubTopic
  pq_message :: WakuMessage

record PushResponse =
  isSuccess :: bool
  info :: "string option"

record PushRPC =
  pr_requestId :: string
  pr_request :: "PushRequest option"
  pr_response :: "PushResponse option"

definition push_request_fields :: "pbuf \<Rightarrow> PushRequest \<Rightarrow> fields" where
  "push_request_fields P rpc =
     [(1, Blob (str_bytes (pq_pubSubTopic rpc))), (2, Blob (encode_message P (pq_message rpc)))]"

definition decode_push_request :: "pbuf \<Rightarrow> bytes \<Rightarrow> ProtobufError + PushRequest" where
  "decode_push_request P buffer =
     bind_res (required ''pubsub_topic'' (pb_blob P 1 buffer)) (\<lambda>topic.
     bind_res (required ''message'' (pb_blob P 2 buffer)) (\<lambda>messageBuf.
     bind_res (decode_message P messageBuf) (\<lambda>m.
     Inr \<lparr>pq_pubSubTopic = bytes_str topic, pq_message = m\<rparr>)))"

definition push_response_fields :: "PushResponse \<Rightarrow> fields" where
  "push_response_fields rpc =
     (1, U64 (of_bool (isSuccess rpc))) # opt_field 2 (map_option (Blob \<circ> str_bytes) (info rpc))"

definition decode_push_response :: "pbuf \<Rightarrow> bytes \<Rightarrow> ProtobufError + PushResponse" where
  "decode_push_response P buffer =
     bind_res (required ''is_success'' (pb_u64 P 1 buffer)) (\<lambda>success.
     bind_res (get (pb_blob P 2 buffer)) (\<lambda>info.
     Inr \<lparr>isSuccess = (success \<noteq> 0), info = map_option bytes_str info\<rparr>))"

definition push_rpc_fields :: "pbuf \<Rightarrow> PushRPC \<Rightarrow> fields" where
  "push_rpc_fields P rpc =
     (1, Blob (str_bytes (pr_requestId rpc)))
     # opt_field 2 (map_option (\<lambda>r. Blob (pb_finish P (push_request_fields P r))) (pr_request rpc))
     @ opt_field 3 (map_option (\<lambda>r. Blob (pb_finish P (push_response_fields r))) (pr_response rpc))"

definition encode_push_rpc :: "pbuf \<Rightarrow> PushRPC \<Rightarrow> bytes" where
  "encode_push_rpc P rpc = pb_finish P (push_rpc_fields P rpc)"

text \<open>\<^verbatim>\<open>opt.map(decode)\<close> with \<^verbatim>\<open>?\<close>.\<close>

definition decode_opt :: "(bytes \<Rightarrow> ProtobufError + 'a) \<Rightarrow> bytes option \<Rightarrow> ProtobufError + 'a option" where
  "decode_opt dec ob = (case ob of None \<Rightarrow> Inr None | Some b \<Rightarrow> bind_res (dec b) (\<lambda>x. Inr (Some x)))"

definition decode_push_rpc :: "pbuf \<Rightarrow> bytes \<Rightarrow> ProtobufError + PushRPC" where
  "decode_push_rpc P buffer =
     bind_res (required ''request_id'' (pb_blob P 1 buffer)) (\<lambda>requestId.
     bind_res (bind_res (get (pb_blob P 2 buffer)) (decode_opt (decode_push_request P))) (\<lambda>request.
     bind_res (bind_res (get (pb_blob P 3 buffer)) (decode_opt (decode_push_response P))) (\<lambda>response.
     Inr \<lparr>pr_requestId = bytes_str requestId, pr_request = request, pr_response = response\<rparr>)))"

text \<open>The sizes of everything written; what cannot be decoded of a request is a too long \<^verbatim>\<open>meta\<close>.\<close>

definition push_rpc_encodable :: "pbuf \<Rightarrow> PushRPC \<Rightarrow> bool" where
  "push_rpc_encodable P rpc \<longleftrightarrow> writable (push_rpc_fields P rpc)
     \<and> pred_option (\<lambda>r. writable (push_request_fields P r) \<and> encodable (pq_message r)) (pr_request rpc)
     \<and> pred_option (\<lambda>r. writable (push_response_fields r)) (pr_response rpc)"

definition meta_fits :: "WakuMessage \<Rightarrow> bool" where
  "meta_fits m \<longleftrightarrow> length (meta m) \<le> MaxMetaAttrLength"

context protobuf
begin

lemma decode_encode_push_request:
  assumes "writable (push_request_fields P r)" and "encodable (pq_message r)"
  shows "decode_push_request P (pb_finish P (push_request_fields P r)) =
    (if meta_fits (pq_message r) then Inr r else Inl (InvalidLengthField ''meta''))"
proof -
  let ?buf = "pb_finish P (push_request_fields P r)"
  have "pb_blob P 1 ?buf = Inr (Some (str_bytes (pq_pubSubTopic r)))"
    "pb_blob P 2 ?buf = Inr (Some (encode_message P (pq_message r)))"
    by (rule blob_written [OF assms(1)]; simp add: push_request_fields_def field_simps)+
  then show ?thesis
    by (simp add: decode_push_request_def decode_encode_message [OF assms(2)] meta_fits_def)
qed

lemma decode_encode_push_response:
  assumes "writable (push_response_fields r)"
  shows "decode_push_response P (pb_finish P (push_response_fields r)) = Inr r"
proof -
  let ?buf = "pb_finish P (push_response_fields r)"
  have "pb_u64 P 1 ?buf = Inr (Some (of_bool (isSuccess r)))"
    by (rule u64_written [OF assms]) (simp add: push_response_fields_def field_simps)
  moreover have "pb_blob P 2 ?buf = Inr (map_option str_bytes (info r))"
    by (rule blob_opt [OF assms])
      (simp add: push_response_fields_def field_simps option.map_comp comp_def split: option.splits)
  ultimately show ?thesis by (simp add: decode_push_response_def option.map_comp comp_def option.map_ident)
qed

lemma decode_encode_push_rpc:
  assumes "push_rpc_encodable P rpc"
  shows "decode_push_rpc P (encode_push_rpc P rpc) =
    (if pred_option (meta_fits \<circ> pq_message) (pr_request rpc) then Inr rpc else Inl (InvalidLengthField ''meta''))"
proof -
  let ?buf = "pb_finish P (push_rpc_fields P rpc)"
  have w: "writable (push_rpc_fields P rpc)" using assms by (simp add: push_rpc_encodable_def)
  have 1: "pb_blob P 1 ?buf = Inr (Some (str_bytes (pr_requestId rpc)))"
    by (rule blob_written [OF w]) (simp add: push_rpc_fields_def field_simps)
  have 2: "pb_blob P 2 ?buf = Inr (map_option (\<lambda>r. pb_finish P (push_request_fields P r)) (pr_request rpc))"
    by (rule blob_opt [OF w]) (simp add: push_rpc_fields_def field_simps option.map_comp comp_def split: option.splits)
  have 3: "pb_blob P 3 ?buf = Inr (map_option (\<lambda>r. pb_finish P (push_response_fields r)) (pr_response rpc))"
    by (rule blob_opt [OF w]) (simp add: push_rpc_fields_def field_simps option.map_comp comp_def split: option.splits)
  have r: "decode_opt (decode_push_request P) (map_option (\<lambda>r. pb_finish P (push_request_fields P r)) (pr_request rpc))
      = (if pred_option (meta_fits \<circ> pq_message) (pr_request rpc) then Inr (pr_request rpc)
         else Inl (InvalidLengthField ''meta''))"
    using assms by (cases "pr_request rpc")
      (simp_all add: decode_opt_def push_rpc_encodable_def decode_encode_push_request)
  have p: "decode_opt (decode_push_response P) (map_option (\<lambda>r. pb_finish P (push_response_fields r)) (pr_response rpc))
      = Inr (pr_response rpc)"
    using assms by (cases "pr_response rpc")
      (simp_all add: decode_opt_def push_rpc_encodable_def decode_encode_push_response)
  show ?thesis by (simp add: encode_push_rpc_def decode_push_rpc_def 1 2 3 r p del: One_nat_def)
qed

end

end
