(* ===== verification/FilterWire.thy ===== *)
theory FilterWire
  imports FilterProtocol Codecs
begin

text \<open>
  The filter protocol on the wire: the codec (\<^verbatim>\<open>waku_filter_v2/rpc_codec.nim\<close>), the handler of a
  connection to the service (\<^verbatim>\<open>protocol.nim\<close>), and the client
  (\<^verbatim>\<open>client.nim\<close>), which subscribes and receives pushes. The protobuf library is the parameter \<open>P\<close>;
  these encoders do not call \<^verbatim>\<open>finish3\<close>, which changes nothing of the bytes written. A
  dial, and an exchange on a connection, are given as what they answer.
\<close>

section \<open>The codec\<close>

record MessagePush =
  wakuMessage :: WakuMessage
  mp_pubsubTopic :: PubsubTopic

fun type_code :: "FilterSubscribeType \<Rightarrow> u32" where
  "type_code SUBSCRIBER_PING = 0"
| "type_code SUBSCRIBE = 1"
| "type_code UNSUBSCRIBE = 2"
| "type_code UNSUBSCRIBE_ALL = 3"

definition filter_request_fields :: "FilterSubscribeRequest \<Rightarrow> fields" where
  "filter_request_fields rpc =
     [(1, Blob (str_bytes (requestId rpc))), (2, U32 (type_code (filterSubscribeType rpc)))]
     @ opt_field 10 (map_option (Blob \<circ> str_bytes) (rq_pubsubTopic rpc))
     @ rep_field 11 (map str_bytes (contentTopics rpc))"

definition encode_filter_request :: "pbuf \<Rightarrow> FilterSubscribeRequest \<Rightarrow> bytes" where
  "encode_filter_request P rpc = pb_finish P (filter_request_fields rpc)"

text \<open>The conversion of the type raises \<open>RangeDefect\<close> on a number that is no type.\<close>

definition decode_type :: "u32 option \<Rightarrow> FilterSubscribeType exec" where
  "decode_type t =
     (case t of
        None \<Rightarrow> Done SUBSCRIBER_PING
      | Some w \<Rightarrow>
          if w = 0 then Done SUBSCRIBER_PING else if w = 1 then Done SUBSCRIBE
          else if w = 2 then Done UNSUBSCRIBE else if w = 3 then Done UNSUBSCRIBE_ALL else Fault RangeDefect)"

definition decode_filter_request :: "pbuf \<Rightarrow> bytes \<Rightarrow> (ProtobufError + FilterSubscribeRequest) exec" where
  "decode_filter_request P buffer =
     (case bind_res (required ''request_id'' (pb_blob P 1 buffer)) (\<lambda>rid.
           bind_res (get (pb_u32 P 2 buffer)) (\<lambda>t. Inr (rid, t))) of
        Inl e \<Rightarrow> Done (Inl e)
      | Inr (rid, t) \<Rightarrow>
          bind_exec (decode_type t) (\<lambda>type. Done (
            bind_res (get (pb_blob P 10 buffer)) (\<lambda>topic.
            bind_res (default [] (pb_blobs P 11 buffer)) (\<lambda>topics.
            Inr \<lparr>requestId = bytes_str rid, filterSubscribeType = type, rq_pubsubTopic = map_option bytes_str topic,
              contentTopics = map bytes_str topics\<rparr>)))))"

definition filter_response_fields :: "FilterSubscribeResponse \<Rightarrow> fields" where
  "filter_response_fields rpc =
     [(1, Blob (str_bytes (rs_requestId rpc))), (10, U32 (statusCode rpc))]
     @ opt_field 11 (map_option (Blob \<circ> str_bytes) (statusDesc rpc))"

definition encode_filter_response :: "pbuf \<Rightarrow> FilterSubscribeResponse \<Rightarrow> bytes" where
  "encode_filter_response P rpc = pb_finish P (filter_response_fields rpc)"

definition decode_filter_response :: "pbuf \<Rightarrow> bytes \<Rightarrow> ProtobufError + FilterSubscribeResponse" where
  "decode_filter_response P buffer =
     bind_res (required ''request_id'' (pb_blob P 1 buffer)) (\<lambda>rid.
     bind_res (required ''status_code'' (pb_u32 P 10 buffer)) (\<lambda>code.
     bind_res (get (pb_blob P 11 buffer)) (\<lambda>desc.
     Inr \<lparr>rs_requestId = bytes_str rid, statusCode = code, statusDesc = map_option bytes_str desc\<rparr>)))"

definition message_push_fields :: "pbuf \<Rightarrow> MessagePush \<Rightarrow> fields" where
  "message_push_fields P rpc =
     [(1, Blob (encode_message P (wakuMessage rpc))), (2, Blob (str_bytes (mp_pubsubTopic rpc)))]"

definition encode_message_push :: "pbuf \<Rightarrow> MessagePush \<Rightarrow> bytes" where
  "encode_message_push P rpc = pb_finish P (message_push_fields P rpc)"

definition decode_message_push :: "pbuf \<Rightarrow> bytes \<Rightarrow> ProtobufError + MessagePush" where
  "decode_message_push P buffer =
     bind_res (required ''message'' (pb_blob P 1 buffer)) (\<lambda>message.
     bind_res (decode_message P message) (\<lambda>m.
     bind_res (required ''pubsub_topic'' (pb_blob P 2 buffer)) (\<lambda>topic.
     Inr \<lparr>wakuMessage = m, mp_pubsubTopic = bytes_str topic\<rparr>)))"

section \<open>The connection to the service\<close>

text \<open>The bytes written back, if any: a request that cannot be decoded is not answered.\<close>

definition handle_filter ::
  "pbuf \<Rightarrow> hash_order \<Rightarrow> clocks \<Rightarrow> PeerId \<Rightarrow> bytes \<Rightarrow> FilterSubscriptions
     \<Rightarrow> (bytes option \<times> FilterSubscriptions) exec" where
  "handle_filter P hs ck p buf s =
     bind_exec (decode_filter_request P buf) (\<lambda>decoded.
       case decoded of
         Inl e \<Rightarrow> Done (None, s)
       | Inr request \<Rightarrow>
           bind_exec (handleSubscribeRequest hs ck p request s) (\<lambda>(response, s').
             Done (Some (encode_filter_response P response), s')))"

section \<open>The client\<close>

definition ping_call :: "string \<Rightarrow> FilterSubscribeRequest" where
  "ping_call rid = \<lparr>requestId = rid, filterSubscribeType = SUBSCRIBER_PING, rq_pubsubTopic = None, contentTopics = []\<rparr>"

definition subscribe_call :: "string \<Rightarrow> PubsubTopic \<Rightarrow> ContentTopic list \<Rightarrow> FilterSubscribeRequest" where
  "subscribe_call rid topic cts =
     \<lparr>requestId = rid, filterSubscribeType = SUBSCRIBE, rq_pubsubTopic = Some topic, contentTopics = cts\<rparr>"

definition unsubscribe_call :: "string \<Rightarrow> PubsubTopic \<Rightarrow> ContentTopic list \<Rightarrow> FilterSubscribeRequest" where
  "unsubscribe_call rid topic cts =
     \<lparr>requestId = rid, filterSubscribeType = UNSUBSCRIBE, rq_pubsubTopic = Some topic, contentTopics = cts\<rparr>"

definition unsubscribe_all_call :: "string \<Rightarrow> FilterSubscribeRequest" where
  "unsubscribe_all_call rid =
     \<lparr>requestId = rid, filterSubscribeType = UNSUBSCRIBE_ALL, rq_pubsubTopic = None, contentTopics = []\<rparr>"

datatype filter_exchange = Write_error string | Read_error string | Answer bytes
datatype dialled = Dial_failed | Dial_error string | Connected "bytes \<Rightarrow> filter_exchange"

definition sendSubscribeRequest ::
  "pbuf \<Rightarrow> string \<Rightarrow> dialled \<Rightarrow> FilterSubscribeRequest \<Rightarrow> FilterSubscribeError + unit" where
  "sendSubscribeRequest P servicePeer conn rq =
     (case conn of
        Dial_failed \<Rightarrow> Inl (PEER_DIAL_FAILURE servicePeer)
      | Dial_error msg \<Rightarrow> Inl (BAD_RESPONSE (''failed to dialPeer: '' @ msg))
      | Connected connection \<Rightarrow>
          (case connection (encode_filter_request P rq) of
             Write_error msg \<Rightarrow> Inl (BAD_RESPONSE (''exception in waku_filter_v2 client writeLP: '' @ msg))
           | Read_error msg \<Rightarrow> Inl (BAD_RESPONSE (''exception in waku_filter_v2 client readLp: '' @ msg))
           | Answer respBuf \<Rightarrow>
               (case decode_filter_response P respBuf of
                  Inl e \<Rightarrow> Inl (BAD_RESPONSE ''decode_rpc_failure'')
                | Inr response \<Rightarrow>
                    if rs_requestId response \<noteq> requestId rq then Inl (BAD_RESPONSE ''request_id_mismatch'')
                    else if statusCode response \<noteq> 200 then
                      Inl (parse_filter_error (statusCode response)
                        (case statusDesc response of Some d \<Rightarrow> d | None \<Rightarrow> ''filter subscribe error'') [])
                    else Inr ())))"

text \<open>The handler of a push: the calls of the registered handlers, in their order.\<close>

definition receive_push :: "pbuf \<Rightarrow> (PubsubTopic \<Rightarrow> WakuMessage \<Rightarrow> 'c) list \<Rightarrow> bytes \<Rightarrow> 'c list" where
  "receive_push P pushHandlers buf =
     (case decode_message_push P buf of
        Inl e \<Rightarrow> []
      | Inr push \<Rightarrow> map (\<lambda>handler. handler (mp_pubsubTopic push) (wakuMessage push)) pushHandlers)"

text \<open>A connection to a service in the state \<open>s\<close>.\<close>

definition at_service ::
  "pbuf \<Rightarrow> hash_order \<Rightarrow> clocks \<Rightarrow> PeerId \<Rightarrow> FilterSubscriptions \<Rightarrow> string \<Rightarrow> bytes \<Rightarrow> filter_exchange" where
  "at_service P hs ck p s eof buf =
     (case handle_filter P hs ck p buf s of Done (Some reply, _) \<Rightarrow> Answer reply | _ \<Rightarrow> Read_error eof)"

section \<open>Round trips\<close>

definition push_ok :: "pbuf \<Rightarrow> MessagePush \<Rightarrow> bool" where
  "push_ok P mp \<longleftrightarrow> writable (message_push_fields P mp) \<and> encodable (wakuMessage mp)"

lemma decode_type_code [simp]: "decode_type (Some (type_code t)) = Done t"
  by (cases t) (simp_all add: decode_type_def)

context protobuf
begin

lemma decode_encode_filter_request:
  assumes w: "writable (filter_request_fields rq)"
  shows "decode_filter_request P (encode_filter_request P rq) = Done (Inr rq)"
proof -
  let ?buf = "pb_finish P (filter_request_fields rq)"
  note [simp del] = One_nat_def
  note f = filter_request_fields_def field_simps option.map_comp comp_def
  have 1: "pb_blob P 1 ?buf = Inr (Some (str_bytes (requestId rq)))"
    by (rule blob_written [OF w]) (simp add: f split: option.splits)
  have 2: "pb_u32 P 2 ?buf = Inr (Some (type_code (filterSubscribeType rq)))"
    by (rule u32_written [OF w]) (simp add: f split: option.splits)
  have 10: "pb_blob P 10 ?buf = Inr (map_option str_bytes (rq_pubsubTopic rq))"
    by (rule blob_opt [OF w]) (simp add: f split: option.splits)
  have 11: "default [] (pb_blobs P 11 ?buf) = Inr (map str_bytes (contentTopics rq))"
    by (rule blobs_rep [OF w]) (auto simp: f)
  show ?thesis
    by (simp add: decode_filter_request_def encode_filter_request_def 1 2 10 11 comp_def option.map_comp option.map_ident)
qed

lemma decode_encode_filter_response:
  assumes w: "writable (filter_response_fields r)"
  shows "decode_filter_response P (encode_filter_response P r) = Inr r"
proof -
  let ?buf = "pb_finish P (filter_response_fields r)"
  note [simp del] = One_nat_def
  note f = filter_response_fields_def field_simps option.map_comp comp_def
  have 1: "pb_blob P 1 ?buf = Inr (Some (str_bytes (rs_requestId r)))"
    by (rule blob_written [OF w]) (simp add: f split: option.splits)
  have 10: "pb_u32 P 10 ?buf = Inr (Some (statusCode r))"
    by (rule u32_written [OF w]) (simp add: f split: option.splits)
  have 11: "pb_blob P 11 ?buf = Inr (map_option str_bytes (statusDesc r))"
    by (rule blob_opt [OF w]) (simp add: f split: option.splits)
  show ?thesis
    by (simp add: decode_filter_response_def encode_filter_response_def 1 10 11 comp_def option.map_comp option.map_ident)
qed

lemma decode_encode_message_push:
  assumes "push_ok P mp"
  shows "decode_message_push P (encode_message_push P mp) =
    (if meta_fits (wakuMessage mp) then Inr mp else Inl (InvalidLengthField ''meta''))"
proof -
  let ?buf = "pb_finish P (message_push_fields P mp)"
  have w: "writable (message_push_fields P mp)" and m: "encodable (wakuMessage mp)"
    using assms by (simp_all add: push_ok_def)
  have "pb_blob P 1 ?buf = Inr (Some (encode_message P (wakuMessage mp)))"
    "pb_blob P 2 ?buf = Inr (Some (str_bytes (mp_pubsubTopic mp)))"
    by (rule blob_written [OF w]; simp add: message_push_fields_def field_simps)+
  then show ?thesis
    by (simp add: decode_message_push_def encode_message_push_def decode_encode_message [OF m] meta_fits_def)
qed

text \<open>What a client gets for a request, in terms of what the service answers.\<close>

lemma send_at_service:
  assumes "writable (filter_request_fields rq)" and "handleSubscribeRequest hs ck p rq s = Done (resp, s')"
    and "writable (filter_response_fields resp)"
  shows "handle_filter P hs ck p (encode_filter_request P rq) s = Done (Some (encode_filter_response P resp), s')"
    and "sendSubscribeRequest P peer (Connected (at_service P hs ck p s eof)) rq =
      (if statusCode resp = 200 then Inr ()
       else Inl (parse_filter_error (statusCode resp) (the (statusDesc resp)) []))"
proof -
  show h: "handle_filter P hs ck p (encode_filter_request P rq) s = Done (Some (encode_filter_response P resp), s')"
    by (simp add: handle_filter_def decode_encode_filter_request [OF assms(1)] assms(2))
  obtain r where "resp = respond (requestId rq) r"
    using assms(2) by (auto simp: handleSubscribeRequest_def)
  then have "rs_requestId resp = requestId rq" "statusDesc resp \<noteq> None"
    by (auto simp: respond_def split: sum.splits)
  then show "sendSubscribeRequest P peer (Connected (at_service P hs ck p s eof)) rq =
      (if statusCode resp = 200 then Inr ()
       else Inl (parse_filter_error (statusCode resp) (the (statusDesc resp)) []))"
    by (auto simp: sendSubscribeRequest_def at_service_def h decode_encode_filter_response [OF assms(3)])
qed

end

section \<open>End to end\<close>

text \<open>C13: the filter protocol from the client's subscription to its push handlers. Over any protobuf library that
  reads back what it writes, when a client's SUBSCRIBE returns without an error, the service
  has registered it: a later message on the topic and any of the content topics is pushed to
  the client while the subscription lasts and the client can be dialled, and the bytes
  pushed make the client call each of its handlers, in their order, with exactly that
  topic and message; a message with a \<^verbatim>\<open>meta\<close> of more than 64 bytes is pushed, and dropped by the
  client. Other subscribers keep their criteria.\<close>

theorem filter_end_to_end:
  assumes "protobuf P" and "hash_order_ok hs" and "writable (filter_request_fields (subscribe_call i topic cts))"
    and "\<forall>resp s'. handleSubscribeRequest hs ck p (subscribe_call i topic cts) s = Done (resp, s')
      \<longrightarrow> writable (filter_response_fields resp)"
    and "sendSubscribeRequest P peer (Connected (at_service P hs ck p s eof)) (subscribe_call i topic cts) = Inr ()"
    and "contentTopic msg \<in> set cts" and "push_ok P \<lparr>wakuMessage = msg, mp_pubsubTopic = topic\<rparr>"
    and "clk p - t_write ck \<le> subscriptionTimeout s" and "hasPeer p" and "dial p"
  shows "\<exists>reply s'. handle_filter P hs ck p (encode_filter_request P (subscribe_call i topic cts)) s = Done (Some reply, s')
    \<and> p \<in> handleMessage hasPeer dial clk topic msg s' \<and> (\<forall>q. q \<noteq> p \<longrightarrow> criteria_of s' q = criteria_of s q)
    \<and> receive_push P handlers (encode_message_push P \<lparr>wakuMessage = msg, mp_pubsubTopic = topic\<rparr>) =
        (if length (meta msg) \<le> 64 then map (\<lambda>h. h topic msg) handlers else [])"
proof -
  let ?rq = "subscribe_call i topic cts"
  obtain resp s' where h: "handleSubscribeRequest hs ck p ?rq s = Done (resp, s')"
    by (cases "subscribe hs ck p (Some topic) cts s") (simp add: handleSubscribeRequest_def subscribe_call_def)
  have w: "writable (filter_response_fields resp)" using assms(4) h by blast
  note sent = protobuf.send_at_service [OF assms(1,3) h w]
  have ok: "statusCode resp = 200" using sent(2) [of peer eof] assms(5) by (simp split: if_splits)
  have rq: "filterSubscribeType ?rq = SUBSCRIBE" "rq_pubsubTopic ?rq = Some topic" "contentTopic msg \<in> set (contentTopics ?rq)"
    using assms(6) by (simp_all add: subscribe_call_def)
  note delivered = subscription_delivered [OF assms(2) rq(1,2) h ok rq(3), of clk hasPeer dial, OF assms(8-10)]
  have "receive_push P handlers (encode_message_push P \<lparr>wakuMessage = msg, mp_pubsubTopic = topic\<rparr>) =
      (if length (meta msg) \<le> 64 then map (\<lambda>h. h topic msg) handlers else [])"
    using protobuf.decode_encode_message_push [OF assms(1,7)]
    by (simp add: receive_push_def meta_fits_def MaxMetaAttrLength_def)
  with sent(1) delivered show ?thesis by blast
qed

definition push_hello :: MessagePush where
  "push_hello = \<lparr>wakuMessage = empty_message\<lparr>contentTopic := ''/a/1/b/c''\<rparr>, mp_pubsubTopic = ''/waku/2/t''\<rparr>"

lemma push_hello_ok: "push_ok wire_format push_hello"
proof -
  let ?m = "empty_message\<lparr>contentTopic := ''/a/1/b/c''\<rparr>"
  have m: "writable (message_fields ?m)" by (simp add: message_fields_def empty_message_def writable_def)
  then have "length (encode_message wire_format ?m) \<le> 1000"
    using length_wire_finish [OF m]
    by (simp add: encode_message_def wire_format_def message_fields_def empty_message_def field_size_def)
  then show ?thesis
    using m by (simp add: push_ok_def push_hello_def message_push_fields_def encodable_def int64_def empty_message_def writable_def)
qed

lemma filter_end_to_end_witness:
  "\<exists>s'. ''p'' \<in> handleMessage (\<lambda>_. True) (\<lambda>_. True) (\<lambda>_. 100) ''/waku/2/t'' (wakuMessage push_hello) s'
     \<and> receive_push wire_format [Pair, \<lambda>t m. (t, m)] (encode_message_push wire_format push_hello) =
         [(''/waku/2/t'', wakuMessage push_hello), (''/waku/2/t'', wakuMessage push_hello)]"
proof -
  let ?rq = "subscribe_call ''r'' ''/waku/2/t'' [''/a/1/b/c'']"
  have rq: "?rq = sample_request" by (simp add: subscribe_call_def sample_request_def)
  note h = sample_after [folded rq]
  have w: "writable (filter_request_fields ?rq)"
    by (simp add: subscribe_call_def filter_request_fields_def opt_field_def rep_field_def writable_def)
  have r: "writable (filter_response_fields (respond ''r'' (Inr ())))"
    by (simp add: respond_def filter_response_fields_def opt_field_def writable_def)
  have c: "sendSubscribeRequest wire_format ''q'' (Connected (at_service wire_format id sample_clocks ''p'' sample_subs ''eof'')) ?rq = Inr ()"
    using wire.send_at_service(2) [OF w h r] by (simp add: respond_def)
  have p: "push_ok wire_format \<lparr>wakuMessage = wakuMessage push_hello, mp_pubsubTopic = ''/waku/2/t''\<rparr>"
    using push_hello_ok by (simp add: push_hello_def)
  have t: "contentTopic (wakuMessage push_hello) \<in> set [''/a/1/b/c'']"
    "(\<lambda>_. 100) ''p'' - t_write sample_clocks \<le> subscriptionTimeout sample_subs"
    by (simp_all add: push_hello_def sample_clocks_def sample_subs_def init_subs_def)
  have "\<forall>resp s'. handleSubscribeRequest id sample_clocks ''p'' ?rq sample_subs = Done (resp, s')
      \<longrightarrow> writable (filter_response_fields resp)"
    using h r by simp
  from filter_end_to_end [OF wire.protobuf_axioms hash_order_id w this c t(1) p t(2), of "\<lambda>_. True" "\<lambda>_. True" "[Pair, \<lambda>t m. (t, m)]"]
  show ?thesis by (auto simp: push_hello_def empty_message_def)
qed

text \<open>The requests that stop the filter service. In every state the service can reach, a request of a remote
  peer ends in a fault exactly when its id is readable and its type is a number above 3, and
  the fault is \<^verbatim>\<open>RangeDefect\<close>; every other sequence of bytes is answered, or ignored if it
  cannot be decoded.\<close>

theorem filter_remote_fault:
  assumes "filter_reachable hs s" and "hash_order_ok hs"
  shows "handle_filter P hs ck p raw s = Fault f \<longleftrightarrow>
    f = RangeDefect \<and> (\<exists>rid t. pb_blob P 1 raw = Inr (Some rid) \<and> pb_u32 P 2 raw = Inr (Some t) \<and> 3 < t)"
proof -
  have returns: "handleSubscribeRequest hs ck p rq s \<noteq> Fault e" for rq e
    using handle_returns [OF reachable_inv [OF assms], of hs ck p rq] by auto
  have bad: "decode_type t = Fault e \<longleftrightarrow> e = RangeDefect \<and> (\<exists>w. t = Some w \<and> 3 < w)" for t e
  proof -
    have "3 < w \<longleftrightarrow> w \<noteq> 0 \<and> w \<noteq> 1 \<and> w \<noteq> 2 \<and> w \<noteq> 3" for w :: u32
      by (simp add: word_less_nat_alt word_unat_eq_iff) presburger
    then show ?thesis by (auto simp: decode_type_def split: option.splits)
  qed
  have fault: "bind_exec m k = Fault e \<longleftrightarrow> m = Fault e \<or> (\<exists>x. m = Done x \<and> k x = Fault e)" for m k e
    by (cases m) auto
  have "decode_filter_request P raw = Fault f \<longleftrightarrow>
      f = RangeDefect \<and> (\<exists>rid t. pb_blob P 1 raw = Inr (Some rid) \<and> pb_u32 P 2 raw = Inr (Some t) \<and> 3 < t)"
    by (auto simp: decode_filter_request_def fault bad required_def get_def split: sum.splits option.splits)
  moreover have "handle_filter P hs ck p raw s = Fault f \<longleftrightarrow> decode_filter_request P raw = Fault f"
  proof (cases "decode_filter_request P raw")
    case (Done x)
    then show ?thesis by (cases x) (simp_all add: handle_filter_def fault returns split: prod.split)
  qed (simp add: handle_filter_def)
  ultimately show ?thesis by simp
qed

lemma filter_remote_fault_witness:
  "handle_filter wire_format id sample_clocks ''p'' [10, 0, 16, 4] sample_subs = Fault RangeDefect"
proof -
  have r: "filter_reachable id sample_subs" unfolding sample_subs_def by (rule start)
  have "pb_blob wire_format 1 [10, 0, 16, 4] = Inr (Some [])" "pb_u32 wire_format 2 [10, 0, 16, 4] = Inr (Some 4)"
    by code_simp+
  then show ?thesis unfolding filter_remote_fault [OF r hash_order_id] by simp
qed

end
