(* ===== verification/RateLimit.thy ===== *)
theory RateLimit
  imports Prelude
begin

text \<open>
  The rate limit of the request protocols: the token bucket (\<^verbatim>\<open>waku/common/tokenbucket.nim\<close>) and
  its use (\<^verbatim>\<open>waku/common/ratelimit.nim\<close>). Moments and durations of chronos are nanoseconds;
  \<^verbatim>\<open>milliseconds\<close> counts whole milliseconds. Nim's integers are \<open>int\<close>.
\<close>

section \<open>The bucket\<close>

record TokenBucket =
  budget :: int
  budgetCap :: int
  lastTimeFull :: int
  fillDuration :: int

definition milliseconds :: "int \<Rightarrow> int" where
  "milliseconds d = d div 1000000"

definition bucket_update :: "TokenBucket \<Rightarrow> int \<Rightarrow> TokenBucket" where
  "bucket_update b currentTime =
     (if fillDuration b = 0 then b\<lparr>budget := min (budgetCap b) (budget b)\<rparr>
      else if milliseconds (currentTime - lastTimeFull b) < milliseconds (fillDuration b) then b
      else b\<lparr>budget := budgetCap b, lastTimeFull := currentTime\<rparr>)"

definition tryConsume :: "TokenBucket \<Rightarrow> int \<Rightarrow> int \<Rightarrow> bool \<times> TokenBucket" where
  "tryConsume b tokens now =
     (let b = (if budget b = budgetCap b then b\<lparr>lastTimeFull := now\<rparr> else b)
      in if budget b \<ge> tokens then (True, b\<lparr>budget := budget b - tokens\<rparr>)
         else (let b = bucket_update b now
               in if budget b \<ge> tokens then (True, b\<lparr>budget := budget b - tokens\<rparr>) else (False, b)))"

definition replenish :: "TokenBucket \<Rightarrow> int \<Rightarrow> int \<Rightarrow> TokenBucket" where
  "replenish b tokens now = bucket_update (b\<lparr>budget := budget b + tokens\<rparr>) now"

definition new_bucket :: "int \<Rightarrow> int \<Rightarrow> int \<Rightarrow> TokenBucket" where
  "new_bucket cap fill now = \<lparr>budget = cap, budgetCap = cap, lastTimeFull = now, fillDuration = fill\<rparr>"

section \<open>The limit of a protocol\<close>

definition newTokenBucket :: "(int \<times> int) option \<Rightarrow> int \<Rightarrow> TokenBucket option" where
  "newTokenBucket setting now =
     (case setting of
        None \<Rightarrow> None
      | Some (volume, period) \<Rightarrow>
          if volume \<le> 0 \<or> period \<le> 0 then None else Some (new_bucket volume period now))"

definition checkUsage :: "TokenBucket option \<Rightarrow> int \<Rightarrow> bool \<times> TokenBucket option" where
  "checkUsage t now =
     (case t of
        None \<Rightarrow> (True, None)
      | Some b \<Rightarrow> (case tryConsume b 1 now of (ok, b') \<Rightarrow> (ok, Some b')))"

text \<open>Requests at the given times: how many are served.\<close>

fun served :: "TokenBucket option \<Rightarrow> int list \<Rightarrow> nat" where
  "served t [] = 0"
| "served t (now # ts) =
     (case checkUsage t now of (ok, t') \<Rightarrow> (if ok then 1 else 0) + served t' ts)"

section \<open>Bounds\<close>

lemma sorted_le_last: "sorted xs \<Longrightarrow> x \<in> set xs \<Longrightarrow> x \<le> last xs" for xs :: "int list"
  by (induction xs) auto

definition bucket_ok :: "TokenBucket \<Rightarrow> bool" where
  "bucket_ok b \<longleftrightarrow> 0 \<le> budget b \<and> budget b \<le> budgetCap b \<and> 1 \<le> budgetCap b \<and> 1000000 \<le> fillDuration b"

text \<open>The period in which the bucket is filled once: whole milliseconds.\<close>

definition fill_period :: "TokenBucket \<Rightarrow> int" where
  "fill_period b = 1000000 * milliseconds (fillDuration b)"

lemma fill_period_pos: "bucket_ok b \<Longrightarrow> 0 < fill_period b"
  by (simp add: bucket_ok_def fill_period_def milliseconds_def) linarith

lemma not_yet_full:
  "milliseconds d < milliseconds (fillDuration b) \<longleftrightarrow> d < fill_period b"
  by (simp add: milliseconds_def fill_period_def) linarith

text \<open>What one request does to a bucket that is in order.\<close>

lemma consume_cases:
  assumes "bucket_ok b" and "lastTimeFull b \<le> now"
  obtains
    (full) "budget b = budgetCap b"
      "tryConsume b 1 now = (True, b\<lparr>lastTimeFull := now, budget := budget b - 1\<rparr>)"
  | (some) "0 < budget b" "budget b < budgetCap b" "tryConsume b 1 now = (True, b\<lparr>budget := budget b - 1\<rparr>)"
  | (refill) "budget b = 0" "fill_period b \<le> now - lastTimeFull b"
      "tryConsume b 1 now = (True, b\<lparr>lastTimeFull := now, budget := budgetCap b - 1\<rparr>)"
  | (refused) "budget b = 0" "now - lastTimeFull b < fill_period b" "tryConsume b 1 now = (False, b)"
proof -
  have b: "0 \<le> budget b" "budget b \<le> budgetCap b" "1 \<le> budgetCap b" "fillDuration b \<noteq> 0"
    using assms(1) by (auto simp: bucket_ok_def)
  consider "budget b = budgetCap b" | "0 < budget b" "budget b < budgetCap b"
    | "budget b = 0" "budget b < budgetCap b" using b by linarith
  then show thesis
  proof cases
    case 1
    then show thesis using full b by (simp add: tryConsume_def)
  next
    case 2
    then show thesis using some by (simp add: tryConsume_def)
  next
    case 3
    then show thesis
      using refill refused b
      by (cases "now - lastTimeFull b < fill_period b")
        (simp_all add: tryConsume_def bucket_update_def not_yet_full)
  qed
qed

lemma checkUsage_Some: "checkUsage (Some b) now = map_prod id Some (tryConsume b 1 now)"
  by (simp add: checkUsage_def split: prod.splits)

lemma div_mono_fill: "bucket_ok b \<Longrightarrow> x \<le> y \<Longrightarrow> budgetCap b * (x div fill_period b) \<le> budgetCap b * (y div fill_period b)"
  by (intro mult_left_mono zdiv_mono1 fill_period_pos) (simp_all add: bucket_ok_def)

lemma served_le:
  assumes "bucket_ok b" and "sorted ts" and "\<forall>t \<in> set ts. lastTimeFull b \<le> t \<and> t \<le> e" and "lastTimeFull b \<le> e"
  shows "int (served (Some b) ts) \<le> budget b + budgetCap b * ((e - lastTimeFull b) div fill_period b)"
  using assms
proof (induction ts arbitrary: b)
  case Nil
  then show ?case
    using pos_imp_zdiv_nonneg_iff [OF fill_period_pos [OF Nil.prems(1)], of "e - lastTimeFull b"]
    by (simp add: bucket_ok_def)
next
  case (Cons now ts)
  note ok = Cons.prems(1)
  have now: "lastTimeFull b \<le> now" "now \<le> e" "sorted ts" "\<forall>t \<in> set ts. now \<le> t \<and> t \<le> e"
    using Cons.prems(2,3) by auto
  have p: "0 < fill_period b" by (rule fill_period_pos [OF ok])
  have later: "budgetCap b * ((e - now) div fill_period b) \<le> budgetCap b * ((e - lastTimeFull b) div fill_period b)"
    using now(1) by (intro div_mono_fill [OF ok]) simp
  from ok now(1) show ?case
  proof (cases rule: consume_cases)
    case full
    let ?b = "b\<lparr>lastTimeFull := now, budget := budget b - 1\<rparr>"
    have "bucket_ok ?b" using ok full(1) by (simp add: bucket_ok_def)
    from Cons.IH [OF this now(3)] now(2,4) later show ?thesis
      by (simp add: checkUsage_Some full(2) fill_period_def)
  next
    case some
    have "bucket_ok (b\<lparr>budget := budget b - 1\<rparr>)" using ok some by (simp add: bucket_ok_def)
    from Cons.IH [OF this now(3)] Cons.prems(3,4) show ?thesis
      by (simp add: checkUsage_Some some(3) fill_period_def)
  next
    case refill
    let ?b = "b\<lparr>lastTimeFull := now, budget := budgetCap b - 1\<rparr>"
    have "bucket_ok ?b" using ok by (simp add: bucket_ok_def)
    from Cons.IH [OF this now(3)] now(2,4)
    have "int (served (Some ?b) ts) \<le> budgetCap b - 1 + budgetCap b * ((e - now) div fill_period b)"
      by (simp add: fill_period_def)
    moreover have "budgetCap b * ((e - now + fill_period b) div fill_period b)
        \<le> budgetCap b * ((e - lastTimeFull b) div fill_period b)"
      using refill(2) by (intro div_mono_fill [OF ok]) simp
    moreover have "(e - now + fill_period b) div fill_period b = (e - now) div fill_period b + 1"
      using p by (simp add: div_add_self2)
    ultimately show ?thesis
      by (simp add: checkUsage_Some refill(1,3) distrib_left)
  next
    case refused
    from Cons.IH [OF ok now(3)] Cons.prems(3,4) show ?thesis
      by (simp add: checkUsage_Some refused(3))
  qed
qed

text \<open>The bucket after the requests.\<close>

fun bucket_after :: "TokenBucket \<Rightarrow> int list \<Rightarrow> TokenBucket" where
  "bucket_after b [] = b"
| "bucket_after b (now # ts) = bucket_after (snd (tryConsume b 1 now)) ts"

lemma bucket_after_ok:
  assumes "bucket_ok b" and "sorted ts" and "\<forall>t \<in> set ts. lastTimeFull b \<le> t"
  shows "bucket_ok (bucket_after b ts) \<and> fillDuration (bucket_after b ts) = fillDuration b
    \<and> lastTimeFull (bucket_after b ts) \<le> last (lastTimeFull b # ts)"
  using assms
proof (induction ts arbitrary: b)
  case (Cons now ts)
  have now: "lastTimeFull b \<le> now" "sorted ts" "\<forall>t \<in> set ts. now \<le> t" "\<forall>t \<in> set ts. lastTimeFull b \<le> t"
    using Cons.prems(2,3) by auto
  let ?b = "snd (tryConsume b 1 now)"
  have b: "bucket_ok ?b" "fillDuration ?b = fillDuration b" "lastTimeFull ?b = now \<or> lastTimeFull ?b = lastTimeFull b"
    using Cons.prems(1) by (cases rule: consume_cases [OF Cons.prems(1) now(1)]; simp add: bucket_ok_def)+
  then have "bucket_ok (bucket_after ?b ts) \<and> fillDuration (bucket_after ?b ts) = fillDuration ?b
    \<and> lastTimeFull (bucket_after ?b ts) \<le> last (lastTimeFull ?b # ts)"
    using now by (intro Cons.IH) auto
  moreover have "last (lastTimeFull ?b # ts) \<le> last (lastTimeFull b # now # ts)" using b(3) now(1) by auto
  ultimately show ?case using b(2) by simp
qed simp

text \<open>A period below a millisecond counts as none: every request is served.\<close>

lemma tiny_period_unlimited:
  assumes "0 < fillDuration b" "fillDuration b < 1000000" "1 \<le> budgetCap b" "0 \<le> budget b" "lastTimeFull b \<le> now"
  shows "fst (checkUsage (Some b) now)"
  using assms by (auto simp: checkUsage_def tryConsume_def bucket_update_def milliseconds_def Let_def split: prod.splits)

text \<open>C28: the rate limit as it is configured and used. From its creation to any time \<open>e\<close> a protocol with
  the limit (volume, period), for a period of at least a millisecond, serves at most
  \<open>volume\<close> requests for every period begun, periods counted in whole milliseconds; and
  whatever was asked before, a request that comes a period after the last time the bucket
  was full is served.\<close>

theorem rate_limit:
  assumes "newTokenBucket (Some (volume, period)) t0 = Some b" and "1000000 \<le> period"
    and "sorted (t0 # ts)" and "last (t0 # ts) \<le> e"
  shows "int (served (Some b) ts) \<le> volume * (1 + (e - t0) div (1000000 * milliseconds period))
    \<and> (1000000 * milliseconds period \<le> e - lastTimeFull (bucket_after b ts)
        \<longrightarrow> fst (checkUsage (Some (bucket_after b ts)) e))"
proof -
  have b: "b = new_bucket volume period t0" "0 < volume"
    using assms(1) by (simp_all add: newTokenBucket_def split: if_splits)
  have ok: "bucket_ok b" using b assms(2) by (simp add: bucket_ok_def new_bucket_def)
  have ts: "sorted ts" "\<forall>t \<in> set ts. lastTimeFull b \<le> t \<and> t \<le> e" "lastTimeFull b \<le> e"
    using assms(3,4) sorted_le_last [OF assms(3)] by (force simp: b(1) new_bucket_def)+
  have after: "bucket_ok (bucket_after b ts)" "fillDuration (bucket_after b ts) = period"
    "lastTimeFull (bucket_after b ts) \<le> e"
    using bucket_after_ok [OF ok ts(1)] ts(2) assms(4) by (auto simp: b(1) new_bucket_def split: if_splits)
  have "fst (checkUsage (Some (bucket_after b ts)) e)"
    if "1000000 * milliseconds period \<le> e - lastTimeFull (bucket_after b ts)"
    by (rule consume_cases [OF after(1,3)])
      (use that after(2) in \<open>simp_all add: checkUsage_Some fill_period_def\<close>)
  then show ?thesis
    using served_le [OF ok ts] by (simp add: b(1) new_bucket_def fill_period_def distrib_left)
qed

lemma rate_limit_witness:
  "served (newTokenBucket (Some (2, 5000000)) 0) [0, 1, 2, 3, 5000000, 5000001, 5000002] = 4
    \<and> int (served (Some (new_bucket 2 5000000 0)) [0, 1, 2, 3, 5000000, 5000001, 5000002]) \<le> 4"
proof
  show "served (newTokenBucket (Some (2, 5000000)) 0) [0, 1, 2, 3, 5000000, 5000001, 5000002] = 4"
    by (simp add: newTokenBucket_def new_bucket_def checkUsage_def tryConsume_def bucket_update_def milliseconds_def)
  have b: "newTokenBucket (Some (2, 5000000)) 0 = Some (new_bucket 2 5000000 0)" by (simp add: newTokenBucket_def)
  show "int (served (Some (new_bucket 2 5000000 0)) [0, 1, 2, 3, 5000000, 5000001, 5000002]) \<le> 4"
    using rate_limit [OF b, of "[0, 1, 2, 3, 5000000, 5000001, 5000002]" 5000003] by (simp add: milliseconds_def)
qed

end
