(* ===== verification/StoreProtocol.thy ===== *)
theory StoreProtocol
  imports Codecs RateLimit
begin

text \<open>
  The store protocol (\<^verbatim>\<open>waku/waku_store\<close>): its requests and responses (\<^verbatim>\<open>common.nim\<close>), their codec
  (\<^verbatim>\<open>rpc_codec.nim\<close>), the service (\<^verbatim>\<open>protocol.nim\<close>), the requests of a node to itself
  (\<^verbatim>\<open>self_req_handler.nim\<close>) and the client (\<^verbatim>\<open>client.nim\<close>). The handler that answers a request
  from the archive is a parameter. A connection is what writing and reading on it give: the
  texts of exceptions, or the bytes that come back.
\<close>

section \<open>Requests and responses\<close>

type_synonym hash = bytes  \<comment> \<open>\<^verbatim>\<open>WakuMessageHash\<close>, 32 bytes\<close>

datatype PagingDirection = BACKWARD | FORWARD

record StoreQueryRequest =
  requestId :: string
  includeData :: bool
  sq_pubsubTopic :: "PubsubTopic option"
  sq_contentTopics :: "ContentTopic list"
  startTime :: "Timestamp option"
  endTime :: "Timestamp option"
  messageHashes :: "hash list"
  paginationCursor :: "hash option"
  paginationForward :: PagingDirection
  paginationLimit :: "u64 option"

record WakuMessageKeyValue =
  messageHash :: hash
  kv_message :: "WakuMessage option"
  kv_pubsubTopic :: "PubsubTopic option"

record StoreQueryResponse =
  sr_requestId :: string
  sr_statusCode :: u32
  sr_statusDesc :: string
  sr_messages :: "WakuMessageKeyValue list"
  sr_paginationCursor :: "hash option"

definition empty_response :: StoreQueryResponse where
  "empty_response = \<lparr>sr_requestId = [], sr_statusCode = 0, sr_statusDesc = [], sr_messages = [],
     sr_paginationCursor = None\<rparr>"

datatype StoreError =
    PEER_DIAL_FAILURE string
  | BAD_RESPONSE string
  | BAD_REQUEST string
  | TOO_MANY_REQUESTS
  | SERVICE_UNAVAILABLE
  | UNKNOWN

fun error_code :: "StoreError \<Rightarrow> u32" where
  "error_code (PEER_DIAL_FAILURE a) = 504"
| "error_code (BAD_RESPONSE c) = 300"
| "error_code (BAD_REQUEST c) = 400"
| "error_code TOO_MANY_REQUESTS = 429"
| "error_code SERVICE_UNAVAILABLE = 503"
| "error_code UNKNOWN = 0"

fun show_store_error :: "StoreError \<Rightarrow> string" where
  "show_store_error (PEER_DIAL_FAILURE a) = ''PEER_DIAL_FAILURE: '' @ a"
| "show_store_error (BAD_RESPONSE c) = ''BAD_RESPONSE: '' @ c"
| "show_store_error (BAD_REQUEST c) = ''BAD_REQUEST: '' @ c"
| "show_store_error TOO_MANY_REQUESTS = ''TOO_MANY_REQUESTS''"
| "show_store_error SERVICE_UNAVAILABLE = ''SERVICE_UNAVAILABLE''"
| "show_store_error UNKNOWN = ''UNKNOWN''"

definition new_store_error :: "u32 \<Rightarrow> string \<Rightarrow> StoreError" where
  "new_store_error code desc =
     (if code = 300 then BAD_RESPONSE desc
      else if code = 400 then BAD_REQUEST desc
      else if code = 429 then TOO_MANY_REQUESTS
      else if code = 503 then SERVICE_UNAVAILABLE
      else if code = 504 then PEER_DIAL_FAILURE desc
      else UNKNOWN)"

section \<open>The codec\<close>

text \<open>\<^verbatim>\<open>copyFrom\<close> into an array of 32 zero bytes.\<close>

definition hash_of :: "bytes \<Rightarrow> hash" where
  "hash_of buf = take 32 (buf @ replicate 32 0)"

definition z64 :: "Timestamp \<Rightarrow> pval" where
  "z64 t = Z64 (word_of_int t)"

fun direction_code :: "PagingDirection \<Rightarrow> u32" where
  "direction_code BACKWARD = 0"
| "direction_code FORWARD = 1"

definition store_request_fields :: "StoreQueryRequest \<Rightarrow> fields" where
  "store_request_fields req =
     [(1, Blob (str_bytes (requestId req))), (2, U32 (of_bool (includeData req)))]
     @ opt_field 10 (map_option (Blob \<circ> str_bytes) (sq_pubsubTopic req))
     @ rep_field 11 (map str_bytes (sq_contentTopics req))
     @ opt_field 12 (map_option z64 (startTime req))
     @ opt_field 13 (map_option z64 (endTime req))
     @ rep_field 20 (messageHashes req)
     @ opt_field 51 (map_option Blob (paginationCursor req))
     @ [(52, U32 (direction_code (paginationForward req)))]
     @ opt_field 53 (map_option U64 (paginationLimit req))"

definition encode_store_request :: "pbuf \<Rightarrow> StoreQueryRequest \<Rightarrow> bytes" where
  "encode_store_request P req = pb_finish P (store_request_fields req)"

text \<open>
  Everything up to the direction; the direction; the limit. The conversion of the direction raises
  \<open>RangeDefect\<close> on a number that is no direction. Without one, \<^verbatim>\<open>PagingDirection.default()\<close>
  is \<^verbatim>\<open>system.default\<close> of the type, its value 0, and not the procedure \<^verbatim>\<open>default()\<close> of
  \<^verbatim>\<open>common/paging.nim\<close>, which takes no argument and returns \<^verbatim>\<open>FORWARD\<close>.
\<close>

definition decode_store_head :: "pbuf \<Rightarrow> bytes \<Rightarrow> ProtobufError + StoreQueryRequest" where
  "decode_store_head P buffer =
     bind_res (required ''request_id'' (pb_blob P 1 buffer)) (\<lambda>rid.
     bind_res (default 0 (pb_u32 P 2 buffer)) (\<lambda>inclData.
     bind_res (get (pb_blob P 10 buffer)) (\<lambda>topic.
     bind_res (default [] (pb_blobs P 11 buffer)) (\<lambda>topics.
     bind_res (get (pb_z64 P 12 buffer)) (\<lambda>start.
     bind_res (get (pb_z64 P 13 buffer)) (\<lambda>end.
     bind_res (default [] (pb_blobs P 20 buffer)) (\<lambda>hashes.
     bind_res (get (pb_blob P 51 buffer)) (\<lambda>cursor.
     Inr \<lparr>requestId = bytes_str rid, includeData = (inclData > 0), sq_pubsubTopic = map_option bytes_str topic,
       sq_contentTopics = map bytes_str topics, startTime = map_option sint start, endTime = map_option sint end,
       messageHashes = map hash_of hashes, paginationCursor = map_option hash_of cursor,
       paginationForward = FORWARD, paginationLimit = None\<rparr>))))))))"

definition decode_direction :: "u32 option \<Rightarrow> PagingDirection exec" where
  "decode_direction paging =
     (case paging of
        None \<Rightarrow> Done BACKWARD
      | Some p \<Rightarrow> if p = 0 then Done BACKWARD else if p = 1 then Done FORWARD else Fault RangeDefect)"

definition decode_store_request :: "pbuf \<Rightarrow> bytes \<Rightarrow> (ProtobufError + StoreQueryRequest) exec" where
  "decode_store_request P buffer =
     (case decode_store_head P buffer of
        Inl e \<Rightarrow> Done (Inl e)
      | Inr req \<Rightarrow>
          (case get (pb_u32 P 52 buffer) of
             Inl e \<Rightarrow> Done (Inl e)
           | Inr paging \<Rightarrow>
               bind_exec (decode_direction paging) (\<lambda>d.
               Done (bind_res (get (pb_u64 P 53 buffer)) (\<lambda>limit.
                 Inr (req\<lparr>paginationForward := d, paginationLimit := limit\<rparr>))))))"

definition key_value_fields :: "pbuf \<Rightarrow> WakuMessageKeyValue \<Rightarrow> fields" where
  "key_value_fields P kv =
     (1, Blob (messageHash kv))
     # (case (kv_message kv, kv_pubsubTopic kv) of
          (Some m, Some t) \<Rightarrow> [(2, Blob (encode_message P m)), (3, Blob (str_bytes t))]
        | _ \<Rightarrow> [])"

definition store_response_fields :: "pbuf \<Rightarrow> StoreQueryResponse \<Rightarrow> fields" where
  "store_response_fields P res =
     [(1, Blob (str_bytes (sr_requestId res))), (10, U32 (sr_statusCode res)), (11, Blob (str_bytes (sr_statusDesc res)))]
     @ rep_field 20 (map (\<lambda>kv. pb_finish P (key_value_fields P kv)) (sr_messages res))
     @ opt_field 51 (map_option Blob (sr_paginationCursor res))"

definition encode_store_response :: "pbuf \<Rightarrow> StoreQueryResponse \<Rightarrow> bytes" where
  "encode_store_response P res = pb_finish P (store_response_fields P res)"

definition decode_key_value :: "pbuf \<Rightarrow> bytes \<Rightarrow> ProtobufError + WakuMessageKeyValue" where
  "decode_key_value P buffer =
     bind_res (required ''message_hash'' (pb_blob P 1 buffer)) (\<lambda>buf.
     let bare = \<lparr>messageHash = hash_of buf, kv_message = None, kv_pubsubTopic = None\<rparr> in
     bind_res (get (pb_blob P 2 buffer)) (\<lambda>proto.
     case proto of
       None \<Rightarrow> Inr bare
     | Some pr \<Rightarrow>
         bind_res (get (pb_blob P 3 buffer)) (\<lambda>topic.
         case topic of
           None \<Rightarrow> Inr bare
         | Some t \<Rightarrow> bind_res (decode_message P pr) (\<lambda>m.
             Inr (bare\<lparr>kv_message := Some m, kv_pubsubTopic := Some (bytes_str t)\<rparr>)))))"

definition decode_store_response :: "pbuf \<Rightarrow> bytes \<Rightarrow> ProtobufError + StoreQueryResponse" where
  "decode_store_response P buffer =
     bind_res (required ''request_id'' (pb_blob P 1 buffer)) (\<lambda>rid.
     bind_res (required ''status_code'' (pb_u32 P 10 buffer)) (\<lambda>code.
     bind_res (required ''status_desc'' (pb_blob P 11 buffer)) (\<lambda>desc.
     bind_res (bind_res (default [] (pb_blobs P 20 buffer)) (decode_all (decode_key_value P))) (\<lambda>messages.
     bind_res (get (pb_blob P 51 buffer)) (\<lambda>cursor.
     Inr \<lparr>sr_requestId = bytes_str rid, sr_statusCode = code, sr_statusDesc = bytes_str desc,
       sr_messages = messages, sr_paginationCursor = map_option hash_of cursor\<rparr>)))))"

section \<open>Round trips\<close>

lemma hash_of_id [simp]: "length b = 32 \<Longrightarrow> hash_of b = b"
  by (simp add: hash_of_def)

definition store_request_ok :: "StoreQueryRequest \<Rightarrow> bool" where
  "store_request_ok req \<longleftrightarrow> writable (store_request_fields req)
     \<and> list_all (\<lambda>h. length h = 32) (messageHashes req) \<and> pred_option (\<lambda>h. length h = 32) (paginationCursor req)
     \<and> pred_option int64 (startTime req) \<and> pred_option int64 (endTime req)"

definition key_value_ok :: "pbuf \<Rightarrow> WakuMessageKeyValue \<Rightarrow> bool" where
  "key_value_ok P kv \<longleftrightarrow> writable (key_value_fields P kv) \<and> length (messageHash kv) = 32
     \<and> pred_option encodable (kv_message kv)"

definition store_response_ok :: "pbuf \<Rightarrow> StoreQueryResponse \<Rightarrow> bool" where
  "store_response_ok P res \<longleftrightarrow> writable (store_response_fields P res) \<and> list_all (key_value_ok P) (sr_messages res)
     \<and> pred_option (\<lambda>h. length h = 32) (sr_paginationCursor res)"

text \<open>A message travels with its topic or not at all.\<close>

definition normal_kv :: "WakuMessageKeyValue \<Rightarrow> WakuMessageKeyValue" where
  "normal_kv kv =
     (if kv_message kv = None \<or> kv_pubsubTopic kv = None then kv\<lparr>kv_message := None, kv_pubsubTopic := None\<rparr> else kv)"

definition kv_fits :: "WakuMessageKeyValue \<Rightarrow> bool" where
  "kv_fits kv \<longleftrightarrow> kv_pubsubTopic kv = None \<or> pred_option meta_fits (kv_message kv)"

context protobuf
begin

lemma z64_opt:
  assumes "writable fs" and "field_of n fs = map_option z64 ob"
  shows "pb_z64 P n (pb_finish P fs) = Inr (map_option word_of_int ob)"
  using assms z64_written z64_absent by (cases ob) (simp_all add: z64_def)

lemma decode_encode_store_request:
  assumes "store_request_ok req"
  shows "decode_store_request P (encode_store_request P req) = Done (Inr req)"
proof -
  let ?fs = "store_request_fields req"
  let ?buf = "pb_finish P ?fs"
  have w: "writable ?fs" using assms by (simp add: store_request_ok_def)
  note [simp del] = One_nat_def
  note f = store_request_fields_def field_simps option.map_comp comp_def
  have 1: "pb_blob P 1 ?buf = Inr (Some (str_bytes (requestId req)))"
    by (rule blob_written [OF w]) (simp add: f split: option.splits)
  have 2: "pb_u32 P 2 ?buf = Inr (Some (of_bool (includeData req)))"
    by (rule u32_written [OF w]) (simp add: f split: option.splits)
  have 10: "pb_blob P 10 ?buf = Inr (map_option str_bytes (sq_pubsubTopic req))"
    by (rule blob_opt [OF w]) (simp add: f split: option.splits)
  have 11: "default [] (pb_blobs P 11 ?buf) = Inr (map str_bytes (sq_contentTopics req))"
    by (rule blobs_rep [OF w]) (auto simp: f)
  have 12: "pb_z64 P 12 ?buf = Inr (map_option word_of_int (startTime req))"
    by (rule z64_opt [OF w]) (simp add: f split: option.splits)
  have 13: "pb_z64 P 13 ?buf = Inr (map_option word_of_int (endTime req))"
    by (rule z64_opt [OF w]) (simp add: f split: option.splits)
  have 20: "default [] (pb_blobs P 20 ?buf) = Inr (messageHashes req)"
    by (rule blobs_rep [OF w]) (auto simp: f)
  have 51: "pb_blob P 51 ?buf = Inr (paginationCursor req)"
    by (rule blob_opt [OF w]) (simp add: f split: option.splits)
  have 52: "pb_u32 P 52 ?buf = Inr (Some (direction_code (paginationForward req)))"
    by (rule u32_written [OF w]) (simp add: f split: option.splits)
  have 53: "pb_u64 P 53 ?buf = Inr (paginationLimit req)"
    by (rule u64_opt [OF w]) (simp add: f split: option.splits)
  have times: "map_option (\<lambda>t. sint (word_of_int t :: u64)) (startTime req) = startTime req"
    "map_option (\<lambda>t. sint (word_of_int t :: u64)) (endTime req) = endTime req"
    using assms by (cases "startTime req"; cases "endTime req"; simp add: store_request_ok_def sint_int64)+
  have hashes: "map hash_of (messageHashes req) = messageHashes req"
    "map_option hash_of (paginationCursor req) = paginationCursor req"
    using assms by (auto simp: store_request_ok_def list_all_iff map_idI option.map_ident_strong split: option.splits
        intro: map_idI) (cases "paginationCursor req"; simp)
  have head: "decode_store_head P ?buf = Inr (req\<lparr>paginationForward := FORWARD, paginationLimit := None\<rparr>)"
    by (simp add: decode_store_head_def 1 2 10 11 12 13 20 51 comp_def option.map_comp option.map_ident times hashes)
  show ?thesis
    by (cases "paginationForward req")
      (simp_all add: decode_store_request_def encode_store_request_def head 52 53 decode_direction_def)
qed

lemma decode_encode_key_value:
  assumes "key_value_ok P kv"
  shows "decode_key_value P (pb_finish P (key_value_fields P kv)) =
    (if kv_fits kv then Inr (normal_kv kv) else Inl (InvalidLengthField ''meta''))"
proof -
  let ?fs = "key_value_fields P kv"
  let ?buf = "pb_finish P ?fs"
  have w: "writable ?fs" and h: "length (messageHash kv) = 32" and m: "pred_option encodable (kv_message kv)"
    using assms by (simp_all add: key_value_ok_def)
  note [simp del] = One_nat_def
  have 1: "pb_blob P 1 ?buf = Inr (Some (messageHash kv))"
    by (rule blob_written [OF w]) (simp add: key_value_fields_def field_simps split: option.splits)
  show ?thesis
  proof (cases "kv_message kv = None \<or> kv_pubsubTopic kv = None")
    case True
    then have "pb_blob P 2 ?buf = Inr None"
      by (intro blob_absent [OF w]) (auto simp: key_value_fields_def field_simps split: option.splits)
    then show ?thesis using True 1 h
      by (auto simp: decode_key_value_def normal_kv_def kv_fits_def Let_def)
  next
    case False
    then obtain msg t where kv: "kv_message kv = Some msg" "kv_pubsubTopic kv = Some t" by auto
    have "pb_blob P 2 ?buf = Inr (Some (encode_message P msg))" "pb_blob P 3 ?buf = Inr (Some (str_bytes t))"
      by (rule blob_written [OF w]; simp add: key_value_fields_def kv field_simps)+
    moreover have "encodable msg" using m kv by simp
    ultimately show ?thesis using 1 h kv
      by (auto simp: decode_key_value_def normal_kv_def kv_fits_def meta_fits_def Let_def decode_encode_message)
  qed
qed

lemma decode_all_encoded:
  assumes "list_all (key_value_ok P) kvs"
  shows "decode_all (decode_key_value P) (map (\<lambda>kv. pb_finish P (key_value_fields P kv)) kvs) =
    (if list_all kv_fits kvs then Inr (map normal_kv kvs) else Inl (InvalidLengthField ''meta''))"
  using assms by (induction kvs) (auto simp: decode_encode_key_value)

lemma decode_encode_store_response:
  assumes "store_response_ok P res"
  shows "decode_store_response P (encode_store_response P res) =
    (if list_all kv_fits (sr_messages res) then Inr (res\<lparr>sr_messages := map normal_kv (sr_messages res)\<rparr>)
     else Inl (InvalidLengthField ''meta''))"
proof -
  let ?fs = "store_response_fields P res"
  let ?buf = "pb_finish P ?fs"
  have w: "writable ?fs" and kvs: "list_all (key_value_ok P) (sr_messages res)"
    and c: "map_option hash_of (sr_paginationCursor res) = sr_paginationCursor res"
    using assms by (simp_all add: store_response_ok_def) (cases "sr_paginationCursor res"; simp)
  note [simp del] = One_nat_def
  note f = store_response_fields_def field_simps option.map_comp comp_def
  have 1: "pb_blob P 1 ?buf = Inr (Some (str_bytes (sr_requestId res)))"
    "pb_blob P 11 ?buf = Inr (Some (str_bytes (sr_statusDesc res)))"
    by (rule blob_written [OF w]; simp add: f split: option.splits)+
  have 10: "pb_u32 P 10 ?buf = Inr (Some (sr_statusCode res))"
    by (rule u32_written [OF w]) (simp add: f split: option.splits)
  have 20: "default [] (pb_blobs P 20 ?buf) = Inr (map (\<lambda>kv. pb_finish P (key_value_fields P kv)) (sr_messages res))"
    by (rule blobs_rep [OF w]) (auto simp: f)
  have 51: "pb_blob P 51 ?buf = Inr (sr_paginationCursor res)"
    by (rule blob_opt [OF w]) (simp add: f split: option.splits)
  show ?thesis
    by (simp add: decode_store_response_def encode_store_response_def 1 10 20 51 c decode_all_encoded [OF kvs])
qed

end

section \<open>The service\<close>

text \<open>The handler gives a response or an error, or raises an exception (the outer \<open>Inl\<close>).\<close>

type_synonym store_handler = "StoreQueryRequest \<Rightarrow> string + (StoreError + StoreQueryResponse)"

text \<open>\<^verbatim>\<open>handleQueryRequest\<close> before the response is encoded; an exception of the handler leaves it.\<close>

definition query_reply :: "pbuf \<Rightarrow> store_handler \<Rightarrow> bytes \<Rightarrow> (string + StoreQueryResponse) exec" where
  "query_reply P requestHandler raw_request =
     bind_exec (decode_store_request P raw_request) (\<lambda>decoded. Done
       (case decoded of
          Inl e \<Rightarrow> Inr (empty_response\<lparr>sr_statusCode := 400,
                    sr_statusDesc := ''decoding rpc failed: '' @ show_protobuf_error e\<rparr>)
        | Inr req \<Rightarrow>
            (case requestHandler req of
               Inl msg \<Rightarrow> Inl msg
             | Inr (Inl e) \<Rightarrow> Inr (empty_response\<lparr>sr_statusCode := error_code e, sr_statusDesc := show_store_error e\<rparr>)
             | Inr (Inr res) \<Rightarrow>
                 Inr (res\<lparr>sr_requestId := requestId req, sr_statusCode := 200, sr_statusDesc := ''OK''\<rparr>))))"

definition handleQueryRequest :: "pbuf \<Rightarrow> store_handler \<Rightarrow> bytes \<Rightarrow> (string + bytes) exec" where
  "handleQueryRequest P requestHandler raw_request =
     bind_exec (query_reply P requestHandler raw_request) (\<lambda>r. Done (map_sum id (encode_store_response P) r))"

text \<open>The handler of a connection, from the bytes read to the bytes written.\<close>

lemma empty_response_simps [simp]:
  "sr_messages empty_response = []" "sr_statusCode (empty_response\<lparr>sr_statusCode := c, sr_statusDesc := d\<rparr>) = c"
  by (simp_all add: empty_response_def)

definition store_rejection :: StoreQueryResponse where
  "store_rejection = empty_response\<lparr>sr_requestId := ''N/A'', sr_statusCode := 429, sr_statusDesc := ''TOO_MANY_REQUESTS''\<rparr>"

definition handle_store ::
  "pbuf \<Rightarrow> store_handler \<Rightarrow> TokenBucket option \<Rightarrow> int \<Rightarrow> bytes \<Rightarrow> (string + bytes) exec \<times> TokenBucket option" where
  "handle_store P requestHandler limiter now reqBuf =
     (case checkUsage limiter now of
        (ok, limiter') \<Rightarrow>
          (if ok then handleQueryRequest P requestHandler reqBuf
           else Done (Inr (encode_store_response P store_rejection)), limiter'))"

definition handleSelfStoreRequest :: "store_handler \<Rightarrow> StoreQueryRequest \<Rightarrow> string + StoreQueryResponse" where
  "handleSelfStoreRequest requestHandler req =
     (case requestHandler req of
        Inl msg \<Rightarrow> Inl (''exception in handleSelfStoreRequest: '' @ msg)
      | Inr (Inl e) \<Rightarrow> Inl (''error in handleSelfStoreRequest: '' @ show_store_error e)
      | Inr (Inr res) \<Rightarrow> Inr res)"

section \<open>The client\<close>

datatype exchange = Write_failed string | Read_failed string | Received bytes

definition EmptyCursor :: hash where
  "EmptyCursor = replicate 32 0"

definition sendStoreRequest ::
  "pbuf \<Rightarrow> string \<Rightarrow> StoreQueryRequest \<Rightarrow> (bytes \<Rightarrow> exchange) \<Rightarrow> StoreError + StoreQueryResponse" where
  "sendStoreRequest P newId request connection =
     (case connection (encode_store_request P (request\<lparr>requestId := newId\<rparr>)) of
        Write_failed msg \<Rightarrow> Inl (BAD_REQUEST msg)
      | Read_failed msg \<Rightarrow> Inl (BAD_RESPONSE msg)
      | Received buf \<Rightarrow>
          (case decode_store_response P buf of
             Inl e \<Rightarrow> Inl (BAD_RESPONSE ''decode_rpc_failure'')
           | Inr res \<Rightarrow>
               if sr_statusCode res \<noteq> 200 then Inl (new_store_error (sr_statusCode res) (sr_statusDesc res))
               else Inr res))"

definition store_query ::
  "pbuf \<Rightarrow> string \<Rightarrow> StoreQueryRequest \<Rightarrow> string \<Rightarrow> (bytes \<Rightarrow> exchange) option \<Rightarrow> StoreError + StoreQueryResponse" where
  "store_query P newId request peer conn =
     (if paginationCursor request = Some EmptyCursor then Inl (BAD_REQUEST ''invalid cursor'')
      else
        (case conn of
           None \<Rightarrow> Inl (PEER_DIAL_FAILURE peer)
         | Some connection \<Rightarrow> sendStoreRequest P newId request connection))"

text \<open>A connection to the service: what it does not answer fails to be read.\<close>

definition to_service :: "string \<Rightarrow> (bytes \<Rightarrow> (string + bytes) exec) \<Rightarrow> bytes \<Rightarrow> exchange" where
  "to_service eof service b = (case service b of Done (Inr buf) \<Rightarrow> Received buf | _ \<Rightarrow> Read_failed eof)"

section \<open>End to end\<close>

text \<open>What the client makes of an error of the service: the printed error becomes the cause.\<close>

fun relayed :: "StoreError \<Rightarrow> StoreError" where
  "relayed (PEER_DIAL_FAILURE a) = PEER_DIAL_FAILURE (''PEER_DIAL_FAILURE: '' @ a)"
| "relayed (BAD_RESPONSE c) = BAD_RESPONSE (''BAD_RESPONSE: '' @ c)"
| "relayed (BAD_REQUEST c) = BAD_REQUEST (''BAD_REQUEST: '' @ c)"
| "relayed e = e"

lemma new_store_error_code: "new_store_error (error_code e) (show_store_error e) = relayed e"
  by (cases e) (simp_all add: new_store_error_def)

lemma error_code_not_ok: "error_code e \<noteq> 200"
  by (cases e) simp_all

definition store_answer :: "string + (StoreError + StoreQueryResponse) \<Rightarrow> string \<Rightarrow> string \<Rightarrow> StoreError + StoreQueryResponse" where
  "store_answer r newId eof =
     (case r of
        Inl _ \<Rightarrow> Inl (BAD_RESPONSE eof)
      | Inr (Inl e) \<Rightarrow> Inl (relayed e)
      | Inr (Inr res) \<Rightarrow>
          if list_all kv_fits (sr_messages res) then
            Inr (res\<lparr>sr_requestId := newId, sr_statusCode := 200, sr_statusDesc := ''OK'',
              sr_messages := map normal_kv (sr_messages res)\<rparr>)
          else Inl (BAD_RESPONSE ''decode_rpc_failure''))"

lemma writable_error: "length d < 2 ^ 63 \<Longrightarrow> length i < 2 ^ 63 \<Longrightarrow>
  store_response_ok P (empty_response\<lparr>sr_requestId := i, sr_statusCode := c, sr_statusDesc := d\<rparr>)"
  by (simp add: store_response_ok_def empty_response_def store_response_fields_def writable_def
      rep_field_def opt_field_def)

context protobuf
begin

lemma query_end_to_end:
  assumes "store_request_ok (req\<lparr>requestId := i\<rparr>)" and "paginationCursor req \<noteq> Some EmptyCursor"
    and "\<forall>res. query_reply P h (encode_store_request P (req\<lparr>requestId := i\<rparr>)) = Done (Inr res) \<longrightarrow> store_response_ok P res"
  shows "store_query P i req peer (Some (to_service eof (\<lambda>b. fst (handle_store P h lim now b)))) =
    (if fst (checkUsage lim now) then store_answer (h (req\<lparr>requestId := i\<rparr>)) i eof
     else Inl TOO_MANY_REQUESTS)"
proof -
  have d: "decode_store_request P (encode_store_request P (req\<lparr>requestId := i\<rparr>)) = Done (Inr (req\<lparr>requestId := i\<rparr>))"
    by (rule decode_encode_store_request [OF assms(1)])
  have "store_response_ok P store_rejection" by (simp add: store_rejection_def writable_error)
  from decode_encode_store_response [OF this] have rej:
    "decode_store_response P (encode_store_response P store_rejection) = Inr store_rejection"
    by (simp add: store_rejection_def empty_response_def)
  have rejected [simp]: "sr_statusCode store_rejection = 429" "new_store_error 429 d = TOO_MANY_REQUESTS" for d
    by (simp_all add: store_rejection_def new_store_error_def)
  show ?thesis
  proof (cases "h (req\<lparr>requestId := i\<rparr>)")
    case (Inl msg)
    then show ?thesis using assms(2) d rej
      by (auto simp: store_query_def sendStoreRequest_def to_service_def handle_store_def handleQueryRequest_def
          query_reply_def store_answer_def split: prod.splits)
  next
    case (Inr r)
    let ?res = "case r of Inl e \<Rightarrow> empty_response\<lparr>sr_statusCode := error_code e, sr_statusDesc := show_store_error e\<rparr>
      | Inr res \<Rightarrow> res\<lparr>sr_requestId := i, sr_statusCode := 200, sr_statusDesc := ''OK''\<rparr>"
    have q: "query_reply P h (encode_store_request P (req\<lparr>requestId := i\<rparr>)) = Done (Inr ?res)"
      by (simp add: query_reply_def d Inr split: sum.splits)
    then have "store_response_ok P ?res" using assms(3) by blast
    note dec = decode_encode_store_response [OF this]
    show ?thesis
    proof (cases r)
      case (Inl e)
      show ?thesis using assms(2) q rej dec
        by (auto simp: store_query_def sendStoreRequest_def to_service_def handle_store_def handleQueryRequest_def
            store_answer_def Inr Inl new_store_error_code error_code_not_ok split: prod.splits)
    next
      case res: (Inr res)
      show ?thesis using assms(2) q rej dec
        by (auto simp: store_query_def sendStoreRequest_def to_service_def handle_store_def handleQueryRequest_def
            store_answer_def Inr res split: prod.splits)
    qed
  qed
qed

end

text \<open>C14: the store protocol, from the client's query to its result. Over any protobuf library that reads back
  what it writes, a query whose cursor is not the empty hash asks the handler of the service
  exactly the client's request, under the new id, and gives the handler's response with
  that id and the status 200 OK, where an entry with only one of message and topic has
  neither; or an undecodable response, if one message has a \<^verbatim>\<open>meta\<close> of more than 64 bytes; or the
  handler's error, with its kind printed into its text a second time; or a failure to read, when the
  handler raises an exception; or \<^verbatim>\<open>TOO_MANY_REQUESTS\<close> at the limit. A query to itself gives the
  handler's response as it is.\<close>

theorem store_end_to_end:
  assumes "protobuf P" and "store_request_ok (req\<lparr>requestId := i\<rparr>)" and "paginationCursor req \<noteq> Some EmptyCursor"
    and "\<forall>res. query_reply P h (encode_store_request P (req\<lparr>requestId := i\<rparr>)) = Done (Inr res) \<longrightarrow> store_response_ok P res"
  shows "store_query P i req peer (Some (to_service eof (\<lambda>b. fst (handle_store P h lim now b)))) =
      (if \<not> fst (checkUsage lim now) then Inl TOO_MANY_REQUESTS
       else case h (req\<lparr>requestId := i\<rparr>) of
          Inl _ \<Rightarrow> Inl (BAD_RESPONSE eof)
        | Inr (Inl e) \<Rightarrow> Inl (relayed e)
        | Inr (Inr res) \<Rightarrow>
            if list_all kv_fits (sr_messages res) then
              Inr (res\<lparr>sr_requestId := i, sr_statusCode := 200, sr_statusDesc := ''OK'',
                sr_messages := map normal_kv (sr_messages res)\<rparr>)
            else Inl (BAD_RESPONSE ''decode_rpc_failure''))
    \<and> (\<forall>res. h req = Inr (Inr res) \<longrightarrow> handleSelfStoreRequest h req = Inr res)"
  using protobuf.query_end_to_end [OF assms]
  by (simp add: store_answer_def handleSelfStoreRequest_def)

text \<open>A concrete run over the wire format: a request for hashes, answered with one.\<close>

definition ask_hashes :: StoreQueryRequest where
  "ask_hashes = \<lparr>requestId = [], includeData = False, sq_pubsubTopic = Some ''t'', sq_contentTopics = [''a'', ''b''],
     startTime = Some (-1), endTime = None, messageHashes = [], paginationCursor = None,
     paginationForward = BACKWARD, paginationLimit = Some 20\<rparr>"

definition one_hash :: StoreQueryResponse where
  "one_hash = empty_response\<lparr>sr_requestId := ''1'', sr_statusCode := 200, sr_statusDesc := ''OK'',
     sr_messages := [\<lparr>messageHash = replicate 32 7, kv_message = None, kv_pubsubTopic = Some ''t''\<rparr>]\<rparr>"

lemma ask_hashes_ok: "store_request_ok (ask_hashes\<lparr>requestId := ''1''\<rparr>)"
  by (simp add: ask_hashes_def store_request_ok_def store_request_fields_def writable_def opt_field_def rep_field_def
      int64_def z64_def)

lemma one_hash_ok: "store_response_ok wire_format one_hash"
proof -
  let ?kv = "\<lparr>messageHash = replicate 32 7, kv_message = None, kv_pubsubTopic = Some ''t''\<rparr>"
  have w: "writable (key_value_fields wire_format ?kv)" by (simp add: key_value_fields_def writable_def)
  have "length (wire_finish (key_value_fields wire_format ?kv)) \<le> 100"
    using length_wire_finish [OF w] by (simp add: key_value_fields_def field_size_def)
  then have "writable (store_response_fields wire_format one_hash)"
    by (simp add: one_hash_def empty_response_def store_response_fields_def writable_def opt_field_def rep_field_def
        wire_format_def)
  then show ?thesis using w by (simp add: store_response_ok_def key_value_ok_def one_hash_def empty_response_def)
qed

lemma store_end_to_end_witness:
  "store_query wire_format ''1'' ask_hashes ''p'' (Some (to_service ''eof''
     (\<lambda>b. fst (handle_store wire_format (\<lambda>r. if requestId r = ''1'' then Inr (Inr one_hash) else Inl []) None 0 b)))) =
   Inr (one_hash\<lparr>sr_messages := [\<lparr>messageHash = replicate 32 7, kv_message = None, kv_pubsubTopic = None\<rparr>]\<rparr>)"
proof -
  let ?h = "\<lambda>r. if requestId r = ''1'' then Inr (Inr one_hash) else Inl []"
  have "query_reply wire_format ?h (encode_store_request wire_format (ask_hashes\<lparr>requestId := ''1''\<rparr>)) = Done (Inr one_hash)"
    by (simp add: query_reply_def wire.decode_encode_store_request [OF ask_hashes_ok]) (simp add: one_hash_def)
  then have ok: "\<forall>res. query_reply wire_format ?h (encode_store_request wire_format (ask_hashes\<lparr>requestId := ''1''\<rparr>))
      = Done (Inr res) \<longrightarrow> store_response_ok wire_format res"
    using one_hash_ok by simp
  have "paginationCursor ask_hashes \<noteq> Some EmptyCursor" by (simp add: ask_hashes_def)
  from store_end_to_end [OF wire.protobuf_axioms ask_hashes_ok this ok, of "''p''" "''eof''" None 0]
  show ?thesis by (simp add: checkUsage_def one_hash_def kv_fits_def normal_kv_def)
qed

text \<open>C29: the requests that stop the service. Over any protobuf library, a request of a remote peer ends in
  the fault \<^verbatim>\<open>RangeDefect\<close>, whatever the handler, exactly when its fields up to the cursor
  are readable and its direction is a number other than 0 and 1; no other request does.\<close>

theorem store_remote_fault:
  "handleQueryRequest P h raw = Fault f \<longleftrightarrow>
     f = RangeDefect \<and> (\<exists>req p. decode_store_head P raw = Inr req \<and> pb_u32 P 52 raw = Inr (Some p) \<and> p \<noteq> 0 \<and> p \<noteq> 1)"
proof -
  have "get g = Inr (Some p) \<longleftrightarrow> g = Inr (Some p)" for g and p :: u32
    by (auto simp: get_def split: sum.splits)
  then show ?thesis
    by (auto simp: handleQueryRequest_def query_reply_def decode_store_request_def decode_direction_def
        split: sum.splits option.splits if_splits)
qed

text \<open>Five bytes do: an empty request id, and the direction 2.\<close>

lemma two_is_no_direction:
  "decode_store_head wire_format [10, 0, 160, 3, 2] = Inr (ask_hashes\<lparr>sq_pubsubTopic := None, sq_contentTopics := [],
     startTime := None, paginationForward := FORWARD, paginationLimit := None\<rparr>)"
  "pb_u32 wire_format 52 [10, 0, 160, 3, 2] = Inr (Some 2)"
  by code_simp+

lemma store_remote_fault_witness:
  "handleQueryRequest wire_format (\<lambda>_. Inl []) [10, 0, 160, 3, 2] = Fault RangeDefect"
  unfolding store_remote_fault using two_is_no_direction by simp

end
