(* ===== verification/SortedSet.thy ===== *)
theory SortedSet
  imports Main
begin

text \<open>
  The sorted set of stew (\<^verbatim>\<open>stew/sorted_set\<close>), which the queue driver of the archive is built on: a
  parameter, the record \<open>sset\<close>, with the laws its documentation gives, as the locale
  \<open>sorted_set\<close>. Keys are compared by a function \<open>c\<close> whose sign is the order; the laws hold
  as long as \<open>c\<close> orders the keys in the set and the key of the operation. Sorted lists
  are an instance, for every \<open>c\<close>.
\<close>

record ('k, 'v, 's) sset =
  ss_empty :: 's
  ss_has :: "'k \<Rightarrow> 's \<Rightarrow> bool"
  ss_insert :: "'k \<Rightarrow> 'v \<Rightarrow> 's \<Rightarrow> 's"
  ss_delete :: "'k \<Rightarrow> 's \<Rightarrow> 's"
  ss_walk :: "'s \<Rightarrow> ('k \<times> 'v) list"  \<comment> \<open>from the first to the last item\<close>

definition order_on :: "('k \<Rightarrow> 'k \<Rightarrow> int) \<Rightarrow> 'k set \<Rightarrow> bool" where
  "order_on c K \<longleftrightarrow> (\<forall>x\<in>K. \<forall>y\<in>K. c x y < 0 \<longleftrightarrow> 0 < c y x)
     \<and> (\<forall>x\<in>K. \<forall>y\<in>K. \<forall>z\<in>K. c x y \<le> 0 \<longrightarrow> c y z \<le> 0 \<longrightarrow> c x z \<le> 0)"

definition ascending :: "('k \<Rightarrow> 'k \<Rightarrow> int) \<Rightarrow> ('k \<times> 'v) list \<Rightarrow> bool" where
  "ascending c xs \<longleftrightarrow> sorted_wrt (\<lambda>x y. c x y < 0) (map fst xs)"

definition keys :: "('k \<times> 'v) list \<Rightarrow> 'k set" where
  "keys xs = fst ` set xs"

text \<open>The item is placed before the first that is not smaller.\<close>

fun put_sorted :: "('k \<Rightarrow> 'k \<Rightarrow> int) \<Rightarrow> 'k \<Rightarrow> 'v \<Rightarrow> ('k \<times> 'v) list \<Rightarrow> ('k \<times> 'v) list" where
  "put_sorted c k v [] = [(k, v)]"
| "put_sorted c k v ((x, w) # xs) =
     (if c x k < 0 then (x, w) # put_sorted c k v xs else (k, v) # (x, w) # xs)"

definition has_key :: "('k \<Rightarrow> 'k \<Rightarrow> int) \<Rightarrow> 'k \<Rightarrow> ('k \<times> 'v) list \<Rightarrow> bool" where
  "has_key c k xs \<longleftrightarrow> list_ex (\<lambda>(x, _). c k x = 0) xs"

definition drop_key :: "('k \<Rightarrow> 'k \<Rightarrow> int) \<Rightarrow> 'k \<Rightarrow> ('k \<times> 'v) list \<Rightarrow> ('k \<times> 'v) list" where
  "drop_key c k xs = filter (\<lambda>(x, _). c k x \<noteq> 0) xs"

lemma keys_simps [simp]:
  "keys [] = {}" "keys ((k, v) # xs) = insert k (keys xs)" "keys (xs @ ys) = keys xs \<union> keys ys"
  by (auto simp: keys_def)

lemma keys_put_sorted [simp]: "keys (put_sorted c k v xs) = insert k (keys xs)"
  by (induction xs) (auto split: if_splits)

lemma set_put_sorted: "set (put_sorted c k v xs) = insert (k, v) (set xs)"
  by (induction xs) (auto split: if_splits)

lemma ascending_simps [simp]:
  "ascending c []" "ascending c ((k, v) # xs) \<longleftrightarrow> (\<forall>x \<in> keys xs. c k x < 0) \<and> ascending c xs"
  by (auto simp: ascending_def keys_def)

lemma has_key_simps [simp]:
  "\<not> has_key c k []" "has_key c k ((x, v) # xs) \<longleftrightarrow> c k x = 0 \<or> has_key c k xs"
  by (auto simp: has_key_def)

lemma has_key_iff: "has_key c k xs \<longleftrightarrow> (\<exists>x \<in> keys xs. c k x = 0)"
  by (induction xs) auto

lemma order_on_less: "order_on c K \<Longrightarrow> x \<in> K \<Longrightarrow> y \<in> K \<Longrightarrow> c x y < 0 \<longleftrightarrow> 0 < c y x"
  by (auto simp: order_on_def)

lemma order_on_zero: "order_on c K \<Longrightarrow> x \<in> K \<Longrightarrow> y \<in> K \<Longrightarrow> c x y = 0 \<longleftrightarrow> c y x = 0"
  using order_on_less [of c K x y] order_on_less [of c K y x] by linarith

lemma order_on_refl: "order_on c K \<Longrightarrow> x \<in> K \<Longrightarrow> c x x = 0"
  using order_on_less [of c K x x] by linarith

lemma order_on_trans:
  assumes "order_on c K" and "x \<in> K" and "y \<in> K" and "z \<in> K"
  shows "c x y \<le> 0 \<Longrightarrow> c y z \<le> 0 \<Longrightarrow> c x z \<le> 0"
    and "c x y \<le> 0 \<Longrightarrow> c y z < 0 \<Longrightarrow> c x z < 0"
    and "c x y < 0 \<Longrightarrow> c y z \<le> 0 \<Longrightarrow> c x z < 0"
proof -
  have t: "c a b \<le> 0 \<Longrightarrow> c b d \<le> 0 \<Longrightarrow> c a d \<le> 0" if "a \<in> K" "b \<in> K" "d \<in> K" for a b d
    using assms(1) that unfolding order_on_def by blast
  note less = order_on_less [OF assms(1)] and zero = order_on_zero [OF assms(1)]
  show le: "c x y \<le> 0 \<Longrightarrow> c y z \<le> 0 \<Longrightarrow> c x z \<le> 0" by (rule t [OF assms(2-4)])
  show "c x y \<le> 0 \<Longrightarrow> c y z < 0 \<Longrightarrow> c x z < 0"
    using le t [OF assms(4,2,3)] less [OF assms(3,4)] zero [OF assms(2,4)] by linarith
  show "c x y < 0 \<Longrightarrow> c y z \<le> 0 \<Longrightarrow> c x z < 0"
    using le t [OF assms(3,4,2)] less [OF assms(2,3)] zero [OF assms(2,4)] by linarith
qed

lemma order_on_subset: "order_on c K \<Longrightarrow> L \<subseteq> K \<Longrightarrow> order_on c L"
  unfolding order_on_def by blast

text \<open>Placing a new key keeps the order; removing one leaves the others.\<close>

lemma put_sorted_ascending:
  assumes "order_on c (insert k (keys xs))" and "ascending c xs" and "\<not> has_key c k xs"
  shows "ascending c (put_sorted c k v xs)"
  using assms
proof (induction xs)
  case (Cons a xs)
  obtain x w where a: "a = (x, w)" by (cases a)
  note o = Cons.prems(1) [unfolded a]
  have s: "c k x < 0" if "\<not> c x k < 0"
    using that Cons.prems(3) order_on_less [OF o, of x k] order_on_less [OF o, of k x] by (simp add: a)
  have "c k y < 0" if "\<not> c x k < 0" "y \<in> keys xs" for y
    using s [OF that(1)] that(2) Cons.prems(2) order_on_trans(2) [OF o, of k x y] by (simp add: a)
  moreover have "ascending c (put_sorted c k v xs)"
    by (rule Cons.IH) (use order_on_subset [OF o] Cons.prems(2,3) in \<open>auto simp: a\<close>)
  ultimately show ?case using s Cons.prems(2) by (auto simp: a)
qed simp

lemma drop_key_ascending: "ascending c xs \<Longrightarrow> ascending c (drop_key c k xs)"
  unfolding ascending_def drop_key_def by (induction xs) (auto split: prod.splits)

lemma keys_drop_key: "keys (drop_key c k xs) \<subseteq> keys xs"
  by (auto simp: keys_def drop_key_def)

text \<open>Keys that compare equal are the key of one item.\<close>

lemma ascending_unique:
  assumes "order_on c (keys xs)" and "ascending c xs" and "e \<in> set xs" and "f \<in> set xs" and "c (fst e) (fst f) = 0"
  shows "e = f"
  using assms
proof (induction xs)
  case (Cons a xs)
  obtain k v where a: "a = (k, v)" by (cases a)
  have lt: "c k (fst g) < 0" if "g \<in> set xs" for g using Cons.prems(2) that by (auto simp: a keys_def)
  have gt: "c (fst g) k \<noteq> 0" if "g \<in> set xs" for g
    using lt [OF that] order_on_zero [OF Cons.prems(1), of "fst g" k] that by (force simp: a keys_def)
  have "order_on c (keys xs)" using order_on_subset [OF Cons.prems(1)] by (auto simp: a)
  then show ?case using Cons.IH Cons.prems(2-) lt gt by (fastforce simp: a)
qed simp

lemma ascending_distinct:
  assumes "order_on c (keys xs)" and "ascending c xs"
  shows "distinct xs"
  using assms
proof (induction xs)
  case (Cons a xs)
  have "a \<notin> set xs"
    using Cons.prems order_on_refl [OF Cons.prems(1), of "fst a"] by (cases a) (auto simp: keys_def)
  moreover have "order_on c (keys xs)" using order_on_subset [OF Cons.prems(1)] by (cases a) auto
  ultimately show ?case using Cons.IH Cons.prems(2) by (cases a) auto
qed simp

text \<open>In an ascending list the first key occurs once.\<close>

lemma drop_first:
  assumes "order_on c (insert k (keys xs))" and "ascending c ((k, v) # xs)"
  shows "drop_key c k ((k, v) # xs) = xs"
proof -
  have "c k k = 0" using order_on_refl [OF assms(1)] by simp
  moreover have "filter (\<lambda>(x, _). c k x \<noteq> 0) xs = xs"
    using assms(2) by (auto simp: filter_id_conv keys_def)
  ultimately show ?thesis by (simp add: drop_key_def)
qed

section \<open>Keeping the newest\<close>

definition insert_new :: "('k \<Rightarrow> 'k \<Rightarrow> int) \<Rightarrow> 'k \<Rightarrow> 'v \<Rightarrow> ('k \<times> 'v) list \<Rightarrow> ('k \<times> 'v) list" where
  "insert_new c k v xs = (if has_key c k xs then xs else put_sorted c k v xs)"

definition newest :: "nat \<Rightarrow> 'a list \<Rightarrow> 'a list" where
  "newest n xs = drop (length xs - n) xs"

lemma length_put_sorted [simp]: "length (put_sorted c k v xs) = Suc (length xs)"
  by (induction xs) auto

lemma newest_simps [simp]:
  "length xs \<le> n \<Longrightarrow> newest n xs = xs" "length (newest n xs) = min n (length xs)" "newest n [] = []"
  "n \<le> length ys \<Longrightarrow> newest n (xs @ ys) = newest n ys" "n \<le> length xs \<Longrightarrow> newest n (x # xs) = newest n xs"
  by (auto simp: newest_def Suc_diff_le)

lemma put_sorted_append:
  "put_sorted c k v (zs @ us) =
     (if \<forall>z \<in> keys zs. c z k < 0 then zs @ put_sorted c k v us else put_sorted c k v zs @ us)"
  by (induction zs) auto

lemma put_first: "\<forall>u \<in> keys us. \<not> c u k < 0 \<Longrightarrow> put_sorted c k v us = (k, v) # us"
  by (cases us) auto

lemma has_key_append [simp]: "has_key c k (xs @ ys) \<longleftrightarrow> has_key c k xs \<or> has_key c k ys"
  by (simp add: has_key_def)

lemma ascending_append: "ascending c (xs @ ys) \<longleftrightarrow>
    ascending c xs \<and> ascending c ys \<and> (\<forall>x \<in> keys xs. \<forall>y \<in> keys ys. c x y < 0)"
  by (auto simp: ascending_def keys_def sorted_wrt_append)

text \<open>What was dropped as too old stays out, whatever comes later.\<close>

lemma newest_insert_new:
  assumes o: "order_on c (insert k (keys ys))" and "ascending c ys"
  shows "newest n (insert_new c k v (newest n ys)) = newest n (insert_new c k v ys)"
proof (cases "length ys \<le> n")
  case False
  define zs where "zs = take (length ys - n) ys"
  define us where "us = newest n ys"
  have ys: "ys = zs @ us" by (simp add: zs_def us_def newest_def)
  have len: "length us = n" using False by (simp add: us_def)
  have nu: "newest n us = us" using len by simp
  have in_ys: "z \<in> insert k (keys ys)" if "z \<in> keys zs \<union> keys us" for z using that by (auto simp: ys)
  have below: "c z u < 0" if "z \<in> keys zs" "u \<in> keys us" for z u
    using assms(2) that by (simp add: ys ascending_append)
  show ?thesis
  proof (cases "\<forall>z \<in> keys zs. c z k < 0")
    case True
    then have "\<not> has_key c k zs"
      using order_on_less [OF o] in_ys by (auto simp: has_key_iff)
    then show ?thesis
      using True len unfolding us_def [symmetric]
      by (simp add: ys insert_new_def put_sorted_append nu)
  next
    case False
    then obtain z where z: "z \<in> keys zs" "\<not> c z k < 0" by blast
    have kz: "c k z \<le> 0" using z order_on_less [OF o _ in_ys, of k z] order_on_less [OF o in_ys, of z k] by force
    have ku: "c k u < 0" if "u \<in> keys us" for u
      using order_on_trans(2) [OF o _ in_ys in_ys, of k z u] kz below [OF z(1) that] z(1) that by simp
    have "\<not> c u k < 0" if "u \<in> keys us" for u
      using ku [OF that] order_on_less [OF o _ in_ys, of k u] that by simp
    then have "put_sorted c k v us = (k, v) # us" by (intro put_first) blast
    then show ?thesis
      using False len unfolding us_def [symmetric]
      by (auto simp: ys insert_new_def put_sorted_append nu)
  qed
qed simp

section \<open>The laws\<close>

locale sorted_set =
  fixes S :: "('k, 'v, 's) sset" and ok :: "'s \<Rightarrow> bool" and c :: "'k \<Rightarrow> 'k \<Rightarrow> int"
  assumes empty: "ok (ss_empty S)" "ss_walk S (ss_empty S) = []"
    and ascends: "ok s \<Longrightarrow> ascending c (ss_walk S s)"
    and has: "ok s \<Longrightarrow> order_on c (insert k (keys (ss_walk S s))) \<Longrightarrow> ss_has S k s \<longleftrightarrow> has_key c k (ss_walk S s)"
    and inserted: "ok s \<Longrightarrow> order_on c (insert k (keys (ss_walk S s))) \<Longrightarrow> \<not> has_key c k (ss_walk S s) \<Longrightarrow>
      ok (ss_insert S k v s) \<and> ss_walk S (ss_insert S k v s) = put_sorted c k v (ss_walk S s)"
    and deleted: "ok s \<Longrightarrow> order_on c (insert k (keys (ss_walk S s))) \<Longrightarrow>
      ok (ss_delete S k s) \<and> ss_walk S (ss_delete S k s) = drop_key c k (ss_walk S s)"

definition list_sset :: "('k \<Rightarrow> 'k \<Rightarrow> int) \<Rightarrow> ('k, 'v, ('k \<times> 'v) list) sset" where
  "list_sset c = \<lparr>ss_empty = [], ss_has = has_key c, ss_insert = put_sorted c, ss_delete = drop_key c, ss_walk = id\<rparr>"

interpretation list_set: sorted_set "list_sset c" "ascending c" c for c
  by unfold_locales
    (auto simp: list_sset_def intro: put_sorted_ascending drop_key_ascending)

end
