(* ===== verification/ArchiveQueue.thy ===== *)
theory ArchiveQueue
  imports WakuMessage SortedSet "HOL-Library.List_Lexorder" "HOL-Library.Char_ord"
begin

text \<open>
  The in-memory archive: the index of a message (\<^verbatim>\<open>waku_archive/driver/queue_driver/index.nim\<close>)
  and the queue driver (\<^verbatim>\<open>queue_driver.nim\<close>), with the cursors and rows of
  \<^verbatim>\<open>waku_archive/common.nim\<close> and \<^verbatim>\<open>driver.nim\<close>. The sorted set of stew is the parameter \<open>S\<close>, the
  comparison of two digests, stew's on byte arrays, the parameter \<open>B\<close>. Digests and hashes are 32 bytes.
\<close>

section \<open>Indices\<close>

record Index =
  ix_pubsubTopic :: PubsubTopic
  senderTime :: Timestamp
  receiverTime :: Timestamp
  digest :: bytes
  ix_hash :: bytes

record ArchiveCursor =
  ac_digest :: bytes
  ac_storeTime :: Timestamp
  ac_senderTime :: Timestamp
  ac_pubsubTopic :: PubsubTopic
  ac_hash :: bytes

definition compute_index ::
  "(bytes \<Rightarrow> bytes) \<Rightarrow> (u64 \<Rightarrow> bytes) \<Rightarrow> WakuMessage \<Rightarrow> Timestamp \<Rightarrow> PubsubTopic \<Rightarrow> Index" where
  "compute_index sha be64 msg receivedTime pubsubTopic =
     \<lparr>ix_pubsubTopic = pubsubTopic, senderTime = timestamp msg, receiverTime = receivedTime,
      digest = computeDigest sha msg, ix_hash = computeMessageHash sha be64 pubsubTopic msg\<rparr>"

definition tohistoryCursor :: "Index \<Rightarrow> ArchiveCursor" where
  "tohistoryCursor ix =
     \<lparr>ac_digest = digest ix, ac_storeTime = receiverTime ix, ac_senderTime = senderTime ix,
      ac_pubsubTopic = ix_pubsubTopic ix, ac_hash = ix_hash ix\<rparr>"

definition toIndex :: "ArchiveCursor \<Rightarrow> Index" where
  "toIndex c =
     \<lparr>ix_pubsubTopic = ac_pubsubTopic c, senderTime = ac_senderTime c, receiverTime = ac_storeTime c,
      digest = ac_digest c, ix_hash = ac_hash c\<rparr>"

lemma toIndex_tohistoryCursor: "toIndex (tohistoryCursor ix) = ix"
  by (simp add: toIndex_def tohistoryCursor_def)

definition index_eq :: "Index \<Rightarrow> Index \<Rightarrow> bool" where
  "index_eq x y \<longleftrightarrow>
     (senderTime x = senderTime y \<and> digest x = digest y \<and> ix_pubsubTopic x = ix_pubsubTopic y) \<or> ix_hash x = ix_hash y"

text \<open>Nim's \<^verbatim>\<open>cmp\<close> on integers and on strings.\<close>

definition cmp_of :: "'a :: linorder \<Rightarrow> 'a \<Rightarrow> int" where
  "cmp_of a b = (if a < b then -1 else if a = b then 0 else 1)"

definition index_time :: "Index \<Rightarrow> Timestamp" where
  "index_time x = (if senderTime x = 0 then receiverTime x else senderTime x)"

definition index_cmp :: "(bytes \<Rightarrow> bytes \<Rightarrow> int) \<Rightarrow> Index \<Rightarrow> Index \<Rightarrow> int" where
  "index_cmp B x y =
     (if index_eq x y then 0
      else
        (let timecmp = cmp_of (index_time x) (index_time y) in
         if timecmp \<noteq> 0 then timecmp
         else
           (let digestcmp = B (digest x) (digest y) in
            if digestcmp \<noteq> 0 then digestcmp
            else cmp_of (ix_pubsubTopic x) (ix_pubsubTopic y))))"

section \<open>The driver\<close>

type_synonym ArchiveRow = "PubsubTopic \<times> WakuMessage \<times> bytes \<times> Timestamp \<times> bytes"

record 's QueueDriver =
  items :: 's
  capacity :: int

definition QueueDriverDefaultMaxCapacity :: int where
  "QueueDriverDefaultMaxCapacity = 25000"

type_synonym 's index_set = "(Index, WakuMessage, 's) sset"

definition new_queue :: "'s index_set \<Rightarrow> int \<Rightarrow> 's QueueDriver" where
  "new_queue S cap = \<lparr>items = ss_empty S, capacity = cap\<rparr>"

definition queue_contains :: "'s index_set \<Rightarrow> 's QueueDriver \<Rightarrow> Index \<Rightarrow> bool" where
  "queue_contains S d ix = ss_has S ix (items d)"

definition queue_walk :: "'s index_set \<Rightarrow> 's QueueDriver \<Rightarrow> (Index \<times> WakuMessage) list" where
  "queue_walk S d = ss_walk S (items d)"

definition queue_len :: "'s index_set \<Rightarrow> 's QueueDriver \<Rightarrow> int" where
  "queue_len S d = int (length (queue_walk S d))"

text \<open>A queue without room and without items has no first item to remove: \<open>ResultDefect\<close>.\<close>

definition queue_add ::
  "'s index_set \<Rightarrow> (bytes \<Rightarrow> bytes \<Rightarrow> int) \<Rightarrow> Index \<Rightarrow> WakuMessage \<Rightarrow> 's QueueDriver
     \<Rightarrow> ((string + unit) \<times> 's QueueDriver) exec" where
  "queue_add S B ix msg d =
     (if queue_contains S d ix then Done (Inl ''duplicate'', d)
      else if queue_len S d \<ge> capacity d then
        (case queue_walk S d of
           [] \<Rightarrow> Fault ResultDefect
         | (firstKey, _) # _ \<Rightarrow>
             if index_cmp B ix firstKey < 0 then Done (Inl ''too_old'', d)
             else Done (Inr (), d\<lparr>items := ss_insert S ix msg (ss_delete S firstKey (items d))\<rparr>))
      else Done (Inr (), d\<lparr>items := ss_insert S ix msg (items d)\<rparr>))"

definition queue_put ::
  "'s index_set \<Rightarrow> (bytes \<Rightarrow> bytes \<Rightarrow> int) \<Rightarrow> PubsubTopic \<Rightarrow> WakuMessage \<Rightarrow> bytes \<Rightarrow> bytes \<Rightarrow> Timestamp
     \<Rightarrow> 's QueueDriver \<Rightarrow> ((string + unit) \<times> 's QueueDriver) exec" where
  "queue_put S B pubsubTopic message dig messageHash receivedTime d =
     queue_add S B
       \<lparr>ix_pubsubTopic = pubsubTopic, senderTime = timestamp message, receiverTime = receivedTime, digest = dig,
        ix_hash = messageHash\<rparr> message d"

definition queue_first :: "'s index_set \<Rightarrow> 's QueueDriver \<Rightarrow> string + Index" where
  "queue_first S d = (case queue_walk S d of [] \<Rightarrow> Inl ''Not found'' | (k, _) # _ \<Rightarrow> Inr k)"

definition queue_last :: "'s index_set \<Rightarrow> 's QueueDriver \<Rightarrow> string + Index" where
  "queue_last S d = (case rev (queue_walk S d) of [] \<Rightarrow> Inl ''Not found'' | (k, _) # _ \<Rightarrow> Inr k)"

text \<open>What is left of the walk when it reaches the cursor; then the page is filled.\<close>

fun walkToCursor :: "(Index \<times> WakuMessage) list \<Rightarrow> Index \<Rightarrow> (Index \<times> WakuMessage) list" where
  "walkToCursor [] startCursor = []"
| "walkToCursor ((k, m) # es) startCursor =
     (if index_eq k startCursor then (k, m) # es else walkToCursor es startCursor)"

definition row_of :: "Index \<times> WakuMessage \<Rightarrow> ArchiveRow" where
  "row_of e = (case e of (k, m) \<Rightarrow> (ix_pubsubTopic k, m, digest k, receiverTime k, ix_hash k))"

fun fill_page :: "nat \<Rightarrow> (Index \<Rightarrow> WakuMessage \<Rightarrow> bool) \<Rightarrow> (Index \<times> WakuMessage) list \<Rightarrow> ArchiveRow list" where
  "fill_page n p [] = []"
| "fill_page n p ((k, m) # es) =
     (if n = 0 then []
      else if p k m then row_of (k, m) # fill_page (n - 1) p es
      else fill_page n p es)"

definition getPage ::
  "'s index_set \<Rightarrow> 's QueueDriver \<Rightarrow> nat \<Rightarrow> bool \<Rightarrow> Index option \<Rightarrow> (Index \<Rightarrow> WakuMessage \<Rightarrow> bool)
     \<Rightarrow> string + ArchiveRow list" where
  "getPage S d pageSize forward cursor p =
     (let es = (if forward then queue_walk S d else rev (queue_walk S d))
      in case cursor of
           None \<Rightarrow> Inr (fill_page pageSize p es)
         | Some c \<Rightarrow>
             (case walkToCursor es c of
                [] \<Rightarrow> Inl ''invalid_cursor''
              | _ # es' \<Rightarrow> Inr (fill_page pageSize p es')))"

definition matchesQuery ::
  "PubsubTopic option \<Rightarrow> ContentTopic list \<Rightarrow> Timestamp option \<Rightarrow> Timestamp option \<Rightarrow> bytes list
     \<Rightarrow> PubsubTopic \<Rightarrow> bytes \<Rightarrow> WakuMessage \<Rightarrow> bool" where
  "matchesQuery pubsubTopic contentTopics startTime endTime hashes topic hash msg \<longleftrightarrow>
     \<not> (pubsubTopic \<noteq> None \<and> topic \<noteq> the pubsubTopic)
     \<and> \<not> (length contentTopics > 0 \<and> contentTopic msg \<notin> set contentTopics)
     \<and> \<not> (startTime \<noteq> None \<and> timestamp msg < the startTime)
     \<and> \<not> (endTime \<noteq> None \<and> timestamp msg > the endTime)
     \<and> \<not> (length hashes > 0 \<and> hash \<notin> set hashes)"

definition queue_getMessages ::
  "'s index_set \<Rightarrow> 's QueueDriver \<Rightarrow> ContentTopic list \<Rightarrow> PubsubTopic option \<Rightarrow> ArchiveCursor option
     \<Rightarrow> Timestamp option \<Rightarrow> Timestamp option \<Rightarrow> bytes list \<Rightarrow> nat \<Rightarrow> bool \<Rightarrow> string + ArchiveRow list" where
  "queue_getMessages S d contentTopics pubsubTopic cursor startTime endTime hashes maxPageSize ascendingOrder =
     getPage S d maxPageSize ascendingOrder (map_option toIndex cursor)
       (\<lambda>ix msg. matchesQuery pubsubTopic contentTopics startTime endTime hashes (ix_pubsubTopic ix) (ix_hash ix) msg)"

definition not_implemented :: string where
  "not_implemented = ''interface method not implemented''"

definition queue_getMessagesCount :: "'s index_set \<Rightarrow> 's QueueDriver \<Rightarrow> string + int" where
  "queue_getMessagesCount S d = Inr (queue_len S d)"

definition queue_getOldestMessageTimestamp :: "'s index_set \<Rightarrow> 's QueueDriver \<Rightarrow> string + Timestamp" where
  "queue_getOldestMessageTimestamp S d = map_sum id receiverTime (queue_first S d)"

definition queue_getNewestMessageTimestamp :: "'s index_set \<Rightarrow> 's QueueDriver \<Rightarrow> string + Timestamp" where
  "queue_getNewestMessageTimestamp S d = map_sum id receiverTime (queue_last S d)"

section \<open>When the indices are ordered\<close>

locale byte_order =
  fixes B :: "bytes \<Rightarrow> bytes \<Rightarrow> int"
  assumes B_zero: "B a b = 0 \<longleftrightarrow> a = b"
    and B_less: "B a b < 0 \<longleftrightarrow> 0 < B b a"
    and B_trans: "B a b < 0 \<Longrightarrow> B b e < 0 \<Longrightarrow> B a e < 0"

interpretation lexicographic: byte_order cmp_of
  by unfold_locales (auto simp: cmp_of_def split: if_splits)

text \<open>
  \<open>index_cmp\<close> compares by a key, the time used and the two texts, as long as indices that are
  equal have the same key. That fails for two receptions of one message that has no time of its own.
\<close>

type_synonym index_key = "Timestamp \<times> bytes \<times> PubsubTopic"

definition key_of :: "Index \<Rightarrow> index_key" where
  "key_of x = (index_time x, digest x, ix_pubsubTopic x)"

definition consistent :: "Index set \<Rightarrow> bool" where
  "consistent K \<longleftrightarrow> (\<forall>x\<in>K. \<forall>y\<in>K. index_eq x y \<longrightarrow> key_of x = key_of y)"

lemma consistent_subset: "consistent K \<Longrightarrow> L \<subseteq> K \<Longrightarrow> consistent L"
  unfolding consistent_def by blast

lemma index_eq_refl [simp]: "index_eq x x"
  by (simp add: index_eq_def)

context byte_order
begin

definition key_less :: "Index \<Rightarrow> Index \<Rightarrow> bool" where
  "key_less x y \<longleftrightarrow> index_time x < index_time y
     \<or> (index_time x = index_time y
         \<and> (B (digest x) (digest y) < 0 \<or> (digest x = digest y \<and> ix_pubsubTopic x < ix_pubsubTopic y)))"

lemma B_refl [simp]: "B a a = 0"
  by (simp add: B_zero)

lemma key_less_asym: "key_less x y \<Longrightarrow> \<not> key_less y x"
  using B_less [of "digest x" "digest y"] by (auto simp: key_less_def)

lemma key_less_trans: "key_less x y \<Longrightarrow> key_less y z \<Longrightarrow> key_less x z"
  using B_trans [of "digest x" "digest y" "digest z"] by (auto simp: key_less_def)

lemma key_less_total: "key_of x \<noteq> key_of y \<Longrightarrow> key_less x y \<or> key_less y x"
  using B_zero [of "digest x" "digest y"] B_less [of "digest y" "digest x"]
  by (auto simp: key_less_def key_of_def)

lemma key_less_cong: "key_of x = key_of x' \<Longrightarrow> key_of y = key_of y' \<Longrightarrow> key_less x y = key_less x' y'"
  by (simp add: key_less_def key_of_def)

lemma index_cmp_sign:
  assumes "index_eq x y \<Longrightarrow> key_of x = key_of y"
  shows "index_cmp B x y < 0 \<longleftrightarrow> key_less x y" and "index_cmp B x y = 0 \<longleftrightarrow> key_of x = key_of y"
proof -
  have n: "\<not> key_less x y" if "key_of x = key_of y" using that by (auto simp: key_less_def key_of_def)
  show "index_cmp B x y < 0 \<longleftrightarrow> key_less x y"
  proof (cases "index_eq x y")
    case True
    then show ?thesis using assms n by (simp add: index_cmp_def)
  next
    case False
    then show ?thesis using B_zero [of "digest x" "digest y"]
      by (auto simp: index_cmp_def key_less_def cmp_of_def Let_def)
  qed
  show "index_cmp B x y = 0 \<longleftrightarrow> key_of x = key_of y"
  proof (cases "index_eq x y")
    case True
    then show ?thesis using assms by (simp add: index_cmp_def)
  next
    case False
    then show ?thesis using B_zero [of "digest x" "digest y"]
      by (auto simp: index_cmp_def key_of_def cmp_of_def Let_def)
  qed
qed

lemma order_on_consistent:
  assumes "consistent K"
  shows "order_on (index_cmp B) K"
proof -
  have e: "index_eq x y \<Longrightarrow> key_of x = key_of y" if "x \<in> K" "y \<in> K" for x y
    using assms that unfolding consistent_def by blast
  note sign = index_cmp_sign(1) [OF e] index_cmp_sign(2) [OF e]
  have le: "index_cmp B x y \<le> 0 \<longleftrightarrow> key_less x y \<or> key_of x = key_of y" if "x \<in> K" "y \<in> K" for x y
    using sign(1,2) [OF that] by linarith
  have irrefl: "\<not> key_less x y" if "key_of x = key_of y" for x y
    using that by (simp add: key_less_def key_of_def)
  have "index_cmp B x y < 0 \<longleftrightarrow> 0 < index_cmp B y x" if xy: "x \<in> K" "y \<in> K" for x y
  proof -
    have "0 < index_cmp B y x \<longleftrightarrow> \<not> index_cmp B y x \<le> 0" by linarith
    then have "0 < index_cmp B y x \<longleftrightarrow> \<not> (key_less y x \<or> key_of y = key_of x)" using le [OF xy(2,1)] by simp
    then show ?thesis
      using sign(1) [OF xy] key_less_total [of x y] key_less_asym [of x y] irrefl [of x y] by metis
  qed
  moreover have "index_cmp B x z \<le> 0"
    if "x \<in> K" "y \<in> K" "z \<in> K" "index_cmp B x y \<le> 0" "index_cmp B y z \<le> 0" for x y z
    using that le [of x y] le [of y z] le [of x z] key_less_trans [of x y z] key_less_cong [of x x y z]
      key_less_cong [of x y z z] by auto
  ultimately show ?thesis unfolding order_on_def by blast
qed

end

section \<open>The queue keeps the newest messages\<close>

text \<open>The queue holds what \<open>put\<close> makes: the sender's time of an index is the time of its message.\<close>

definition queue_ok :: "'s index_set \<Rightarrow> ('s \<Rightarrow> bool) \<Rightarrow> 's QueueDriver \<Rightarrow> bool" where
  "queue_ok S ok d \<longleftrightarrow> ok (items d) \<and> consistent (keys (queue_walk S d)) \<and> queue_len S d \<le> capacity d \<and> 0 < capacity d
     \<and> (\<forall>(k, m) \<in> set (queue_walk S d). senderTime k = timestamp m)"

text \<open>Messages added one after the other; what \<^verbatim>\<open>add\<close> answers is not looked at.\<close>

fun queue_adds ::
  "'s index_set \<Rightarrow> (bytes \<Rightarrow> bytes \<Rightarrow> int) \<Rightarrow> (Index \<times> WakuMessage) list \<Rightarrow> 's QueueDriver \<Rightarrow> 's QueueDriver exec" where
  "queue_adds S B [] d = Done d"
| "queue_adds S B ((k, m) # es) d = bind_exec (queue_add S B k m d) (\<lambda>(_, d'). queue_adds S B es d')"

locale index_set = sorted_set S ok "index_cmp B" + byte_order B
  for S :: "'s index_set" and ok :: "'s \<Rightarrow> bool" and B :: "bytes \<Rightarrow> bytes \<Rightarrow> int"
begin

lemma queue_ok_new: "0 < cap \<Longrightarrow> queue_ok S ok (new_queue S cap)"
  by (simp add: queue_ok_def new_queue_def queue_walk_def queue_len_def empty consistent_def)

lemma queue_add_newest:
  assumes "queue_ok S ok d" and "consistent (insert k (keys (queue_walk S d)))" and "senderTime k = timestamp m"
  obtains r d' where "queue_add S B k m d = Done (r, d')" and "queue_ok S ok d'" and "capacity d' = capacity d"
    and "queue_walk S d' = newest (nat (capacity d)) (insert_new (index_cmp B) k m (queue_walk S d))"
proof -
  let ?c = "index_cmp B"
  let ?w = "queue_walk S d"
  have okd: "ok (items d)" and len: "int (length ?w) \<le> capacity d" and pos: "0 < capacity d"
    and times: "\<forall>(k, m) \<in> set ?w. senderTime k = timestamp m"
    using assms(1) by (simp_all add: queue_ok_def queue_len_def)
  have o: "order_on ?c (insert k (keys ?w))" by (rule order_on_consistent [OF assms(2)])
  have asc: "ascending ?c ?w" using ascends [OF okd] by (simp add: queue_walk_def)
  have has: "queue_contains S d k \<longleftrightarrow> has_key ?c k ?w"
    using has [OF okd] o by (simp add: queue_contains_def queue_walk_def)
  have full: "newest (nat (capacity d)) ?w = ?w" using len by simp
  show thesis
  proof (cases "has_key ?c k ?w")
    case True
    then show thesis using that [of "Inl ''duplicate''" d] has full assms(1) by (simp add: queue_add_def insert_new_def)
  next
    case new: False
    show thesis
    proof (cases "capacity d \<le> queue_len S d")
      case False
      have i: "ok (ss_insert S k m (items d))" "ss_walk S (ss_insert S k m (items d)) = put_sorted ?c k m ?w"
        using inserted [OF okd, of k m] o new by (simp_all add: queue_walk_def)
      show thesis
        using that [of "Inr ()" "d\<lparr>items := ss_insert S k m (items d)\<rparr>"] i has new False assms(2,3) times pos
        by (auto simp: queue_add_def insert_new_def queue_ok_def queue_walk_def queue_len_def set_put_sorted)
    next
      case True
      then obtain f v rest where w: "?w = (f, v) # rest" and n: "capacity d = int (length ?w)"
        using len pos by (cases ?w) (auto simp: queue_len_def)
      show thesis
      proof (cases "?c k f < 0")
        case old: True
        have "\<not> ?c f k < 0" using old order_on_less [OF o, of k f] by (simp add: w)
        then show thesis using that [of "Inl ''too_old''" d] has new True old assms(1) w n
          by (simp add: queue_add_def insert_new_def)
      next
        case later: False
        then have fk: "?c f k < 0"
          using new order_on_less [OF o, of f k] order_on_zero [OF o, of f k] by (auto simp: w)
        have of: "order_on ?c (insert f (keys ?w))" using order_on_subset [OF o] by (auto simp: w)
        have d: "ok (ss_delete S f (items d))" "ss_walk S (ss_delete S f (items d)) = rest"
          using deleted [OF okd, of f] of drop_first [of ?c f rest v] asc order_on_subset [OF of]
          by (auto simp: queue_walk_def [symmetric] w)
        have or: "order_on ?c (insert k (keys rest))" using order_on_subset [OF o] by (auto simp: w)
        have i: "ok (ss_insert S k m (ss_delete S f (items d)))"
          "ss_walk S (ss_insert S k m (ss_delete S f (items d))) = put_sorted ?c k m rest"
          using inserted [OF d(1), of k m] or new by (simp_all add: d(2) w)
        have cons: "consistent (insert k (keys rest))" using consistent_subset [OF assms(2)] by (auto simp: w)
        show thesis
          using that [of "Inr ()" "d\<lparr>items := ss_insert S k m (ss_delete S f (items d))\<rparr>"] i has new True later fk n times
            assms(3) cons
          by (auto simp: queue_add_def insert_new_def queue_ok_def queue_walk_def [of S "items_update _ _"] queue_len_def w
              set_put_sorted)
      qed
    qed
  qed
qed

lemma queue_adds_newest:
  assumes "queue_ok S ok d" and "queue_walk S d = newest (nat (capacity d)) ys" and "ascending (index_cmp B) ys"
    and "consistent (keys es \<union> keys ys)" and "\<forall>(k, m) \<in> set es. senderTime k = timestamp m"
  shows "\<exists>d'. queue_adds S B es d = Done d' \<and> queue_ok S ok d'
    \<and> queue_walk S d' = newest (nat (capacity d)) (fold (\<lambda>(k, m). insert_new (index_cmp B) k m) es ys)"
  using assms
proof (induction es arbitrary: d ys)
  case (Cons e es)
  obtain k m where e: "e = (k, m)" by (cases e)
  let ?ys = "insert_new (index_cmp B) k m ys"
  have sub: "keys (newest n ys) \<subseteq> keys ys" for n by (auto simp: keys_def newest_def dest: in_set_dropD)
  have "consistent (insert k (keys (queue_walk S d)))"
    using Cons.prems(2) sub by (intro consistent_subset [OF Cons.prems(4)]) (auto simp: e)
  moreover have "senderTime k = timestamp m" using Cons.prems(5) by (simp add: e)
  ultimately obtain r d' where d': "queue_add S B k m d = Done (r, d')" "queue_ok S ok d'" "capacity d' = capacity d"
    "queue_walk S d' = newest (nat (capacity d)) (insert_new (index_cmp B) k m (queue_walk S d))"
    by (rule queue_add_newest [OF Cons.prems(1)])
  have o: "order_on (index_cmp B) (insert k (keys ys))"
    by (rule order_on_consistent) (use consistent_subset [OF Cons.prems(4)] in \<open>auto simp: e\<close>)
  have "queue_walk S d' = newest (nat (capacity d')) ?ys"
    using newest_insert_new [OF o Cons.prems(3)] d'(3,4) Cons.prems(2) by simp
  moreover have "ascending (index_cmp B) ?ys"
    using put_sorted_ascending [OF o Cons.prems(3)] Cons.prems(3) by (simp add: insert_new_def)
  moreover have "consistent (keys es \<union> keys ?ys)"
    using consistent_subset [OF Cons.prems(4)] by (auto simp: e insert_new_def)
  ultimately have "\<exists>d''. queue_adds S B es d' = Done d'' \<and> queue_ok S ok d''
      \<and> queue_walk S d'' = newest (nat (capacity d')) (fold (\<lambda>(k, m). insert_new (index_cmp B) k m) es ?ys)"
    using Cons.IH [OF d'(2)] Cons.prems(5) by simp
  then show ?case using d'(1,3) by (simp add: e)
qed simp

lemma keys_fold: "keys (fold (\<lambda>(k, m). insert_new (index_cmp B) k m) es ys) \<subseteq> keys es \<union> keys ys"
proof (induction es arbitrary: ys)
  case (Cons e es)
  show ?case using Cons [of "insert_new (index_cmp B) (fst e) (snd e) ys"]
    by (cases e) (auto simp: insert_new_def split: if_splits)
qed simp

lemma ascending_all:
  assumes "consistent (keys es \<union> keys ys)" and "ascending (index_cmp B) ys"
  shows "ascending (index_cmp B) (fold (\<lambda>(k, m). insert_new (index_cmp B) k m) es ys)
    \<and> (\<forall>k \<in> keys es \<union> keys ys. has_key (index_cmp B) k (fold (\<lambda>(k, m). insert_new (index_cmp B) k m) es ys))"
  using assms
proof (induction es arbitrary: ys)
  case Nil
  have "\<forall>k \<in> keys ys. has_key (index_cmp B) k ys"
    using order_on_refl [OF order_on_consistent [of "keys ys"]] Nil by (auto simp: has_key_iff)
  then show ?case using Nil by simp
next
  case (Cons e es)
  obtain k m where e: "e = (k, m)" by (cases e)
  let ?ys = "insert_new (index_cmp B) k m ys"
  have o: "order_on (index_cmp B) (insert k (keys ys))"
    by (rule order_on_consistent) (use consistent_subset [OF Cons.prems(1)] in \<open>auto simp: e\<close>)
  have c: "consistent (keys es \<union> keys ?ys)" using consistent_subset [OF Cons.prems(1)] by (auto simp: e insert_new_def)
  have a: "ascending (index_cmp B) ?ys"
    using put_sorted_ascending [OF o Cons.prems(2)] Cons.prems(2) by (simp add: insert_new_def)
  let ?r = "fold (\<lambda>(k, m). insert_new (index_cmp B) k m) es ?ys"
  have ih: "ascending (index_cmp B) ?r" "\<forall>k \<in> keys es \<union> keys ?ys. has_key (index_cmp B) k ?r"
    using Cons.IH [OF c a] by simp_all
  have "has_key (index_cmp B) k ?r"
  proof (cases "has_key (index_cmp B) k ys")
    case True
    then obtain x where x: "x \<in> keys ys" "index_cmp B k x = 0" by (auto simp: has_key_iff)
    then obtain y where y: "y \<in> keys ?r" "index_cmp B x y = 0" using ih(2) True by (auto simp: insert_new_def has_key_iff)
    have sub: "keys ?r \<subseteq> keys es \<union> keys ?ys" by (rule keys_fold)
    have "order_on (index_cmp B) (keys (e # es) \<union> keys ys)" by (rule order_on_consistent [OF Cons.prems(1)])
    from order_on_trans(1) [OF this, of k x y] order_on_trans(1) [OF this, of y x k]
      order_on_zero [OF this, of x y] order_on_zero [OF this, of k x] order_on_zero [OF this, of k y]
      order_on_less [OF this, of k y] order_on_less [OF this, of y k]
    have "index_cmp B k y = 0" using x y sub True by (auto simp: e insert_new_def)
    then show ?thesis using y(1) by (auto simp: has_key_iff)
  next
    case False
    then show ?thesis using ih(2) by (auto simp: insert_new_def)
  qed
  moreover have "keys ys \<subseteq> keys ?ys" by (auto simp: insert_new_def)
  ultimately show ?case using ih by (auto simp: e)
qed

end

interpretation list_index_set: index_set "list_sset (index_cmp cmp_of)" "ascending (index_cmp cmp_of)" cmp_of
  by unfold_locales

text \<open>All messages ever added, in the order of their indices, each index once.\<close>

definition all_messages :: "(bytes \<Rightarrow> bytes \<Rightarrow> int) \<Rightarrow> (Index \<times> WakuMessage) list \<Rightarrow> (Index \<times> WakuMessage) list" where
  "all_messages B es = fold (\<lambda>(k, m). insert_new (index_cmp B) k m) es []"

lemma set_fold_new: "set (fold (\<lambda>(k, m). insert_new c k m) es ys) \<subseteq> set es \<union> set ys"
proof (induction es arbitrary: ys)
  case (Cons e es)
  show ?case using Cons [of "insert_new c (fst e) (snd e) ys"]
    by (cases e) (auto simp: insert_new_def set_put_sorted split: if_splits)
qed simp

lemma set_all_messages: "set (all_messages B es) \<subseteq> set es"
  using set_fold_new [of "index_cmp B" es "[]"] by (simp add: all_messages_def)

text \<open>C21: what the in-memory archive holds. Over any sorted set that keeps its promises, messages added in any order
  to a new queue of capacity \<open>cap\<close> > 0, whose indices are equal only when they sort together,
  leave in it exactly the last \<open>cap\<close> of all messages ever added, sorted by time, digest and
  topic, each index once with the message that came with it first: never more than \<open>cap\<close>,
  never without a newer one, and without a fault.\<close>

theorem queue_keeps_newest:
  assumes "index_set S ok B" and "0 < cap" and "consistent (keys es)" and "\<forall>(k, m) \<in> set es. senderTime k = timestamp m"
  shows "\<exists>d. queue_adds S B es (new_queue S cap) = Done d \<and> queue_walk S d = newest (nat cap) (all_messages B es)
    \<and> queue_len S d \<le> cap \<and> ascending (index_cmp B) (all_messages B es)
    \<and> keys (all_messages B es) \<subseteq> keys es \<and> (\<forall>k \<in> keys es. has_key (index_cmp B) k (all_messages B es))"
proof -
  note l = index_set.queue_adds_newest [OF assms(1) index_set.queue_ok_new [OF assms(1,2)], of "[]" es]
    index_set.ascending_all [OF assms(1), of es "[]"] index_set.keys_fold [OF assms(1), of es "[]"]
  have s: "sorted_set S ok (index_cmp B)" using assms(1) by (simp add: index_set_def)
  have "queue_walk S (new_queue S cap) = []"
    using sorted_set.empty(2) [OF s] by (simp add: queue_walk_def new_queue_def)
  then show ?thesis
    using l assms(2,3,4) by (auto simp: all_messages_def new_queue_def queue_len_def)
qed

text \<open>Three messages in a queue of two.\<close>

definition sample_index :: "Timestamp \<Rightarrow> Index" where
  "sample_index t = \<lparr>ix_pubsubTopic = ''t'', senderTime = t, receiverTime = 100, digest = [of_int t], ix_hash = [of_int t]\<rparr>"

definition sample_entries :: "(Index \<times> WakuMessage) list" where
  "sample_entries = map (\<lambda>t. (sample_index t, empty_message\<lparr>timestamp := t\<rparr>)) [7, 5, 9]"

lemma sample_consistent: "consistent (keys sample_entries)"
  by (auto simp: sample_entries_def consistent_def index_eq_def sample_index_def)

lemma queue_keeps_newest_witness:
  "\<exists>d. queue_adds (list_sset (index_cmp cmp_of)) cmp_of sample_entries (new_queue (list_sset (index_cmp cmp_of)) 2) = Done d
     \<and> map (senderTime \<circ> fst) (queue_walk (list_sset (index_cmp cmp_of)) d) = [7, 9]"
proof -
  have t: "\<forall>(k, m) \<in> set sample_entries. senderTime k = timestamp m" by (simp add: sample_entries_def sample_index_def)
  have "map (senderTime \<circ> fst) (newest 2 (all_messages cmp_of sample_entries)) = [7, 9]" by code_simp
  then show ?thesis
    using queue_keeps_newest [OF list_index_set.index_set_axioms _ sample_consistent t, of 2] by auto
qed

text \<open>Which messages can be kept in order. The indices of messages that have a time of their own, and whose
  hashes are equal only for the same topic, time and digest, compare as a total order of
  time, digest and topic. But a message without a time that is received twice, with
  another message between, gives three indices of which the first and last are equal while
  the second is after the first and before the last: no order at all.\<close>

theorem index_order:
  assumes "byte_order B"
    and "\<forall>x\<in>K. senderTime x \<noteq> 0"
    and "\<forall>x\<in>K. \<forall>y\<in>K. ix_hash x = ix_hash y \<longrightarrow>
      senderTime x = senderTime y \<and> digest x = digest y \<and> ix_pubsubTopic x = ix_pubsubTopic y"
    and "timestamp msg = 0" and "r < timestamp msg2" and "timestamp msg2 < r'" and "timestamp msg2 \<noteq> 0"
    and "computeMessageHash sha be64 topic msg \<noteq> computeMessageHash sha be64 topic2 msg2"
  shows "order_on (index_cmp B) K
      \<and> index_cmp B (compute_index sha be64 msg r topic) (compute_index sha be64 msg r' topic) = 0
      \<and> index_cmp B (compute_index sha be64 msg r topic) (compute_index sha be64 msg2 t2 topic2) < 0
      \<and> index_cmp B (compute_index sha be64 msg2 t2 topic2) (compute_index sha be64 msg r' topic) < 0"
proof -
  have "consistent K"
    unfolding consistent_def
  proof (intro ballI impI)
    fix x y assume xy: "x \<in> K" "y \<in> K" "index_eq x y"
    then have "senderTime x = senderTime y \<and> digest x = digest y \<and> ix_pubsubTopic x = ix_pubsubTopic y"
      using assms(3) unfolding index_eq_def by blast
    then show "key_of x = key_of y" using assms(2) xy(1,2) by (simp add: key_of_def index_time_def)
  qed
  then have 1: "order_on (index_cmp B) K" by (rule byte_order.order_on_consistent [OF assms(1)])
  let ?x = "compute_index sha be64 msg r topic" and ?y = "compute_index sha be64 msg2 t2 topic2"
    and ?z = "compute_index sha be64 msg r' topic"
  have times: "index_time ?x = r" "index_time ?y = timestamp msg2" "index_time ?z = r'"
    using assms(4,7) by (simp_all add: index_time_def compute_index_def)
  have eqs: "index_eq ?x ?z" "\<not> index_eq ?x ?y" "\<not> index_eq ?y ?z"
    using assms(4,7,8) by (auto simp: index_eq_def compute_index_def)
  show "order_on (index_cmp B) K \<and> index_cmp B ?x ?z = 0 \<and> index_cmp B ?x ?y < 0 \<and> index_cmp B ?y ?z < 0"
    using 1 assms(5,6) by (simp add: index_cmp_def eqs times cmp_of_def Let_def)
qed

lemma index_order_witness:
  "order_on (index_cmp cmp_of) (keys sample_entries)
   \<and> index_cmp cmp_of (compute_index id (\<lambda>w. [ucast w]) empty_message 1 ''a'') (compute_index id (\<lambda>w. [ucast w]) empty_message 3 ''a'') = 0"
proof -
  have a: "\<forall>x \<in> keys sample_entries. senderTime x \<noteq> 0" by (auto simp: sample_entries_def sample_index_def)
  have b: "\<forall>x \<in> keys sample_entries. \<forall>y \<in> keys sample_entries. ix_hash x = ix_hash y \<longrightarrow>
      senderTime x = senderTime y \<and> digest x = digest y \<and> ix_pubsubTopic x = ix_pubsubTopic y"
    by (auto simp: sample_entries_def sample_index_def)
  have c: "timestamp empty_message = 0" "1 < timestamp (empty_message\<lparr>timestamp := 2\<rparr>)"
    "timestamp (empty_message\<lparr>timestamp := 2\<rparr>) < 3" "timestamp (empty_message\<lparr>timestamp := 2\<rparr>) \<noteq> 0"
    "computeMessageHash id (\<lambda>w. [ucast w]) ''a'' empty_message
       \<noteq> computeMessageHash id (\<lambda>w. [ucast w]) ''a'' (empty_message\<lparr>timestamp := 2\<rparr>)"
    by (simp_all add: empty_message_def computeMessageHash_def)
  from index_order [OF lexicographic.byte_order_axioms a b c] show ?thesis by blast
qed

end
