(* ===== verification/Archive.thy ===== *)
theory Archive
  imports ArchiveQueue
begin

text \<open>
  The archive (\<^verbatim>\<open>waku_archive/archive.nim\<close>, \<^verbatim>\<open>common.nim\<close>): what it stores of the messages relayed, and
  the pages it answers queries with, over a driver. The driver interface
  (\<^verbatim>\<open>waku_archive/driver.nim\<close>) is the record \<open>archive_driver\<close>; the queue is an instance. The clock
  readings are arguments, metrics and logs are left out. The retention policies
  (\<^verbatim>\<open>retention_policy\<close>) are at the end.
\<close>

section \<open>Data\<close>

record ArchiveQuery =
  aq_includeData :: bool
  aq_pubsubTopic :: "PubsubTopic option"
  aq_contentTopics :: "ContentTopic list"
  aq_cursor :: "ArchiveCursor option"
  aq_startTime :: "Timestamp option"
  aq_endTime :: "Timestamp option"
  aq_hashes :: "bytes list"
  aq_pageSize :: u64
  aq_forward :: bool

record ArchiveResponse =
  ar_hashes :: "bytes list"
  ar_messages :: "WakuMessage list"
  ar_topics :: "PubsubTopic list"
  ar_cursor :: "ArchiveCursor option"

datatype ArchiveError = UNKNOWN | DRIVER_ERROR string | INVALID_QUERY string

fun show_archive_error :: "ArchiveError \<Rightarrow> string" where
  "show_archive_error (DRIVER_ERROR cause) = ''DIRVER_ERROR: '' @ cause"
| "show_archive_error (INVALID_QUERY cause) = ''INVALID_QUERY: '' @ cause"
| "show_archive_error UNKNOWN = ''UNKNOWN''"

text \<open>The methods of a driver with the state \<open>'d\<close>; a page is asked with the query, its size and direction.\<close>

record 'd archive_driver =
  ad_put :: "PubsubTopic \<Rightarrow> WakuMessage \<Rightarrow> bytes \<Rightarrow> bytes \<Rightarrow> Timestamp \<Rightarrow> 'd \<Rightarrow> ((string + unit) \<times> 'd) exec"
  ad_getMessages :: "'d \<Rightarrow> ArchiveQuery \<Rightarrow> nat \<Rightarrow> bool \<Rightarrow> string + ArchiveRow list"
  ad_getMessagesCount :: "'d \<Rightarrow> string + int"
  ad_getOldestMessageTimestamp :: "'d \<Rightarrow> string + Timestamp"
  ad_deleteMessagesOlderThanTimestamp :: "Timestamp \<Rightarrow> 'd \<Rightarrow> (string + unit) \<times> 'd"
  ad_deleteOldestMessagesNotWithinLimit :: "int \<Rightarrow> 'd \<Rightarrow> (string + unit) \<times> 'd"
  ad_decreaseDatabaseSize :: "int \<Rightarrow> 'd \<Rightarrow> (string + unit) \<times> 'd"

definition queue_driver :: "'s index_set \<Rightarrow> (bytes \<Rightarrow> bytes \<Rightarrow> int) \<Rightarrow> 's QueueDriver archive_driver" where
  "queue_driver S B =
     \<lparr>ad_put = queue_put S B,
      ad_getMessages = (\<lambda>d q n asc. queue_getMessages S d (aq_contentTopics q) (aq_pubsubTopic q) (aq_cursor q)
        (aq_startTime q) (aq_endTime q) (aq_hashes q) n asc),
      ad_getMessagesCount = queue_getMessagesCount S,
      ad_getOldestMessageTimestamp = queue_getOldestMessageTimestamp S,
      ad_deleteMessagesOlderThanTimestamp = (\<lambda>_ d. (Inl not_implemented, d)),
      ad_deleteOldestMessagesNotWithinLimit = (\<lambda>_ d. (Inl not_implemented, d)),
      ad_decreaseDatabaseSize = (\<lambda>_ d. (Inl not_implemented, d))\<rparr>"

section \<open>Storing\<close>

definition MaxMessageTimestampVariance :: Timestamp where
  "MaxMessageTimestampVariance = 20000000000"

text \<open>An ephemeral message ends with the default of a result, which is an error without a text.\<close>

definition validate :: "Timestamp \<Rightarrow> WakuMessage \<Rightarrow> string + unit" where
  "validate now msg =
     (if ephemeral msg then Inl []
      else if timestamp msg = 0 then Inr ()
      else if timestamp msg < now - MaxMessageTimestampVariance then Inl ''invalid_message_too_old''
      else if now + MaxMessageTimestampVariance < timestamp msg then Inl ''invalid_message_future_timestamp''
      else Inr ())"

definition archive_handleMessage ::
  "(bytes \<Rightarrow> bytes) \<Rightarrow> (u64 \<Rightarrow> bytes) \<Rightarrow> 'd archive_driver \<Rightarrow> (WakuMessage \<Rightarrow> string + unit) \<Rightarrow> Timestamp
     \<Rightarrow> PubsubTopic \<Rightarrow> WakuMessage \<Rightarrow> 'd \<Rightarrow> 'd exec" where
  "archive_handleMessage sha be64 drv validator now pubsubTopic msg d =
     (case validator msg of
        Inl e \<Rightarrow> Done d
      | Inr _ \<Rightarrow>
          bind_exec (ad_put drv pubsubTopic msg (computeDigest sha msg) (computeMessageHash sha be64 pubsubTopic msg)
              (if timestamp msg > 0 then timestamp msg else now) d)
            (\<lambda>(_, d'). Done d'))"

section \<open>Queries\<close>

definition DefaultPageSize :: nat where "DefaultPageSize = 20"
definition MaxPageSize :: nat where "MaxPageSize = 100"

definition page_size :: "ArchiveQuery \<Rightarrow> nat" where
  "page_size q = (if aq_pageSize q \<le> 0 then DefaultPageSize else min (unat (aq_pageSize q)) MaxPageSize)"

fun row_hash :: "ArchiveRow \<Rightarrow> bytes" where "row_hash (topic, msg, dig, t, h) = h"
fun row_message :: "ArchiveRow \<Rightarrow> WakuMessage" where "row_message (topic, msg, dig, t, h) = msg"
fun row_topic :: "ArchiveRow \<Rightarrow> PubsubTopic" where "row_topic (topic, msg, dig, t, h) = topic"

text \<open>The digest of a row has 32 bytes, which \<^verbatim>\<open>MessageDigest.fromBytes\<close> asserts.\<close>

fun cursor_of :: "ArchiveRow \<Rightarrow> ArchiveCursor" where
  "cursor_of (topic, msg, dig, t, h) =
     \<lparr>ac_digest = dig, ac_storeTime = t, ac_senderTime = timestamp msg, ac_pubsubTopic = topic, ac_hash = h\<rparr>"

definition findMessages :: "'d archive_driver \<Rightarrow> 'd \<Rightarrow> ArchiveQuery \<Rightarrow> ArchiveError + ArchiveResponse" where
  "findMessages drv d query =
     (let maxPageSize = page_size query;
          isAscendingOrder = aq_forward query
      in if length (aq_contentTopics query) > 10 then Inl (INVALID_QUERY ''too many content topics'')
         else if aq_cursor query \<noteq> None \<and> length (ac_hash (the (aq_cursor query))) \<noteq> 32 then
           Inl (INVALID_QUERY ''invalid cursor hash length'')
         else
           (case ad_getMessages drv d query (maxPageSize + 1) isAscendingOrder of
              Inl e \<Rightarrow> Inl (DRIVER_ERROR e)
            | Inr rows \<Rightarrow>
                if length rows = 0 then Inr \<lparr>ar_hashes = [], ar_messages = [], ar_topics = [], ar_cursor = None\<rparr>
                else
                  (let page = take (min (length rows) maxPageSize) rows;
                       topics = (if aq_includeData query then map row_topic page else []);
                       messages = (if aq_includeData query then map row_message page else []);
                       hashes = map row_hash page;
                       cursor = (if length rows > maxPageSize then Some (cursor_of (rows ! (length rows - 2))) else None)
                   in Inr \<lparr>ar_hashes = (if \<not> isAscendingOrder then rev hashes else hashes),
                        ar_messages = (if \<not> isAscendingOrder then rev messages else messages),
                        ar_topics = (if \<not> isAscendingOrder then rev topics else topics), ar_cursor = cursor\<rparr>)))"

section \<open>Retention\<close>

record CapacityRetentionPolicy =
  cp_capacity :: int
  cp_totalCapacity :: int
  cp_deleteWindow :: int

definition capacity_execute :: "CapacityRetentionPolicy \<Rightarrow> 'd archive_driver \<Rightarrow> 'd \<Rightarrow> (string + unit) \<times> 'd" where
  "capacity_execute p drv d =
     (case ad_getMessagesCount drv d of
        Inl e \<Rightarrow> (Inl (''failed to get messages count: '' @ e), d)
      | Inr numMessages \<Rightarrow>
          if numMessages < cp_totalCapacity p then (Inr (), d)
          else
            (case ad_deleteOldestMessagesNotWithinLimit drv (cp_capacity p + cp_deleteWindow p) d of
               (Inl e, d') \<Rightarrow> (Inl (''deleting oldest messages failed: '' @ e), d')
             | (Inr _, d') \<Rightarrow> (Inr (), d')))"

definition size_execute :: "int \<Rightarrow> 'd archive_driver \<Rightarrow> 'd \<Rightarrow> (string + unit) \<times> 'd" where
  "size_execute sizeLimit drv d =
     (case ad_decreaseDatabaseSize drv sizeLimit d of
        (Inl e, d') \<Rightarrow> (Inl (''decreaseDatabaseSize failed: '' @ e), d')
      | (Inr _, d') \<Rightarrow> (Inr (), d'))"

definition time_execute :: "int \<Rightarrow> Timestamp \<Rightarrow> 'd archive_driver \<Rightarrow> 'd \<Rightarrow> (string + unit) \<times> 'd" where
  "time_execute retentionTime now drv d =
     (case ad_getOldestMessageTimestamp drv d of
        Inl e \<Rightarrow> (Inl (''failed to get oldest message timestamp: '' @ e), d)
      | Inr oldest \<Rightarrow>
          (let retentionTimestamp = now - retentionTime;
               thresholdTimestamp = retentionTimestamp - retentionTime div 10
           in if thresholdTimestamp \<le> oldest then (Inr (), d)
              else
                (case ad_deleteMessagesOlderThanTimestamp drv retentionTimestamp d of
                   (Inl e, d') \<Rightarrow> (Inl (''failed to delete oldest messages: '' @ e), d')
                 | (Inr _, d') \<Rightarrow> (Inr (), d'))))"

text \<open>The queue implements none of the deletions: no policy changes it.\<close>

lemma queue_retention:
  "snd (capacity_execute p (queue_driver S B) d) = d" "snd (size_execute limit (queue_driver S B) d) = d"
  "snd (time_execute period now (queue_driver S B) d) = d"
  by (auto simp: capacity_execute_def size_execute_def time_execute_def queue_driver_def Let_def split: sum.splits)

section \<open>Pages\<close>

definition row_matches :: "ArchiveQuery \<Rightarrow> ArchiveRow \<Rightarrow> bool" where
  "row_matches q r = matchesQuery (aq_pubsubTopic q) (aq_contentTopics q) (aq_startTime q) (aq_endTime q) (aq_hashes q)
     (row_topic r) (row_hash r) (row_message r)"

fun hits :: "ArchiveCursor \<Rightarrow> ArchiveRow \<Rightarrow> bool" where
  "hits c (topic, msg, dig, t, h) \<longleftrightarrow>
     (ac_senderTime c = timestamp msg \<and> ac_digest c = dig \<and> ac_pubsubTopic c = topic) \<or> ac_hash c = h"

definition in_order :: "bool \<Rightarrow> 'a list \<Rightarrow> 'a list" where
  "in_order asc xs = (if asc then xs else rev xs)"

lemma in_order_simps [simp]:
  "in_order True xs = xs" "in_order False xs = rev xs" "in_order asc [] = []" "set (in_order asc xs) = set xs"
  "in_order asc (in_order asc xs) = xs" "map f (in_order asc xs) = in_order asc (map f xs)"
  "distinct (in_order asc xs) = distinct xs" "filter p (in_order asc xs) = in_order asc (filter p xs)"
  by (simp_all add: in_order_def rev_map rev_filter)

text \<open>A client follows the cursors; \<open>next\<close> is the cursor it sends for the one it got.\<close>

fun follow_pages ::
  "(ArchiveCursor \<Rightarrow> ArchiveCursor) \<Rightarrow> 'd archive_driver \<Rightarrow> 'd \<Rightarrow> nat \<Rightarrow> ArchiveQuery \<Rightarrow> ArchiveResponse list option" where
  "follow_pages next drv d 0 q = None"
| "follow_pages next drv d (Suc n) q =
     (case findMessages drv d q of
        Inl e \<Rightarrow> None
      | Inr res \<Rightarrow>
          (case ar_cursor res of
             None \<Rightarrow> Some [res]
           | Some c \<Rightarrow> map_option (Cons res) (follow_pages next drv d n (q\<lparr>aq_cursor := Some (next c)\<rparr>))))"

text \<open>A response that holds these rows, which are in the direction of the query.\<close>

definition page_is :: "ArchiveQuery \<Rightarrow> ArchiveRow list \<Rightarrow> ArchiveResponse \<Rightarrow> bool" where
  "page_is q page res \<longleftrightarrow> in_order (aq_forward q) (ar_hashes res) = map row_hash page
     \<and> in_order (aq_forward q) (ar_messages res) = (if aq_includeData q then map row_message page else [])
     \<and> in_order (aq_forward q) (ar_topics res) = (if aq_includeData q then map row_topic page else [])
     \<and> length page \<le> page_size q
     \<and> (\<forall>c. ar_cursor res = Some c \<longrightarrow> (\<exists>r \<in> set page. c = cursor_of r))"

text \<open>What the archive relies on in a driver whose rows are in chronological order.\<close>

locale page_source =
  fixes drv :: "'d archive_driver" and good :: "'d \<Rightarrow> bool" and rows :: "'d \<Rightarrow> ArchiveRow list"
  assumes distinct_rows: "good d \<Longrightarrow> distinct (rows d)"
    and start: "good d \<Longrightarrow> aq_cursor q = None \<Longrightarrow>
      ad_getMessages drv d q n asc = Inr (take n (filter (row_matches q) (in_order asc (rows d))))"
    and after: "good d \<Longrightarrow> aq_cursor q = Some c \<Longrightarrow> in_order asc (rows d) = pre @ r # post \<Longrightarrow> hits c r \<Longrightarrow>
      \<forall>x \<in> set pre. \<not> hits c x \<Longrightarrow> ad_getMessages drv d q n asc = Inr (take n (filter (row_matches q) post))"
begin

lemma page_size_pos: "0 < page_size q"
  by (auto simp: page_size_def DefaultPageSize_def MaxPageSize_def unat_gt_0)

lemma page_of:
  assumes "length (aq_contentTopics q) \<le> 10" and "aq_cursor q \<noteq> None \<longrightarrow> length (ac_hash (the (aq_cursor q))) = 32"
    and "ad_getMessages drv d q (page_size q + 1) (aq_forward q) = Inr (take (page_size q + 1) todo)"
  obtains res where "findMessages drv d q = Inr res" and "page_is q (take (page_size q) todo) res"
    and "ar_cursor res = (if length todo > page_size q then Some (cursor_of (todo ! (page_size q - 1))) else None)"
proof -
  let ?p = "page_size q"
  define rows where "rows = take (?p + 1) todo"
  define page where "page = take ?p todo"
  have pos: "0 < ?p" by (rule page_size_pos)
  have t: "take (min (length rows) ?p) rows = page" by (auto simp: rows_def page_def min_def)
  have "rows ! (length rows - 2) = todo ! (?p - 1)" if "?p < length todo"
  proof -
    have "length rows = ?p + 1" using that by (simp add: rows_def)
    then show ?thesis using pos by (simp add: rows_def)
  qed
  then have c: "(if length rows > ?p then Some (cursor_of (rows ! (length rows - 2))) else None)
      = (if length todo > ?p then Some (cursor_of (todo ! (?p - 1))) else None)"
    by (auto simp: rows_def)
  have f: "findMessages drv d q =
     (if length rows = 0 then Inr \<lparr>ar_hashes = [], ar_messages = [], ar_topics = [], ar_cursor = None\<rparr>
      else Inr \<lparr>ar_hashes = (if \<not> aq_forward q then rev (map row_hash page) else map row_hash page),
        ar_messages = (if \<not> aq_forward q then rev (if aq_includeData q then map row_message page else [])
          else if aq_includeData q then map row_message page else []),
        ar_topics = (if \<not> aq_forward q then rev (if aq_includeData q then map row_topic page else [])
          else if aq_includeData q then map row_topic page else []),
        ar_cursor = (if length todo > ?p then Some (cursor_of (todo ! (?p - 1))) else None)\<rparr>)"
    unfolding findMessages_def Let_def assms(3) [folded rows_def] sum.case t c using assms(1,2) by auto
  show thesis
  proof (cases "rows = []")
    case True
    then have "todo = []" "page = []" by (auto simp: rows_def page_def)
    then show thesis using that f True by (simp add: page_is_def)
  next
    case False
    then have r: "findMessages drv d q = Inr \<lparr>ar_hashes = (if \<not> aq_forward q then rev (map row_hash page) else map row_hash page),
        ar_messages = (if \<not> aq_forward q then rev (if aq_includeData q then map row_message page else [])
          else if aq_includeData q then map row_message page else []),
        ar_topics = (if \<not> aq_forward q then rev (if aq_includeData q then map row_topic page else [])
          else if aq_includeData q then map row_topic page else []),
        ar_cursor = (if length todo > ?p then Some (cursor_of (todo ! (?p - 1))) else None)\<rparr>"
      using f by simp
    have "todo ! (?p - 1) \<in> set page" if "?p < length todo"
      using nth_mem [of "?p - 1" page] that pos by (simp add: page_def)
    then show thesis by (intro that [OF r]) (auto simp: page_is_def in_order_def page_def)
  qed
qed

text \<open>From a place in the rows on, the pages are the matching rows that follow.\<close>

lemma split_filter:
  assumes "filter p xs = as @ b # bs"
  obtains pre post where "xs = pre @ b # post" and "filter p pre = as" and "filter p post = bs"
proof -
  have "\<exists>pre post. xs = pre @ b # post \<and> filter p pre = as \<and> filter p post = bs"
    using assms
  proof (induction xs arbitrary: as)
    case (Cons x xs)
    show ?case
    proof (cases "p x \<and> as = []")
      case True
      then show ?thesis using Cons.prems by (intro exI [of _ "[]"] exI [of _ xs]) simp
    next
      case False
      have "filter p xs = (if p x then tl as else as) @ b # bs" using Cons.prems False by (cases as) auto
      from Cons.IH [OF this] obtain pre post where
        "xs = pre @ b # post" "filter p pre = (if p x then tl as else as)" "filter p post = bs" by blast
      then show ?thesis using Cons.prems False
        by (intro exI [of _ "x # pre"] exI [of _ post]) (cases as; auto)
    qed
  qed simp
  then show thesis using that by blast
qed

lemma follow_complete:
  assumes g: "good d" and nxt: "\<forall>r \<in> set (rows d). \<forall>x \<in> set (rows d). hits (next (cursor_of r)) x \<longleftrightarrow> x = r"
    and len: "\<forall>r \<in> set (rows d). length (ac_hash (next (cursor_of r))) = 32"
    and "length (aq_contentTopics q) \<le> 10" and "aq_cursor q \<noteq> None \<longrightarrow> length (ac_hash (the (aq_cursor q))) = 32"
    and "in_order (aq_forward q) (rows d) = before @ post" and "length post < n"
    and "\<And>m. ad_getMessages drv d q m (aq_forward q) = Inr (take m (filter (row_matches q) post))"
  shows "\<exists>ress pages. follow_pages next drv d n q = Some ress
    \<and> list_all2 (page_is q) pages ress \<and> concat pages = filter (row_matches q) post"
  using assms(4-)
proof (induction n arbitrary: q before post)
  case (Suc n)
  let ?todo = "filter (row_matches q) post"
  let ?p = "page_size q"
  obtain res where res: "findMessages drv d q = Inr res" "page_is q (take ?p ?todo) res"
    "ar_cursor res = (if length ?todo > ?p then Some (cursor_of (?todo ! (?p - 1))) else None)"
    by (rule page_of [OF Suc.prems(1,2,5)]) blast
  show ?case
  proof (cases "?p < length ?todo")
    case False
    then show ?thesis using res by (intro exI [of _ "[res]"] exI [of _ "[?todo]"]) simp
  next
    case more: True
    let ?r = "?todo ! (?p - 1)"
    have "?todo = take (?p - 1) ?todo @ ?r # drop ?p ?todo"
      using id_take_nth_drop [of "?p - 1" ?todo] more page_size_pos [of q] by simp
    then obtain pre post' where pp: "post = pre @ ?r # post'" "filter (row_matches q) post' = drop ?p ?todo"
      by (rule split_filter)
    let ?q = "q\<lparr>aq_cursor := Some (next (cursor_of ?r))\<rparr>"
    have same: "row_matches ?q = row_matches q" "page_is ?q = page_is q" "aq_forward ?q = aq_forward q"
      "aq_contentTopics ?q = aq_contentTopics q" "aq_cursor ?q = Some (next (cursor_of ?r))"
      by (simp_all add: row_matches_def page_is_def fun_eq_iff page_size_def)
    have split: "in_order (aq_forward q) (rows d) = (before @ pre) @ ?r # post'" using Suc.prems(3) pp(1) by simp
    have dist: "distinct ((before @ pre) @ ?r # post')"
      using distinct_rows [OF g] unfolding split [symmetric] by simp
    have r: "?r \<in> set (rows d)" and sub: "set (before @ pre) \<subseteq> set (rows d)"
      using arg_cong [OF split, of set] by auto
    have "?r \<notin> set (before @ pre)" using dist by simp
    moreover have "hits (next (cursor_of ?r)) x \<longleftrightarrow> x = ?r" if "x \<in> set (rows d)" for x using nxt r that by blast
    ultimately have hit: "hits (next (cursor_of ?r)) ?r" "\<forall>x \<in> set (before @ pre). \<not> hits (next (cursor_of ?r)) x"
      using r sub by blast+
    have get: "ad_getMessages drv d ?q m (aq_forward ?q) = Inr (take m (filter (row_matches ?q) post'))" for m
      by (rule after [OF g same(5) _ hit]) (simp only: same(3) split)
    have "in_order (aq_forward ?q) (rows d) = (before @ pre @ [?r]) @ post'" using split same(3) by simp
    moreover have "length post' < n" using Suc.prems(4) arg_cong [OF pp(1), of length] by simp
    moreover have "aq_cursor ?q \<noteq> None \<longrightarrow> length (ac_hash (the (aq_cursor ?q))) = 32" using len r by simp
    ultimately obtain ress pages where ress: "follow_pages next drv d n ?q = Some ress" "list_all2 (page_is q) pages ress"
      "concat pages = drop ?p ?todo"
      using Suc.IH [of ?q "before @ pre @ [?r]" post'] get Suc.prems(1) unfolding same pp(2) by auto
    have "follow_pages next drv d (Suc n) q = Some (res # ress)" using res more ress(1) by simp
    then show ?thesis
      using res(2) ress(2,3) append_take_drop_id [of ?p ?todo]
      by (intro exI [of _ "res # ress"] exI [of _ "take ?p ?todo # pages"]) simp
  qed
qed simp

end

section \<open>The queue as a source of pages\<close>

lemma fill_page_take: "fill_page n p es = take n (map row_of (filter (\<lambda>(k, m). p k m) es))"
  by (induction n p es rule: fill_page.induct) (auto simp: take_Cons')

lemma filter_rows:
  "filter (row_matches q) (map row_of es) =
     map row_of (filter (\<lambda>(k, m). matchesQuery (aq_pubsubTopic q) (aq_contentTopics q) (aq_startTime q) (aq_endTime q)
       (aq_hashes q) (ix_pubsubTopic k) (ix_hash k) m) es)"
  by (induction es) (auto simp: row_of_def row_matches_def)

lemma hits_row: "senderTime k = timestamp m \<Longrightarrow> hits c (row_of (k, m)) \<longleftrightarrow> index_eq k (toIndex c)"
  by (auto simp: row_of_def index_eq_def toIndex_def)

lemma walkToCursor_append:
  "\<forall>x \<in> set es1. \<not> index_eq (fst x) c \<Longrightarrow> index_eq (fst e) c \<Longrightarrow> walkToCursor (es1 @ e # es2) c = e # es2"
  by (induction es1) (auto, cases e, simp)

context index_set
begin

lemma same_entry:
  assumes "queue_ok S ok d" and "(k, m) \<in> set (queue_walk S d)" and "(k', m') \<in> set (queue_walk S d)"
    and "key_of k = key_of k'"
  shows "k = k' \<and> m = m'"
proof -
  have c: "consistent (keys (queue_walk S d))" and a: "ascending (index_cmp B) (queue_walk S d)"
    using assms(1) ascends by (simp_all add: queue_ok_def queue_walk_def)
  have in_keys: "k \<in> keys (queue_walk S d)" "k' \<in> keys (queue_walk S d)" using assms(2,3) by (force simp: keys_def)+
  have "index_cmp B k k' = 0"
    using index_cmp_sign(2) [of k k'] assms(4) by simp
  then show ?thesis
    using ascending_unique [OF order_on_consistent [OF c] a assms(2,3)] by simp
qed

lemma row_determines:
  assumes "queue_ok S ok d" and "e \<in> set (queue_walk S d)" and "f \<in> set (queue_walk S d)" and "row_of e = row_of f"
  shows "e = f"
proof -
  obtain k m k' m' where ef: "e = (k, m)" "f = (k', m')" by (cases e; cases f)
  have "senderTime k = timestamp m" "senderTime k' = timestamp m'" using assms(1-3) by (auto simp: queue_ok_def ef)
  then have "key_of k = key_of k'" using assms(4) by (simp add: ef row_of_def key_of_def index_time_def)
  then show ?thesis using same_entry [OF assms(1) assms(2,3) [unfolded ef]] by (simp add: ef)
qed

lemma hits_index_eq:
  assumes "queue_ok S ok d" and "(k, m) \<in> set (queue_walk S d)" and "(k', m') \<in> set (queue_walk S d)"
    and "index_eq k k'"
  shows "row_of (k, m) = row_of (k', m')"
proof -
  have "consistent (keys (queue_walk S d))" using assms(1) by (simp add: queue_ok_def)
  moreover have "k \<in> keys (queue_walk S d)" "k' \<in> keys (queue_walk S d)" using assms(2,3) by (force simp: keys_def)+
  ultimately have "key_of k = key_of k'" using assms(4) unfolding consistent_def by blast
  then show ?thesis using same_entry [OF assms(1-3)] by simp
qed

end

sublocale index_set \<subseteq> queue: page_source "queue_driver S B" "queue_ok S ok" "\<lambda>d. map row_of (queue_walk S d)"
proof
  fix d assume d: "queue_ok S ok d"
  have "ascending (index_cmp B) (queue_walk S d)" using d ascends by (simp add: queue_ok_def queue_walk_def)
  moreover have "consistent (keys (queue_walk S d))" using d by (simp add: queue_ok_def)
  ultimately have "distinct (queue_walk S d)"
    using ascending_distinct [OF order_on_consistent] by blast
  then show "distinct (map row_of (queue_walk S d))"
    using row_determines [OF d] by (simp add: distinct_map inj_on_def)
next
  fix d n asc and q :: ArchiveQuery
  assume "queue_ok S ok d" "aq_cursor q = None"
  then show "ad_getMessages (queue_driver S B) d q n asc =
      Inr (take n (filter (row_matches q) (in_order asc (map row_of (queue_walk S d)))))"
    by (cases asc) (simp_all add: queue_driver_def queue_getMessages_def getPage_def fill_page_take filter_rows rev_map [symmetric]
        rev_filter [symmetric])
next
  fix d n asc pre r post c and q :: ArchiveQuery
  assume d: "queue_ok S ok d" and c: "aq_cursor q = Some c"
    and split: "in_order asc (map row_of (queue_walk S d)) = pre @ r # post" and hit: "hits c r" "\<forall>x\<in>set pre. \<not> hits c x"
  let ?es = "in_order asc (queue_walk S d)"
  have "map row_of ?es = pre @ r # post" using split by simp
  then obtain es1 e es2 where es: "?es = es1 @ e # es2" "pre = map row_of es1" "r = row_of e" "post = map row_of es2"
    by (auto simp: map_eq_append_conv map_eq_Cons_conv simp del: in_order_simps)
  have h: "hits c (row_of x) \<longleftrightarrow> index_eq (fst x) (toIndex c)" if "x \<in> set ?es" for x
    using d that hits_row [of "fst x" "snd x" c] by (auto simp: queue_ok_def)
  have "walkToCursor ?es (toIndex c) = e # es2"
    unfolding es(1) by (rule walkToCursor_append) (use h hit es in auto)
  then show "ad_getMessages (queue_driver S B) d q n asc = Inr (take n (filter (row_matches q) post))"
    by (cases asc) (simp_all add: queue_driver_def queue_getMessages_def getPage_def c fill_page_take es(4) filter_rows)
qed

section \<open>The archive over the queue\<close>

text \<open>What a message is stored under, if the archive stores it.\<close>

definition archive_entry ::
  "(bytes \<Rightarrow> bytes) \<Rightarrow> (u64 \<Rightarrow> bytes) \<Rightarrow> Timestamp \<times> PubsubTopic \<times> WakuMessage \<Rightarrow> Index \<times> WakuMessage" where
  "archive_entry sha be64 r = (case r of (now, topic, msg) \<Rightarrow>
     (compute_index sha be64 msg (if timestamp msg > 0 then timestamp msg else now) topic, msg))"

definition storable :: "Timestamp \<times> PubsubTopic \<times> WakuMessage \<Rightarrow> bool" where
  "storable r = (case r of (now, topic, msg) \<Rightarrow> \<not> ephemeral msg
     \<and> (timestamp msg = 0 \<or> \<bar>timestamp msg - now\<bar> \<le> MaxMessageTimestampVariance))"

text \<open>The messages relayed, each with the time of its arrival.\<close>

fun archive_run ::
  "(bytes \<Rightarrow> bytes) \<Rightarrow> (u64 \<Rightarrow> bytes) \<Rightarrow> 'd archive_driver \<Rightarrow> (Timestamp \<times> PubsubTopic \<times> WakuMessage) list \<Rightarrow> 'd \<Rightarrow> 'd exec" where
  "archive_run sha be64 drv [] d = Done d"
| "archive_run sha be64 drv ((now, topic, msg) # rs) d =
     bind_exec (archive_handleMessage sha be64 drv (validate now) now topic msg d) (archive_run sha be64 drv rs)"

lemma validate_storable: "validate now msg = Inr () \<longleftrightarrow> storable (now, topic, msg)"
  by (auto simp: validate_def storable_def)

lemma archive_run_adds:
  "archive_run sha be64 (queue_driver S B) rs d = queue_adds S B (map (archive_entry sha be64) (filter storable rs)) d"
proof (induction rs arbitrary: d)
  case (Cons r rs)
  obtain now topic msg where r: "r = (now, topic, msg)" by (cases r)
  have v: "(\<exists>e. validate now msg = Inl e) \<longleftrightarrow> \<not> storable (now, topic, msg)"
    using validate_storable [of now msg topic] by (cases "validate now msg") auto
  show ?case
  proof (cases "storable (now, topic, msg)")
    case True
    then have valid: "validate now msg = Inr ()" using validate_storable by blast
    obtain k m where e: "archive_entry sha be64 (now, topic, msg) = (k, m)" by (cases "archive_entry sha be64 (now, topic, msg)")
    have put: "ad_put (queue_driver S B) topic msg (computeDigest sha msg) (computeMessageHash sha be64 topic msg)
        (if timestamp msg > 0 then timestamp msg else now) d = queue_add S B k m d"
      using e by (auto simp: queue_driver_def queue_put_def archive_entry_def compute_index_def)
    have "archive_handleMessage sha be64 (queue_driver S B) (validate now) now topic msg d
        = bind_exec (queue_add S B k m d) (\<lambda>(_, d'). Done d')"
      unfolding archive_handleMessage_def valid sum.case put ..
    then show ?thesis using True Cons e by (cases "queue_add S B k m d") (auto simp: r)
  next
    case False
    then obtain e where "validate now msg = Inl e" using v by blast
    then show ?thesis using False Cons by (simp add: r archive_handleMessage_def)
  qed
qed simp

text \<open>A cursor that comes back as it was given, or as its hash alone, designates its row and no other.\<close>

definition hash_cursor :: "ArchiveCursor \<Rightarrow> ArchiveCursor" where
  "hash_cursor c =
     \<lparr>ac_digest = replicate 32 0, ac_storeTime = 0, ac_senderTime = 0, ac_pubsubTopic = [], ac_hash = ac_hash c\<rparr>"

context index_set
begin

lemma cursor_designates:
  assumes "queue_ok S ok d" and "r \<in> set (map row_of (queue_walk S d))" and "x \<in> set (map row_of (queue_walk S d))"
  shows "hits (cursor_of r) x \<longleftrightarrow> x = r"
    and "row_topic x \<noteq> [] \<Longrightarrow> hits (hash_cursor (cursor_of r)) x \<longleftrightarrow> x = r"
proof -
  obtain k m k' m' where e: "r = row_of (k, m)" "x = row_of (k', m')" "(k, m) \<in> set (queue_walk S d)"
    "(k', m') \<in> set (queue_walk S d)" using assms(2,3) by auto
  have t: "senderTime k = timestamp m" "senderTime k' = timestamp m'" using assms(1) e(3,4) by (auto simp: queue_ok_def)
  have "hits (cursor_of r) x \<longleftrightarrow> index_eq k' k" using t by (auto simp: e(1,2) row_of_def index_eq_def)
  then show "hits (cursor_of r) x \<longleftrightarrow> x = r"
    using hits_index_eq [OF assms(1) e(4,3)] by (auto simp: e(1,2)) (auto simp: row_of_def index_eq_def t)
  assume "row_topic x \<noteq> []"
  then have "hits (hash_cursor (cursor_of r)) x \<longleftrightarrow> ix_hash k' = ix_hash k"
    by (auto simp: e(1,2) row_of_def hash_cursor_def)
  then show "hits (hash_cursor (cursor_of r)) x \<longleftrightarrow> x = r"
    using hits_index_eq [OF assms(1) e(4,3)] by (auto simp: e(1,2) index_eq_def) (auto simp: row_of_def)
qed

text \<open>The pages of a query, from the first on, are all rows of the queue that match.\<close>

lemma queue_pages:
  assumes "queue_ok S ok d" and "\<forall>r \<in> set (map row_of (queue_walk S d)). length (row_hash r) = 32"
    and "nxt = id \<or> nxt = hash_cursor \<and> (\<forall>r \<in> set (map row_of (queue_walk S d)). row_topic r \<noteq> [])"
    and "length (aq_contentTopics q) \<le> 10" and "aq_cursor q = None" and "length (queue_walk S d) < n"
  shows "\<exists>ress pages. follow_pages nxt (queue_driver S B) d n q = Some ress \<and> list_all2 (page_is q) pages ress
    \<and> concat pages = filter (row_matches q) (in_order (aq_forward q) (map row_of (queue_walk S d)))"
proof -
  let ?rows = "map row_of (queue_walk S d)"
  have hash: "ac_hash (cursor_of r) = row_hash r" for r by (cases r) simp
  have "\<forall>r \<in> set ?rows. \<forall>x \<in> set ?rows. hits (nxt (cursor_of r)) x \<longleftrightarrow> x = r"
    using assms(3) cursor_designates [OF assms(1)] by (elim disjE) (simp_all del: set_map)
  moreover have "\<forall>r \<in> set ?rows. length (ac_hash (nxt (cursor_of r))) = 32"
    using assms(2,3) by (elim disjE) (simp_all add: hash hash_cursor_def del: set_map)
  ultimately show ?thesis
    using assms(4-6)
    by (intro queue.follow_complete [OF assms(1), where before = "[]"]) (simp_all add: queue.start [OF assms(1)], simp add: in_order_def)
qed

end

end
