(* ===== verification/StoreNode.thy ===== *)
theory StoreNode
  imports StoreProtocol Archive
begin

text \<open>
  A node that mounts the store protocol on its archive (\<^verbatim>\<open>waku/node/waku_node.nim\<close>, \<^verbatim>\<open>mountStore\<close>):
  requests become queries of the archive, and what it finds becomes responses. The root
  of what a store client can rely on: following the cursors gives every message the
  archive holds, once.
\<close>

section \<open>From requests to queries and back\<close>

definition toArchiveQuery :: "StoreQueryRequest \<Rightarrow> ArchiveQuery" where
  "toArchiveQuery request =
     \<lparr>aq_includeData = includeData request, aq_pubsubTopic = sq_pubsubTopic request,
      aq_contentTopics = sq_contentTopics request,
      aq_cursor = map_option (\<lambda>h. \<lparr>ac_digest = replicate 32 0, ac_storeTime = 0, ac_senderTime = 0,
        ac_pubsubTopic = [], ac_hash = h\<rparr>) (paginationCursor request),
      aq_startTime = startTime request, aq_endTime = endTime request, aq_hashes = messageHashes request,
      aq_pageSize = (case paginationLimit request of Some l \<Rightarrow> l | None \<Rightarrow> 0),
      aq_forward = (paginationForward request = FORWARD)\<rparr>"

text \<open>\<^verbatim>\<open>res.messages[i]\<close> and \<^verbatim>\<open>response.topics[i]\<close> are checked.\<close>

fun fill_messages ::
  "WakuMessageKeyValue list \<Rightarrow> WakuMessage list \<Rightarrow> PubsubTopic list \<Rightarrow> WakuMessageKeyValue list exec" where
  "fill_messages kvs [] ts = Done kvs"
| "fill_messages (kv # kvs) (m # ms) (t # ts) =
     bind_exec (fill_messages kvs ms ts) (\<lambda>r. Done (kv\<lparr>kv_message := Some m, kv_pubsubTopic := Some t\<rparr> # r))"
| "fill_messages kvs (m # ms) ts = Fault IndexDefect"

definition toStoreResult :: "ArchiveError + ArchiveResponse \<Rightarrow> (StoreError + StoreQueryResponse) exec" where
  "toStoreResult res =
     (case res of
        Inl e \<Rightarrow> Done (Inl (new_store_error 300 (''archive error: '' @ show_archive_error e)))
      | Inr response \<Rightarrow>
          bind_exec
            (fill_messages (map (\<lambda>h. \<lparr>messageHash = h, kv_message = None, kv_pubsubTopic = None\<rparr>) (ar_hashes response))
               (ar_messages response) (ar_topics response))
            (\<lambda>kvs. Done (Inr (empty_response\<lparr>sr_statusCode := 200, sr_statusDesc := ''OK'', sr_messages := kvs,
               sr_paginationCursor := map_option ac_hash (ar_cursor response)\<rparr>))))"

text \<open>
  The request handler of \<^verbatim>\<open>mountStore\<close>. That \<open>toStoreResult\<close> never faults on what the archive
  finds is shown below; the handler of the protocol has no place for a fault.
\<close>

definition node_store_handler :: "'d archive_driver \<Rightarrow> 'd \<Rightarrow> store_handler" where
  "node_store_handler drv d request =
     (case toStoreResult (findMessages drv d (toArchiveQuery request)) of
        Done r \<Rightarrow> Inr r
      | Fault f \<Rightarrow> Inl ''IndexDefect'')"

lemma fill_messages_zip:
  "length ms = length ts \<Longrightarrow> length ms \<le> length kvs \<Longrightarrow>
     fill_messages kvs ms ts =
       Done (map (\<lambda>(kv, m, t). kv\<lparr>kv_message := Some m, kv_pubsubTopic := Some t\<rparr>) (zip kvs (zip ms ts)) @ drop (length ms) kvs)"
proof (induction kvs ms ts rule: fill_messages.induct)
  case (2 kv kvs m ms t ts)
  then show ?case by simp
qed simp_all

text \<open>What the archive finds has a topic for every message, and none or all messages.\<close>

lemma findMessages_lengths:
  assumes "findMessages drv d q = Inr res"
  shows "length (ar_topics res) = length (ar_messages res)"
    and "length (ar_messages res) = (if aq_includeData q then length (ar_hashes res) else 0)"
  using assms by (auto simp: findMessages_def Let_def split: if_splits sum.splits)

section \<open>Following the cursors\<close>

text \<open>The response the node makes of what the archive finds.\<close>

definition store_response :: "bool \<Rightarrow> ArchiveResponse \<Rightarrow> StoreQueryResponse" where
  "store_response data res = empty_response\<lparr>sr_statusCode := 200, sr_statusDesc := ''OK'',
     sr_messages :=
       (if data then map (\<lambda>(h, m, t). \<lparr>messageHash = h, kv_message = Some m, kv_pubsubTopic = Some t\<rparr>)
          (zip (ar_hashes res) (zip (ar_messages res) (ar_topics res)))
        else map (\<lambda>h. \<lparr>messageHash = h, kv_message = None, kv_pubsubTopic = None\<rparr>) (ar_hashes res)),
     sr_paginationCursor := map_option ac_hash (ar_cursor res)\<rparr>"

lemma toStoreResult_found:
  assumes "findMessages drv d q = Inr res"
  shows "toStoreResult (Inr res) = Done (Inr (store_response (aq_includeData q) res))"
proof -
  let ?kv = "\<lambda>h. \<lparr>messageHash = h, kv_message = None, kv_pubsubTopic = None\<rparr>"
  note l = findMessages_lengths [OF assms]
  show ?thesis
  proof (cases "aq_includeData q")
    case True
    have "map (\<lambda>(kv, m, t). kv\<lparr>kv_message := Some m, kv_pubsubTopic := Some t\<rparr>)
        (zip (map ?kv hs) z) = map (\<lambda>(h, m, t). \<lparr>messageHash = h, kv_message = Some m, kv_pubsubTopic = Some t\<rparr>) (zip hs z)"
      for hs and z :: "(WakuMessage \<times> PubsubTopic) list"
      by (induction hs z rule: list_induct2') auto
    then show ?thesis using l True by (simp add: toStoreResult_def store_response_def fill_messages_zip)
  next
    case False
    then show ?thesis using l by (simp add: toStoreResult_def store_response_def)
  qed
qed

text \<open>
  Who asks for the page after the one it got, until there is no cursor; \<open>ask\<close> is one query,
  of the node to itself or of a client over the network.
\<close>

fun store_follow ::
  "(StoreQueryRequest \<Rightarrow> 'e + StoreQueryResponse) \<Rightarrow> nat \<Rightarrow> StoreQueryRequest \<Rightarrow> StoreQueryResponse list option" where
  "store_follow ask 0 req = None"
| "store_follow ask (Suc n) req =
     (case ask req of
        Inl e \<Rightarrow> None
      | Inr res \<Rightarrow>
          (case sr_paginationCursor res of
             None \<Rightarrow> Some [res]
           | Some c \<Rightarrow> map_option (Cons res) (store_follow ask n (req\<lparr>paginationCursor := Some c\<rparr>))))"

lemma store_follow_pages:
  "store_follow (handleSelfStoreRequest (node_store_handler drv d)) n req =
     map_option (map (store_response (includeData req))) (follow_pages hash_cursor drv d n (toArchiveQuery req))"
proof (induction n arbitrary: req)
  case (Suc n)
  show ?case
  proof (cases "findMessages drv d (toArchiveQuery req)")
    case (Inl e)
    then show ?thesis by (simp add: handleSelfStoreRequest_def node_store_handler_def toStoreResult_def)
  next
    case (Inr res)
    let ?r = "store_response (includeData req) res"
    have "aq_includeData (toArchiveQuery req) = includeData req" by (simp add: toArchiveQuery_def)
    then have "toStoreResult (findMessages drv d (toArchiveQuery req)) = Done (Inr ?r)"
      using toStoreResult_found [OF Inr] by (simp add: Inr)
    then have self: "handleSelfStoreRequest (node_store_handler drv d) req = Inr ?r"
      by (simp add: handleSelfStoreRequest_def node_store_handler_def)
    have "toArchiveQuery (req\<lparr>paginationCursor := Some (ac_hash c)\<rparr>) = toArchiveQuery req\<lparr>aq_cursor := Some (hash_cursor c)\<rparr>" for c
      by (simp add: toArchiveQuery_def hash_cursor_def)
    then show ?thesis
      using Suc [of "req\<lparr>paginationCursor := Some _\<rparr>"] self Inr
      by (cases "ar_cursor res") (simp_all add: store_response_def option.map_comp comp_def)
  qed
qed simp

section \<open>What a client finds\<close>

definition store_kv :: "bool \<Rightarrow> ArchiveRow \<Rightarrow> WakuMessageKeyValue" where
  "store_kv data r =
     \<lparr>messageHash = row_hash r, kv_message = (if data then Some (row_message r) else None),
      kv_pubsubTopic = (if data then Some (row_topic r) else None)\<rparr>"

lemma zip_rows: "zip (map f page) (zip (map g page) (map h page)) = map (\<lambda>r. (f r, g r, h r)) page"
  by (induction page) auto

lemma in_order_eq: "in_order asc xs = ys \<longleftrightarrow> xs = in_order asc ys"
  by (auto simp: in_order_def)

lemma response_page:
  assumes "page_is q page res"
  shows "in_order (aq_forward q) (sr_messages (store_response (aq_includeData q) res)) = map (store_kv (aq_includeData q)) page"
    and "length (sr_messages (store_response (aq_includeData q) res)) \<le> page_size q"
proof -
  let ?page = "in_order (aq_forward q) page"
  have r: "ar_hashes res = map row_hash ?page"
    "aq_includeData q \<Longrightarrow> ar_messages res = map row_message ?page \<and> ar_topics res = map row_topic ?page"
    using assms by (simp_all add: page_is_def in_order_eq)
  have "sr_messages (store_response (aq_includeData q) res) = map (store_kv (aq_includeData q)) ?page"
    using r by (cases "aq_includeData q")
      (simp_all add: store_response_def store_kv_def fun_eq_iff comp_def zip_rows del: in_order_simps(6))
  moreover have "length page \<le> page_size q" using assms by (simp add: page_is_def)
  ultimately show "in_order (aq_forward q) (sr_messages (store_response (aq_includeData q) res)) = map (store_kv (aq_includeData q)) page"
    and "length (sr_messages (store_response (aq_includeData q) res)) \<le> page_size q"
    by (simp_all add: in_order_def rev_map split: if_splits)
qed

lemma pages_joined:
  assumes "list_all2 (page_is q) pages ress" and "inc = aq_includeData q"
  shows "concat (map (\<lambda>res. in_order (aq_forward q) (sr_messages res)) (map (store_response inc) ress)) = map (store_kv inc) (concat pages)"
    and "\<forall>res \<in> set (map (store_response inc) ress). length (sr_messages res) \<le> page_size q"
  using assms(1) unfolding assms(2)
  by (induction rule: list_all2_induct) (auto simp: response_page)

text \<open>What the responses of all pages hold.\<close>

definition history_of :: "bool \<Rightarrow> StoreQueryResponse list \<Rightarrow> WakuMessageKeyValue list" where
  "history_of asc ress = concat (map (\<lambda>res. in_order asc (sr_messages res)) ress)"

lemma history_of_cong: "map sr_messages ress = map sr_messages ress' \<Longrightarrow> history_of asc ress = history_of asc ress'"
  by (induction ress ress' rule: list_induct2') (auto simp: history_of_def)

section \<open>Over the network\<close>

text \<open>An entry that the codec carries as it is.\<close>

definition sendable :: "pbuf \<Rightarrow> WakuMessageKeyValue \<Rightarrow> bool" where
  "sendable P kv \<longleftrightarrow> key_value_ok P kv \<and> kv_fits kv \<and> length (pb_finish P (key_value_fields P kv)) < 2 ^ 63"

lemma store_request_ok_next:
  "store_request_ok req \<Longrightarrow> length i < 2 ^ 63 \<Longrightarrow> pred_option (\<lambda>h. length h = 32) c \<Longrightarrow>
     store_request_ok (req\<lparr>requestId := i, paginationCursor := c\<rparr>)"
  by (cases c) (auto simp: store_request_ok_def store_request_fields_def writable_def opt_field_def)

lemma store_response_ok_ids:
  "list_all (sendable P) (sr_messages res) \<Longrightarrow> length (sr_requestId res) < 2 ^ 63 \<Longrightarrow> length (sr_statusDesc res) < 2 ^ 63 \<Longrightarrow>
     pred_option (\<lambda>h. length h = 32) (sr_paginationCursor res) \<Longrightarrow> store_response_ok P res"
  by (cases "sr_paginationCursor res")
    (auto simp: store_response_ok_def store_response_fields_def writable_def opt_field_def rep_field_def sendable_def list_all_iff)

text \<open>The query of a client to the service of a node; the id and the state of the limit are those of the moment.\<close>

definition network_query ::
  "pbuf \<Rightarrow> (StoreQueryRequest \<Rightarrow> string) \<Rightarrow> string \<Rightarrow> string \<Rightarrow> (StoreQueryRequest \<Rightarrow> TokenBucket option \<times> int)
     \<Rightarrow> store_handler \<Rightarrow> StoreQueryRequest \<Rightarrow> StoreError + StoreQueryResponse" where
  "network_query P newId peer eof limit h req =
     store_query P (newId req) req peer
       (Some (to_service eof (\<lambda>b. fst (handle_store P h (fst (limit req)) (snd (limit req)) b))))"

context protobuf
begin

lemma network_page:
  assumes "store_request_ok req" and "\<forall>r. length (newId r) < 2 ^ 63" and "paginationCursor req \<noteq> Some EmptyCursor"
    and "fst (checkUsage (fst (limit req)) (snd (limit req)))" and "h (req\<lparr>requestId := newId req\<rparr>) = Inr (Inr res)"
    and "list_all (sendable P) (sr_messages res)" and "pred_option (\<lambda>h. length h = 32) (sr_paginationCursor res)"
  shows "network_query P newId peer eof limit h req =
    Inr (res\<lparr>sr_requestId := newId req, sr_statusCode := 200, sr_statusDesc := ''OK'',
      sr_messages := map normal_kv (sr_messages res)\<rparr>)"
proof -
  let ?req = "req\<lparr>requestId := newId req\<rparr>"
  have ok: "store_request_ok ?req"
    using store_request_ok_next [OF assms(1), of "newId req" "paginationCursor req"] assms(1,2) by (simp add: store_request_ok_def)
  have reply: "query_reply P h (encode_store_request P ?req) =
      Done (Inr (res\<lparr>sr_requestId := newId req, sr_statusCode := 200, sr_statusDesc := ''OK''\<rparr>))"
    by (simp add: query_reply_def decode_encode_store_request [OF ok] assms(5))
  have "store_response_ok P (res\<lparr>sr_requestId := newId req, sr_statusCode := 200, sr_statusDesc := ''OK''\<rparr>)"
    using assms(2,6,7) by (intro store_response_ok_ids) simp_all
  moreover have "list_all kv_fits (sr_messages res)" using assms(6) by (auto simp: list_all_iff sendable_def)
  ultimately show ?thesis
    using query_end_to_end [OF ok assms(3), where h = h] assms(4,5) reply
    by (simp add: network_query_def store_answer_def)
qed

lemma network_follow:
  assumes "\<forall>r. length (newId r) < 2 ^ 63" and "\<forall>r. fst (checkUsage (fst (limit r)) (snd (limit r)))"
    and "\<And>r i. h (r\<lparr>requestId := i\<rparr>) = h r"
  shows "store_follow (handleSelfStoreRequest h) n req = Some ress \<Longrightarrow> store_request_ok req \<Longrightarrow>
    paginationCursor req \<noteq> Some EmptyCursor \<Longrightarrow>
    (\<forall>res \<in> set ress. list_all (\<lambda>kv. sendable P kv \<and> normal_kv kv = kv) (sr_messages res)
       \<and> pred_option (\<lambda>c. length c = 32 \<and> c \<noteq> EmptyCursor) (sr_paginationCursor res)) \<Longrightarrow>
    \<exists>ress'. store_follow (network_query P newId peer eof limit h) n req = Some ress' \<and> map sr_messages ress' = map sr_messages ress"
proof (induction n arbitrary: req ress)
  case (Suc n)
  obtain res where res: "h req = Inr (Inr res)"
    using Suc.prems(1) by (auto simp: handleSelfStoreRequest_def split: sum.splits)
  then have self: "handleSelfStoreRequest h req = Inr res" by (simp add: handleSelfStoreRequest_def)
  then have mem: "res \<in> set ress" using Suc.prems(1) by (auto split: option.splits)
  then have good: "list_all (\<lambda>kv. sendable P kv \<and> normal_kv kv = kv) (sr_messages res)"
    "pred_option (\<lambda>c. length c = 32 \<and> c \<noteq> EmptyCursor) (sr_paginationCursor res)"
    using Suc.prems(4) by blast+
  have "network_query P newId peer eof limit h req =
      Inr (res\<lparr>sr_requestId := newId req, sr_statusCode := 200, sr_statusDesc := ''OK'', sr_messages := map normal_kv (sr_messages res)\<rparr>)"
    using good assms(1,2) Suc.prems(2,3) res assms(3) [of "newId req" req]
    by (intro network_page) (auto simp: list_all_iff pred_option_def)
  moreover have "map normal_kv (sr_messages res) = sr_messages res"
    using good(1) by (auto simp: list_all_iff intro: map_idI)
  ultimately have net: "network_query P newId peer eof limit h req =
      Inr (res\<lparr>sr_requestId := newId req, sr_statusCode := 200, sr_statusDesc := ''OK''\<rparr>)" by simp
  show ?case
  proof (cases "sr_paginationCursor res")
    case None
    then show ?thesis using Suc.prems(1) self net by auto
  next
    case (Some c)
    then obtain rest where rest: "store_follow (handleSelfStoreRequest h) n (req\<lparr>paginationCursor := Some c\<rparr>) = Some rest"
      "ress = res # rest"
      using Suc.prems(1) self by auto
    have "store_request_ok (req\<lparr>paginationCursor := Some c\<rparr>)"
      using store_request_ok_next [OF Suc.prems(2), of "requestId req" "Some c"] Suc.prems(2) good(2) Some
      by (simp add: store_request_ok_def store_request_fields_def writable_def)
    then obtain ress' where "store_follow (network_query P newId peer eof limit h) n (req\<lparr>paginationCursor := Some c\<rparr>) = Some ress'"
      "map sr_messages ress' = map sr_messages rest"
      using Suc.IH [OF rest(1)] Suc.prems(4) good(2) Some rest(2) by auto
    then show ?thesis using net Some rest(2) by auto
  qed
qed simp

end

section \<open>The history\<close>

text \<open>Messages of which the hash says what their index says.\<close>

definition no_collisions ::
  "(bytes \<Rightarrow> bytes) \<Rightarrow> (u64 \<Rightarrow> bytes) \<Rightarrow> (Timestamp \<times> PubsubTopic \<times> WakuMessage) list \<Rightarrow> bool" where
  "no_collisions sha be64 rs \<longleftrightarrow> (\<forall>(_, t, m) \<in> set rs. \<forall>(_, t', m') \<in> set rs.
     computeMessageHash sha be64 t m = computeMessageHash sha be64 t' m' \<longrightarrow>
       t = t' \<and> timestamp m = timestamp m' \<and> computeDigest sha m = computeDigest sha m')"

lemma entries_consistent:
  assumes "no_collisions sha be64 rs" and "\<forall>(_, t, m) \<in> set rs. timestamp m \<noteq> 0"
  shows "consistent (keys (map (archive_entry sha be64) (filter storable rs)))"
  unfolding consistent_def
proof (intro ballI impI)
  fix x y
  assume xy: "x \<in> keys (map (archive_entry sha be64) (filter storable rs))"
    "y \<in> keys (map (archive_entry sha be64) (filter storable rs))" and eq: "index_eq x y"
  have index: "\<exists>now t m. (now, t, m) \<in> set rs \<and> ix_pubsubTopic z = t \<and> senderTime z = timestamp m
      \<and> digest z = computeDigest sha m \<and> ix_hash z = computeMessageHash sha be64 t m"
    if "z \<in> keys (map (archive_entry sha be64) (filter storable rs))" for z
    using that by (force simp: keys_def archive_entry_def compute_index_def)
  obtain now t m now' t' m' where
    x: "(now, t, m) \<in> set rs" "ix_pubsubTopic x = t" "senderTime x = timestamp m" "digest x = computeDigest sha m"
      "ix_hash x = computeMessageHash sha be64 t m" and
    y: "(now', t', m') \<in> set rs" "ix_pubsubTopic y = t'" "senderTime y = timestamp m'" "digest y = computeDigest sha m'"
      "ix_hash y = computeMessageHash sha be64 t' m'"
    using index [OF xy(1)] index [OF xy(2)] by blast
  have "ix_hash x = ix_hash y \<Longrightarrow> t = t' \<and> timestamp m = timestamp m' \<and> computeDigest sha m = computeDigest sha m'"
    using assms(1) x(1,5) y(1,5) unfolding no_collisions_def by fastforce
  then have "t = t' \<and> timestamp m = timestamp m' \<and> digest x = digest y" using eq x y by (auto simp: index_eq_def)
  moreover have "timestamp m \<noteq> 0" "timestamp m' \<noteq> 0" using assms(2) x(1) y(1) by blast+
  ultimately show "key_of x = key_of y" using x y by (simp add: key_of_def index_time_def)
qed

text \<open>What the pages of the archive say of the responses made of them.\<close>

lemma pages_entries:
  assumes "list_all2 (page_is q) pages ress" and "res \<in> set (map (store_response (aq_includeData q)) ress)"
  shows "(\<forall>kv \<in> set (sr_messages res). \<exists>r \<in> set (concat pages). kv = store_kv (aq_includeData q) r)
    \<and> (\<forall>c. sr_paginationCursor res = Some c \<longrightarrow> (\<exists>r \<in> set (concat pages). c = row_hash r))"
proof -
  obtain ar where ar: "ar \<in> set ress" "res = store_response (aq_includeData q) ar" using assms(2) by auto
  then obtain page where page: "page \<in> set pages" "page_is q page ar"
    using assms(1) unfolding list_all2_conv_all_nth in_set_conv_nth by metis
  have "set (sr_messages res) = set (in_order (aq_forward q) (sr_messages res))" by (simp add: in_order_def)
  also have "\<dots> = store_kv (aq_includeData q) ` set page" using response_page(1) [OF page(2)] ar(2) by simp
  finally have kvs: "set (sr_messages res) = store_kv (aq_includeData q) ` set page" .
  have "sr_paginationCursor res = map_option ac_hash (ar_cursor ar)" by (simp add: ar(2) store_response_def)
  moreover have "\<And>c. ar_cursor ar = Some c \<Longrightarrow> \<exists>r \<in> set page. ac_hash c = row_hash r"
  proof -
    have hash: "ac_hash (cursor_of r) = row_hash r" for r by (cases r) simp
    show "\<exists>r \<in> set page. ac_hash c = row_hash r" if "ar_cursor ar = Some c" for c
      using page(2) that unfolding page_is_def by (metis hash)
  qed
  ultimately show ?thesis using kvs page(1) unfolding set_concat by (simp only: UN_iff) blast
qed

lemma normal_store_kv [simp]: "normal_kv (store_kv data r) = store_kv data r"
  by (simp add: normal_kv_def store_kv_def)

lemma node_store_handler_id [simp]: "node_store_handler drv d (r\<lparr>requestId := i\<rparr>) = node_store_handler drv d r"
  by (simp add: node_store_handler_def toArchiveQuery_def)

text \<open>C15: the history a store client gets from a node. A node archives in memory, up to \<open>cap\<close> > 0, what it relays:
  messages with a time, a topic and hashes that do not collide, nor are all zeros, and that the codec carries
  (\<^verbatim>\<open>meta\<close> of at most 64 bytes, if data is asked for). A query of at most ten content topics, int64 times and 32-byte
  hashes, asked again with the cursor of each response until there is none, by a client over any protobuf library
  that reads back what it writes, under any ids, while the limit of the service is not reached, or by
  the node itself, gives exactly the matching ones among the \<open>cap\<close> newest, by time, digest and topic, of the valid
  messages relayed: each once, where of messages with the same time, pubsub topic and digest of content
  topic and payload (they may differ in \<^verbatim>\<open>meta\<close>) only the one relayed first counts; in that order,
  or the reverse for backward queries; in pages of at most the page size (20 by default, 100 at most).\<close>

theorem store_history_complete:
  assumes "index_set S ok B" and "0 < cap" and "no_collisions sha be64 rs"
    and "\<forall>(_, t, m) \<in> set rs. timestamp m \<noteq> 0 \<and> t \<noteq> [] \<and> computeMessageHash sha be64 t m \<noteq> EmptyCursor"
    and "\<forall>bs. length (sha bs) = 32"
    and "length (sq_contentTopics req) \<le> 10" and "paginationCursor req = None" and "nat cap < n"
    and "protobuf P" and "store_request_ok req" and "\<forall>r. length (newId r) < 2 ^ 63"
    and "\<forall>r \<in> set rs. sendable P (store_kv (includeData req) (row_of (archive_entry sha be64 r)))"
    and "\<forall>r. fst (checkUsage (fst (limit r)) (snd (limit r)))"
  shows "\<exists>d own ress. archive_run sha be64 (queue_driver S B) rs (new_queue S cap) = Done d
    \<and> store_follow (network_query P newId peer eof limit (node_store_handler (queue_driver S B) d)) n req = Some ress
    \<and> store_follow (handleSelfStoreRequest (node_store_handler (queue_driver S B) d)) n req = Some own
    \<and> history_of (paginationForward req = FORWARD) ress =
        map (store_kv (includeData req)) (filter (row_matches (toArchiveQuery req)) (in_order (paginationForward req = FORWARD)
          (map row_of (newest (nat cap) (all_messages B (map (archive_entry sha be64) (filter storable rs)))))))
    \<and> map sr_messages own = map sr_messages ress
    \<and> (\<forall>res \<in> set ress. length (sr_messages res) \<le> page_size (toArchiveQuery req))"
proof -
  let ?es = "map (archive_entry sha be64) (filter storable rs)"
  let ?q = "toArchiveQuery req"
  have c: "consistent (keys ?es)" using assms(3,4) by (intro entries_consistent) auto
  have t: "\<forall>(k, m) \<in> set ?es. senderTime k = timestamp m"
    by (auto simp: archive_entry_def compute_index_def)
  from index_set.queue_adds_newest [OF assms(1) index_set.queue_ok_new [OF assms(1,2)], of "[]" ?es]
  obtain d where d: "queue_adds S B ?es (new_queue S cap) = Done d" "queue_ok S ok d"
    "queue_walk S d = newest (nat cap) (all_messages B ?es)"
    using c t sorted_set.empty(2) [OF index_set.axioms(1) [OF assms(1)]]
    by (auto simp: queue_walk_def new_queue_def all_messages_def)
  have "set (queue_walk S d) \<subseteq> set ?es"
    using set_all_messages [of B ?es] by (auto simp: d(3) newest_def dest: in_set_dropD)
  moreover have "length (row_hash (row_of e)) = 32 \<and> row_topic (row_of e) \<noteq> [] \<and> row_hash (row_of e) \<noteq> EmptyCursor
      \<and> sendable P (store_kv (includeData req) (row_of e))" if e: "e \<in> set ?es" for e
  proof -
    obtain now u m where r: "(now, u, m) \<in> set rs" "e = archive_entry sha be64 (now, u, m)" using e by force
    then have "sendable P (store_kv (includeData req) (row_of e))" using assms(12) by blast
    then show ?thesis using assms(4,5) r
      by (auto simp: archive_entry_def compute_index_def row_of_def) (auto simp: computeMessageHash_def)
  qed
  ultimately have rows: "\<forall>r \<in> set (map row_of (queue_walk S d)). length (row_hash r) = 32"
    "\<forall>r \<in> set (map row_of (queue_walk S d)). row_topic r \<noteq> []"
    "\<forall>r \<in> set (map row_of (queue_walk S d)). row_hash r \<noteq> EmptyCursor \<and> sendable P (store_kv (includeData req) r)"
    by auto
  have len: "length (queue_walk S d) < n" using assms(8) by (simp add: d(3))
  have q: "length (aq_contentTopics ?q) \<le> 10" "aq_cursor ?q = None" "aq_forward ?q = (paginationForward req = FORWARD)"
    "aq_includeData ?q = includeData req"
    using assms(6,7) by (simp_all add: toArchiveQuery_def)
  obtain found pages where p: "follow_pages hash_cursor (queue_driver S B) d n ?q = Some found" "list_all2 (page_is ?q) pages found"
    "concat pages = filter (row_matches ?q) (in_order (aq_forward ?q) (map row_of (queue_walk S d)))"
    using index_set.queue_pages [OF assms(1) d(2) rows(1) _ q(1,2) len, of hash_cursor] rows(2) by blast
  let ?own = "map (store_response (includeData req)) found"
  let ?h = "node_store_handler (queue_driver S B) d"
  have own: "store_follow (handleSelfStoreRequest ?h) n req = Some ?own" by (simp add: store_follow_pages p(1))
  have sub: "set (concat pages) \<subseteq> set (map row_of (queue_walk S d))"
    unfolding p(3) by (auto simp: in_order_def)
  have good: "list_all (\<lambda>kv. sendable P kv \<and> normal_kv kv = kv) (sr_messages res)
      \<and> pred_option (\<lambda>c. length c = 32 \<and> c \<noteq> EmptyCursor) (sr_paginationCursor res)" if "res \<in> set ?own" for res
  proof -
    have e: "\<forall>kv \<in> set (sr_messages res). \<exists>r \<in> set (concat pages). kv = store_kv (includeData req) r"
      "\<And>c. sr_paginationCursor res = Some c \<Longrightarrow> \<exists>r \<in> set (concat pages). c = row_hash r"
      using pages_entries [OF p(2), unfolded q(4), OF that] by blast+
    have "sendable P kv \<and> normal_kv kv = kv" if "kv \<in> set (sr_messages res)" for kv
      using e(1) sub rows(3) that by fastforce
    moreover have "length c = 32 \<and> c \<noteq> EmptyCursor" if s: "sr_paginationCursor res = Some c" for c
    proof -
      obtain r where "r \<in> set (map row_of (queue_walk S d))" "c = row_hash r" using e(2) [OF s] subsetD [OF sub] by metis
      then show ?thesis using rows(1,3) by (simp del: set_map)
    qed
    ultimately show ?thesis by (simp add: list_all_iff pred_option_def)
  qed
  have "paginationCursor req \<noteq> Some EmptyCursor" using assms(7) by simp
  then obtain ress where ress: "store_follow (network_query P newId peer eof limit ?h) n req = Some ress"
    "map sr_messages ress = map sr_messages ?own"
    using protobuf.network_follow [OF assms(9,11,13) node_store_handler_id own assms(10), of peer eof] good by blast
  have "length (sr_messages res) \<le> page_size ?q" if "res \<in> set ress" for res
  proof -
    have "sr_messages res \<in> sr_messages ` set ?own" using that arg_cong [OF ress(2), of set] unfolding set_map by blast
    then show ?thesis using pages_joined(2) [OF p(2) q(4) [symmetric]] by auto
  qed
  then show ?thesis
    using pages_joined(1) [OF p(2) q(4) [symmetric]] d(1) own ress history_of_cong [OF ress(2)]
    by (intro exI [of _ d] exI [of _ ?own] exI [of _ ress])
      (simp add: archive_run_adds history_of_def p(3) q(3) [symmetric] d(3))
qed

text \<open>Three messages relayed to an archive of two, asked for one at a time, the newest first.\<close>

definition sample_relayed :: "(Timestamp \<times> PubsubTopic \<times> WakuMessage) list" where
  "sample_relayed = map (\<lambda>(t, b). (100, ''t'', empty_message\<lparr>timestamp := t, payload := [b]\<rparr>)) [(100, 1), (99, 2), (101, 3)]"

definition sample_sha :: "bytes \<Rightarrow> bytes" where
  "sample_sha bs = take 32 (bs @ replicate 32 0)"

definition sample_query :: StoreQueryRequest where
  "sample_query = \<lparr>requestId = [], includeData = False, sq_pubsubTopic = Some ''t'', sq_contentTopics = [],
     startTime = None, endTime = None, messageHashes = [], paginationCursor = None,
     paginationForward = BACKWARD, paginationLimit = Some 1\<rparr>"

lemma sample_sendable:
  assumes "length (row_hash r) = 32"
  shows "sendable wire_format (store_kv False r)"
proof -
  have f: "key_value_fields wire_format (store_kv False r) = [(1, Blob (row_hash r))]"
    by (simp add: key_value_fields_def store_kv_def)
  have w: "writable [(1, Blob (row_hash r))]" using assms by (simp add: writable_def)
  have "length (wire_finish [(1, Blob (row_hash r))]) \<le> 100"
    using length_wire_finish [OF w] assms by (simp add: field_size_def)
  moreover have "pb_finish wire_format = wire_finish" by (simp add: wire_format_def)
  ultimately show ?thesis using w assms
    by (simp add: sendable_def f key_value_ok_def) (simp add: store_kv_def kv_fits_def)
qed

lemma store_history_complete_witness:
  "\<exists>d ress. store_follow (network_query wire_format (\<lambda>_. ''id'') ''p'' [] (\<lambda>_. (None, 0))
       (node_store_handler (queue_driver (list_sset (index_cmp cmp_of)) cmp_of) d)) 3 sample_query = Some ress
     \<and> map (\<lambda>kv. messageHash kv ! 1) (history_of False ress) = [3, 1]"
proof -
  let ?be = "\<lambda>w :: u64. [ucast w :: u8]"
  have c: "no_collisions sample_sha ?be sample_relayed"
    by (simp add: no_collisions_def sample_relayed_def sample_sha_def computeMessageHash_def computeDigest_def
        empty_message_def str_bytes_def)
  have t: "\<forall>(_, t, m) \<in> set sample_relayed. timestamp m \<noteq> 0 \<and> t \<noteq> [] \<and> computeMessageHash sample_sha ?be t m \<noteq> EmptyCursor"
    by code_simp
  have len: "\<forall>bs. length (sample_sha bs) = 32" by (simp add: sample_sha_def min_def)
  have q: "length (sq_contentTopics sample_query) \<le> 10" "\<forall>r. fst (checkUsage (fst (None, 0)) (snd (None, 0)))"
    "paginationCursor sample_query = None" "paginationForward sample_query = BACKWARD" "nat 2 < 3" "(0 :: int) < 2"
    "\<forall>r :: StoreQueryRequest. length ''id'' < 2 ^ 63" "includeData sample_query = False"
    by (auto simp: sample_query_def checkUsage_def)
  have ok: "store_request_ok sample_query"
    by (simp add: sample_query_def store_request_ok_def store_request_fields_def writable_def opt_field_def rep_field_def)
  have s: "\<forall>r \<in> set sample_relayed. sendable wire_format (store_kv (includeData sample_query) (row_of (archive_entry sample_sha ?be r)))"
    using len by (auto simp: q(8) archive_entry_def compute_index_def row_of_def computeMessageHash_def intro!: sample_sendable)
  have f: "map (\<lambda>kv. messageHash kv ! 1) (map (store_kv (includeData sample_query)) (filter (row_matches (toArchiveQuery sample_query))
      (in_order False (map row_of (newest (nat 2) (all_messages cmp_of (map (archive_entry sample_sha ?be) (filter storable sample_relayed)))))))) = [3, 1]"
    by code_simp
  obtain d ress where "store_follow (network_query wire_format (\<lambda>_. ''id'') ''p'' [] (\<lambda>_. (None, 0))
      (node_store_handler (queue_driver (list_sset (index_cmp cmp_of)) cmp_of) d)) 3 sample_query = Some ress"
    "history_of False ress = map (store_kv (includeData sample_query)) (filter (row_matches (toArchiveQuery sample_query))
      (in_order False (map row_of (newest (nat 2) (all_messages cmp_of (map (archive_entry sample_sha ?be) (filter storable sample_relayed)))))))"
    using store_history_complete [OF list_index_set.index_set_axioms q(6) c t len q(1,3,5) wire.protobuf_axioms ok q(7) s,
        where limit = "\<lambda>_. (None, 0)" and peer = "''p''" and eof = "[]", OF q(2)]
    by (auto simp only: q(4) PagingDirection.distinct)
  with f show ?thesis by metis
qed

end
