(* ===== verification/Lightpush.thy ===== *)
theory Lightpush
  imports Codecs RateLimit
begin

text \<open>
  Lightpush: the service (\<^verbatim>\<open>waku_lightpush/protocol.nim\<close>), the requests a node makes to itself
  (\<^verbatim>\<open>self_req_handler.nim\<close>) and the client (\<^verbatim>\<open>client.nim\<close>). The push handler of the node is
  a parameter, an error being \<open>Inl\<close>; a connection is what comes back for the bytes written, or the
  text of the exception. Metrics are left out.
\<close>

section \<open>The service\<close>

type_synonym PeerId = string
type_synonym push_handler = "PeerId \<Rightarrow> PubsubTopic \<Rightarrow> WakuMessage \<Rightarrow> string + unit"

definition dialFailure :: string where "dialFailure = ''dial_failure''"
definition decodeRpcFailure :: string where "decodeRpcFailure = ''decode_rpc_failure''"
definition emptyRequestBodyFailure :: string where "emptyRequestBodyFailure = ''empty_request_body_failure''"
definition emptyResponseBodyFailure :: string where "emptyResponseBodyFailure = ''empty_response_body_failure''"
definition TooManyRequestsMessage :: string where "TooManyRequestsMessage = ''TOO_MANY_REQUESTS''"

text \<open>\<^verbatim>\<open>handleRequest\<close>\<close>

definition handleRequest :: "pbuf \<Rightarrow> push_handler \<Rightarrow> PeerId \<Rightarrow> bytes \<Rightarrow> PushRPC" where
  "handleRequest P pushHandler peerId buffer =
     (let (success, pushResponseInfo, requestId) =
        (case decode_push_rpc P buffer of
           Inl e \<Rightarrow> (False, decodeRpcFailure @ '': '' @ show_protobuf_error e, [])
         | Inr rpc \<Rightarrow>
             (case pr_request rpc of
                None \<Rightarrow> (False, emptyRequestBodyFailure, [])
              | Some request \<Rightarrow>
                  (case pushHandler peerId (pq_pubSubTopic request) (pq_message request) of
                     Inr _ \<Rightarrow> (True, ''OK'', pr_requestId rpc)
                   | Inl e \<Rightarrow> (False, e, pr_requestId rpc))))
      in \<lparr>pr_requestId = requestId, pr_request = None,
          pr_response = Some \<lparr>isSuccess = success, info = Some pushResponseInfo\<rparr>\<rparr>)"

text \<open>The handler of a connection: the reply, and the limiter afterwards.\<close>

definition too_many :: PushRPC where
  "too_many = \<lparr>pr_requestId = ''N/A'', pr_request = None,
     pr_response = Some \<lparr>isSuccess = False, info = Some TooManyRequestsMessage\<rparr>\<rparr>"

definition push_reply ::
  "pbuf \<Rightarrow> push_handler \<Rightarrow> TokenBucket option \<Rightarrow> int \<Rightarrow> PeerId \<Rightarrow> bytes \<Rightarrow> PushRPC \<times> TokenBucket option" where
  "push_reply P pushHandler limiter now peerId buffer =
     (case checkUsage limiter now of
        (ok, limiter') \<Rightarrow> (if ok then handleRequest P pushHandler peerId buffer else too_many, limiter'))"

definition handle_push ::
  "pbuf \<Rightarrow> push_handler \<Rightarrow> TokenBucket option \<Rightarrow> int \<Rightarrow> PeerId \<Rightarrow> bytes \<Rightarrow> bytes \<times> TokenBucket option" where
  "handle_push P pushHandler limiter now peerId buffer =
     map_prod (encode_push_rpc P) id (push_reply P pushHandler limiter now peerId buffer)"

section \<open>The client\<close>

definition push_call :: "string \<Rightarrow> PubsubTopic \<Rightarrow> WakuMessage \<Rightarrow> PushRPC" where
  "push_call requestId topic m =
     \<lparr>pr_requestId = requestId, pr_request = Some \<lparr>pq_pubSubTopic = topic, pq_message = m\<rparr>, pr_response = None\<rparr>"

definition response_result :: "PushRPC \<Rightarrow> string + unit" where
  "response_result rpc =
     (case pr_response rpc of
        None \<Rightarrow> Inl emptyResponseBodyFailure
      | Some response \<Rightarrow>
          if \<not> isSuccess response then
            (case info response of Some i \<Rightarrow> Inl i | None \<Rightarrow> Inl ''unknown failure'')
          else Inr ())"

definition sendPushRequest ::
  "pbuf \<Rightarrow> string \<Rightarrow> PubsubTopic \<Rightarrow> WakuMessage \<Rightarrow> (bytes \<Rightarrow> string + bytes) option \<Rightarrow> string + unit" where
  "sendPushRequest P requestId topic m conn =
     (case conn of
        None \<Rightarrow> Inl dialFailure
      | Some exchange \<Rightarrow>
          (case exchange (encode_push_rpc P (push_call requestId topic m)) of
             Inl e \<Rightarrow> Inl (''Exception reading: '' @ e)
           | Inr buffer \<Rightarrow>
               (case decode_push_rpc P buffer of
                  Inl e \<Rightarrow> Inl decodeRpcFailure
                | Inr rpc \<Rightarrow> response_result rpc)))"

definition handleSelfLightPushRequest ::
  "pbuf \<Rightarrow> push_handler \<Rightarrow> PeerId \<Rightarrow> string \<Rightarrow> PubsubTopic \<Rightarrow> WakuMessage \<Rightarrow> string + unit" where
  "handleSelfLightPushRequest P pushHandler selfPeerId requestId topic m =
     response_result (handleRequest P pushHandler selfPeerId (encode_push_rpc P (push_call requestId topic m)))"

section \<open>End to end\<close>

definition over_meta :: string where
  "over_meta = decodeRpcFailure @ '': '' @ show_protobuf_error (InvalidLengthField ''meta'')"

context protobuf
begin

lemma handle_call:
  assumes "push_rpc_encodable P (push_call rid topic m)"
  shows "response_result (handleRequest P h peer (encode_push_rpc P (push_call rid topic m))) =
    (if meta_fits m then h peer topic m else Inl over_meta)"
  using decode_encode_push_rpc [OF assms]
  by (auto simp: handleRequest_def push_call_def response_result_def over_meta_def split: sum.splits)

lemma response_only: "pr_request (fst (push_reply P h lim now peer b)) = None"
  by (auto simp: push_reply_def too_many_def handleRequest_def Let_def split: prod.splits)

lemma push_end_to_end:
  assumes "push_rpc_encodable P (push_call rid topic m)"
    and "push_rpc_encodable P (fst (push_reply P h lim now peer (encode_push_rpc P (push_call rid topic m))))"
  shows "sendPushRequest P rid topic m (Some (\<lambda>b. Inr (fst (handle_push P h lim now peer b)))) =
    (if \<not> fst (checkUsage lim now) then Inl TooManyRequestsMessage
     else if meta_fits m then h peer topic m else Inl over_meta)"
proof -
  let ?b = "encode_push_rpc P (push_call rid topic m)"
  have "decode_push_rpc P (fst (handle_push P h lim now peer ?b)) = Inr (fst (push_reply P h lim now peer ?b))"
    using decode_encode_push_rpc [OF assms(2)] response_only by (simp add: handle_push_def)
  then have "sendPushRequest P rid topic m (Some (\<lambda>b. Inr (fst (handle_push P h lim now peer b))))
      = response_result (fst (push_reply P h lim now peer ?b))"
    by (simp add: sendPushRequest_def)
  then show ?thesis
    using handle_call [OF assms(1), of h peer]
    by (auto simp: push_reply_def too_many_def response_result_def split: prod.splits)
qed

end

text \<open>Lightpush, from the client's call to its result. Over any protobuf library that reads back what it
  writes, a publish through the service returns what the push handler of the service
  node answers for the client's own topic and message, error texts included, unless the
  rate limit is reached (\<^verbatim>\<open>TOO_MANY_REQUESTS\<close>) or the message has a \<^verbatim>\<open>meta\<close> of more than 64
  bytes: the client encodes it, but the service cannot decode it. The requests of a node
  to itself give the same without the limit.\<close>

theorem lightpush_end_to_end:
  assumes "protobuf P" and "push_rpc_encodable P (push_call rid topic m)"
    and "push_rpc_encodable P (fst (push_reply P h lim now peer (encode_push_rpc P (push_call rid topic m))))"
  shows "sendPushRequest P rid topic m (Some (\<lambda>b. Inr (fst (handle_push P h lim now peer b)))) =
      (if \<not> fst (checkUsage lim now) then Inl TooManyRequestsMessage
       else if length (meta m) \<le> 64 then h peer topic m
       else Inl ''decode_rpc_failure: InvalidLengthField meta'')
    \<and> handleSelfLightPushRequest P h peer rid topic m =
      (if length (meta m) \<le> 64 then h peer topic m else Inl ''decode_rpc_failure: InvalidLengthField meta'')"
  using protobuf.push_end_to_end [OF assms] protobuf.handle_call [OF assms(1,2), of h peer]
  by (simp add: handleSelfLightPushRequest_def meta_fits_def MaxMetaAttrLength_def over_meta_def decodeRpcFailure_def)

text \<open>A concrete run over the wire format.\<close>

definition hello :: WakuMessage where
  "hello = empty_message\<lparr>payload := [104, 105], contentTopic := ''/a/1/b/c''\<rparr>"

lemma hello_encodable: "push_rpc_encodable wire_format (push_call ''id'' ''t'' hello)"
proof -
  let ?r = "\<lparr>pq_pubSubTopic = ''t'', pq_message = hello\<rparr>"
  have m: "writable (message_fields hello)" "sum_list (map field_size (message_fields hello)) = 115"
    by (simp_all add: message_fields_def hello_def empty_message_def writable_def field_size_def)
  then have ml: "length (encode_message wire_format hello) \<le> 115"
    using length_wire_finish [OF m(1)] by (simp add: encode_message_def wire_format_def)
  then have r: "writable (push_request_fields wire_format ?r)"
    by (simp add: push_request_fields_def writable_def)
  have "length (wire_finish (push_request_fields wire_format ?r)) \<le> 1000"
    using length_wire_finish [OF r] ml by (simp add: push_request_fields_def field_size_def)
  then show ?thesis
    using m(1) r by (simp add: push_rpc_encodable_def push_call_def push_rpc_fields_def opt_field_def writable_def
        encodable_def int64_def hello_def empty_message_def wire_format_def)
qed

lemma lightpush_end_to_end_witness:
  "sendPushRequest wire_format ''id'' ''t'' hello
     (Some (\<lambda>b. Inr (fst (handle_push wire_format (\<lambda>_ _ _. Inl ''no peers'') None 0 ''p'' b)))) = Inl ''no peers''
   \<and> handleSelfLightPushRequest wire_format (\<lambda>_ _ _. Inl ''no peers'') ''p'' ''id'' ''t'' hello = Inl ''no peers''"
proof -
  let ?h = "\<lambda>_ _ _. Inl ''no peers''"
  let ?reply = "\<lparr>isSuccess = False, info = Some ''no peers''\<rparr>"
  have w: "writable (push_response_fields ?reply)" by (simp add: push_response_fields_def opt_field_def writable_def)
  have "length (wire_finish (push_response_fields ?reply)) \<le> 1000"
    using length_wire_finish [OF w] by (simp add: push_response_fields_def opt_field_def field_size_def)
  then have reply: "push_rpc_encodable wire_format \<lparr>pr_requestId = ''id'', pr_request = None, pr_response = Some ?reply\<rparr>"
    using w by (simp add: push_rpc_encodable_def push_rpc_fields_def opt_field_def writable_def wire_format_def)
  have d: "decode_push_rpc wire_format (encode_push_rpc wire_format (push_call ''id'' ''t'' hello)) = Inr (push_call ''id'' ''t'' hello)"
    using wire.decode_encode_push_rpc [OF hello_encodable] by (simp add: push_call_def meta_fits_def hello_def empty_message_def)
  have "fst (push_reply wire_format ?h None 0 ''p'' (encode_push_rpc wire_format (push_call ''id'' ''t'' hello)))
      = \<lparr>pr_requestId = ''id'', pr_request = None, pr_response = Some \<lparr>isSuccess = False, info = Some ''no peers''\<rparr>\<rparr>"
    by (simp add: push_reply_def checkUsage_def handleRequest_def d) (simp add: push_call_def)
  then have "push_rpc_encodable wire_format
      (fst (push_reply wire_format ?h None 0 ''p'' (encode_push_rpc wire_format (push_call ''id'' ''t'' hello))))"
    using reply by simp
  from lightpush_end_to_end [OF wire.protobuf_axioms hello_encodable this] show ?thesis
    by (simp add: checkUsage_def hello_def empty_message_def)
qed

end
