(* ===== verification/PeerStore.thy ===== *)
theory PeerStore
  imports EnrShards "HOL-Library.AList"
begin

text \<open>
  What a node knows of its peers: \<^verbatim>\<open>RemotePeerInfo\<close> (\<^verbatim>\<open>waku/waku_core/peers.nim\<close>) and the views of the
  peer store (\<^verbatim>\<open>waku/node/peer_manager/waku_peer_store.nim\<close>). The store of libp2p is a book, a hash
  table, per kind of information: a missing entry reads as the default of its type,
  \<open>del\<close> removes a peer from every book. The order in which a hash set of peers is walked is the
  parameter \<open>ord\<close>.
\<close>

section \<open>Peers\<close>

type_synonym pid = string

datatype Connectedness = NotConnected | CannotConnect | CanConnect | Connected
datatype PeerOrigin = UnknownOrigin | Discv5 | Static | PeerExchange | Dns
datatype PeerDirection = UnknownDirection | Inbound | Outbound

record RemotePeerInfo =
  peerId :: pid
  addrs :: "string list"
  peer_enr :: "enr option"
  protocols :: "string list"
  agent :: string
  protoVersion :: string
  publicKey :: bytes
  connectedness :: Connectedness
  disconnectTime :: int
  origin :: PeerOrigin
  direction :: PeerDirection
  lastFailedConn :: int
  numberFailedConn :: int

section \<open>Books\<close>

type_synonym 'a book = "(pid \<times> 'a) list"

definition book_get :: "'a \<Rightarrow> 'a book \<Rightarrow> pid \<Rightarrow> 'a" where
  "book_get d b p = (case map_of b p of None \<Rightarrow> d | Some v \<Rightarrow> v)"

definition book_keys :: "'a book \<Rightarrow> pid list" where "book_keys b = map fst b"

text \<open>An \<open>enr\<close> without fields is \<^verbatim>\<open>default(enr.Record)\<close>.\<close>

definition no_enr :: enr where "no_enr = (\<lambda>_. None)"

record PeerStore =
  AddressBook :: "string list book"
  ProtoBook :: "string list book"
  KeyBook :: "bytes book"
  AgentBook :: "string book"
  ProtoVersionBook :: "string book"
  ENRBook :: "enr book"
  ConnectionBook :: "Connectedness book"
  DisconnectBook :: "int book"
  SourceBook :: "PeerOrigin book"
  DirectionBook :: "PeerDirection book"
  LastFailedConnBook :: "int book"
  NumberFailedConnBook :: "int book"
  capacity :: nat

definition delete_peer :: "pid \<Rightarrow> PeerStore \<Rightarrow> PeerStore" where
  "delete_peer p s = s\<lparr>
     AddressBook := AList.delete p (AddressBook s), ProtoBook := AList.delete p (ProtoBook s),
     KeyBook := AList.delete p (KeyBook s), AgentBook := AList.delete p (AgentBook s),
     ProtoVersionBook := AList.delete p (ProtoVersionBook s), ENRBook := AList.delete p (ENRBook s),
     ConnectionBook := AList.delete p (ConnectionBook s), DisconnectBook := AList.delete p (DisconnectBook s),
     SourceBook := AList.delete p (SourceBook s), DirectionBook := AList.delete p (DirectionBook s),
     LastFailedConnBook := AList.delete p (LastFailedConnBook s),
     NumberFailedConnBook := AList.delete p (NumberFailedConnBook s)\<rparr>"

definition get_peer :: "PeerStore \<Rightarrow> pid \<Rightarrow> RemotePeerInfo" where
  "get_peer s p = \<lparr>peerId = p, addrs = book_get [] (AddressBook s) p,
     peer_enr = (case map_of (ENRBook s) p of None \<Rightarrow> None | Some r \<Rightarrow> if r = no_enr then None else Some r),
     protocols = book_get [] (ProtoBook s) p, agent = book_get [] (AgentBook s) p,
     protoVersion = book_get [] (ProtoVersionBook s) p, publicKey = book_get [] (KeyBook s) p,
     connectedness = book_get NotConnected (ConnectionBook s) p,
     disconnectTime = book_get 0 (DisconnectBook s) p, origin = book_get UnknownOrigin (SourceBook s) p,
     direction = book_get UnknownDirection (DirectionBook s) p,
     lastFailedConn = book_get 0 (LastFailedConnBook s) p,
     numberFailedConn = book_get 0 (NumberFailedConnBook s) p\<rparr>"

section \<open>Views\<close>

type_synonym peer_order = "pid list \<Rightarrow> pid list"

definition peer_order_ok :: "peer_order \<Rightarrow> bool" where
  "peer_order_ok ord \<longleftrightarrow> (\<forall>ps. set (ord ps) = set ps \<and> (distinct ps \<longrightarrow> distinct (ord ps)))"

definition peer_ids :: "PeerStore \<Rightarrow> pid list" where
  "peer_ids s = remdups (book_keys (AddressBook s) @ book_keys (ProtoBook s) @ book_keys (KeyBook s))"

definition peers :: "peer_order \<Rightarrow> PeerStore \<Rightarrow> RemotePeerInfo list" where
  "peers ord s = map (get_peer s) (ord (peer_ids s))"

definition peers_proto :: "peer_order \<Rightarrow> PeerStore \<Rightarrow> string \<Rightarrow> RemotePeerInfo list" where
  "peers_proto ord s proto = filter (\<lambda>it. proto \<in> set (protocols it)) (peers ord s)"

definition peers_matching :: "peer_order \<Rightarrow> PeerStore \<Rightarrow> (string \<Rightarrow> bool) \<Rightarrow> RemotePeerInfo list" where
  "peers_matching ord s m = filter (\<lambda>it. \<exists>x \<in> set (protocols it). m x) (peers ord s)"

definition connectedness_of :: "PeerStore \<Rightarrow> pid \<Rightarrow> Connectedness" where
  "connectedness_of s p = book_get NotConnected (ConnectionBook s) p"

definition isConnected :: "PeerStore \<Rightarrow> pid \<Rightarrow> bool" where
  "isConnected s p \<longleftrightarrow> connectedness_of s p = Connected"

definition hasShard :: "PeerStore \<Rightarrow> pid \<Rightarrow> u16 \<Rightarrow> u16 \<Rightarrow> bool" where
  "hasShard s p cluster shard = containsShard (book_get no_enr (ENRBook s) p) cluster shard"

definition hasCapability :: "PeerStore \<Rightarrow> pid \<Rightarrow> Capabilities \<Rightarrow> bool" where
  "hasCapability s p c = record_supports (book_get no_enr (ENRBook s) p) c"

definition hasPeer :: "PeerStore \<Rightarrow> pid \<Rightarrow> string \<Rightarrow> bool" where
  "hasPeer s p proto \<longleftrightarrow> proto \<in> set (protocols (get_peer s p))"

definition hasPeers :: "PeerStore \<Rightarrow> string \<Rightarrow> bool" where
  "hasPeers s proto \<longleftrightarrow> (\<exists>ps \<in> set (map snd (ProtoBook s)). proto \<in> set ps)"

definition hasPeers_matching :: "PeerStore \<Rightarrow> (string \<Rightarrow> bool) \<Rightarrow> bool" where
  "hasPeers_matching s m \<longleftrightarrow> (\<exists>ps \<in> set (map snd (ProtoBook s)). \<exists>x \<in> set ps. m x)"

definition getWakuProtos :: "PeerStore \<Rightarrow> string list" where
  "getWakuProtos s =
     filter (\<lambda>it. starts_with it ''/vac/waku'') (deduplicate (concat (map snd (ProtoBook s))))"

definition getPeersByDirection :: "peer_order \<Rightarrow> PeerStore \<Rightarrow> PeerDirection \<Rightarrow> RemotePeerInfo list" where
  "getPeersByDirection ord s d = filter (\<lambda>it. direction it = d) (peers ord s)"

definition getNotConnectedPeers :: "peer_order \<Rightarrow> PeerStore \<Rightarrow> RemotePeerInfo list" where
  "getNotConnectedPeers ord s = filter (\<lambda>it. connectedness it \<noteq> Connected) (peers ord s)"

definition getConnectedPeers :: "peer_order \<Rightarrow> PeerStore \<Rightarrow> RemotePeerInfo list" where
  "getConnectedPeers ord s = filter (\<lambda>it. connectedness it = Connected) (peers ord s)"

definition getPeersByProtocol :: "peer_order \<Rightarrow> PeerStore \<Rightarrow> string \<Rightarrow> RemotePeerInfo list" where
  "getPeersByProtocol ord s proto = filter (\<lambda>it. proto \<in> set (protocols it)) (peers ord s)"

definition getReachablePeers :: "peer_order \<Rightarrow> PeerStore \<Rightarrow> RemotePeerInfo list" where
  "getReachablePeers ord s =
     filter (\<lambda>it. connectedness it = CanConnect \<or> connectedness it = Connected) (peers ord s)"

definition getPeersByShard :: "peer_order \<Rightarrow> PeerStore \<Rightarrow> u16 \<Rightarrow> u16 \<Rightarrow> RemotePeerInfo list" where
  "getPeersByShard ord s cluster shard =
     filter (\<lambda>it. case peer_enr it of None \<Rightarrow> False | Some r \<Rightarrow> containsShard r cluster shard) (peers ord s)"

definition getPeersByCapability :: "peer_order \<Rightarrow> PeerStore \<Rightarrow> Capabilities \<Rightarrow> RemotePeerInfo list" where
  "getPeersByCapability ord s c =
     filter (\<lambda>it. case peer_enr it of None \<Rightarrow> False | Some r \<Rightarrow> record_supports r c) (peers ord s)"

section \<open>Laws of the store\<close>

lemma map_of_delete [simp]: "map_of (AList.delete k b) p = (if p = k then None else map_of b p)"
  by (simp add: delete_conv')

lemma map_of_update [simp]: "map_of (AList.update k v b) p = (if p = k then Some v else map_of b p)"
  by (simp add: update_conv')

lemma book_get_simps [simp]:
  "book_get d (AList.update k v b) p = (if p = k then v else book_get d b p)"
  "book_get d (AList.delete k b) p = (if p = k then d else book_get d b p)"
  by (simp_all add: book_get_def)

lemma get_peer_id [simp]: "peerId (get_peer s p) = p"
  by (simp add: get_peer_def)

lemma isConnected_get: "isConnected s p \<longleftrightarrow> connectedness (get_peer s p) = Connected"
  by (simp add: isConnected_def connectedness_of_def get_peer_def)

lemma get_deleted: "p \<noteq> q \<Longrightarrow> get_peer (delete_peer q s) p = get_peer s p"
  by (simp add: get_peer_def delete_peer_def)

lemma peer_ids_deleted: "set (peer_ids (delete_peer q s)) = set (peer_ids s) - {q}"
  by (auto simp: peer_ids_def book_keys_def delete_peer_def AList.delete_keys)

lemma set_peers: "peer_order_ok ord \<Longrightarrow> set (peers ord s) = get_peer s ` set (peer_ids s)"
  by (simp add: peers_def peer_order_ok_def)

lemma distinct_peers: "peer_order_ok ord \<Longrightarrow> distinct (map peerId (peers ord s))"
  by (simp add: peers_def peer_order_ok_def comp_def peer_ids_def)

end
