(* ===== verification/PeerExchange.thy ===== *)
theory PeerExchange
  imports Codecs PeerStore "HOL-Library.Multiset"
begin

text \<open>
  Peer exchange, \<^verbatim>\<open>waku/waku_peer_exchange\<close>: the codec (\<^verbatim>\<open>rpc_codec.nim\<close>), and the service with its
  cache of node records and the request of a client (\<^verbatim>\<open>protocol.nim\<close>). A node record goes over
  the wire as the raw bytes of nim-eth, the parameter \<open>raw\<close>; \<open>shuffle\<close> is that of
  \<^verbatim>\<open>std/random\<close>. Metrics and the timers of the cache are left out.
\<close>

section \<open>The codec\<close>

record PeerExchangeRpc =
  px_numPeers :: u64
  px_peerInfos :: "bytes list"

definition px_request_fields :: "u64 \<Rightarrow> fields" where
  "px_request_fields n = [(1, U64 n)]"

definition decode_px_request :: "pbuf \<Rightarrow> bytes \<Rightarrow> ProtoError + u64" where
  "decode_px_request P buffer = bind_res (pb_u64 P 1 buffer) (\<lambda>numPeers.
     Inr (case numPeers of None \<Rightarrow> 0 | Some n \<Rightarrow> n))"

definition px_info_fields :: "bytes \<Rightarrow> fields" where
  "px_info_fields enr = [(1, Blob enr)]"

definition decode_px_info :: "pbuf \<Rightarrow> bytes \<Rightarrow> ProtoError + bytes" where
  "decode_px_info P buffer = bind_res (pb_blob P 1 buffer) (\<lambda>b.
     Inr (case b of None \<Rightarrow> [] | Some enr \<Rightarrow> enr))"

definition px_response_fields :: "pbuf \<Rightarrow> bytes list \<Rightarrow> fields" where
  "px_response_fields P infos = rep_field 1 (map (\<lambda>i. pb_finish P (px_info_fields i)) infos)"

definition decode_px_response :: "pbuf \<Rightarrow> bytes \<Rightarrow> ProtoError + bytes list" where
  "decode_px_response P buffer = bind_res (pb_blobs P 1 buffer) (\<lambda>bs.
     case bs of None \<Rightarrow> Inr [] | Some pibs \<Rightarrow> decode_all (decode_px_info P) pibs)"

definition px_rpc_fields :: "pbuf \<Rightarrow> PeerExchangeRpc \<Rightarrow> fields" where
  "px_rpc_fields P rpc =
     [(1, Blob (pb_finish P (px_request_fields (px_numPeers rpc)))),
      (2, Blob (pb_finish P (px_response_fields P (px_peerInfos rpc))))]"

definition encode_px :: "pbuf \<Rightarrow> PeerExchangeRpc \<Rightarrow> bytes" where
  "encode_px P rpc = pb_finish P (px_rpc_fields P rpc)"

definition decode_px :: "pbuf \<Rightarrow> bytes \<Rightarrow> ProtoError + PeerExchangeRpc" where
  "decode_px P buffer =
     bind_res (pb_blob P 1 buffer) (\<lambda>requestBuffer.
     case requestBuffer of
       None \<Rightarrow> Inl RequiredFieldMissing
     | Some b \<Rightarrow>
         bind_res (decode_px_request P b) (\<lambda>n.
         bind_res (pb_blob P 2 buffer) (\<lambda>responseBuffer.
         bind_res (decode_px_response P (case responseBuffer of None \<Rightarrow> [] | Some b \<Rightarrow> b)) (\<lambda>infos.
         Inr \<lparr>px_numPeers = n, px_peerInfos = infos\<rparr>))))"

section \<open>The service\<close>

definition MaxPeersCacheSize :: nat where "MaxPeersCacheSize = 60"

text \<open>\<^verbatim>\<open>populateEnrCache\<close>: the first records of the reachable peers that came from discv5.\<close>

definition populateEnrCache :: "peer_order \<Rightarrow> PeerStore \<Rightarrow> enr list" where
  "populateEnrCache ord s =
     (let withEnr = filter (\<lambda>it. peer_enr it \<noteq> None) (filter (\<lambda>it. origin it = Discv5) (getReachablePeers ord s))
      in map (the \<circ> peer_enr) (take MaxPeersCacheSize withEnr))"

text \<open>
  \<^verbatim>\<open>numPeers.int\<close> is out of range from \<open>2 ^ 63\<close> on; a number taken as a negative one would give the
  slice a negative length, which is the same \<^verbatim>\<open>RangeDefect\<close>.
\<close>

definition getEnrsFromCache :: "(enr list \<Rightarrow> enr list) \<Rightarrow> enr list \<Rightarrow> u64 \<Rightarrow> enr list exec" where
  "getEnrsFromCache shuffle enrCache numPeers =
     (if enrCache = [] then Done []
      else if unat numPeers \<ge> 2 ^ 63 then Fault RangeDefect
      else Done (take (min (length (shuffle enrCache)) (unat numPeers)) (shuffle enrCache)))"

text \<open>The bytes written back on a connection, if any.\<close>

definition px_handler ::
  "pbuf \<Rightarrow> (enr \<Rightarrow> bytes) \<Rightarrow> (enr list \<Rightarrow> enr list) \<Rightarrow> enr list \<Rightarrow> bytes \<Rightarrow> bytes option exec" where
  "px_handler P raw shuffle enrCache buffer =
     (case decode_px P buffer of
        Inl e \<Rightarrow> Done None
      | Inr rpc \<Rightarrow>
          bind_exec (getEnrsFromCache shuffle enrCache (px_numPeers rpc)) (\<lambda>enrs.
          Done (Some (encode_px P \<lparr>px_numPeers = 0, px_peerInfos = map raw enrs\<rparr>))))"

section \<open>The client\<close>

definition px_dialFailure :: string where "px_dialFailure = ''dial_failure''"
definition peerNotFoundFailure :: string where "peerNotFoundFailure = ''peer_not_found_failure''"

text \<open>
  A connection gives the bytes read for the bytes written, or the text of the exception; an
  exception without a text is taken for an empty answer.
\<close>

definition px_request_conn :: "pbuf \<Rightarrow> u64 \<Rightarrow> (bytes \<Rightarrow> string + bytes) \<Rightarrow> string + bytes list" where
  "px_request_conn P numPeers exchange =
     (let (error, buffer) =
        (case exchange (encode_px P \<lparr>px_numPeers = numPeers, px_peerInfos = []\<rparr>) of
           Inl e \<Rightarrow> (e, []) | Inr b \<Rightarrow> ([], b))
      in if error \<noteq> [] then Inl (''write/read failed: '' @ error)
         else (case decode_px P buffer of
             Inl e \<Rightarrow> Inl (''decode failed: '' @ show_proto_error e)
           | Inr rpc \<Rightarrow> Inr (px_peerInfos rpc)))"

definition px_request_peer ::
  "pbuf \<Rightarrow> u64 \<Rightarrow> (bytes \<Rightarrow> string + bytes) option \<Rightarrow> string + bytes list" where
  "px_request_peer P numPeers conn =
     (case conn of None \<Rightarrow> Inl px_dialFailure | Some exchange \<Rightarrow> px_request_conn P numPeers exchange)"

definition px_request ::
  "pbuf \<Rightarrow> u64 \<Rightarrow> RemotePeerInfo option \<Rightarrow> (RemotePeerInfo \<Rightarrow> (bytes \<Rightarrow> string + bytes) option)
     \<Rightarrow> string + bytes list" where
  "px_request P numPeers selected dial =
     (case selected of None \<Rightarrow> Inl peerNotFoundFailure
      | Some peer \<Rightarrow> px_request_peer P numPeers (dial peer))"

section \<open>Over the wire\<close>

text \<open>The sizes of everything written fit in memory.\<close>

definition px_ok :: "pbuf \<Rightarrow> PeerExchangeRpc \<Rightarrow> bool" where
  "px_ok P rpc \<longleftrightarrow> writable (px_rpc_fields P rpc) \<and> writable (px_response_fields P (px_peerInfos rpc))
     \<and> list_all (\<lambda>i. writable (px_info_fields i)) (px_peerInfos rpc)"

lemma rep_blobs: "\<forall>v. (n, v) \<in> set (rep_field n bs) \<longrightarrow> (\<exists>b. v = Blob b)"
  by (auto simp: rep_field_def)

context protobuf
begin

lemma decode_px_infos:
  assumes "list_all (\<lambda>i. writable (px_info_fields i)) infos"
  shows "decode_all (decode_px_info P) (map (\<lambda>i. pb_finish P (px_info_fields i)) infos) = Inr infos"
  using assms
proof (induction infos)
  case (Cons i infos)
  have "pb_blob P 1 (pb_finish P (px_info_fields i)) = Inr (Some i)"
    using Cons.prems by (intro blob_written) (simp_all add: px_info_fields_def field_simps)
  with Cons show ?case by (simp add: decode_px_info_def)
qed simp

lemma decode_encode_px:
  assumes "px_ok P rpc"
  shows "decode_px P (encode_px P rpc) = Inr rpc"
proof -
  let ?buf = "pb_finish P (px_rpc_fields P rpc)" and ?res = "px_response_fields P (px_peerInfos rpc)"
  have w: "writable (px_rpc_fields P rpc)" "writable ?res" "list_all (\<lambda>i. writable (px_info_fields i)) (px_peerInfos rpc)"
    using assms by (simp_all add: px_ok_def)
  have 1: "pb_blob P 1 ?buf = Inr (Some (pb_finish P (px_request_fields (px_numPeers rpc))))"
    and 2: "pb_blob P 2 ?buf = Inr (Some (pb_finish P ?res))"
    by (rule blob_written [OF w(1)]; simp add: px_rpc_fields_def field_simps)+
  have 3: "pb_u64 P 1 (pb_finish P (px_request_fields (px_numPeers rpc))) = Inr (Some (px_numPeers rpc))"
    by (rule u64_written) (simp_all add: px_request_fields_def field_simps writable_def)
  have 4: "pb_blobs P 1 (pb_finish P ?res) = Inr (if px_peerInfos rpc = [] then None
      else Some (map (\<lambda>i. pb_finish P (px_info_fields i)) (px_peerInfos rpc)))"
  proof -
    have "blobs_of 1 ?res = map (\<lambda>i. pb_finish P (px_info_fields i)) (px_peerInfos rpc)"
      by (simp add: px_response_fields_def field_simps)
    moreover have "\<forall>v. (1, v) \<in> set ?res \<longrightarrow> (\<exists>b. v = Blob b)"
      unfolding px_response_fields_def by (rule rep_blobs)
    ultimately show ?thesis using blobs_written [OF w(2)] by simp
  qed
  have "decode_px_response P (pb_finish P ?res) = Inr (px_peerInfos rpc)"
    by (simp add: decode_px_response_def 4 decode_px_infos [OF w(3)] del: One_nat_def)
  then show ?thesis
    by (simp add: decode_px_def encode_px_def decode_px_request_def 1 2 3 del: One_nat_def)
qed

end

section \<open>What a client gets\<close>

text \<open>A shuffle only reorders.\<close>

definition shuffle_ok :: "('a list \<Rightarrow> 'a list) \<Rightarrow> bool" where
  "shuffle_ok shuffle \<longleftrightarrow> (\<forall>xs. mset (shuffle xs) = mset xs)"

lemma shuffle_length: "shuffle_ok sh \<Longrightarrow> length (sh xs) = length xs"
  unfolding shuffle_ok_def by (metis size_mset)

lemma enrs_from_cache:
  assumes "shuffle_ok sh" and "getEnrsFromCache sh cache n = Done enrs"
  shows "mset enrs \<subseteq># mset cache" and "length enrs = min (length cache) (unat n)"
proof -
  have enrs: "enrs = take (unat n) (sh cache)"
    using assms shuffle_length [OF assms(1), of "[]"]
    by (auto simp: getEnrsFromCache_def min_def split: if_splits)
  have "mset (take (unat n) (sh cache)) \<subseteq># mset (sh cache)"
    by (metis append_take_drop_id mset_append mset_subset_eq_add_left)
  then show "mset enrs \<subseteq># mset cache" using assms(1) by (simp add: enrs shuffle_ok_def)
  show "length enrs = min (length cache) (unat n)" by (simp add: enrs shuffle_length [OF assms(1)])
qed

lemma populated:
  assumes "r \<in> set (populateEnrCache ord s)" and "peer_order_ok ord"
  shows "\<exists>p \<in> set (peer_ids s). connectedness_of s p \<in> {CanConnect, Connected}
    \<and> book_get UnknownOrigin (SourceBook s) p = Discv5 \<and> peer_enr (get_peer s p) = Some r"
proof -
  let ?withEnr = "filter (\<lambda>it. peer_enr it \<noteq> None) (filter (\<lambda>it. origin it = Discv5) (getReachablePeers ord s))"
  from assms(1) obtain it where "it \<in> set (take MaxPeersCacheSize ?withEnr)" "r = the (peer_enr it)"
    unfolding populateEnrCache_def Let_def by auto
  then have it: "it \<in> set (getReachablePeers ord s)" "origin it = Discv5" "peer_enr it = Some r"
    using in_set_takeD [of it MaxPeersCacheSize ?withEnr] by auto
  then obtain p where "p \<in> set (peer_ids s)" "it = get_peer s p" "connectedness it \<in> {CanConnect, Connected}"
    by (auto simp: getReachablePeers_def set_peers [OF assms(2)])
  with it show ?thesis by (auto simp: get_peer_def connectedness_of_def intro!: bexI [of _ p])
qed

lemma length_populated: "length (populateEnrCache ord s) \<le> MaxPeersCacheSize"
  by (simp add: populateEnrCache_def Let_def)

text \<open>The connection to a service.\<close>

definition px_connection ::
  "pbuf \<Rightarrow> (enr \<Rightarrow> bytes) \<Rightarrow> (enr list \<Rightarrow> enr list) \<Rightarrow> enr list \<Rightarrow> bytes \<Rightarrow> string + bytes" where
  "px_connection P raw sh cache b =
     (case px_handler P raw sh cache b of Done (Some r) \<Rightarrow> Inr r | _ \<Rightarrow> Inl ''Stream EOF!'')"

text \<open>C34: peer exchange, from the request to the result. A client that asks a service for \<open>n\<close> peers gets
  as many records as the service has cached, at most \<open>n\<close> and at most 60, none more often than the
  service knows it, and each is the record of a peer of the service's store that came from
  discv5 and is connected or was recently. Only if \<open>n\<close> is \<open>2 ^ 63\<close> or more and the cache is not
  empty, the service stops with \<^verbatim>\<open>RangeDefect\<close>, and the client gets no answer. This is over
  any protobuf library that reads back what it writes, for answers that fit in memory.\<close>

theorem px_end_to_end:
  assumes "protobuf P" and "peer_order_ok ord" and "shuffle_ok sh"
    and "cache = populateEnrCache ord s" and "\<forall>rpc. set (px_peerInfos rpc) \<subseteq> raw ` set cache
      \<and> length (px_peerInfos rpc) \<le> length cache \<longrightarrow> px_ok P rpc"
  shows "if cache \<noteq> [] \<and> unat n \<ge> 2 ^ 63
    then px_handler P raw sh cache (encode_px P \<lparr>px_numPeers = n, px_peerInfos = []\<rparr>) = Fault RangeDefect
      \<and> px_request_peer P n (Some (px_connection P raw sh cache)) = Inl ''write/read failed: Stream EOF!''
    else \<exists>enrs. px_request_peer P n (Some (px_connection P raw sh cache)) = Inr (map raw enrs)
      \<and> length enrs = min (length cache) (unat n) \<and> length enrs \<le> 60 \<and> mset enrs \<subseteq># mset cache
      \<and> (\<forall>r \<in> set enrs. \<exists>p \<in> set (peer_ids s). connectedness_of s p \<in> {CanConnect, Connected}
          \<and> book_get UnknownOrigin (SourceBook s) p = Discv5 \<and> peer_enr (get_peer s p) = Some r)"
proof -
  have ask: "px_ok P \<lparr>px_numPeers = n, px_peerInfos = []\<rparr>" by (simp add: assms(5))
  note asked = protobuf.decode_encode_px [OF assms(1) ask]
  show ?thesis
  proof (cases "cache \<noteq> [] \<and> unat n \<ge> 2 ^ 63")
    case True
    then have "getEnrsFromCache sh cache n = Fault RangeDefect" by (simp add: getEnrsFromCache_def)
    then show ?thesis using True
      by (simp add: px_request_peer_def px_request_conn_def px_connection_def px_handler_def asked)
  next
    case False
    then obtain enrs where e: "getEnrsFromCache sh cache n = Done enrs"
      by (cases "cache = []") (simp_all add: getEnrsFromCache_def del: One_nat_def)
    note enrs = enrs_from_cache [OF assms(3) e]
    have sub: "set enrs \<subseteq> set cache" using set_mset_mono [OF enrs(1)] by simp
    have "set (map raw enrs) \<subseteq> raw ` set cache" using sub by auto
    then have "px_ok P \<lparr>px_numPeers = 0, px_peerInfos = map raw enrs\<rparr>" using enrs(2) by (simp add: assms(5))
    note dec = this [THEN protobuf.decode_encode_px [OF assms(1)]]
    have "px_request_peer P n (Some (px_connection P raw sh cache)) = Inr (map raw enrs)"
      by (simp add: px_request_peer_def px_request_conn_def px_connection_def px_handler_def asked dec e)
    moreover have "length enrs \<le> 60" using enrs(2) length_populated [of ord s] by (simp add: assms(4) MaxPeersCacheSize_def)
    moreover have "\<forall>r \<in> set enrs. \<exists>p \<in> set (peer_ids s). connectedness_of s p \<in> {CanConnect, Connected}
        \<and> book_get UnknownOrigin (SourceBook s) p = Discv5 \<and> peer_enr (get_peer s p) = Some r"
      using populated [of _ ord s, OF _ assms(2)] sub assms(4) by blast
    ultimately show ?thesis unfolding if_not_P [OF False] using enrs by (intro exI [of _ enrs]) simp
  qed
qed

text \<open>A node that knows one peer, asked for five over the wire format.\<close>

definition known_peers :: PeerStore where
  "known_peers = \<lparr>AddressBook = [(''p'', [])], ProtoBook = [], KeyBook = [], AgentBook = [], ProtoVersionBook = [],
     ENRBook = [(''p'', [''id'' \<mapsto> [118, 52]])], ConnectionBook = [(''p'', Connected)], DisconnectBook = [],
     SourceBook = [(''p'', Discv5)], DirectionBook = [], LastFailedConnBook = [], NumberFailedConnBook = [],
     capacity = 10\<rparr>"

lemma known_cache: "populateEnrCache id known_peers = [[''id'' \<mapsto> [118, 52]]]"
proof -
  have "[''id'' \<mapsto> [118, 52]] \<noteq> (no_enr :: enr)" by (auto simp: no_enr_def fun_eq_iff)
  then show ?thesis
    by (simp add: populateEnrCache_def getReachablePeers_def peers_def peer_ids_def book_keys_def get_peer_def
        known_peers_def book_get_def MaxPeersCacheSize_def)
qed

lemma px_ok_small:
  assumes "set (px_peerInfos rpc) \<subseteq> {[1, 2]}" and "length (px_peerInfos rpc) \<le> 1"
  shows "px_ok wire_format rpc"
proof -
  have i: "writable (px_info_fields [1, 2])" "length (wire_finish (px_info_fields [1, 2])) \<le> 100"
    using length_wire_finish [of "px_info_fields [1, 2]"] by (simp_all add: px_info_fields_def writable_def field_size_def)
  consider "px_peerInfos rpc = []" | "px_peerInfos rpc = [[1, 2]]"
    using assms by (cases "px_peerInfos rpc") auto
  then have res: "writable (px_response_fields wire_format (px_peerInfos rpc))
    \<and> length (wire_finish (px_response_fields wire_format (px_peerInfos rpc))) \<le> 1000
    \<and> list_all (\<lambda>i. writable (px_info_fields i)) (px_peerInfos rpc)"
  proof cases
    case 2
    have w: "writable (px_response_fields wire_format [[1, 2]])"
      using i by (simp add: px_response_fields_def rep_field_def writable_def wire_format_def)
    then have "length (wire_finish (px_response_fields wire_format [[1, 2]])) \<le> 1000"
      using length_wire_finish [OF w] i(2) by (simp add: px_response_fields_def rep_field_def field_size_def wire_format_def)
    with w i 2 show ?thesis by simp
  qed (simp add: px_response_fields_def rep_field_def writable_def wire_finish_def)
  have q: "writable (px_request_fields n)" for n by (simp add: px_request_fields_def writable_def)
  have "length (wire_finish (px_request_fields n)) \<le> 100" for n
    using length_wire_finish [OF q, of n] by (simp add: px_request_fields_def field_size_def)
  then have "length (wire_finish (px_request_fields (px_numPeers rpc))) < 2 ^ 63"
    by (rule le_less_trans) simp
  moreover have "length (wire_finish (px_response_fields wire_format (px_peerInfos rpc))) < 2 ^ 63"
    by (rule le_less_trans [of _ 1000]) (use res in simp_all)
  ultimately have "writable (px_rpc_fields wire_format rpc)"
    by (simp add: px_rpc_fields_def writable_def wire_format_def)
  then show ?thesis using res by (simp add: px_ok_def)
qed

theorem px_end_to_end_witness:
  "px_request_peer wire_format 5 (Some (px_connection wire_format (\<lambda>_. [1, 2]) id
      (populateEnrCache id known_peers))) = Inr [[1, 2]]"
proof -
  have h: "peer_order_ok id" "shuffle_ok id"
    by (simp_all add: peer_order_ok_def shuffle_ok_def)
  have ok: "\<forall>rpc. set (px_peerInfos rpc) \<subseteq> (\<lambda>_. [1, 2]) ` set (populateEnrCache id known_peers)
      \<and> length (px_peerInfos rpc) \<le> length (populateEnrCache id known_peers) \<longrightarrow> px_ok wire_format rpc"
    by (intro allI impI px_ok_small) (auto simp: known_cache)
  from px_end_to_end [where raw = "\<lambda>_. [1, 2]" and s = known_peers and n = 5, OF wire.protobuf_axioms h refl ok] obtain enrs :: "enr list" where
    enrs: "px_request_peer wire_format 5 (Some (px_connection wire_format (\<lambda>_. [1, 2]) id
        (populateEnrCache id known_peers))) = Inr (map (\<lambda>_. [1, 2]) enrs)"
      "length enrs = min (length (populateEnrCache id known_peers)) (unat (5 :: u64))" by (auto simp: known_cache)
  then have "length enrs = 1" by (simp add: known_cache)
  then obtain r where "enrs = [r]" by (cases enrs) auto
  with enrs(1) show ?thesis by simp
qed

text \<open>Which bytes of a peer stop the peer exchange of a node: exactly those that are decoded to a
  request for \<open>2 ^ 63\<close> peers or more while the cache is not empty; the defect is \<^verbatim>\<open>RangeDefect\<close>.
  Every other sequence of bytes is answered, or dropped when it cannot be decoded.\<close>

theorem px_remote_fault:
  shows "px_handler P raw sh cache b = Fault e \<longleftrightarrow>
    e = RangeDefect \<and> cache \<noteq> [] \<and> (\<exists>rpc. decode_px P b = Inr rpc \<and> unat (px_numPeers rpc) \<ge> 2 ^ 63)"
  by (auto simp: px_handler_def getEnrsFromCache_def split: sum.splits)

theorem px_remote_fault_witness:
  "px_handler wire_format (\<lambda>_. [1, 2]) id (populateEnrCache id known_peers)
     (encode_px wire_format \<lparr>px_numPeers = 2 ^ 63, px_peerInfos = []\<rparr>) = Fault RangeDefect"
proof -
  let ?rpc = "\<lparr>px_numPeers = 2 ^ 63, px_peerInfos = []\<rparr>"
  have "decode_px wire_format (encode_px wire_format ?rpc) = Inr ?rpc"
    by (rule wire.decode_encode_px) (simp add: px_ok_small)
  moreover have "unat (2 ^ 63 :: u64) \<ge> 2 ^ 63" by simp
  ultimately show ?thesis
    using px_remote_fault [of wire_format "\<lambda>_. [1, 2]" id "populateEnrCache id known_peers"
        "encode_px wire_format ?rpc" RangeDefect]
    by (simp add: known_cache)
qed

end
