(* ===== verification/Metadata.thy ===== *)
theory Metadata
  imports Protobuf EnrShards
begin

text \<open>
  The metadata protocol, \<^verbatim>\<open>waku/waku_metadata\<close>: two nodes tell each other their cluster and shards when
  they connect. The codec (\<^verbatim>\<open>rpc.nim\<close>) writes the shards twice, one field per shard for old nodes
  and packed; the packed form of libp2p's \<^verbatim>\<open>minprotobuf\<close> is the record \<open>packing\<close>, whose laws extend
  those of \<open>protobuf\<close>. The order in which a hash set of shards is walked is a parameter.
\<close>

section \<open>Packed fields\<close>

text \<open>How numbers are packed into one field; the packed and the repeated fields of a number.\<close>

record packing =
  pk_pack :: "u32 list \<Rightarrow> bytes"
  pk_packed :: "nat \<Rightarrow> bytes \<Rightarrow> (u64 list) got"
  pk_repeated :: "nat \<Rightarrow> bytes \<Rightarrow> (u64 list) got"

text \<open>
  A packed field that was written is read back, one that holds no number perhaps as absent;
  what was not written is absent; a 32-bit number can be read as a 64-bit one.
\<close>

locale protobuf_packed = protobuf +
  fixes K :: packing
  assumes packed_written: "writable fs \<Longrightarrow> \<forall>v. (n, v) \<in> set fs \<longrightarrow> v = Blob (pk_pack K xs) \<Longrightarrow> blobs_of n fs = [pk_pack K xs] \<Longrightarrow>
      pk_packed K n (pb_finish P fs) = Inr (Some (map ucast xs)) \<or> xs = [] \<and> pk_packed K n (pb_finish P fs) = Inr None"
    and packed_absent: "writable fs \<Longrightarrow> field_of n fs = None \<Longrightarrow> pk_packed K n (pb_finish P fs) = Inr None"
    and repeated_absent: "writable fs \<Longrightarrow> field_of n fs = None \<Longrightarrow> pk_repeated K n (pb_finish P fs) = Inr None"
    and u32_as_u64: "writable fs \<Longrightarrow> field_of n fs = Some (U32 v) \<Longrightarrow> pb_u64 P n (pb_finish P fs) = Inr (Some (ucast v))"

text \<open>The wire format: the varints of the numbers, one after the other.\<close>

definition wire_pack :: "u32 list \<Rightarrow> bytes" where
  "wire_pack xs = concat (map (\<lambda>x. varint (unat x)) xs)"

function wire_unpack :: "bytes \<Rightarrow> ProtoError + u64 list" where
  "wire_unpack [] = Inr []"
| "wire_unpack (b # bs) =
     (case unvarint (b # bs) of None \<Rightarrow> Inl VarintDecode
      | Some (v, r) \<Rightarrow> bind_res (wire_unpack r) (\<lambda>vs. Inr (of_nat v # vs)))"
  by pat_completeness auto
termination
  by (relation "measure length") (auto simp del: unvarint.simps dest!: unvarint_shorter)

fun wire_unpack_all :: "bytes list \<Rightarrow> ProtoError + u64 list" where
  "wire_unpack_all [] = Inr []"
| "wire_unpack_all (b # bs) =
     bind_res (wire_unpack b) (\<lambda>xs. bind_res (wire_unpack_all bs) (\<lambda>ys. Inr (xs @ ys)))"

definition wire_packing :: packing where
  "wire_packing =
     \<lparr>pk_pack = wire_pack,
      pk_packed = (\<lambda>n bs. bind_res (raw_fields n bs) (\<lambda>l. bind_res (wire_unpack_all l) (\<lambda>xs.
        Inr (if xs = [] then None else Some xs)))),
      pk_repeated = (\<lambda>n bs. bind_res (parse_fields bs) (\<lambda>fs.
        let xs = concat (map (\<lambda>(k, v). case v of Varint x \<Rightarrow> if k = n then [of_nat x] else [] | Raw b \<Rightarrow> []) fs)
        in Inr (if xs = [] then None else Some xs)))\<rparr>"

lemma wire_unpack_varint: "wire_unpack (varint v @ r) = bind_res (wire_unpack r) (\<lambda>vs. Inr (of_nat v # vs))"
proof -
  obtain b bs where b: "varint v @ r = b # bs" using varint_nonempty [of v] by (cases "varint v @ r") auto
  then have "unvarint (b # bs) = Some (v, r)" by (metis unvarint_varint)
  then show ?thesis by (simp add: b del: unvarint.simps)
qed

lemma wire_unpack_pack: "wire_unpack (wire_pack xs) = Inr (map ucast xs)"
  by (induction xs) (simp_all add: wire_pack_def wire_unpack_varint wire_unpack.simps(1))

interpretation wire_packed: protobuf_packed wire_format wire_packing
proof (unfold_locales, goal_cases)
  case (1 fs n xs)
  then show ?case
    by (auto simp: wire_packing_def wire_format_def raw_fields_wire wire_unpack_pack)
next
  case (2 fs n)
  then show ?case by (simp add: wire_packing_def wire_format_def raw_fields_wire blobs_of_none)
next
  case (3 fs n)
  have "concat (map (\<lambda>(k, v). case v of Varint x \<Rightarrow> if k = n then [of_nat x] else [] | Raw b \<Rightarrow> [])
      (map (\<lambda>(n, v). (n, raw_of v)) fs)) = ([] :: u64 list)"
    using 3(2) by (auto simp: field_of_def map_of_eq_None_iff image_iff split: raw.splits)
  then show ?case by (simp add: wire_packing_def wire_format_def parse_wire)
next
  case (4 fs n v)
  then show ?case by (simp add: wire_format_def map_got_def varint_field_some)
qed

section \<open>The codec\<close>

text \<open>Request and response are the same record.\<close>

record MetadataRpc =
  rpc_clusterId :: "u32 option"
  rpc_shards :: "u32 list"

definition metadata_fields :: "packing \<Rightarrow> MetadataRpc \<Rightarrow> fields" where
  "metadata_fields K rpc =
     opt_field 1 (map_option U32 (rpc_clusterId rpc)) @ map (\<lambda>shard. (2, U32 shard)) (rpc_shards rpc)
     @ [(3, Blob (pk_pack K (rpc_shards rpc)))]"

definition encode_metadata :: "pbuf \<Rightarrow> packing \<Rightarrow> MetadataRpc \<Rightarrow> bytes" where
  "encode_metadata P K rpc = pb_finish P (metadata_fields K rpc)"

definition decode_shards :: "packing \<Rightarrow> bytes \<Rightarrow> ProtoError + u64 list" where
  "decode_shards K buffer =
     bind_res (pk_packed K 3 buffer) (\<lambda>r. case r of Some shards \<Rightarrow> Inr shards
     | None \<Rightarrow> bind_res (pk_packed K 2 buffer) (\<lambda>r. case r of Some shards \<Rightarrow> Inr shards
     | None \<Rightarrow> bind_res (pk_repeated K 2 buffer) (\<lambda>r. case r of Some shards \<Rightarrow> Inr shards
     | None \<Rightarrow> Inr [])))"

definition decode_metadata :: "pbuf \<Rightarrow> packing \<Rightarrow> bytes \<Rightarrow> ProtoError + MetadataRpc" where
  "decode_metadata P K buffer =
     bind_res (pb_u64 P 1 buffer) (\<lambda>clusterId.
     bind_res (decode_shards K buffer) (\<lambda>shards.
     Inr \<lparr>rpc_clusterId = map_option ucast clusterId, rpc_shards = map ucast shards\<rparr>))"

lemma metadata_field_simps [field_simps]:
  "k \<noteq> n \<Longrightarrow> field_of n (map (\<lambda>s. (k, U32 s)) ss) = None"
  "blobs_of n (map (\<lambda>s. (k, U32 s)) ss) = []"
proof -
  show "k \<noteq> n \<Longrightarrow> field_of n (map (\<lambda>s. (k, U32 s)) ss) = None"
    by (auto simp: field_of_def map_of_eq_None_iff)
qed (induction ss; simp add: blobs_of_def)

lemma ucast_ucast32 [simp]: "ucast (ucast w :: u64) = (w :: u32)"
  by (rule bit_word_eqI) (simp add: bit_simps)

context protobuf_packed
begin

lemma decode_shards_written:
  assumes "writable (metadata_fields K rpc)"
  shows "decode_shards K (pb_finish P (metadata_fields K rpc)) = Inr (map ucast (rpc_shards rpc))"
proof -
  let ?fs = "metadata_fields K rpc" and ?b = "pb_finish P (metadata_fields K rpc)"
  have "pk_packed K 3 ?b = Inr (Some (map ucast (rpc_shards rpc))) \<or> rpc_shards rpc = [] \<and> pk_packed K 3 ?b = Inr None"
    by (rule packed_written [OF assms]) (auto simp: metadata_fields_def field_simps)
  moreover have "pk_packed K 2 ?b = Inr None \<and> pk_repeated K 2 ?b = Inr None" if "rpc_shards rpc = []"
  proof -
    have "field_of 2 ?fs = None" using that by (simp add: metadata_fields_def field_simps)
    then show ?thesis by (simp add: packed_absent [OF assms] repeated_absent [OF assms])
  qed
  ultimately show ?thesis by (auto simp: decode_shards_def)
qed

lemma decode_encode_metadata:
  assumes "writable (metadata_fields K rpc)"
  shows "decode_metadata P K (encode_metadata P K rpc) = Inr rpc"
proof -
  have f: "field_of 1 (metadata_fields K rpc) = map_option U32 (rpc_clusterId rpc)"
    by (simp add: metadata_fields_def field_simps del: One_nat_def split: option.splits)
  have "pb_u64 P 1 (pb_finish P (metadata_fields K rpc)) = Inr (map_option ucast (rpc_clusterId rpc))"
    using u32_as_u64 [OF assms, of 1] u64_absent [OF assms, of 1] f
    by (cases "rpc_clusterId rpc") (simp_all del: One_nat_def)
  then show ?thesis
    by (simp add: decode_metadata_def encode_metadata_def decode_shards_written [OF assms] comp_def
        option.map_comp option.map_ident del: One_nat_def)
qed

end

section \<open>The protocol\<close>

definition RpcResponseMaxBytes :: nat where "RpcResponseMaxBytes = 1024"

record WakuMetadata =
  md_clusterId :: u32
  md_shards :: "u32 set"

text \<open>How a hash set of shards is walked.\<close>

type_synonym shard_walk = "u32 set \<Rightarrow> u32 list"

definition shard_walk_ok :: "shard_walk \<Rightarrow> bool" where
  "shard_walk_ok walk \<longleftrightarrow> (\<forall>S. finite S \<longrightarrow> set (walk S) = S \<and> distinct (walk S))"

definition own_metadata :: "shard_walk \<Rightarrow> WakuMetadata \<Rightarrow> MetadataRpc" where
  "own_metadata walk m = \<lparr>rpc_clusterId = Some (md_clusterId m), rpc_shards = walk (md_shards m)\<rparr>"

text \<open>What a connection gives for the bytes written: did writing fail, what was read, did closing fail.\<close>

record md_outcome =
  md_write :: "string option"
  md_read :: "string + bytes"
  md_close :: "string option"

definition md_request ::
  "pbuf \<Rightarrow> packing \<Rightarrow> shard_walk \<Rightarrow> WakuMetadata \<Rightarrow> (bytes \<Rightarrow> md_outcome) \<Rightarrow> string + MetadataRpc" where
  "md_request P K walk m conn =
     (let out = conn (encode_metadata P K (own_metadata walk m)) in
      case md_close out of Some e \<Rightarrow> Inl (''close failed: '' @ e)
      | None \<Rightarrow> (case md_write out of Some e \<Rightarrow> Inl (''write failed: '' @ e)
        | None \<Rightarrow> (case md_read out of Inl e \<Rightarrow> Inl (''read failed: '' @ e)
          | Inr buffer \<Rightarrow> (case decode_metadata P K buffer of
              Inl e \<Rightarrow> Inl (''decode failed: '' @ show_proto_error e)
            | Inr response \<Rightarrow> Inr response))))"

text \<open>The handler of a connection, on what was read: the bytes it writes, if any.\<close>

definition md_handle ::
  "pbuf \<Rightarrow> packing \<Rightarrow> shard_walk \<Rightarrow> WakuMetadata \<Rightarrow> string + bytes \<Rightarrow> bytes option" where
  "md_handle P K walk m read =
     (case read of Inl e \<Rightarrow> None
      | Inr buffer \<Rightarrow> (case decode_metadata P K buffer of
          Inl e \<Rightarrow> None
        | Inr response \<Rightarrow> Some (encode_metadata P K (own_metadata walk m))))"

definition new_metadata :: "u32 \<Rightarrow> enr \<Rightarrow> WakuMetadata" where
  "new_metadata clusterId r =
     (case relaySharding r of None \<Rightarrow> \<lparr>md_clusterId = clusterId, md_shards = {}\<rparr>
      | Some relayShard \<Rightarrow> \<lparr>md_clusterId = ucast (rs_clusterId relayShard),
          md_shards = set (map ucast (shardIds relayShard))\<rparr>)"

section \<open>Following the subscriptions\<close>

datatype SubscriptionKind = ContentSub | ContentUnsub | PubsubSub | PubsubUnsub

type_synonym SubscriptionEvent = "SubscriptionKind \<times> PubsubTopic"

definition metadata_event :: "base10 \<Rightarrow> SubscriptionEvent \<Rightarrow> WakuMetadata \<Rightarrow> WakuMetadata exec" where
  "metadata_event dec event wm =
     bind_exec (parse_pubsub_topic dec (snd event)) (\<lambda>res.
     Done (case res of
         Inr (StaticSharding clusterId shardId) \<Rightarrow>
           (if ucast clusterId \<noteq> md_clusterId wm then wm
            else (case fst event of
                PubsubSub \<Rightarrow> wm\<lparr>md_shards := insert (ucast shardId) (md_shards wm)\<rparr>
              | PubsubUnsub \<Rightarrow> wm\<lparr>md_shards := md_shards wm - {ucast shardId}\<rparr>
              | _ \<Rightarrow> wm))
       | _ \<Rightarrow> wm))"

fun subscriptionsListener :: "base10 \<Rightarrow> SubscriptionEvent list \<Rightarrow> WakuMetadata \<Rightarrow> WakuMetadata exec" where
  "subscriptionsListener dec [] wm = Done wm"
| "subscriptionsListener dec (event # events) wm =
     bind_exec (metadata_event dec event wm) (subscriptionsListener dec events)"

section \<open>What a node learns\<close>

text \<open>
  The connection of a client to a node: both ends read at most \<open>RpcResponseMaxBytes\<close>; the text of
  the error of a read that fails is a parameter.
\<close>

definition read_limited :: "string \<Rightarrow> bytes \<Rightarrow> string + bytes" where
  "read_limited failed b = (if length b > RpcResponseMaxBytes then Inl failed else Inr b)"

definition md_connection ::
  "pbuf \<Rightarrow> packing \<Rightarrow> shard_walk \<Rightarrow> WakuMetadata \<Rightarrow> string \<Rightarrow> bytes \<Rightarrow> md_outcome" where
  "md_connection P K walk server failed b =
     \<lparr>md_write = None,
      md_read = (case md_handle P K walk server (read_limited failed b) of
          None \<Rightarrow> Inl failed | Some r \<Rightarrow> read_limited failed r),
      md_close = None\<rparr>"

definition md_ok :: "pbuf \<Rightarrow> packing \<Rightarrow> shard_walk \<Rightarrow> WakuMetadata \<Rightarrow> bool" where
  "md_ok P K walk m \<longleftrightarrow> writable (metadata_fields K (own_metadata walk m))"

definition md_fits :: "pbuf \<Rightarrow> packing \<Rightarrow> shard_walk \<Rightarrow> WakuMetadata \<Rightarrow> bool" where
  "md_fits P K walk m \<longleftrightarrow> length (encode_metadata P K (own_metadata walk m)) \<le> RpcResponseMaxBytes"

text \<open>
  Two nodes tell each other cluster and shards, if what both have to say fits; otherwise the
  request fails.
\<close>

lemma md_exchange:
  assumes "protobuf_packed P K" and "md_ok P K walk client" and "md_ok P K walk' server"
  shows "md_request P K walk client (md_connection P K walk' server failed) =
    (if md_fits P K walk client \<and> md_fits P K walk' server then Inr (own_metadata walk' server)
     else Inl (''read failed: '' @ failed))"
  using assms(2,3) [unfolded md_ok_def, THEN protobuf_packed.decode_encode_metadata [OF assms(1)]]
  by (auto simp: md_request_def md_connection_def md_handle_def read_limited_def md_fits_def Let_def)

text \<open>The events about a shard of the own cluster.\<close>

definition shard_events :: "base10 \<Rightarrow> u32 \<Rightarrow> u32 \<Rightarrow> SubscriptionEvent list \<Rightarrow> SubscriptionKind list" where
  "shard_events dec cluster shard events = map fst (filter (\<lambda>(k, t). k \<in> {PubsubSub, PubsubUnsub} \<and>
     (\<exists>c i. parse_pubsub_topic dec t = Done (Inr (StaticSharding c i)) \<and> ucast c = cluster \<and> ucast i = shard)) events)"

lemma metadata_event_effect:
  assumes "metadata_event dec e wm = Done wm'"
  shows "md_clusterId wm' = md_clusterId wm" and "shard \<in> md_shards wm' \<longleftrightarrow>
    (case shard_events dec (md_clusterId wm) shard [e] of [] \<Rightarrow> shard \<in> md_shards wm | ks \<Rightarrow> last ks = PubsubSub)"
proof -
  from assms obtain res where r: "parse_pubsub_topic dec (snd e) = Done res" and wm': "wm' = (case res of
         Inr (StaticSharding clusterId shardId) \<Rightarrow>
           (if ucast clusterId \<noteq> md_clusterId wm then wm
            else (case fst e of
                PubsubSub \<Rightarrow> wm\<lparr>md_shards := insert (ucast shardId) (md_shards wm)\<rparr>
              | PubsubUnsub \<Rightarrow> wm\<lparr>md_shards := md_shards wm - {ucast shardId}\<rparr>
              | _ \<Rightarrow> wm))
       | _ \<Rightarrow> wm)"
    by (auto simp: metadata_event_def)
  show "md_clusterId wm' = md_clusterId wm"
    by (simp add: wm' split: sum.splits NsPubsubTopic.splits SubscriptionKind.splits)
  show "shard \<in> md_shards wm' \<longleftrightarrow>
    (case shard_events dec (md_clusterId wm) shard [e] of [] \<Rightarrow> shard \<in> md_shards wm | ks \<Rightarrow> last ks = PubsubSub)"
    by (cases e) (use r in \<open>auto simp: wm' shard_events_def split: sum.splits NsPubsubTopic.splits SubscriptionKind.splits\<close>)
qed

lemma shard_events_Cons: "shard_events dec c i (e # es) = shard_events dec c i [e] @ shard_events dec c i es"
  by (simp add: shard_events_def)

lemma listener_fault:
  "subscriptionsListener dec es wm = Fault f \<longleftrightarrow> f = RangeDefect \<and> (\<exists>t \<in> set (map snd es). t = ''/waku/2'' \<or> t = ''/waku/2/rs'')"
proof (induction es arbitrary: wm)
  case (Cons e es)
  show ?case
  proof (cases "parse_pubsub_topic dec (snd e)")
    case (Done r)
    then have "\<not> (snd e = ''/waku/2'' \<or> snd e = ''/waku/2/rs'')"
      using pubsub_parse_defect [of dec "snd e"] by fastforce
    then show ?thesis using Cons Done by (simp add: metadata_event_def)
  next
    case (Fault g)
    then show ?thesis using pubsub_parse_defect [of dec "snd e" g] by (auto simp: metadata_event_def)
  qed
qed simp

text \<open>The shards a node announces in metadata follow its subscriptions. After any sequence of subscription
  events a shard is announced if and only if the last event about its topic, in the node's own
  cluster, subscribed it, or no event was about it and it was announced before; content topics, named
  topics, texts that are no topic and other clusters change nothing. But two texts stop the
  node: an event with the topic \<^verbatim>\<open>/waku/2\<close> or \<^verbatim>\<open>/waku/2/rs\<close>, wherever it is in the sequence, ends in
  \<^verbatim>\<open>RangeDefect\<close>, and nothing else does.\<close>

theorem metadata_follows:
  "case subscriptionsListener dec es wm of
     Fault f \<Rightarrow> f = RangeDefect \<and> (\<exists>t \<in> set (map snd es). t = ''/waku/2'' \<or> t = ''/waku/2/rs'')
   | Done wm' \<Rightarrow> (\<forall>t \<in> set (map snd es). t \<noteq> ''/waku/2'' \<and> t \<noteq> ''/waku/2/rs'')
       \<and> md_clusterId wm' = md_clusterId wm
       \<and> (\<forall>shard. shard \<in> md_shards wm' \<longleftrightarrow> (case shard_events dec (md_clusterId wm) shard es of
           [] \<Rightarrow> shard \<in> md_shards wm | ks \<Rightarrow> last ks = PubsubSub))"
proof (cases "subscriptionsListener dec es wm")
  case (Fault f)
  then have "f = RangeDefect \<and> (\<exists>t \<in> set (map snd es). t = ''/waku/2'' \<or> t = ''/waku/2/rs'')"
    by (simp add: listener_fault)
  with Fault show ?thesis by simp
next
  case (Done wm')
  then have "\<forall>t \<in> set (map snd es). t \<noteq> ''/waku/2'' \<and> t \<noteq> ''/waku/2/rs''"
    using listener_fault [where dec = dec and es = es and wm = wm] by (metis exec.distinct(1))
  moreover have "md_clusterId wm' = md_clusterId wm \<and> (shard \<in> md_shards wm' \<longleftrightarrow>
    (case shard_events dec (md_clusterId wm) shard es of [] \<Rightarrow> shard \<in> md_shards wm | ks \<Rightarrow> last ks = PubsubSub))" for shard
    using Done
  proof (induction es arbitrary: wm)
    case (Cons e es)
    then obtain wm1 where 1: "metadata_event dec e wm = Done wm1" "subscriptionsListener dec es wm1 = Done wm'" by auto
    show ?case
      using Cons.IH [OF 1(2)] metadata_event_effect(1) [OF 1(1)] metadata_event_effect(2) [OF 1(1), of shard]
      by (subst shard_events_Cons) (auto split: list.splits)
  qed (simp add: shard_events_def)
  ultimately show ?thesis using Done by simp
qed

theorem metadata_follows_witness:
  "subscriptionsListener sample_base10 [(PubsubSub, ''/waku/2''), (PubsubSub, show_pubsub_topic (StaticSharding 1 7))]
      \<lparr>md_clusterId = 1, md_shards = {}\<rparr> = Fault RangeDefect
   \<and> (\<exists>wm. subscriptionsListener sample_base10 [(PubsubSub, show_pubsub_topic (StaticSharding 1 7))]
        \<lparr>md_clusterId = 1, md_shards = {}\<rparr> = Done wm \<and> 7 \<in> md_shards wm)"
proof
  let ?wm = "\<lparr>md_clusterId = 1, md_shards = {}\<rparr>" and ?es = "[(PubsubSub, show_pubsub_topic (StaticSharding 1 7))]"
  show "subscriptionsListener sample_base10 [(PubsubSub, ''/waku/2''), (PubsubSub, show_pubsub_topic (StaticSharding 1 7))]
      ?wm = Fault RangeDefect"
    using metadata_follows [where dec = sample_base10 and wm = ?wm
        and es = "[(PubsubSub, ''/waku/2''), (PubsubSub, show_pubsub_topic (StaticSharding 1 7))]"]
    by (auto split: exec.splits)
  have "show_pubsub_topic (StaticSharding 1 7) \<noteq> ''/waku/2''" "show_pubsub_topic (StaticSharding 1 7) \<noteq> ''/waku/2/rs''"
    by (simp_all add: show_pubsub_topic_def)
  moreover have "shard_events sample_base10 1 7 ?es = [PubsubSub]"
    by (simp add: shard_events_def parse_static [OF sample_base10_ok])
  ultimately show "\<exists>wm. subscriptionsListener sample_base10 ?es ?wm = Done wm \<and> 7 \<in> md_shards wm"
    using metadata_follows [where dec = sample_base10 and es = ?es and wm = ?wm]
    by (cases "subscriptionsListener sample_base10 ?es ?wm") (fastforce split: list.splits)+
qed

end
