(* ===== verification/PeerManager.thy ===== *)
theory PeerManager
  imports Metadata PeerStore
begin

text \<open>
  The peer manager, \<^verbatim>\<open>waku/node/peer_manager/peer_manager.nim\<close>: which peers a node knows, connects to,
  keeps and selects. The connections of libp2p are seen through what dialling and asking answers
  (\<open>peer_env\<close>); what the manager asks of them and of its database are the effects. Times are
  nanoseconds before the year 2262. The object of a peer that is handed in is not shared with the
  store. A record other than the default one is taken to have raw bytes. Logging and metrics
  are left out.
\<close>

section \<open>State\<close>

definition WakuRelayCodec :: string where "WakuRelayCodec = ''/vac/waku/relay/2.0.0''"
definition InitialBackoffInSec :: int where "InitialBackoffInSec = 120"
definition BackoffFactor :: int where "BackoffFactor = 4"
definition MaxFailedAttempts :: int where "MaxFailedAttempts = 5"
definition MaxParallelDials :: nat where "MaxParallelDials = 10"
definition DefaultColocationLimit :: int where "DefaultColocationLimit = 5"

text \<open>\<open>pm_storage\<close> tells whether there is a database.\<close>

record PeerManager =
  pm_self :: pid
  pm_peerStore :: PeerStore
  pm_wakuMetadata :: "WakuMetadata option"
  pm_initialBackoffInSec :: int
  pm_backoffFactor :: int
  pm_maxFailedAttempts :: int
  pm_storage :: bool
  pm_serviceSlots :: "(string \<times> RemotePeerInfo) list"
  pm_maxRelayPeers :: int
  pm_outRelayPeersTarget :: int
  pm_inRelayPeersTarget :: int
  pm_ipTable :: "(string \<times> pid list) list"
  pm_colocationLimit :: int
  pm_shardedPeerManagement :: bool

datatype pm_effect = Disconnect pid | Put RemotePeerInfo

abbreviation in_store :: "(PeerStore \<Rightarrow> PeerStore) \<Rightarrow> PeerManager \<Rightarrow> PeerManager" where
  "in_store f pm \<equiv> pm\<lparr>pm_peerStore := f (pm_peerStore pm)\<rparr>"

definition protocolMatcher :: "string \<Rightarrow> string \<Rightarrow> bool" where
  "protocolMatcher codec proto = starts_with proto codec"

section \<open>Backoff\<close>

text \<open>Checked 64-bit integers.\<close>

definition int64 :: "int \<Rightarrow> int exec" where
  "int64 x = (if - (2 ^ 63) \<le> x \<and> x < 2 ^ 63 then Done x else Fault OverflowDefect)"

definition seconds :: "int \<Rightarrow> int exec" where "seconds s = int64 (s * 1000000000)"
definition weeks :: "int \<Rightarrow> int" where "weeks d = d div 604800000000000"

definition calculateBackoff :: "int \<Rightarrow> int \<Rightarrow> int \<Rightarrow> int exec" where
  "calculateBackoff initial factor failedAttempts =
     (if failedAttempts = 0 then seconds 0
      else if failedAttempts - 1 < 0 then Fault RangeDefect
      else bind_exec (int64 (factor ^ nat (failedAttempts - 1))) (\<lambda>f.
        bind_exec (int64 (initial * f)) seconds))"

text \<open>The time is in seconds, as \<^verbatim>\<open>getTime().toUnix\<close>.\<close>

definition canBeConnected :: "PeerManager \<Rightarrow> int \<Rightarrow> pid \<Rightarrow> bool exec" where
  "canBeConnected pm time p =
     (let failedAttempts = book_get 0 (NumberFailedConnBook (pm_peerStore pm)) p in
      if failedAttempts = 0 then Done True
      else if failedAttempts \<ge> pm_maxFailedAttempts pm then Done False
      else
        let now = time * 1000000000; lastFailed = book_get 0 (LastFailedConnBook (pm_peerStore pm)) p in
        bind_exec (calculateBackoff (pm_initialBackoffInSec pm) (pm_backoffFactor pm) failedAttempts) (\<lambda>backoff.
        bind_exec (int64 (lastFailed + backoff)) (\<lambda>until. Done (now \<ge> until))))"

section \<open>Adding and dialling peers\<close>

text \<open>\<^verbatim>\<open>RemotePeerInfo.init(peerId, addrs)\<close>: everything else has the default of its type.\<close>

definition init_peer :: "pid \<Rightarrow> string list \<Rightarrow> RemotePeerInfo" where
  "init_peer p as = \<lparr>peerId = p, addrs = as, peer_enr = None, protocols = [], agent = [], protoVersion = [],
     publicKey = [], connectedness = NotConnected, disconnectTime = 0, origin = UnknownOrigin,
     direction = UnknownDirection, lastFailedConn = 0, numberFailedConn = 0\<rparr>"

definition addPeer :: "PeerManager \<Rightarrow> RemotePeerInfo \<Rightarrow> PeerOrigin \<Rightarrow> PeerManager \<times> pm_effect list" where
  "addPeer pm info org =
     (let p = peerId info; s = pm_peerStore pm in
      if p = pm_self pm then (pm, [])
      else if book_get [] (AddressBook s) p = addrs info \<and> book_get [] (KeyBook s) p = publicKey info
          \<and> book_get no_enr (ENRBook s) p \<noteq> no_enr then (pm, [])
      else
        let s1 = s\<lparr>AddressBook := AList.update p (addrs info) (AddressBook s),
              KeyBook := AList.update p (publicKey info) (KeyBook s), SourceBook := AList.update p org (SourceBook s)\<rparr>;
            s2 = (if protocols info = [] then s1 else s1\<lparr>ProtoBook := AList.update p (protocols info) (ProtoBook s1)\<rparr>);
            s3 = (case peer_enr info of None \<Rightarrow> s2 | Some r \<Rightarrow> s2\<lparr>ENRBook := AList.update p r (ENRBook s2)\<rparr>)
        in (pm\<lparr>pm_peerStore := s3\<rparr>,
            if pm_storage pm then [Put (info\<lparr>connectedness := NotConnected\<rparr>)] else []))"

text \<open>\<^verbatim>\<open>connectRelay\<close>, when the dial ends well or not in time.\<close>

definition connectRelay ::
  "PeerManager \<Rightarrow> RemotePeerInfo \<Rightarrow> bool \<Rightarrow> int \<Rightarrow> bool \<times> PeerManager \<times> pm_effect list" where
  "connectRelay pm peer connected time =
     (let p = peerId peer in
      if p = pm_self pm then (False, pm, [])
      else
        let (pm1, eff) = (if hasPeer (pm_peerStore pm) p WakuRelayCodec then (pm, []) else addPeer pm peer UnknownOrigin)
        in if connected then
             (True, in_store (\<lambda>s. s\<lparr>NumberFailedConnBook := AList.update p 0 (NumberFailedConnBook s)\<rparr>) pm1, eff)
           else
             (False, in_store (\<lambda>s. s\<lparr>
                NumberFailedConnBook :=
                  AList.update p (book_get 0 (NumberFailedConnBook s) p + 1) (NumberFailedConnBook s),
                LastFailedConnBook := AList.update p (time * 1000000000) (LastFailedConnBook s),
                ConnectionBook := AList.update p CannotConnect (ConnectionBook s)\<rparr>) pm1, eff))"

text \<open>A stream for another protocol than relay; \<open>dial\<close> is the answer of the switch in time.\<close>

type_synonym 'c switch_dial = "pid \<Rightarrow> string list \<Rightarrow> string \<Rightarrow> 'c option"

definition dial_addrs :: "PeerManager \<Rightarrow> 'c switch_dial \<Rightarrow> pid \<Rightarrow> string list \<Rightarrow> string \<Rightarrow> 'c option" where
  "dial_addrs pm dial p as proto =
     (if p = pm_self pm then None else if proto = WakuRelayCodec then None else dial p as proto)"

definition dialPeer ::
  "PeerManager \<Rightarrow> 'c switch_dial \<Rightarrow> RemotePeerInfo \<Rightarrow> string \<Rightarrow> 'c option \<times> PeerManager \<times> pm_effect list" where
  "dialPeer pm dial info proto =
     (let (pm1, eff) = (if hasPeer (pm_peerStore pm) (peerId info) proto then (pm, []) else addPeer pm info UnknownOrigin)
      in (dial_addrs pm1 dial (peerId info) (addrs info) proto, pm1, eff))"

definition dialPeer_known :: "PeerManager \<Rightarrow> 'c switch_dial \<Rightarrow> pid \<Rightarrow> string \<Rightarrow> 'c option" where
  "dialPeer_known pm dial p proto = dial_addrs pm dial p (book_get [] (AddressBook (pm_peerStore pm)) p) proto"

definition addServicePeer :: "PeerManager \<Rightarrow> RemotePeerInfo \<Rightarrow> string \<Rightarrow> (PeerManager \<times> pm_effect list) exec" where
  "addServicePeer pm info proto =
     (if proto = WakuRelayCodec then Done (pm, [])
      else if addrs info = [] then Fault IndexDefect
      else Done (addPeer (pm\<lparr>pm_serviceSlots := AList.update proto info (pm_serviceSlots pm)\<rparr>) info UnknownOrigin))"

definition connectToNodes ::
  "PeerManager \<Rightarrow> (pid \<Rightarrow> bool) \<Rightarrow> int \<Rightarrow> RemotePeerInfo list \<Rightarrow> PeerManager \<times> pm_effect list" where
  "connectToNodes pm connects time nodes =
     foldl (\<lambda>(pm, eff) peer. let (ok, pm', eff') = connectRelay pm peer (connects (peerId peer)) time in (pm', eff @ eff'))
       (pm, []) nodes"

section \<open>Selecting a peer\<close>

fun keep_exec :: "('a \<Rightarrow> bool exec) \<Rightarrow> 'a list \<Rightarrow> 'a list exec" where
  "keep_exec f [] = Done []"
| "keep_exec f (x # xs) = bind_exec (f x) (\<lambda>b. bind_exec (keep_exec f xs) (\<lambda>ys. Done (if b then x # ys else ys)))"

definition selectPeer ::
  "base10 \<Rightarrow> peer_order \<Rightarrow> PeerManager \<Rightarrow> string \<Rightarrow> PubsubTopic option \<Rightarrow> RemotePeerInfo option exec" where
  "selectPeer dec ord pm proto shard =
     (let known = getPeersByProtocol ord (pm_peerStore pm) proto in
      bind_exec (case shard of None \<Rightarrow> Done known
        | Some topic \<Rightarrow> keep_exec (\<lambda>it. case peer_enr it of None \<Rightarrow> Done False
            | Some r \<Rightarrow> containsShard_text dec r topic) known) (\<lambda>peers.
      Done (if proto = WakuRelayCodec then (case peers of [] \<Rightarrow> None | p # _ \<Rightarrow> Some p)
        else (case map_of (pm_serviceSlots pm) proto of
            Some serviceSlot \<Rightarrow> Some serviceSlot
          | None \<Rightarrow> (case peers of [] \<Rightarrow> None | p # _ \<Rightarrow> Some p)))))"

section \<open>Peers that come and go\<close>

text \<open>
  What is asked of the switch: dialling a peer for the metadata protocol, the address of a
  connected peer; how a table of addresses is walked; the time.
\<close>

record peer_env =
  e_pbuf :: pbuf
  e_packing :: packing
  e_walk :: shard_walk
  e_dial :: "pid \<Rightarrow> string + (bytes \<Rightarrow> md_outcome)"
  e_ip :: "pid \<Rightarrow> string option"
  e_ip_order :: "string list \<Rightarrow> string list"
  e_time :: int

text \<open>The reason to part from a peer, if any.\<close>

definition metadata_reason :: "peer_env \<Rightarrow> PeerStore \<Rightarrow> WakuMetadata \<Rightarrow> pid \<Rightarrow> string option" where
  "metadata_reason E s wm p =
     (case e_dial E p of Inl e \<Rightarrow> Some (''dial failed: '' @ e)
      | Inr conn \<Rightarrow> (case md_request (e_pbuf E) (e_packing E) (e_walk E) wm conn of
          Inl e \<Rightarrow> Some (''waku metatdata request failed: '' @ e)
        | Inr metadata \<Rightarrow> (case rpc_clusterId metadata of
            None \<Rightarrow> Some ''empty cluster-id reported''
          | Some clusterId \<Rightarrow>
              if md_clusterId wm \<noteq> clusterId then
                Some (''different clusterId reported: '' @ show_nat (unat (md_clusterId wm)) @ '' vs '' @ show_nat (unat clusterId))
              else if hasPeer s p WakuRelayCodec \<and> \<not> (\<exists>it \<in> set (rpc_shards metadata). it \<in> md_shards wm) then
                Some ''no shards in common''
              else None)))"

definition onPeerMetadata :: "peer_env \<Rightarrow> PeerManager \<Rightarrow> WakuMetadata \<Rightarrow> pid \<Rightarrow> PeerManager \<times> pm_effect list" where
  "onPeerMetadata E pm wm p =
     (if md_clusterId wm = 0 then (pm, [])
      else (case metadata_reason E (pm_peerStore pm) wm p of
          None \<Rightarrow> (pm, [])
        | Some reason \<Rightarrow> (in_store (delete_peer p) pm, [Disconnect p])))"

datatype PeerEvent = Joined bool | Left

definition behind_ip :: "(string \<times> pid list) list \<Rightarrow> string \<Rightarrow> pid list" where
  "behind_ip tab ip = (case map_of tab ip of None \<Rightarrow> [] | Some ps \<Rightarrow> ps)"

text \<open>The table after a peer has joined from an address, and the peers to prune there.\<close>

definition ip_joined ::
  "int \<Rightarrow> string \<Rightarrow> pid \<Rightarrow> (string \<times> pid list) list \<Rightarrow> ((string \<times> pid list) list \<times> pid list) exec" where
  "ip_joined limit ip p tab =
     (let peersBehindIp = behind_ip tab ip @ [p]; tab' = AList.update ip peersBehindIp tab;
          n = int (length peersBehindIp) - limit
      in if limit \<noteq> 0 \<and> int (length peersBehindIp) > limit then
           (if n > int (length peersBehindIp) then Fault IndexDefect else Done (tab', take (nat n) peersBehindIp))
         else Done (tab', []))"

definition ip_left ::
  "(string list \<Rightarrow> string list) \<Rightarrow> pid \<Rightarrow> (string \<times> pid list) list \<Rightarrow> (string \<times> pid list) list" where
  "ip_left ord p tab =
     (case find (\<lambda>ip. p \<in> set (behind_ip tab ip)) (ord (map fst tab)) of
        None \<Rightarrow> tab
      | Some ip \<Rightarrow>
          let rest = filter (\<lambda>it. it \<noteq> p) (behind_ip tab ip)
          in if rest = [] then AList.delete ip tab else AList.update ip rest tab)"

text \<open>The first part of \<^verbatim>\<open>onPeerEvent\<close>: metadata and addresses.\<close>

definition event_peers :: "peer_env \<Rightarrow> PeerManager \<Rightarrow> pid \<Rightarrow> PeerEvent \<Rightarrow> (PeerManager \<times> pm_effect list) exec" where
  "event_peers E pm p event =
     (case event of
        Joined initiator \<Rightarrow>
          let (pm1, eff) = (case pm_wakuMetadata pm of None \<Rightarrow> (pm, []) | Some wm \<Rightarrow> onPeerMetadata E pm wm p)
          in (case e_ip E p of None \<Rightarrow> Done (pm1, eff)
            | Some ip \<Rightarrow>
                bind_exec (ip_joined (pm_colocationLimit pm1) ip p (pm_ipTable pm1)) (\<lambda>(tab, prune).
                Done (in_store (fold delete_peer prune) (pm1\<lparr>pm_ipTable := tab\<rparr>), eff @ map Disconnect prune)))
      | Left \<Rightarrow> Done (pm\<lparr>pm_ipTable := ip_left (e_ip_order E) p (pm_ipTable pm)\<rparr>, []))"

fun event_direction :: "PeerEvent \<Rightarrow> PeerDirection" where
  "event_direction (Joined initiator) = (if initiator then Outbound else Inbound)"
| "event_direction Left = UnknownDirection"

fun event_connectedness :: "PeerEvent \<Rightarrow> Connectedness" where
  "event_connectedness (Joined initiator) = Connected"
| "event_connectedness Left = CanConnect"

definition onPeerEvent :: "peer_env \<Rightarrow> PeerManager \<Rightarrow> pid \<Rightarrow> PeerEvent \<Rightarrow> (PeerManager \<times> pm_effect list) exec" where
  "onPeerEvent E pm p event =
     bind_exec (event_peers E pm p event) (\<lambda>(pm1, eff).
     let pm2 = in_store (\<lambda>s. s\<lparr>
           ConnectionBook := AList.update p (event_connectedness event) (ConnectionBook s),
           DirectionBook := AList.update p (event_direction event) (DirectionBook s)\<rparr>) pm1
     in Done (pm2, eff @ (if pm_storage pm2 then
          [Put ((get_peer (pm_peerStore pm2) p)\<lparr>disconnectTime := e_time E\<rparr>)] else [])))"

section \<open>Set-up\<close>

definition load_peer :: "PeerManager \<Rightarrow> RemotePeerInfo \<Rightarrow> PeerManager" where
  "load_peer pm info =
     (let p = peerId info in
      if p = pm_self pm then pm
      else in_store (\<lambda>s. s\<lparr>
          AddressBook := AList.update p (addrs info) (AddressBook s),
          ProtoBook := AList.update p (protocols info) (ProtoBook s),
          KeyBook := AList.update p (publicKey info) (KeyBook s),
          AgentBook := AList.update p (agent info) (AgentBook s),
          ProtoVersionBook := AList.update p (protoVersion info) (ProtoVersionBook s),
          ConnectionBook := AList.update p NotConnected (ConnectionBook s),
          DisconnectBook := AList.update p (disconnectTime info) (DisconnectBook s),
          SourceBook := AList.update p (origin info) (SourceBook s),
          ENRBook := (case peer_enr info of None \<Rightarrow> ENRBook s | Some r \<Rightarrow> AList.update p r (ENRBook s))\<rparr>) pm)"

text \<open>The rows are those the database delivers, before it fails perhaps.\<close>

definition loadFromStorage :: "PeerManager \<Rightarrow> RemotePeerInfo list \<Rightarrow> PeerManager" where
  "loadFromStorage pm rows = foldl load_peer pm rows"

definition new_peer_manager ::
  "pid \<Rightarrow> PeerStore \<Rightarrow> int \<Rightarrow> WakuMetadata option \<Rightarrow> int option \<Rightarrow> RemotePeerInfo list option
     \<Rightarrow> int \<Rightarrow> int \<Rightarrow> int \<Rightarrow> int \<Rightarrow> bool \<Rightarrow> PeerManager exec" where
  "new_peer_manager self s maxConnections md maxRelayPeers storage initial factor maxFailed limit sharded =
     (if maxConnections > int (capacity s) then
        Fault (Defect ''Max number of connections can't be greater than PeerManager capacity'')
      else
        bind_exec (case maxRelayPeers of
            Some m \<Rightarrow>
              if m > maxConnections then
                Fault (Defect ''Max number of relay peers can't be greater than the max amount of connections'')
              else Done m
          | None \<Rightarrow> Done (maxConnections - maxConnections div 5)) (\<lambda>maxRelayPeersValue.
        bind_exec (calculateBackoff initial factor maxFailed) (\<lambda>backoff.
        if weeks backoff > 1 then Fault (Defect ''Max backoff time can't be over 1 week'')
        else
          let out = max (maxRelayPeersValue div 3) 10;
              pm = \<lparr>pm_self = self, pm_peerStore = s, pm_wakuMetadata = md, pm_initialBackoffInSec = initial,
                pm_backoffFactor = factor, pm_maxFailedAttempts = maxFailed, pm_storage = (storage \<noteq> None),
                pm_serviceSlots = [], pm_maxRelayPeers = maxRelayPeersValue, pm_outRelayPeersTarget = out,
                pm_inRelayPeersTarget = maxRelayPeersValue - out, pm_ipTable = [], pm_colocationLimit = limit,
                pm_shardedPeerManagement = sharded\<rparr>
          in Done (case storage of None \<Rightarrow> pm | Some rows \<Rightarrow> loadFromStorage pm rows))))"

section \<open>Pruning the store\<close>

text \<open>\<^verbatim>\<open>incl\<close> on a hash set of peers, and the loops that stop at \<open>n\<close> of them.\<close>

definition set_incl :: "pid \<Rightarrow> pid list \<Rightarrow> pid list" where
  "set_incl p ps = (if p \<in> set ps then ps else ps @ [p])"

fun prune_peers :: "nat \<Rightarrow> pid list \<Rightarrow> pid list \<Rightarrow> pid list" where
  "prune_peers n [] pruned = pruned"
| "prune_peers n (p # ps) pruned =
     (if length pruned \<ge> n then pruned else prune_peers n ps (set_incl p pruned))"

fun prune_failed :: "nat \<Rightarrow> int \<Rightarrow> (pid \<times> int) list \<Rightarrow> pid list \<Rightarrow> pid list" where
  "prune_failed n maxFailed [] pruned = pruned"
| "prune_failed n maxFailed ((p, count) # ps) pruned =
     (if count < maxFailed then prune_failed n maxFailed ps pruned
      else if length pruned \<ge> n then pruned
      else prune_failed n maxFailed ps (set_incl p pruned))"

text \<open>The peers without a shard, and those of each shard.\<close>

type_synonym shard_table = "(u16 \<times> pid list) list"

definition shard_add :: "pid \<Rightarrow> shard_table \<Rightarrow> u16 \<Rightarrow> shard_table" where
  "shard_add p tab shard =
     AList.update shard ((case map_of tab shard of None \<Rightarrow> [] | Some ps \<Rightarrow> ps) @ [p]) tab"

fun peers_by_shard :: "PeerStore \<Rightarrow> pid list \<Rightarrow> pid list \<times> shard_table \<Rightarrow> pid list \<times> shard_table" where
  "peers_by_shard s [] (shardless, tab) = (shardless, tab)"
| "peers_by_shard s (p # ps) (shardless, tab) =
     (case map_of (ENRBook s) p of
        None \<Rightarrow> peers_by_shard s ps (shardless @ [p], tab)
      | Some record \<Rightarrow> (case relaySharding record of
          None \<Rightarrow> peers_by_shard s ps (shardless @ [p], tab)
        | Some rs \<Rightarrow> peers_by_shard s ps (shardless, foldl (shard_add p) tab (shardIds rs))))"

definition shard_average :: "shard_table \<Rightarrow> nat" where
  "shard_average tab = min 1 (sum_list (map (length \<circ> snd) tab) div max 1 (length tab))"

text \<open>\<^verbatim>\<open>peers[0 .. count]\<close> has \<open>count + 1\<close> elements.\<close>

fun prune_shards :: "nat \<Rightarrow> nat \<Rightarrow> shard_table \<Rightarrow> pid list \<Rightarrow> pid list exec" where
  "prune_shards n avg [] pruned = Done pruned"
| "prune_shards n avg ((shard, ps) # tab) pruned =
     (let count = length ps - avg in
      if count + 1 > length ps then Fault IndexDefect
      else prune_shards n avg tab (prune_peers n (take (count + 1) ps) pruned))"

text \<open>How hash tables are walked and peers are shuffled.\<close>

record prune_env =
  w_order :: peer_order
  w_failed :: "(pid \<times> int) list \<Rightarrow> (pid \<times> int) list"
  w_shards :: "shard_table \<Rightarrow> shard_table"
  w_shuffle :: "pid list \<Rightarrow> pid list"

definition peers_to_prune :: "prune_env \<Rightarrow> PeerManager \<Rightarrow> nat \<Rightarrow> pid list exec" where
  "peers_to_prune W pm n =
     (let s = pm_peerStore pm;
          failed = prune_failed n (pm_maxFailedAttempts pm) (w_failed W (NumberFailedConnBook s)) [];
          notConnected = w_shuffle W (map peerId (getNotConnectedPeers (w_order W) s));
          (shardless, tab) = peers_by_shard s notConnected ([], [])
      in prune_shards n (shard_average tab) (w_shards W tab) (prune_peers n shardless failed))"

definition prunePeerStore :: "prune_env \<Rightarrow> PeerManager \<Rightarrow> PeerManager exec" where
  "prunePeerStore W pm =
     (let numPeers = length (AddressBook (pm_peerStore pm)); cap = capacity (pm_peerStore pm) in
      if numPeers \<le> cap then Done pm
      else bind_exec (peers_to_prune W pm (numPeers - cap)) (\<lambda>pruned.
        Done (in_store (fold delete_peer pruned) pm)))"

section \<open>Keeping relay connections\<close>

text \<open>The connections of the switch: per peer and connection whether it is inbound, and the
  protocols of its streams with their direction.\<close>

type_synonym connections = "(pid \<times> (bool \<times> (string \<times> bool) list) list) list"

definition peers_with :: "bool \<Rightarrow> connections \<Rightarrow> string \<Rightarrow> pid list" where
  "peers_with inbound cs proto = concat (map (\<lambda>(p, muxers).
     map (\<lambda>_. p) (filter (\<lambda>(dir, streams). dir = inbound \<and> (\<exists>it \<in> set streams. fst it = proto)) muxers)) cs)"

definition connectedPeers :: "connections \<Rightarrow> string \<Rightarrow> pid list \<times> pid list" where
  "connectedPeers cs proto = (peers_with True cs proto, peers_with False cs proto)"

definition getNumStreams :: "connections \<Rightarrow> string \<Rightarrow> nat \<times> nat" where
  "getNumStreams cs proto =
     (let streams = filter (\<lambda>it. fst it = proto) (concat (map snd (concat (map snd cs)))) in
      (length (filter snd streams), length (filter (\<lambda>it. \<not> snd it) streams)))"

definition pruneInRelayConns :: "connections \<Rightarrow> int \<Rightarrow> pm_effect list" where
  "pruneInRelayConns cs amount =
     (if amount \<le> 0 then []
      else let (inRelayPeers, _) = connectedPeers cs WakuRelayCodec
        in map Disconnect (take (min (nat amount) (length inRelayPeers)) inRelayPeers))"

text \<open>
  The loop of \<^verbatim>\<open>connectToRelayPeers\<close>. \<open>conns ds\<close> are the connections once the peers \<open>ds\<close> were
  dialled, in batches; \<open>index\<close> is where the next batch starts.
\<close>

function connect_batches ::
  "(pid list \<Rightarrow> connections) \<Rightarrow> (pid \<Rightarrow> bool) \<Rightarrow> int \<Rightarrow> RemotePeerInfo list \<Rightarrow> nat \<Rightarrow> nat \<Rightarrow> pid list
     \<Rightarrow> PeerManager \<times> pm_effect list \<Rightarrow> (nat \<times> PeerManager \<times> pm_effect list) exec" where
  "connect_batches conns connects time ps index pending out (pm, eff) =
     (if pending > 0 \<and> int (length out) < pm_outRelayPeersTarget pm then
        let n = min pending MaxParallelDials in
        if index + n > length ps then Fault IndexDefect
        else
          let (pm', eff') = connectToNodes pm connects time (take n (drop index ps));
              out' = snd (connectedPeers (conns (map peerId (take (index + n) ps))) WakuRelayCodec)
          in connect_batches conns connects time ps (index + n) (pending - n) out' (pm', eff @ eff')
      else Done (index, pm, eff))"
  by pat_completeness auto
termination
  by (relation "measure (\<lambda>(_, _, _, _, _, pending, _, _). pending)") (auto simp: MaxParallelDials_def)

declare connect_batches.simps [simp del]

definition connectToRelayPeers ::
  "peer_order \<Rightarrow> (RemotePeerInfo list \<Rightarrow> RemotePeerInfo list) \<Rightarrow> (pid list \<Rightarrow> connections) \<Rightarrow> (pid \<Rightarrow> bool) \<Rightarrow> int
     \<Rightarrow> PeerManager \<Rightarrow> (nat \<times> PeerManager \<times> pm_effect list) exec" where
  "connectToRelayPeers ord sh conns connects time pm =
     (let out = snd (connectedPeers (conns []) WakuRelayCodec) in
      if int (length out) \<ge> pm_outRelayPeersTarget pm then Done (0, pm, [])
      else
        let notConnectedPeers = map (\<lambda>it. init_peer (peerId it) (addrs it))
              (getNotConnectedPeers ord (pm_peerStore pm))
        in bind_exec (keep_exec (\<lambda>it. canBeConnected pm time (peerId it)) notConnectedPeers) (\<lambda>outside.
        let outsideBackoffPeers = sh outside
        in connect_batches conns connects time outsideBackoffPeers 0 (length outsideBackoffPeers) out (pm, [])))"

text \<open>\<^verbatim>\<open>manageRelayPeers\<close>: Nim's \<^verbatim>\<open>div\<close> rounds towards 0; per shard, the peers to connect to and how
  many to part from.\<close>

definition nim_div :: "int \<Rightarrow> int \<Rightarrow> int" where
  "nim_div a b = (if a < 0 then - ((- a) div b) else a div b)"

type_synonym peer_shuffle = "RemotePeerInfo list \<Rightarrow> RemotePeerInfo list"

definition manage_shard ::
  "peer_order \<Rightarrow> peer_shuffle \<Rightarrow> int \<Rightarrow> PeerManager \<Rightarrow> u16 \<Rightarrow> pid list \<Rightarrow> pid list \<Rightarrow> int \<Rightarrow> int \<Rightarrow> u16
     \<Rightarrow> pid list \<times> int \<Rightarrow> (pid list \<times> int) exec" where
  "manage_shard ord sh time pm cluster inPeers outPeers inTarget outTarget shard = (\<lambda>(peersToConnect, peersToDisconnect).
     let s = pm_peerStore pm;
         connectedInPeers = filter (\<lambda>it. hasShard s it cluster shard) inPeers;
         connectedOutPeers = filter (\<lambda>it. hasShard s it cluster shard) outPeers;
         inPeerDiff = int (length connectedInPeers) - inTarget;
         outPeerDiff = outTarget - int (length connectedOutPeers);
         parting = (if inPeerDiff > 0 then peersToDisconnect + inPeerDiff else peersToDisconnect)
     in if outPeerDiff \<le> 0 then Done (peersToConnect, parting)
        else bind_exec (keep_exec (\<lambda>it. if isConnected s (peerId it) then Done False else canBeConnected pm time (peerId it))
              (getPeersByShard ord s cluster shard)) (\<lambda>connectable.
          let relay = sh (filter (\<lambda>it. hasCapability s (peerId it) Relay) connectable)
          in Done (fold set_incl (map peerId (take (min (nat outPeerDiff) (length relay)) relay)) peersToConnect, parting)))"

fun manage_shards ::
  "(u16 \<Rightarrow> pid list \<times> int \<Rightarrow> (pid list \<times> int) exec) \<Rightarrow> u32 list \<Rightarrow> pid list \<times> int \<Rightarrow> (pid list \<times> int) exec" where
  "manage_shards f [] acc = Done acc"
| "manage_shards f (shard # shards) acc = bind_exec (f (ucast shard) acc) (manage_shards f shards)"

text \<open>The slices \<^verbatim>\<open>uniquePeers[i ..< stop]\<close> for \<open>i\<close> from 0 to the length in steps; the last may be empty.\<close>

definition connect_slices ::
  "(pid \<Rightarrow> bool) \<Rightarrow> int \<Rightarrow> RemotePeerInfo list \<Rightarrow> PeerManager \<Rightarrow> PeerManager \<times> pm_effect list" where
  "connect_slices connects time ps pm =
     foldl (\<lambda>(pm, eff) k.
         let (pm', eff') = connectToNodes pm connects time (take MaxParallelDials (drop (MaxParallelDials * k) ps))
         in (pm', eff @ eff'))
       (pm, []) [0..<length ps div MaxParallelDials + 1]"

definition manageRelayPeers ::
  "shard_walk \<Rightarrow> peer_order \<Rightarrow> peer_shuffle \<Rightarrow> (pid list \<Rightarrow> pid list) \<Rightarrow> connections \<Rightarrow> (pid \<Rightarrow> bool) \<Rightarrow> int
     \<Rightarrow> PeerManager \<Rightarrow> (PeerManager \<times> pm_effect list) exec" where
  "manageRelayPeers walk ord sh pids cs connects time pm =
     (case pm_wakuMetadata pm of None \<Rightarrow> Fault NilAccess
      | Some wm \<Rightarrow>
          let shards = walk (md_shards wm) in
          if shards = [] then Done (pm, [])
          else
            let (inPeers, outPeers) = connectedPeers cs WakuRelayCodec;
                inTarget = nim_div (pm_inRelayPeersTarget pm) (int (length shards));
                outTarget = nim_div (pm_outRelayPeersTarget pm) (int (length shards))
            in bind_exec (manage_shards
                 (manage_shard ord sh time pm (ucast (md_clusterId wm)) inPeers outPeers inTarget outTarget) shards ([], 0))
               (\<lambda>(peersToConnect, peersToDisconnect).
               let parted = pruneInRelayConns cs peersToDisconnect in
               if peersToConnect = [] then Done (pm, parted)
               else
                 let uniquePeers = map (get_peer (pm_peerStore pm)) (pids peersToConnect);
                     (pm', eff) = connect_slices connects time uniquePeers pm
                 in Done (pm', parted @ eff)))"

text \<open>\<^verbatim>\<open>reconnectPeers\<close>: one peer after the other, with the sleeps in between; \<open>clock\<close> and \<open>failed\<close> are the
  times at which a peer is looked at and its dial ends.\<close>

fun reconnect_loop ::
  "(pid \<Rightarrow> bool) \<Rightarrow> (pid \<Rightarrow> int) \<Rightarrow> (pid \<Rightarrow> int) \<Rightarrow> int \<Rightarrow> RemotePeerInfo list \<Rightarrow> PeerManager
     \<Rightarrow> PeerManager \<times> pm_effect list \<times> int list" where
  "reconnect_loop connects clock failed backoff [] pm = (pm, [], [])"
| "reconnect_loop connects clock failed backoff (info # infos) pm =
     (if connectedness info = CannotConnect then reconnect_loop connects clock failed backoff infos pm
      else
        let backoffTime = disconnectTime info * 1000000000 + backoff - clock (peerId info) * 1000000000;
            (ok, pm1, eff1) = connectRelay pm info (connects (peerId info)) (failed (peerId info));
            (pm2, eff2, sleeps) = reconnect_loop connects clock failed backoff infos pm1
        in (pm2, eff1 @ eff2, if backoffTime > 0 then backoffTime # sleeps else sleeps))"

definition reconnectPeers ::
  "peer_order \<Rightarrow> (pid \<Rightarrow> bool) \<Rightarrow> (pid \<Rightarrow> int) \<Rightarrow> (pid \<Rightarrow> int) \<Rightarrow> PeerManager \<Rightarrow> string \<Rightarrow> int
     \<Rightarrow> PeerManager \<times> pm_effect list \<times> int list" where
  "reconnectPeers ord connects clock failed pm proto backoff =
     reconnect_loop connects clock failed backoff (peers_matching ord (pm_peerStore pm) (protocolMatcher proto)) pm"

end
