(* ===== verification/PeerPolicy.thy ===== *)
theory PeerPolicy
  imports PeerManager "HOL-Library.Multiset"
begin

text \<open>
  What the peer manager keeps: how long it waits before it dials again, which peers it lets in,
  how many it keeps behind an address, and which it forgets when its store is full.
\<close>

section \<open>Backoff\<close>

lemma int64_Done [simp]: "int64 x = Done y \<longleftrightarrow> y = x \<and> - (2 ^ 63) \<le> x \<and> x < 2 ^ 63"
  by (auto simp: int64_def)

lemma backoff_Done:
  assumes "0 < n"
  shows "calculateBackoff i f n = Done d \<longleftrightarrow> d = i * f ^ nat (n - 1) * 1000000000
    \<and> (\<forall>x \<in> {f ^ nat (n - 1), i * f ^ nat (n - 1), d}. - (2 ^ 63) \<le> x \<and> x < 2 ^ 63)"
  using assms by (auto simp: calculateBackoff_def seconds_def)

lemma backoff_accepted:
  assumes "calculateBackoff i f m = Done b" and "\<not> weeks b > 1" and "0 \<le> i" and "1 \<le> f" and "0 < n" and "n \<le> m"
  shows "calculateBackoff i f n = Done (i * f ^ nat (n - 1) * 1000000000)"
    and "i * f ^ nat (n - 1) * 1000000000 < 1209600000000000"
proof -
  have m: "0 < m" using assms(5,6) by simp
  note b = assms(1) [unfolded backoff_Done [OF m]]
  have "b div 604800000000000 < 2" using assms(2) by (simp add: weeks_def)
  then have small: "b < 1209600000000000" by (simp add: div_less_iff_less_mult)
  have le: "f ^ nat (n - 1) \<le> f ^ nat (m - 1)" using assms(4,6) by (intro power_increasing) auto
  then have "i * f ^ nat (n - 1) \<le> i * f ^ nat (m - 1)" using assms(3) by (rule mult_left_mono)
  moreover have pos: "1 \<le> f ^ nat (n - 1)" using assms(4) by (rule one_le_power)
  then have "0 \<le> i * f ^ nat (n - 1)" using assms(3) by simp
  ultimately show "calculateBackoff i f n = Done (i * f ^ nat (n - 1) * 1000000000)"
    and "i * f ^ nat (n - 1) * 1000000000 < 1209600000000000"
    using b small le pos by (simp_all add: backoff_Done [OF assms(5)])
qed

lemma new_peer_manager_backoff:
  assumes "new_peer_manager self s mc md mr st initial factor maxFailed limit sh = Done pm"
  shows "pm_initialBackoffInSec pm = initial \<and> pm_backoffFactor pm = factor \<and> pm_maxFailedAttempts pm = maxFailed
    \<and> (\<exists>b. calculateBackoff initial factor maxFailed = Done b \<and> \<not> weeks b > 1)"
proof -
  have load: "pm_initialBackoffInSec (loadFromStorage q rows) = pm_initialBackoffInSec q
     \<and> pm_backoffFactor (loadFromStorage q rows) = pm_backoffFactor q
     \<and> pm_maxFailedAttempts (loadFromStorage q rows) = pm_maxFailedAttempts q" for q rows
    unfolding loadFromStorage_def by (induction rows arbitrary: q) (simp_all add: load_peer_def Let_def)
  from assms show ?thesis
    by (auto simp: new_peer_manager_def Let_def load split: if_splits option.splits)
qed

text \<open>How long a node leaves a peer alone. With any configuration the manager accepts, whatever happened
  since, it may dial a peer if and only if no attempt failed, or fewer than the maximum failed and
  \<open>initial * factor ^ (failed - 1)\<close> seconds have passed since the last; that time is less than two
  weeks and no computation of it overflows. (The check at start-up rejects backoffs of two weeks on,
  though its message says one.)\<close>

theorem backoff_bounded:
  assumes "new_peer_manager self s0 mc md mr st initial factor maxFailed limit sh = Done pm"
    and "0 \<le> initial" and "1 \<le> factor"
    and "failed = book_get 0 (NumberFailedConnBook s) p" and "0 \<le> failed"
    and "lastFail = book_get 0 (LastFailedConnBook s) p" and "0 \<le> lastFail" and "lastFail < 2 ^ 62"
  shows "canBeConnected (pm\<lparr>pm_peerStore := s\<rparr>) time p =
      Done (failed = 0 \<or> failed < maxFailed
        \<and> time * 1000000000 \<ge> lastFail + initial * factor ^ nat (failed - 1) * 1000000000)
    \<and> (0 < failed \<and> failed < maxFailed \<longrightarrow> initial * factor ^ nat (failed - 1) < 2 * 7 * 24 * 60 * 60)"
proof (cases "0 < failed \<and> failed < maxFailed")
  case True
  obtain b where "calculateBackoff initial factor maxFailed = Done b" "\<not> weeks b > 1"
    using new_peer_manager_backoff [OF assms(1)] by blast
  note ok = backoff_accepted [OF this assms(2,3), of failed]
  have d: "calculateBackoff initial factor failed = Done (initial * factor ^ nat (failed - 1) * 1000000000)"
    and lt: "initial * factor ^ nat (failed - 1) * 1000000000 < 1209600000000000"
    using ok True by simp_all
  have "0 \<le> initial * factor ^ nat (failed - 1)" using assms(2,3) by simp
  then have "int64 (lastFail + initial * factor ^ nat (failed - 1) * 1000000000) =
      Done (lastFail + initial * factor ^ nat (failed - 1) * 1000000000)"
    using lt assms(7,8) by simp
  then show ?thesis
    using True d lt new_peer_manager_backoff [OF assms(1)] assms(4,6)
    by (auto simp: canBeConnected_def Let_def)
next
  case False
  then show ?thesis using new_peer_manager_backoff [OF assms(1)] assms(4,5)
    by (auto simp: canBeConnected_def Let_def)
qed

definition no_peers :: PeerStore where
  "no_peers = \<lparr>AddressBook = [], ProtoBook = [], KeyBook = [], AgentBook = [], ProtoVersionBook = [], ENRBook = [],
     ConnectionBook = [], DisconnectBook = [], SourceBook = [], DirectionBook = [], LastFailedConnBook = [],
     NumberFailedConnBook = [], capacity = 100\<rparr>"

text \<open>The defaults, and a first wait of eleven days and a half, which is accepted as well.\<close>

theorem backoff_bounded_witness:
  "(\<exists>pm. new_peer_manager ''me'' no_peers 50 None None None 120 4 5 5 False = Done pm
      \<and> canBeConnected (pm\<lparr>pm_peerStore := no_peers\<lparr>NumberFailedConnBook := [(''p'', 4)], LastFailedConnBook := [(''p'', 0)]\<rparr>\<rparr>)
          7679 ''p'' = Done False
      \<and> canBeConnected (pm\<lparr>pm_peerStore := no_peers\<lparr>NumberFailedConnBook := [(''p'', 4)], LastFailedConnBook := [(''p'', 0)]\<rparr>\<rparr>)
          7680 ''p'' = Done True)
   \<and> (\<exists>pm. new_peer_manager ''me'' no_peers 50 None None None 1000000 1 2 5 False = Done pm)"
proof -
  let ?s = "no_peers\<lparr>NumberFailedConnBook := [(''p'', 4)], LastFailedConnBook := [(''p'', 0)]\<rparr>"
  have b: "calculateBackoff 120 4 5 = Done 30720000000000" "calculateBackoff 1000000 1 2 = Done 1000000000000000"
    by (simp_all add: backoff_Done)
  then obtain pm where pm: "new_peer_manager ''me'' no_peers 50 None None None 120 4 5 5 False = Done pm"
    by (simp add: new_peer_manager_def no_peers_def weeks_def Let_def)
  have book: "4 = book_get 0 (NumberFailedConnBook ?s) ''p''" "0 = book_get 0 (LastFailedConnBook ?s) ''p''"
    by (simp_all add: book_get_def)
  have "canBeConnected (pm\<lparr>pm_peerStore := ?s\<rparr>) time ''p'' = Done (time \<ge> 7680)" for time
    using backoff_bounded [OF pm _ _ book(1) _ book(2), of time] by simp
  with pm b show ?thesis by (auto simp: new_peer_manager_def no_peers_def weeks_def Let_def)
qed

section \<open>Peers behind an address\<close>

text \<open>
  The manager runs with what libp2p knows: the peers that are connected, with the address they
  joined from, and those among them it was asked to disconnect.
\<close>

type_synonym pm_state = "PeerManager \<times> (pid \<rightharpoonup> string option) \<times> pid set"

definition asked_of :: "pm_effect list \<Rightarrow> pid set" where
  "asked_of eff = {q. Disconnect q \<in> set eff}"

definition ip_order_ok :: "(string list \<Rightarrow> string list) \<Rightarrow> bool" where
  "ip_order_ok ord \<longleftrightarrow> (\<forall>ks. set (ord ks) = set ks)"

inductive pm_step :: "pm_state \<Rightarrow> pm_state \<Rightarrow> bool" where
  join: "online p = None \<Longrightarrow> onPeerEvent E pm p (Joined i) = Done (pm', eff) \<Longrightarrow>
    pm_step (pm, online, asked) (pm', online(p \<mapsto> e_ip E p), asked - {p} \<union> asked_of eff)"
| leave: "online p \<noteq> None \<Longrightarrow> ip_order_ok (e_ip_order E) \<Longrightarrow> onPeerEvent E pm p Left = Done (pm', eff) \<Longrightarrow>
    pm_step (pm, online, asked) (pm', online(p := None), asked - {p})"
| add: "addPeer pm info org = (pm', eff) \<Longrightarrow> pm_step (pm, online, asked) (pm', online, asked)"
| serve: "addServicePeer pm info proto = Done (pm', eff) \<Longrightarrow> pm_step (pm, online, asked) (pm', online, asked)"
| connect: "connectRelay pm info ok time = (b, pm', eff) \<Longrightarrow> pm_step (pm, online, asked) (pm', online, asked)"
| prune: "prunePeerStore W pm = Done pm' \<Longrightarrow> pm_step (pm, online, asked) (pm', online, asked)"

text \<open>Only the two events touch the table.\<close>

definition pm_frame :: "PeerManager \<Rightarrow> PeerManager \<Rightarrow> bool" where
  "pm_frame pm pm' \<longleftrightarrow> pm_ipTable pm' = pm_ipTable pm \<and> pm_colocationLimit pm' = pm_colocationLimit pm"

lemma pm_frames:
  "addPeer pm info org = (pm', eff) \<Longrightarrow> pm_frame pm pm'"
  "addServicePeer pm info proto = Done (pm', eff) \<Longrightarrow> pm_frame pm pm'"
  "connectRelay pm info ok time = (b, pm', eff) \<Longrightarrow> pm_frame pm pm'"
  "prunePeerStore W pm = Done pm' \<Longrightarrow> pm_frame pm pm'"
proof -
  show 1: "addPeer pm info org = (pm', eff) \<Longrightarrow> pm_frame pm pm'" for pm info org pm' eff
    by (auto simp: addPeer_def pm_frame_def Let_def split: if_splits)
  show "addServicePeer pm info proto = Done (pm', eff) \<Longrightarrow> pm_frame pm pm'"
    using 1 by (fastforce simp: addServicePeer_def pm_frame_def split: if_splits)
  show "connectRelay pm info ok time = (b, pm', eff) \<Longrightarrow> pm_frame pm pm'"
    using 1 by (fastforce simp: connectRelay_def pm_frame_def Let_def split: if_splits prod.splits)
  show "prunePeerStore W pm = Done pm' \<Longrightarrow> pm_frame pm pm'"
    by (auto simp: prunePeerStore_def pm_frame_def Let_def split: if_splits)
qed

text \<open>The table holds the connected peers by address, and few that are to stay.\<close>

definition ip_inv :: "(string \<times> pid list) list \<Rightarrow> (pid \<rightharpoonup> string option) \<Rightarrow> bool" where
  "ip_inv tab online \<longleftrightarrow> distinct (map fst tab) \<and> (\<forall>ip. map_of tab ip \<noteq> Some []
     \<and> distinct (behind_ip tab ip) \<and> set (behind_ip tab ip) = {p. online p = Some (Some ip)})"

definition staying :: "(string \<times> pid list) list \<Rightarrow> pid set \<Rightarrow> string \<Rightarrow> pid set" where
  "staying tab asked ip = set (behind_ip tab ip) - asked"

definition few_staying :: "int \<Rightarrow> (string \<times> pid list) list \<Rightarrow> pid set \<Rightarrow> bool" where
  "few_staying limit tab asked \<longleftrightarrow> (limit \<noteq> 0 \<longrightarrow> (\<forall>ip. int (card (staying tab asked ip)) \<le> limit))"

lemma behind_ip_simps [simp]:
  "behind_ip (AList.update a ps tab) ip = (if ip = a then ps else behind_ip tab ip)"
  "behind_ip (AList.delete a tab) ip = (if ip = a then [] else behind_ip tab ip)"
  by (simp_all add: behind_ip_def)

lemma staying_bound:
  assumes "few_staying limit tab asked" and "limit \<noteq> 0" and "staying tab' asked' ip \<subseteq> staying tab asked ip"
  shows "int (card (staying tab' asked' ip)) \<le> limit"
proof -
  have "card (staying tab' asked' ip) \<le> card (staying tab asked ip)"
    by (rule card_mono [OF _ assms(3)]) (simp add: staying_def)
  moreover have "int (card (staying tab asked ip)) \<le> limit" using assms(1,2) by (simp add: few_staying_def)
  ultimately show ?thesis by simp
qed

lemma few_stayingI:
  assumes "few_staying limit tab asked"
    and "limit \<noteq> 0 \<Longrightarrow> int (card (staying tab' asked' a)) \<le> limit"
    and "\<And>ip. ip \<noteq> a \<Longrightarrow> staying tab' asked' ip \<subseteq> staying tab asked ip"
  shows "few_staying limit tab' asked'"
  unfolding few_staying_def using assms(2) staying_bound [OF assms(1) _ assms(3)] by metis

lemma ip_joined_inv:
  assumes "ip_joined limit a p tab = Done (tab', pruned)" and "ip_inv tab online" and "online p = None"
    and "few_staying limit tab asked" and "asked - {p} \<union> set pruned \<subseteq> asked'" and "0 \<le> limit"
  shows "ip_inv tab' (online(p \<mapsto> Some a)) \<and> few_staying limit tab' asked'"
proof -
  let ?ps = "behind_ip tab a @ [p]"
  have tab': "tab' = AList.update a ?ps tab"
    and pruned: "limit \<noteq> 0 \<and> int (length ?ps) > limit \<Longrightarrow> pruned = take (nat (int (length ?ps) - limit)) ?ps"
    using assms(1) by (auto simp: ip_joined_def Let_def split: if_splits)
  have none: "p \<notin> set (behind_ip tab ip)" for ip using assms(2,3) by (simp add: ip_inv_def)
  have "ip_inv tab' (online(p \<mapsto> Some a))"
    using assms(2,3) none unfolding ip_inv_def tab' by (auto simp: distinct_update)
  moreover have "few_staying limit tab' asked'"
  proof (rule few_stayingI [OF assms(4)])
    assume l: "limit \<noteq> 0"
    let ?k = "nat (int (length ?ps) - limit)"
    show "int (card (staying tab' asked' a)) \<le> limit"
    proof (cases "int (length ?ps) > limit")
      case True
      have "set ?ps = set (take ?k ?ps) \<union> set (drop ?k ?ps)" by (metis append_take_drop_id set_append)
      then have "staying tab' asked' a \<subseteq> set (drop ?k ?ps)"
        using assms(5) pruned True l by (auto simp: staying_def tab')
      then have "card (staying tab' asked' a) \<le> card (set (drop ?k ?ps))" by (intro card_mono) auto
      also have "\<dots> \<le> length ?ps - ?k" using card_length [of "drop ?k ?ps"] unfolding length_drop .
      finally show ?thesis using True assms(6) by linarith
    next
      case False
      have "card (staying tab' asked' a) \<le> card (set ?ps)" unfolding staying_def tab' by (intro card_mono) auto
      also have "\<dots> \<le> length ?ps" by (rule card_length)
      finally show ?thesis using False by linarith
    qed
  next
    fix ip assume "ip \<noteq> a"
    then show "staying tab' asked' ip \<subseteq> staying tab asked ip" using none assms(5) by (auto simp: staying_def tab')
  qed
  ultimately show ?thesis ..
qed

lemma ip_left_inv:
  assumes "ip_inv tab online" and "few_staying limit tab asked" and "ip_order_ok ord"
  shows "ip_inv (ip_left ord p tab) (online(p := None)) \<and> few_staying limit (ip_left ord p tab) (asked - {p})"
proof (cases "find (\<lambda>ip. p \<in> set (behind_ip tab ip)) (ord (map fst tab))")
  case None
  then have "p \<notin> set (behind_ip tab ip)" if "ip \<in> fst ` set tab" for ip
    using assms(3) that by (auto simp: find_None_iff ip_order_ok_def)
  moreover have "behind_ip tab ip = []" if "ip \<notin> fst ` set tab" for ip
    using that by (simp add: behind_ip_def map_of_eq_None_iff [THEN iffD2])
  ultimately have none: "p \<notin> set (behind_ip tab ip)" for ip by (metis empty_iff list.set(1))
  then have "staying tab (asked - {p}) ip = staying tab asked ip" for ip by (auto simp: staying_def)
  then show ?thesis using None assms(1,2) none
    by (auto simp: ip_left_def ip_inv_def few_staying_def)
next
  case (Some a)
  then have a: "p \<in> set (behind_ip tab a)" by (auto simp: find_Some_iff)
  then have on: "online p = Some (Some a)" using assms(1) by (auto simp: ip_inv_def)
  let ?rest = "filter (\<lambda>it. it \<noteq> p) (behind_ip tab a)"
  have tab': "ip_left ord p tab = (if ?rest = [] then AList.delete a tab else AList.update a ?rest tab)"
    using Some by (simp add: ip_left_def Let_def)
  have beh: "behind_ip (ip_left ord p tab) ip = (if ip = a then ?rest else behind_ip tab ip)" for ip
    by (auto simp: tab')
  have "distinct (map fst (ip_left ord p tab))"
    using assms(1) by (simp add: tab' ip_inv_def distinct_update distinct_delete)
  moreover have "map_of (ip_left ord p tab) ip \<noteq> Some []" for ip
    using assms(1) by (auto simp: tab' ip_inv_def)
  ultimately have "ip_inv (ip_left ord p tab) (online(p := None))"
    using assms(1) on by (auto simp: ip_inv_def beh)
  moreover have "few_staying limit (ip_left ord p tab) (asked - {p})"
  proof (rule few_stayingI [OF assms(2)])
    assume l: "limit \<noteq> 0"
    show "int (card (staying (ip_left ord p tab) (asked - {p}) a)) \<le> limit"
      by (rule staying_bound [OF assms(2) l]) (auto simp: staying_def beh)
  next
    fix ip assume "ip \<noteq> a"
    moreover from this have "p \<notin> set (behind_ip tab ip)" using assms(1) on by (auto simp: ip_inv_def)
    ultimately show "staying (ip_left ord p tab) (asked - {p}) ip \<subseteq> staying tab asked ip"
      by (auto simp: staying_def beh)
  qed
  ultimately show ?thesis ..
qed

lemma onPeerEvent_left:
  assumes "onPeerEvent E pm p Left = Done (pm', eff)"
  shows "pm_ipTable pm' = ip_left (e_ip_order E) p (pm_ipTable pm) \<and> pm_colocationLimit pm' = pm_colocationLimit pm"
  using assms by (auto simp: onPeerEvent_def event_peers_def Let_def)

lemma onPeerMetadata_frame:
  "onPeerMetadata E pm wm p = (pm', eff) \<Longrightarrow> pm_frame pm pm'"
  by (auto simp: onPeerMetadata_def pm_frame_def split: if_splits option.splits)

lemma asked_of_simps [simp]:
  "asked_of (xs @ ys) = asked_of xs \<union> asked_of ys" "asked_of (map Disconnect ps) = set ps"
  "asked_of [Put info] = {}" "asked_of [] = {}"
  by (auto simp: asked_of_def)

lemma onPeerEvent_joined:
  assumes "onPeerEvent E pm p (Joined i) = Done (pm', eff)"
  shows "pm_colocationLimit pm' = pm_colocationLimit pm
    \<and> (case e_ip E p of None \<Rightarrow> pm_ipTable pm' = pm_ipTable pm
       | Some ip \<Rightarrow> \<exists>pruned. ip_joined (pm_colocationLimit pm) ip p (pm_ipTable pm) = Done (pm_ipTable pm', pruned)
           \<and> set pruned \<subseteq> asked_of eff)"
proof -
  obtain pm1 eff1 where m: "(case pm_wakuMetadata pm of None \<Rightarrow> (pm, []) | Some wm \<Rightarrow> onPeerMetadata E pm wm p) = (pm1, eff1)"
    by fastforce
  then have "pm_frame pm pm1" using onPeerMetadata_frame by (auto simp: pm_frame_def split: option.splits)
  then show ?thesis using assms m
    by (auto simp: onPeerEvent_def event_peers_def pm_frame_def Let_def split: option.splits)
qed

definition colocated :: "int \<Rightarrow> pm_state \<Rightarrow> bool" where
  "colocated limit = (\<lambda>(pm, online, asked). pm_colocationLimit pm = limit \<and> ip_inv (pm_ipTable pm) online
     \<and> few_staying limit (pm_ipTable pm) asked)"

lemma pm_step_colocated:
  assumes "pm_step st st'" and "colocated limit st" and "0 \<le> limit"
  shows "colocated limit st'"
  using assms(1,2)
proof cases
  case (join online p E pm i pm' eff asked)
  note ev = onPeerEvent_joined [OF join(4)]
  show ?thesis
  proof (cases "e_ip E p")
    case None
    have few: "few_staying limit (pm_ipTable pm) asked" and none: "p \<notin> set (behind_ip (pm_ipTable pm) ip)" for ip
      using join(1,3) assms(2) by (simp_all add: colocated_def ip_inv_def)
    have "staying (pm_ipTable pm) (asked - {p} \<union> asked_of eff) ip \<subseteq> staying (pm_ipTable pm) asked ip" for ip
      using none by (auto simp: staying_def)
    then have "few_staying limit (pm_ipTable pm) (asked - {p} \<union> asked_of eff)"
      using staying_bound [OF few] by (simp add: few_staying_def [of limit _ "asked - {p} \<union> asked_of eff"])
    then show ?thesis using None ev join(1,2,3) assms(2) by (auto simp: colocated_def ip_inv_def)
  next
    case (Some ip)
    then obtain pruned where j: "ip_joined limit ip p (pm_ipTable pm) = Done (pm_ipTable pm', pruned)" "set pruned \<subseteq> asked_of eff"
      using ev join(1) assms(2) by (auto simp: colocated_def)
    have "ip_inv (pm_ipTable pm') (online(p \<mapsto> Some ip)) \<and> few_staying limit (pm_ipTable pm') (asked - {p} \<union> asked_of eff)"
      by (rule ip_joined_inv [OF j(1), where online = online and asked = asked])
        (use j(2) join(1,3) assms(2,3) in \<open>auto simp: colocated_def\<close>)
    then show ?thesis using Some ev join(1,2) assms(2) by (simp add: colocated_def)
  qed
next
  case (leave online p E pm pm' eff asked)
  then show ?thesis
    using onPeerEvent_left [OF leave(5)] ip_left_inv [OF _ _ leave(4), of "pm_ipTable pm" online limit asked p] assms(2)
    by (simp add: colocated_def)
qed (auto simp: colocated_def pm_frame_def dest!: pm_frames)

lemma pm_steps_colocated:
  "pm_step\<^sup>*\<^sup>* st st' \<Longrightarrow> colocated limit st \<Longrightarrow> 0 \<le> limit \<Longrightarrow> colocated limit st'"
  by (induction rule: rtranclp_induct) (auto intro: pm_step_colocated)

text \<open>C33: how many peers a node keeps behind one address. Whatever peers join and leave, are added, dialled,
  slotted or pruned, in any order: the table of addresses lists exactly the connected peers under the
  address they joined from, each once; of those the node has not been told to disconnect
  there are at most the limit (0 switches it off); and the next event does not stop the node.\<close>

theorem colocation_invariant:
  assumes "pm_step\<^sup>*\<^sup>* (pm0, Map.empty, {}) (pm, online, asked)"
    and "pm_ipTable pm0 = []" and "pm_colocationLimit pm0 = limit" and "0 \<le> limit"
  shows "(\<forall>ip. distinct (behind_ip (pm_ipTable pm) ip)
      \<and> set (behind_ip (pm_ipTable pm) ip) = {p. online p = Some (Some ip)}
      \<and> (limit \<noteq> 0 \<longrightarrow> int (card ({p. online p = Some (Some ip)} - asked)) \<le> limit))
    \<and> (\<forall>E p event. \<exists>pm' eff. onPeerEvent E pm p event = Done (pm', eff))"
proof -
  have "colocated limit (pm0, Map.empty, {})"
    using assms(2,3,4) by (simp add: colocated_def ip_inv_def few_staying_def staying_def behind_ip_def)
  from pm_steps_colocated [OF assms(1) this assms(4)] have inv: "colocated limit (pm, online, asked)" .
  have "\<exists>pm' eff. onPeerEvent E pm p event = Done (pm', eff)" for E p event
  proof -
    obtain pm1 eff1 where m: "(case pm_wakuMetadata pm of None \<Rightarrow> (pm, []) | Some wm \<Rightarrow> onPeerMetadata E pm wm p) = (pm1, eff1)"
      by fastforce
    then have "pm_frame pm pm1" using onPeerMetadata_frame by (auto simp: pm_frame_def split: option.splits)
    then have "\<exists>r. ip_joined (pm_colocationLimit pm1) ip p (pm_ipTable pm1) = Done r" for ip
      using inv assms(4) by (auto simp: ip_joined_def Let_def colocated_def pm_frame_def)
    then show ?thesis using m
      by (cases event) (auto simp: onPeerEvent_def event_peers_def Let_def split: option.splits; fastforce)+
  qed
  then show ?thesis using inv by (auto simp: colocated_def ip_inv_def few_staying_def staying_def)
qed

text \<open>A manager that keeps one peer per address, and two peers that join from the same.\<close>

definition sample_manager :: PeerManager where
  "sample_manager = \<lparr>pm_self = ''me'', pm_peerStore = no_peers, pm_wakuMetadata = None, pm_initialBackoffInSec = 120,
     pm_backoffFactor = 4, pm_maxFailedAttempts = 5, pm_storage = False, pm_serviceSlots = [], pm_maxRelayPeers = 40,
     pm_outRelayPeersTarget = 13, pm_inRelayPeersTarget = 27, pm_ipTable = [], pm_colocationLimit = 1,
     pm_shardedPeerManagement = False\<rparr>"

definition sample_env :: peer_env where
  "sample_env = \<lparr>e_pbuf = wire_format, e_packing = wire_packing, e_walk = (\<lambda>_. []), e_dial = (\<lambda>_. Inl []),
     e_ip = (\<lambda>_. Some ''ip''), e_ip_order = id, e_time = 0\<rparr>"

lemma joined_without_metadata:
  assumes "pm_wakuMetadata pm = None" and "\<not> pm_storage pm"
    and "ip_joined (pm_colocationLimit pm) ''ip'' p (pm_ipTable pm) = Done (tab, pruned)"
  shows "\<exists>pm'. onPeerEvent sample_env pm p (Joined i) = Done (pm', map Disconnect pruned)
    \<and> pm_wakuMetadata pm' = None \<and> \<not> pm_storage pm' \<and> pm_colocationLimit pm' = pm_colocationLimit pm \<and> pm_ipTable pm' = tab"
  using assms by (simp add: onPeerEvent_def event_peers_def sample_env_def Let_def)

theorem colocation_invariant_witness:
  "\<exists>pm online asked. pm_step\<^sup>*\<^sup>* (sample_manager, Map.empty, {}) (pm, online, asked)
     \<and> online ''p'' = Some (Some ''ip'') \<and> online ''q'' = Some (Some ''ip'')
     \<and> card ({x. online x = Some (Some ''ip'')} - asked) \<le> 1 \<and> asked = {''p''}"
proof -
  have m: "pm_wakuMetadata sample_manager = None" "\<not> pm_storage sample_manager" "pm_ipTable sample_manager = []"
    "pm_colocationLimit sample_manager = 1" by (simp_all add: sample_manager_def)
  have "ip_joined 1 ''ip'' ''p'' [] = Done ([(''ip'', [''p''])], [])" by (simp add: ip_joined_def behind_ip_def)
  then obtain pm1 where 1: "onPeerEvent sample_env sample_manager ''p'' (Joined True) = Done (pm1, [])"
    and m1: "pm_wakuMetadata pm1 = None" "\<not> pm_storage pm1" "pm_colocationLimit pm1 = 1" "pm_ipTable pm1 = [(''ip'', [''p''])]"
    using joined_without_metadata [OF m(1,2), of "''p''"] m by fastforce
  have "ip_joined 1 ''ip'' ''q'' [(''ip'', [''p''])] = Done ([(''ip'', [''p'', ''q''])], [''p''])"
    by (simp add: ip_joined_def behind_ip_def)
  then obtain pm2 where 2: "onPeerEvent sample_env pm1 ''q'' (Joined True) = Done (pm2, [Disconnect ''p''])"
    using joined_without_metadata [OF m1(1,2), of "''q''"] m1 by fastforce
  have ip: "e_ip sample_env x = Some ''ip''" for x by (simp add: sample_env_def)
  let ?on = "[''p'' \<mapsto> Some ''ip'', ''q'' \<mapsto> Some ''ip'']"
  have "pm_step (sample_manager, Map.empty, {}) (pm1, [''p'' \<mapsto> Some ''ip''], {})"
    using pm_step.join [OF _ 1, of Map.empty "{}"] by (simp add: ip)
  moreover have "pm_step (pm1, [''p'' \<mapsto> Some ''ip''], {}) (pm2, ?on, {''p''})"
    using pm_step.join [OF _ 2, of "[''p'' \<mapsto> Some ''ip'']" "{}"] by (simp add: ip asked_of_def)
  ultimately have run: "pm_step\<^sup>*\<^sup>* (sample_manager, Map.empty, {}) (pm2, ?on, {''p''})" by simp
  have one: "0 \<le> (1 :: int)" by simp
  have "(1 :: int) \<noteq> 0 \<longrightarrow> int (card ({x. ?on x = Some (Some ''ip'')} - {''p''})) \<le> 1"
    using colocation_invariant [OF run m(3,4) one] by blast
  then have few: "card ({x. ?on x = Some (Some ''ip'')} - {''p''}) \<le> 1" by linarith
  show ?thesis
    by (rule exI [of _ pm2], rule exI [of _ ?on], rule exI [of _ "{''p''}"], intro conjI run few) simp_all
qed

section \<open>Who is let in\<close>

text \<open>
  A node that is connected to another, over a connection to that one's metadata service, parts from it
  for one of these reasons.
\<close>

definition shares_shard :: "WakuMetadata \<Rightarrow> WakuMetadata \<Rightarrow> bool" where
  "shares_shard a b \<longleftrightarrow> md_shards a \<inter> md_shards b \<noteq> {}"

lemma metadata_reason_service:
  assumes "protobuf_packed P K" and "shard_walk_ok walk'" and "finite (md_shards server)"
    and "md_ok P K walk wm" and "md_ok P K walk' server"
    and "e_pbuf E = P" and "e_packing E = K" and "e_walk E = walk"
    and "e_dial E p = Inr (md_connection P K walk' server failed)"
  shows "metadata_reason E s wm p = None \<longleftrightarrow> md_fits P K walk wm \<and> md_fits P K walk' server
    \<and> md_clusterId wm = md_clusterId server \<and> (hasPeer s p WakuRelayCodec \<longrightarrow> shares_shard wm server)"
proof -
  have "set (walk' (md_shards server)) = md_shards server" using assms(2,3) by (simp add: shard_walk_ok_def)
  then show ?thesis
    using md_exchange [OF assms(1,4,5), of failed]
    by (auto simp: metadata_reason_def assms(6-9) own_metadata_def shares_shard_def)
qed

lemma get_peer_deleted: "get_peer (delete_peer q s) p = (if p = q then init_peer p [] else get_peer s p)"
  using get_deleted by (simp add: get_peer_def delete_peer_def init_peer_def)

lemma get_peer_deletes: "get_peer (fold delete_peer ps s) q = (if q \<in> set ps then init_peer q [] else get_peer s q)"
  by (induction ps arbitrary: s) (auto simp: get_peer_deleted)

lemma ip_joined_pruned:
  "0 \<le> limit \<Longrightarrow> ip_joined limit a p tab = Done (AList.update a (behind_ip tab a @ [p]) tab,
     if limit = 0 then [] else take (length (behind_ip tab a) + 1 - nat limit) (behind_ip tab a @ [p]))"
  by (auto simp: ip_joined_def Let_def nat_diff_distrib' nat_add_distrib)

text \<open>C35: when two nodes connect, who stays. A node that a peer joins, in a cluster other than 0, asks the
  peer's metadata service; when both messages fit into 1024 bytes, the peer stays if and
  only if it is in the same cluster and, where the store says it relays, shares a shard; a
  node in cluster 0 never asks. Otherwise it is disconnected, and what the store knew of it, its record
  and addresses included, is gone. So are, when the peer is seen under an address with more
  peers than the limit (not negative; 0 switches it off), the first ones there, as many as are too many. Yet in any
  case the store then says that the peer is connected, and the database, if there is one, is given what
  is left of it. The event is taken as one step, from asking to storing.\<close>

theorem metadata_admission:
  assumes "protobuf_packed P K" and "shard_walk_ok walk'" and "finite (md_shards server)"
    and "md_ok P K walk wm" and "md_ok P K walk' server" and "md_fits P K walk wm" and "md_fits P K walk' server"
    and "E = \<lparr>e_pbuf = P, e_packing = K, e_walk = walk, e_dial = (\<lambda>_. Inr (md_connection P K walk' server failed)),
           e_ip = ip, e_ip_order = ord, e_time = t\<rparr>"
    and "pm_wakuMetadata pm = Some wm" and "0 \<le> pm_colocationLimit pm"
    and "keep \<longleftrightarrow> md_clusterId wm = 0 \<or> md_clusterId wm = md_clusterId server
      \<and> (hasPeer (pm_peerStore pm) p WakuRelayCodec \<longrightarrow> shares_shard wm server)"
    and "behind = (case ip p of None \<Rightarrow> [] | Some a \<Rightarrow> behind_ip (pm_ipTable pm) a @ [p])"
    and "pruned = (if pm_colocationLimit pm = 0 then [] else take (length behind - nat (pm_colocationLimit pm)) behind)"
  shows "\<exists>pm' eff. onPeerEvent E pm p (Joined i) = Done (pm', eff)
    \<and> (\<forall>q. Disconnect q \<in> set eff \<longleftrightarrow> q = p \<and> \<not> keep \<or> q \<in> set pruned)
    \<and> get_peer (pm_peerStore pm') p = (if keep \<and> p \<notin> set pruned then get_peer (pm_peerStore pm) p else init_peer p [])
          \<lparr>connectedness := Connected, direction := (if i then Outbound else Inbound)\<rparr>
    \<and> (\<forall>q. q \<noteq> p \<longrightarrow> get_peer (pm_peerStore pm') q = (if q \<in> set pruned then init_peer q [] else get_peer (pm_peerStore pm) q))
    \<and> (pm_storage pm \<longrightarrow> Put ((get_peer (pm_peerStore pm') p)\<lparr>disconnectTime := t\<rparr>) \<in> set eff)"
proof -
  have "metadata_reason E (pm_peerStore pm) wm p = None \<longleftrightarrow> md_clusterId wm = md_clusterId server
      \<and> (hasPeer (pm_peerStore pm) p WakuRelayCodec \<longrightarrow> shares_shard wm server)"
    using metadata_reason_service [OF assms(1-5), of E p failed] assms(6-8) by simp
  then have m: "onPeerMetadata E pm wm p = (if keep then (pm, []) else (in_store (delete_peer p) pm, [Disconnect p]))"
    using assms(11) by (cases "metadata_reason E (pm_peerStore pm) wm p") (auto simp: onPeerMetadata_def)
  define tab where "tab = (case ip p of None \<Rightarrow> pm_ipTable pm
    | Some a \<Rightarrow> AList.update a (behind_ip (pm_ipTable pm) a @ [p]) (pm_ipTable pm))"
  define pm1 where "pm1 = in_store (fold delete_peer pruned) ((if keep then pm else in_store (delete_peer p) pm)\<lparr>pm_ipTable := tab\<rparr>)"
  define pm2 where "pm2 = in_store (\<lambda>s. s\<lparr>ConnectionBook := AList.update p Connected (ConnectionBook s),
    DirectionBook := AList.update p (if i then Outbound else Inbound) (DirectionBook s)\<rparr>) pm1"
  let ?eff = "(if keep then [] else [Disconnect p]) @ map Disconnect pruned @
    (if pm_storage pm then [Put ((get_peer (pm_peerStore pm2) p)\<lparr>disconnectTime := t\<rparr>)] else [])"
  have env: "e_ip E = ip" "e_time E = t" and same: "pm_storage pm2 = pm_storage pm" "pm_storage pm1 = pm_storage pm"
    by (simp_all add: assms(8) pm1_def pm2_def)
  have "event_peers E pm p (Joined i) = Done (pm1, (if keep then [] else [Disconnect p]) @ map Disconnect pruned)"
    by (cases "ip p") (simp_all add: event_peers_def assms(9,12,13) m env pm1_def tab_def ip_joined_pruned [OF assms(10)])
  then have "onPeerEvent E pm p (Joined i) = Done (pm2, ?eff)"
    by (simp add: onPeerEvent_def Let_def env same pm2_def [symmetric])
  moreover have store: "pm_peerStore pm1 = fold delete_peer pruned (if keep then pm_peerStore pm else delete_peer p (pm_peerStore pm))"
    by (simp add: pm1_def)
  have "get_peer (pm_peerStore pm2) q = (if q = p then (get_peer (pm_peerStore pm1) p)
      \<lparr>connectedness := Connected, direction := (if i then Outbound else Inbound)\<rparr> else get_peer (pm_peerStore pm1) q)" for q
    by (simp add: pm2_def get_peer_def)
  moreover have "Disconnect q \<in> set ?eff \<longleftrightarrow> q = p \<and> \<not> keep \<or> q \<in> set pruned" for q by auto
  ultimately show ?thesis
    by (intro exI [of _ pm2] exI [of _ ?eff]) (simp add: store get_peer_deletes get_peer_deleted)
qed

text \<open>Two nodes of cluster 1 that both know one shard, on the wire format.\<close>

definition sample_metadata :: "u32 \<Rightarrow> WakuMetadata" where
  "sample_metadata shard = \<lparr>md_clusterId = 1, md_shards = {shard}\<rparr>"

lemma sample_metadata_ok:
  assumes "shard < 128"
  shows "md_ok wire_format wire_packing sorted_list_of_set (sample_metadata shard)"
    and "md_fits wire_format wire_packing sorted_list_of_set (sample_metadata shard)"
proof -
  have pack: "length (wire_pack [shard]) = 1"
    using assms by (simp add: wire_pack_def varint.simps [of "unat shard"] word_less_nat_alt)
  let ?fs = "metadata_fields wire_packing (own_metadata sorted_list_of_set (sample_metadata shard))"
  have fs: "?fs = [(1, U32 1), (2, U32 shard), (3, Blob (wire_pack [shard]))]"
    by (simp add: metadata_fields_def own_metadata_def sample_metadata_def opt_field_def wire_packing_def)
  have w: "writable ?fs" using pack by (simp add: fs writable_def)
  then show "md_ok wire_format wire_packing sorted_list_of_set (sample_metadata shard)" by (simp add: md_ok_def)
  have "length (wire_finish ?fs) \<le> 1024"
    using length_wire_finish [OF w] pack by (simp add: fs field_size_def)
  then show "md_fits wire_format wire_packing sorted_list_of_set (sample_metadata shard)"
    by (simp add: md_fits_def encode_metadata_def wire_format_def RpcResponseMaxBytes_def)
qed

theorem metadata_admission_witness:
  "\<exists>pm' eff. onPeerEvent (sample_env\<lparr>e_walk := sorted_list_of_set, e_dial := (\<lambda>_. Inr
        (md_connection wire_format wire_packing sorted_list_of_set (sample_metadata 7) ''too big''))\<rparr>)
      (sample_manager\<lparr>pm_wakuMetadata := Some (sample_metadata 3), pm_storage := True, pm_ipTable := [(''ip'', [''q''])],
         pm_peerStore := no_peers\<lparr>ProtoBook := [(''p'', [WakuRelayCodec])]\<rparr>\<rparr>) ''p'' (Joined True) = Done (pm', eff)
    \<and> Disconnect ''p'' \<in> set eff \<and> Disconnect ''q'' \<in> set eff
    \<and> isConnected (pm_peerStore pm') ''p'' \<and> addrs (get_peer (pm_peerStore pm') ''p'') = []"
proof -
  let ?E = "sample_env\<lparr>e_walk := sorted_list_of_set, e_dial := (\<lambda>_. Inr
        (md_connection wire_format wire_packing sorted_list_of_set (sample_metadata 7) ''too big''))\<rparr>"
  let ?pm = "sample_manager\<lparr>pm_wakuMetadata := Some (sample_metadata 3), pm_storage := True, pm_ipTable := [(''ip'', [''q''])],
         pm_peerStore := no_peers\<lparr>ProtoBook := [(''p'', [WakuRelayCodec])]\<rparr>\<rparr>"
  have walk: "shard_walk_ok sorted_list_of_set" by (simp add: shard_walk_ok_def)
  have fin: "finite (md_shards (sample_metadata 7))" by (simp add: sample_metadata_def)
  have E: "?E = \<lparr>e_pbuf = wire_format, e_packing = wire_packing, e_walk = sorted_list_of_set, e_dial = (\<lambda>_. Inr
        (md_connection wire_format wire_packing sorted_list_of_set (sample_metadata 7) ''too big'')), e_ip = (\<lambda>_. Some ''ip''),
        e_ip_order = id, e_time = 0\<rparr>" by (simp add: sample_env_def)
  have keep: "False \<longleftrightarrow> md_clusterId (sample_metadata 3) = 0 \<or> md_clusterId (sample_metadata 3) = md_clusterId (sample_metadata 7)
      \<and> (hasPeer (pm_peerStore ?pm) ''p'' WakuRelayCodec \<longrightarrow> shares_shard (sample_metadata 3) (sample_metadata 7))"
    by (simp add: sample_metadata_def shares_shard_def hasPeer_def get_peer_def book_get_def)
  have small: "(7 :: u32) < 128" "(3 :: u32) < 128" by simp_all
  have pm: "pm_wakuMetadata ?pm = Some (sample_metadata 3)" "0 \<le> pm_colocationLimit ?pm"
    "[''q'', ''p''] = (case Some ''ip'' of None \<Rightarrow> [] | Some a \<Rightarrow> behind_ip (pm_ipTable ?pm) a @ [''p''])"
    "[''q''] = (if pm_colocationLimit ?pm = 0 then [] else take (length [''q'', ''p''] - nat (pm_colocationLimit ?pm)) [''q'', ''p''])"
    by (simp_all add: sample_manager_def behind_ip_def)
  obtain pm' eff where r: "onPeerEvent ?E ?pm ''p'' (Joined True) = Done (pm', eff)"
    "\<forall>q. Disconnect q \<in> set eff \<longleftrightarrow> q = ''p'' \<or> q = ''q''"
    "get_peer (pm_peerStore pm') ''p'' = (init_peer ''p'' [])\<lparr>connectedness := Connected, direction := Outbound\<rparr>"
    using metadata_admission [OF wire_packed.protobuf_packed_axioms walk fin sample_metadata_ok(1) [OF small(2)]
        sample_metadata_ok(1) [OF small(1)] sample_metadata_ok(2) [OF small(2)] sample_metadata_ok(2) [OF small(1)] E
        pm(1,2) keep pm(3,4), of True]
    by auto
  have "isConnected (pm_peerStore pm') ''p''" by (simp add: isConnected_get r(3))
  moreover have "addrs (get_peer (pm_peerStore pm') ''p'') = []" by (simp add: r(3) init_peer_def)
  ultimately show ?thesis using r(1,2) by blast
qed

section \<open>Pruning\<close>

text \<open>A set of at most \<open>n\<close> peers that grew by peers of \<open>X\<close>, by all of them unless it is full.\<close>

definition filled :: "nat \<Rightarrow> pid list \<Rightarrow> pid set \<Rightarrow> pid list \<Rightarrow> bool" where
  "filled n acc X res \<longleftrightarrow> distinct res \<and> length res \<le> n \<and> set acc \<subseteq> set res \<and> set res \<subseteq> set acc \<union> X
     \<and> (length res < n \<longrightarrow> set res = set acc \<union> X)"

lemma filled_refl: "distinct acc \<Longrightarrow> length acc \<le> n \<Longrightarrow> filled n acc {} acc"
  by (simp add: filled_def)

lemma filled_full: "distinct acc \<Longrightarrow> length acc = n \<Longrightarrow> filled n acc X acc"
  by (simp add: filled_def)

lemma filled_trans:
  assumes "filled n a X b" and "filled n b Y c"
  shows "filled n a (X \<union> Y) c"
proof -
  have "length b \<le> length c"
    using assms card_mono [of "set c" "set b"] by (simp add: filled_def distinct_card)
  then show ?thesis using assms by (auto simp: filled_def)
qed

lemma filled_incl: "distinct acc \<Longrightarrow> length acc < n \<Longrightarrow> filled n acc {p} (set_incl p acc)"
  by (auto simp: filled_def set_incl_def)

lemma prune_peers_filled: "distinct acc \<Longrightarrow> length acc \<le> n \<Longrightarrow> filled n acc (set ps) (prune_peers n ps acc)"
proof (induction ps arbitrary: acc)
  case (Cons p ps)
  show ?case
  proof (cases "length acc < n")
    case True
    note incl = filled_incl [OF Cons.prems(1) True, of p]
    then have "filled n (set_incl p acc) (set ps) (prune_peers n ps (set_incl p acc))"
      using Cons.IH by (simp add: filled_def)
    from filled_trans [OF incl this] show ?thesis using True by simp
  qed (use Cons.prems filled_full in auto)
qed (simp add: filled_refl)

lemma prune_failed_filled:
  "distinct acc \<Longrightarrow> length acc \<le> n \<Longrightarrow> filled n acc {p. \<exists>c \<ge> m. (p, c) \<in> set ps} (prune_failed n m ps acc)"
proof (induction n m ps acc rule: prune_failed.induct)
  case (2 n m p c ps acc)
  let ?X = "{p. \<exists>c \<ge> m. (p, c) \<in> set ps}" and ?Y = "{q. \<exists>d \<ge> m. (q, d) \<in> set ((p, c) # ps)}"
  show ?case
  proof (cases "c < m")
    case True
    moreover from this have "?Y = ?X" by auto
    ultimately show ?thesis using 2 by simp
  next
    case False
    then have "c \<ge> m" by simp
    then have Y: "?Y = {p} \<union> ?X" by (auto intro: exI [of _ c])
    show ?thesis
    proof (cases "length acc < n")
      case True
      note incl = filled_incl [OF 2(3) True, of p]
      then have "filled n (set_incl p acc) ?X (prune_failed n m ps (set_incl p acc))"
        using 2(2) False True by (simp add: filled_def)
      from filled_trans [OF incl this] show ?thesis using True False unfolding Y by simp
    qed (use 2(3,4) False filled_full in auto)
  qed
qed (simp add: filled_refl)

text \<open>The table by shard: no list is empty, so the average is always 1 and every slice is the whole list.\<close>

definition shard_wf :: "shard_table \<Rightarrow> bool" where
  "shard_wf tab \<longleftrightarrow> distinct (map fst tab) \<and> (\<forall>k. map_of tab k \<noteq> Some [])"

definition members :: "shard_table \<Rightarrow> pid set" where
  "members tab = {p. \<exists>k ps. map_of tab k = Some ps \<and> p \<in> set ps}"

lemma shard_add: "shard_wf tab \<Longrightarrow> shard_wf (shard_add p tab k) \<and> members (shard_add p tab k) = insert p (members tab)"
  by (auto simp: shard_wf_def members_def shard_add_def distinct_update split: option.splits if_splits)

lemma shard_adds:
  "shard_wf tab \<Longrightarrow> shard_wf (foldl (shard_add p) tab ks)
    \<and> members (foldl (shard_add p) tab ks) = members tab \<union> (if ks = [] then {} else {p})"
proof (induction ks arbitrary: tab)
  case (Cons k ks)
  then show ?case using shard_add [OF Cons.prems, of p k] by auto
qed simp

text \<open>A record that names no shard at all keeps its peer out of both classes.\<close>

definition no_shards :: "PeerStore \<Rightarrow> pid \<Rightarrow> bool" where
  "no_shards s p \<longleftrightarrow> (\<exists>r rs. map_of (ENRBook s) p = Some r \<and> relaySharding r = Some rs \<and> shardIds rs = [])"

lemma peers_by_shard_classes:
  "shard_wf tab \<Longrightarrow> peers_by_shard s ps (sl, tab) = (sl', tab') \<Longrightarrow>
   shard_wf tab' \<and> set sl' \<union> members tab' = set sl \<union> members tab \<union> {p \<in> set ps. \<not> no_shards s p}"
proof (induction ps arbitrary: sl tab)
  case (Cons p ps)
  consider "no_shards s p" | rs r where "map_of (ENRBook s) p = Some r" "relaySharding r = Some rs" "shardIds rs \<noteq> []"
    | "map_of (ENRBook s) p = None \<or> (\<exists>r. map_of (ENRBook s) p = Some r \<and> relaySharding r = None)"
    by (cases "map_of (ENRBook s) p"; cases "relaySharding (the (map_of (ENRBook s) p))") (auto simp: no_shards_def)
  then show ?case
  proof cases
    case 1
    then have "peers_by_shard s ps (sl, tab) = (sl', tab')" using Cons.prems(2) by (auto simp: no_shards_def)
    then show ?thesis using Cons.IH [OF Cons.prems(1)] 1 by auto
  next
    case 2
    note add = shard_adds [OF Cons.prems(1), of p "shardIds rs"]
    have "\<not> no_shards s p" using 2 by (simp add: no_shards_def)
    then show ?thesis using Cons.IH [OF conjunct1 [OF add], of sl] Cons.prems(2) add 2 by auto
  next
    case 3
    then have "\<not> no_shards s p" by (auto simp: no_shards_def)
    then show ?thesis using Cons.IH [OF Cons.prems(1), of "sl @ [p]"] Cons.prems(2) 3 by auto
  qed
qed simp

lemma shard_average_one:
  assumes "shard_wf tab" and "tab \<noteq> []"
  shows "shard_average tab = 1"
proof -
  have "length tab \<le> sum_list (map (length \<circ> snd) tab)" if "\<forall>(k, ps) \<in> set tab. ps \<noteq> []" for tab :: shard_table
    using that
  proof (induction tab)
    case (Cons kp tab)
    obtain k ps where kp: "kp = (k, ps)" by (cases kp)
    then have "0 < length ps" using Cons.prems by simp
    moreover have "length tab \<le> sum_list (map (length \<circ> snd) tab)" using Cons by (simp add: comp_def)
    ultimately show ?case by (simp add: kp comp_def del: length_greater_0_conv)
  qed simp
  moreover have "\<forall>(k, ps) \<in> set tab. ps \<noteq> []"
    using assms(1) by (auto simp: shard_wf_def)
  ultimately have "length tab \<le> sum_list (map (length \<circ> snd) tab)" by blast
  then have "1 \<le> sum_list (map (length \<circ> snd) tab) div length tab"
    using assms(2) by (simp add: Suc_le_eq div_greater_zero_iff)
  moreover have "max 1 (length tab) = length tab" using assms(2) by (cases tab) simp_all
  ultimately show ?thesis unfolding shard_average_def by (simp add: min_def)
qed

lemma prune_shards_filled:
  assumes "\<forall>(k, ps) \<in> set tab. ps \<noteq> []" and "distinct acc" and "length acc \<le> n"
  shows "\<exists>res. prune_shards n 1 tab acc = Done res \<and> filled n acc (\<Union>(k, ps) \<in> set tab. set ps) res"
  using assms
proof (induction tab arbitrary: acc)
  case (Cons kp tab)
  obtain k ps where kp: "kp = (k, ps)" by (cases kp)
  then have one: "length ps - 1 + 1 = length ps" using Cons.prems(1) by simp
  note f = prune_peers_filled [OF Cons.prems(2,3), of ps]
  then obtain res where "prune_shards n 1 tab (prune_peers n ps acc) = Done res"
    "filled n (prune_peers n ps acc) (\<Union>(k, ps) \<in> set tab. set ps) res"
    using Cons.IH [of "prune_peers n ps acc"] Cons.prems(1) by (auto simp: filled_def)
  then show ?case using filled_trans [OF f] one by (simp add: kp Let_def)
qed (simp add: filled_refl)

definition prune_env_ok :: "prune_env \<Rightarrow> bool" where
  "prune_env_ok W \<longleftrightarrow> peer_order_ok (w_order W) \<and> (\<forall>xs. mset (w_failed W xs) = mset xs)
     \<and> (\<forall>t. mset (w_shards W t) = mset t) \<and> (\<forall>ps. mset (w_shuffle W ps) = mset ps)"

text \<open>The peers that failed too often, and those that are not connected.\<close>

definition failed_peers :: "PeerManager \<Rightarrow> pid set" where
  "failed_peers pm = {p. \<exists>c \<ge> pm_maxFailedAttempts pm. map_of (NumberFailedConnBook (pm_peerStore pm)) p = Some c}"

definition idle_peers :: "PeerManager \<Rightarrow> pid set" where
  "idle_peers pm = {p \<in> set (peer_ids (pm_peerStore pm)). \<not> isConnected (pm_peerStore pm) p \<and> \<not> no_shards (pm_peerStore pm) p}"

lemma not_connected_ids:
  assumes "peer_order_ok ord"
  shows "set (map peerId (getNotConnectedPeers ord s)) = {p \<in> set (peer_ids s). \<not> isConnected s p}"
  using set_peers [OF assms, of s] by (force simp: getNotConnectedPeers_def isConnected_get)

lemma peers_to_prune_filled:
  assumes "prune_env_ok W" and "distinct (map fst (NumberFailedConnBook (pm_peerStore pm)))"
  shows "\<exists>failed res. peers_to_prune W pm n = Done res \<and> filled n [] (failed_peers pm) failed \<and> filled n failed (idle_peers pm) res"
proof -
  let ?s = "pm_peerStore pm"
  let ?failed = "prune_failed n (pm_maxFailedAttempts pm) (w_failed W (NumberFailedConnBook ?s)) []"
  let ?nc = "w_shuffle W (map peerId (getNotConnectedPeers (w_order W) ?s))"
  have walk: "set (w_failed W xs) = set xs" "set (w_shards W t) = set t" "set (w_shuffle W ps) = set ps" for xs t ps
    using assms(1) by (metis prune_env_ok_def mset_eq_setD)+
  obtain sl tab where cl: "peers_by_shard ?s ?nc ([], []) = (sl, tab)" by fastforce
  have "shard_wf []" "members [] = {}" by (simp_all add: shard_wf_def members_def)
  with peers_by_shard_classes [OF _ cl] have wf: "shard_wf tab"
    and "set sl \<union> members tab = {p \<in> set ?nc. \<not> no_shards ?s p}" by auto
  moreover have "set ?nc = {p \<in> set (peer_ids ?s). \<not> isConnected ?s p}"
    using not_connected_ids assms(1) by (simp only: walk) (simp add: prune_env_ok_def)
  ultimately have idle: "idle_peers pm = set sl \<union> members tab" by (auto simp: idle_peers_def)
  have "{p. \<exists>c \<ge> pm_maxFailedAttempts pm. (p, c) \<in> set (w_failed W (NumberFailedConnBook ?s))} = failed_peers pm"
    using assms(2) by (auto simp: walk failed_peers_def)
  with prune_failed_filled [of "[]" n "pm_maxFailedAttempts pm" "w_failed W (NumberFailedConnBook ?s)"]
  have f: "filled n [] (failed_peers pm) ?failed" by simp
  then have s: "filled n ?failed (set sl) (prune_peers n sl ?failed)"
    by (intro prune_peers_filled) (simp_all add: filled_def)
  have "(\<Union>(k, ps) \<in> set tab. set ps) = members tab" "\<forall>(k, ps) \<in> set tab. ps \<noteq> []"
    using wf by (auto simp: members_def shard_wf_def)
  moreover have "distinct (prune_peers n sl ?failed)" "length (prune_peers n sl ?failed) \<le> n"
    using s by (simp_all add: filled_def)
  ultimately obtain res where res: "prune_shards n (shard_average tab) (w_shards W tab) (prune_peers n sl ?failed) = Done res"
    "filled n (prune_peers n sl ?failed) (members tab) res"
  proof (cases "tab = []")
    case True
    then have "w_shards W tab = []" using walk(2) [of tab] by simp
    then show ?thesis using that [of "prune_peers n sl ?failed"] s True
      by (simp add: filled_def members_def)
  next
    case False
    assume tab: "(\<Union>(k, ps) \<in> set tab. set ps) = members tab" "\<forall>(k, ps) \<in> set tab. ps \<noteq> []"
      and acc: "distinct (prune_peers n sl ?failed)" "length (prune_peers n sl ?failed) \<le> n"
    have "\<forall>(k, ps) \<in> set (w_shards W tab). ps \<noteq> []" using tab(2) by (simp add: walk)
    from prune_shards_filled [OF this acc] show ?thesis
      using that tab(1) by (auto simp: shard_average_one [OF wf False] walk)
  qed
  have "peers_to_prune W pm n = Done res" by (simp add: peers_to_prune_def Let_def cl res(1))
  then show ?thesis using f filled_trans [OF s res(2)] unfolding idle by blast
qed

lemma fold_delete:
  "p \<notin> set ps \<Longrightarrow> get_peer (fold delete_peer ps s) p = get_peer s p"
  "set (peer_ids (fold delete_peer ps s)) = set (peer_ids s) - set ps"
  "distinct (map fst (AddressBook s)) \<Longrightarrow> length (AddressBook s) \<le> length (AddressBook (fold delete_peer ps s)) + length ps"
proof -
  show "p \<notin> set ps \<Longrightarrow> get_peer (fold delete_peer ps s) p = get_peer s p"
    by (induction ps arbitrary: s) (simp_all add: get_deleted)
  show "set (peer_ids (fold delete_peer ps s)) = set (peer_ids s) - set ps"
    by (induction ps arbitrary: s) (auto simp: peer_ids_deleted)
  have one: "distinct (map fst b) \<Longrightarrow> length b \<le> Suc (length (AList.delete q b))" for q and b :: "'b book"
  proof -
    assume "distinct (map fst b)"
    then have "length (map fst (AList.delete q b)) = length (remove1 q (map fst b))"
      by (simp add: AList.delete_keys distinct_remove1_removeAll)
    then show "length b \<le> Suc (length (AList.delete q b))" by (simp add: length_remove1 split: if_splits)
  qed
  show "distinct (map fst (AddressBook s)) \<Longrightarrow> length (AddressBook s) \<le> length (AddressBook (fold delete_peer ps s)) + length ps"
  proof (induction ps arbitrary: s)
    case (Cons q ps)
    have a: "AddressBook (delete_peer q s) = AList.delete q (AddressBook s)" by (simp add: delete_peer_def)
    then have "distinct (map fst (AddressBook (delete_peer q s)))" using Cons.prems by (simp add: distinct_delete)
    from Cons.IH [OF this] one [OF Cons.prems, of q] show ?case by (simp add: a)
  qed simp
qed

text \<open>C32: what a full store forgets. When more peers have addresses than the store is to hold, pruning
  always ends, and the peers it forgets are: as many as there are too many, or all that may go, if those
  are fewer; only peers whose attempts failed too often, even if they are connected now, and peers
  that are not connected; the first kind before any of the second. It never goes below the capacity, and what is
  known of every other peer stays. A peer whose record names no shard at all is never in the second
  kind, and how many peers a shard has makes no difference.\<close>

theorem prune_exact:
  assumes "prune_env_ok W" and "s = pm_peerStore pm" and "distinct (map fst (AddressBook s))"
    and "distinct (map fst (NumberFailedConnBook s))" and "capacity s < length (AddressBook s)"
  shows "\<exists>gone s'. prunePeerStore W pm = Done (pm\<lparr>pm_peerStore := s'\<rparr>)
    \<and> set (peer_ids s') = set (peer_ids s) - gone \<and> (\<forall>p. p \<notin> gone \<longrightarrow> get_peer s' p = get_peer s p)
    \<and> gone \<subseteq> failed_peers pm \<union> idle_peers pm
    \<and> card gone = min (length (AddressBook s) - capacity s) (card (failed_peers pm \<union> idle_peers pm))
    \<and> (gone \<subseteq> failed_peers pm \<or> failed_peers pm \<subseteq> gone) \<and> capacity s \<le> length (AddressBook s')"
proof -
  let ?n = "length (AddressBook s) - capacity s"
  obtain failed res where r: "peers_to_prune W pm ?n = Done res" and f: "filled ?n [] (failed_peers pm) failed"
    and i: "filled ?n failed (idle_peers pm) res"
    using peers_to_prune_filled [OF assms(1)] assms(2,4) by blast
  have all: "filled ?n [] (failed_peers pm \<union> idle_peers pm) res" by (rule filled_trans [OF f i])
  let ?s' = "fold delete_peer res s"
  have "prunePeerStore W pm = Done (pm\<lparr>pm_peerStore := ?s'\<rparr>)"
    using r assms(5) by (simp add: prunePeerStore_def Let_def assms(2) [symmetric])
  moreover have "card (set res) = min ?n (card (failed_peers pm \<union> idle_peers pm))"
  proof -
    have "finite (dom (map_of (NumberFailedConnBook s)))" by (rule finite_dom_map_of)
    moreover have "failed_peers pm \<subseteq> dom (map_of (NumberFailedConnBook s))" by (auto simp: failed_peers_def assms(2))
    ultimately have fin: "finite (failed_peers pm \<union> idle_peers pm)"
      using finite_subset by (auto simp: idle_peers_def)
    have "card (set res) = length res" "length res \<le> ?n" "set res \<subseteq> failed_peers pm \<union> idle_peers pm"
      "length res < ?n \<longrightarrow> set res = failed_peers pm \<union> idle_peers pm"
      using all by (simp_all add: filled_def distinct_card)
    moreover from this have "card (set res) \<le> card (failed_peers pm \<union> idle_peers pm)" using card_mono [OF fin] by blast
    ultimately show ?thesis by (cases "length res < ?n") auto
  qed
  moreover have "set res \<subseteq> failed_peers pm \<or> failed_peers pm \<subseteq> set res"
  proof (cases "length failed < ?n")
    case True
    then show ?thesis using f i by (auto simp: filled_def)
  next
    case False
    have "card (set res) \<le> card (set failed)" using f i False by (simp add: filled_def distinct_card)
    moreover have "set failed \<subseteq> set res" using i by (simp add: filled_def)
    ultimately have "set failed = set res" by (intro card_seteq) simp_all
    then show ?thesis using f by (auto simp: filled_def)
  qed
  moreover have "capacity s \<le> length (AddressBook ?s')"
  proof -
    have "length res \<le> ?n" using all by (simp add: filled_def)
    then show ?thesis using fold_delete(3) [OF assms(3), of res] assms(5) by linarith
  qed
  moreover have "set res \<subseteq> failed_peers pm \<union> idle_peers pm" using all by (simp add: filled_def)
  ultimately show ?thesis
    by (intro exI [of _ "set res"] exI [of _ ?s']) (simp add: fold_delete)
qed

text \<open>A store for one peer that knows three: one failed five times and is connected, one is not connected, one is.\<close>

definition full_store :: PeerStore where
  "full_store = no_peers\<lparr>AddressBook := [(''a'', []), (''b'', []), (''c'', [])],
     ConnectionBook := [(''a'', Connected), (''c'', Connected)], NumberFailedConnBook := [(''a'', 5), (''c'', 1)],
     capacity := 1\<rparr>"

theorem prune_exact_witness:
  "\<exists>s'. prunePeerStore \<lparr>w_order = id, w_failed = id, w_shards = id, w_shuffle = id\<rparr>
      (sample_manager\<lparr>pm_peerStore := full_store\<rparr>) = Done (sample_manager\<lparr>pm_peerStore := s'\<rparr>)
    \<and> set (peer_ids s') = {''c''}"
proof -
  let ?W = "\<lparr>w_order = id, w_failed = id, w_shards = id, w_shuffle = id\<rparr>" and ?pm = "sample_manager\<lparr>pm_peerStore := full_store\<rparr>"
  have W: "prune_env_ok ?W" by (simp add: prune_env_ok_def peer_order_ok_def)
  have s: "full_store = pm_peerStore ?pm" "distinct (map fst (AddressBook full_store))"
    "distinct (map fst (NumberFailedConnBook full_store))" "capacity full_store < length (AddressBook full_store)"
    by (simp_all add: full_store_def)
  have ids: "set (peer_ids full_store) = {''a'', ''b'', ''c''}"
    by (auto simp: full_store_def no_peers_def peer_ids_def book_keys_def)
  have cand: "failed_peers ?pm \<union> idle_peers ?pm = {''a'', ''b''}"
    by (auto simp: failed_peers_def idle_peers_def ids, auto simp: full_store_def sample_manager_def isConnected_def
        connectedness_of_def book_get_def no_shards_def no_peers_def split: if_splits)
  have two: "length (AddressBook full_store) - capacity full_store = 2" by (simp add: full_store_def)
  obtain gone s' where g: "prunePeerStore ?W ?pm = Done (?pm\<lparr>pm_peerStore := s'\<rparr>)" "set (peer_ids s') = set (peer_ids full_store) - gone"
    "gone \<subseteq> {''a'', ''b''}" "card gone = min 2 (card {''a'', ''b''})"
    using prune_exact [OF W s] unfolding cand two by blast
  have "card {''a'', ''b''} = 2" by simp
  with g(3,4) have "gone = {''a'', ''b''}" by (intro card_seteq) simp_all
  then have "set (peer_ids s') = {''c''}" using g(2) by (auto simp: ids)
  with g(1) show ?thesis by auto
qed

section \<open>Keeping enough relay peers\<close>

lemma keep_exec_Done:
  "keep_exec f xs = Done ys \<Longrightarrow> ys = filter (\<lambda>x. f x = Done True) xs"
  by (induction xs arbitrary: ys) auto

lemma keep_exec_total: "\<forall>x \<in> set xs. \<exists>b. f x = Done b \<Longrightarrow> \<exists>ys. keep_exec f xs = Done ys"
proof (induction xs)
  case (Cons x xs)
  then obtain b ys where "f x = Done b" "keep_exec f xs = Done ys" by auto
  then show ?case by simp
qed simp

lemma connectRelay_target: "connectRelay pm info ok time = (b, pm', eff) \<Longrightarrow> pm_outRelayPeersTarget pm' = pm_outRelayPeersTarget pm"
  by (auto simp: connectRelay_def addPeer_def Let_def split: if_splits prod.splits)

lemma connectToNodes_target:
  "connectToNodes pm connects time nodes = (pm', eff) \<Longrightarrow> pm_outRelayPeersTarget pm' = pm_outRelayPeersTarget pm"
proof (induction nodes arbitrary: pm' eff rule: rev_induct)
  case (snoc x xs)
  obtain q e where q: "connectToNodes pm connects time xs = (q, e)" by fastforce
  moreover obtain b q' e' where "connectRelay q x (connects (peerId x)) time = (b, q', e')" by (metis prod_cases3)
  ultimately show ?case using snoc.prems snoc.IH [OF q] connectRelay_target
    by (fastforce simp: connectToNodes_def)
qed (simp add: connectToNodes_def)

lemma connectToNodes_append:
  assumes "connectToNodes pm connects time xs = (q, e)" and "connectToNodes q connects time ys = (r, e')"
  shows "connectToNodes pm connects time (xs @ ys) = (r, e @ e')"
proof -
  let ?f = "\<lambda>(pm, eff) peer. let (ok, pm', eff') = connectRelay pm peer (connects (peerId peer)) time in (pm', eff @ eff')"
  have "foldl ?f (q, e) ys = (let (r, e') = foldl ?f (q, []) ys in (r, e @ e'))"
  proof (induction ys rule: rev_induct)
    case (snoc y ys)
    then show ?case by (simp add: Let_def split: prod.splits)
  qed simp
  then show ?thesis using assms by (simp add: connectToNodes_def)
qed

text \<open>The outbound relay peers once the first \<open>k\<close> of \<open>ps\<close> were dialled.\<close>

definition out_after :: "(pid list \<Rightarrow> connections) \<Rightarrow> RemotePeerInfo list \<Rightarrow> nat \<Rightarrow> int" where
  "out_after conns ps k = int (length (snd (connectedPeers (conns (map peerId (take k ps))) WakuRelayCodec)))"

lemma connect_batches_end:
  assumes "index + pending = length ps" and "int (length out) = out_after conns ps index" and "MaxParallelDials dvd index"
  shows "\<exists>n pm' eff'. connect_batches conns connects time ps index pending out (pm, eff) = Done (n, pm', eff')
    \<and> index \<le> n \<and> n \<le> length ps \<and> (n = length ps \<or> out_after conns ps n \<ge> pm_outRelayPeersTarget pm)
    \<and> (\<forall>k. MaxParallelDials dvd k \<and> index \<le> k \<and> k < n \<longrightarrow> out_after conns ps k < pm_outRelayPeersTarget pm)
    \<and> (\<exists>e. connectToNodes pm connects time (take (n - index) (drop index ps)) = (pm', e) \<and> eff' = eff @ e)"
  using assms
proof (induction pending arbitrary: index out pm eff rule: less_induct)
  case (less pending)
  note 1 = less
  show ?case
  proof (cases "pending > 0 \<and> int (length out) < pm_outRelayPeersTarget pm")
    case True
    let ?n = "min pending MaxParallelDials"
    have fits: "\<not> index + ?n > length ps" using 1(2) by simp
    obtain q e where q: "connectToNodes pm connects time (take ?n (drop index ps)) = (q, e)" by fastforce
    note target = connectToNodes_target [OF q]
    let ?out = "snd (connectedPeers (conns (map peerId (take (index + ?n) ps))) WakuRelayCodec)"
    have step: "connect_batches conns connects time ps index pending out (pm, eff) =
        connect_batches conns connects time ps (index + ?n) (pending - ?n) ?out (q, eff @ e)"
      using True fits q by (subst connect_batches.simps) (simp add: Let_def)
    show ?thesis
    proof (cases "pending \<le> MaxParallelDials")
      case True
      then have n: "?n = pending" by simp
      have "connect_batches conns connects time ps (index + ?n) (pending - ?n) ?out (q, eff @ e) = Done (length ps, q, eff @ e)"
        unfolding n using 1(2) by (subst connect_batches.simps) simp
      moreover have "k = index" if "MaxParallelDials dvd k" "index \<le> k" "k < length ps" for k
      proof -
        have "MaxParallelDials dvd k - index" using that(1) 1(4) by (rule dvd_diff_nat)
        moreover have "k - index < MaxParallelDials" using that True 1(2) by linarith
        ultimately have "k - index = 0" using nat_dvd_not_less by blast
        then show ?thesis using that(2) by simp
      qed
      moreover have "length ps - index = pending" using 1(2) by simp
      ultimately show ?thesis using step 1(2,3) \<open>pending > 0 \<and> _\<close> q unfolding n by auto
    next
      case False
      then have n: "?n = MaxParallelDials" by simp
      let ?next = "connect_batches conns connects time ps (index + ?n) (pending - ?n) ?out (q, eff @ e)"
      have "\<exists>n pm' eff'. ?next = Done (n, pm', eff')
        \<and> index + ?n \<le> n \<and> n \<le> length ps \<and> (n = length ps \<or> out_after conns ps n \<ge> pm_outRelayPeersTarget q)
        \<and> (\<forall>k. MaxParallelDials dvd k \<and> index + ?n \<le> k \<and> k < n \<longrightarrow> out_after conns ps k < pm_outRelayPeersTarget q)
        \<and> (\<exists>e'. connectToNodes q connects time (take (n - (index + ?n)) (drop (index + ?n) ps)) = (pm', e') \<and> eff' = (eff @ e) @ e')"
        (is "\<exists>n pm' eff'. _ \<and> ?P n pm' eff'")
        by (rule 1(1)) (use 1(2,4) n False in \<open>simp_all add: out_after_def MaxParallelDials_def\<close>)
      then obtain n pm' eff' where r: "?next = Done (n, pm', eff')" "?P n pm' eff'" by blast
      have "k = index \<or> index + ?n \<le> k" if "MaxParallelDials dvd k" "index \<le> k" for k
      proof (rule ccontr)
        assume "\<not> ?thesis"
        then have "0 < k - index" "k - index < MaxParallelDials" using that(2) n by auto
        moreover have "MaxParallelDials dvd k - index" using that(1) 1(4) by (rule dvd_diff_nat)
        ultimately show False using nat_dvd_not_less by blast
      qed
      then have "\<forall>k. MaxParallelDials dvd k \<and> index \<le> k \<and> k < n \<longrightarrow> out_after conns ps k < pm_outRelayPeersTarget pm"
        using r(2) target 1(3) True by fastforce
      moreover have "\<exists>e. connectToNodes pm connects time (take (n - index) (drop index ps)) = (pm', e) \<and> eff' = eff @ e"
      proof -
        from r(2) obtain e' where e': "connectToNodes q connects time (take (n - (index + ?n)) (drop (index + ?n) ps)) = (pm', e')"
          "eff' = (eff @ e) @ e'" and le: "index + ?n \<le> n" by blast
        have "take (n - index) (drop index ps) = take ?n (drop index ps) @ take (n - (index + ?n)) (drop (index + ?n) ps)"
          using le take_add [of ?n "n - (index + ?n)" "drop index ps"] by (simp add: add.commute)
        then show ?thesis using connectToNodes_append [OF q e'(1)] e'(2) by simp
      qed
      ultimately show ?thesis using r step target by (intro exI [of _ n] exI [of _ pm'] exI [of _ eff']) simp
    qed
  next
    case False
    then have "connect_batches conns connects time ps index pending out (pm, eff) = Done (index, pm, eff)"
      by (subst connect_batches.simps) auto
    then show ?thesis using False 1(2,3) by (auto simp: connectToNodes_def)
  qed
qed

lemma candidates:
  assumes "peer_order_ok ord"
    and "keep_exec (\<lambda>it. canBeConnected pm time (peerId it))
      (map (\<lambda>it. init_peer (peerId it) (addrs it)) (getNotConnectedPeers ord (pm_peerStore pm))) = Done ys"
  shows "set (map peerId ys) = {p \<in> set (peer_ids (pm_peerStore pm)). \<not> isConnected (pm_peerStore pm) p
      \<and> canBeConnected pm time p = Done True}" and "distinct (map peerId ys)"
proof -
  let ?nc = "getNotConnectedPeers ord (pm_peerStore pm)"
  have ids: "peerId (init_peer p as) = p" for p as by (simp add: init_peer_def)
  have ys: "map peerId ys = filter (\<lambda>p. canBeConnected pm time p = Done True) (map peerId ?nc)"
    using keep_exec_Done [OF assms(2)] by (simp add: filter_map comp_def ids)
  show "set (map peerId ys) = {p \<in> set (peer_ids (pm_peerStore pm)). \<not> isConnected (pm_peerStore pm) p
      \<and> canBeConnected pm time p = Done True}"
    unfolding ys using not_connected_ids [OF assms(1), of "pm_peerStore pm"] by auto
  have "distinct (map peerId ?nc)"
    using distinct_peers [OF assms(1), of "pm_peerStore pm"] by (simp add: getNotConnectedPeers_def distinct_map_filter)
  then show "distinct (map peerId ys)" unfolding ys by simp
qed

text \<open>The round that keeps a node connected ends and does what it has to. Whatever the
  connections do while it runs, it dials peers in batches of ten, in an order of its own, out of
  exactly the known peers that are neither connected nor to be left alone, each at most once; it stops after the
  first batch that brings the outbound relay peers to the target, or when there is no peer
  left, and never begins a batch once the target is reached; no slice is out of range.\<close>

theorem relay_connectivity:
  assumes "peer_order_ok ord" and "\<forall>xs. mset (sh xs) = mset xs"
    and "\<forall>p \<in> set (peer_ids (pm_peerStore pm)). \<exists>b. canBeConnected pm time p = Done b"
  shows "\<exists>n ps pm' eff. connectToRelayPeers ord sh conns connects time pm = Done (n, pm', eff)
    \<and> set (map peerId ps) = {p \<in> set (peer_ids (pm_peerStore pm)). \<not> isConnected (pm_peerStore pm) p
        \<and> canBeConnected pm time p = Done True} \<and> distinct (map peerId ps)
    \<and> connectToNodes pm connects time (take n ps) = (pm', eff) \<and> n \<le> length ps
    \<and> (n = length ps \<or> pm_outRelayPeersTarget pm \<le> out_after conns ps n)
    \<and> (\<forall>k. MaxParallelDials dvd k \<and> k < n \<longrightarrow> out_after conns ps k < pm_outRelayPeersTarget pm)"
proof -
  let ?nc = "map (\<lambda>it. init_peer (peerId it) (addrs it)) (getNotConnectedPeers ord (pm_peerStore pm))"
  have "\<forall>x \<in> set ?nc. \<exists>b. canBeConnected pm time (peerId x) = Done b"
  proof
    fix x assume "x \<in> set ?nc"
    then have "peerId x \<in> set (map peerId (getNotConnectedPeers ord (pm_peerStore pm)))" by (auto simp: init_peer_def)
    then have "peerId x \<in> set (peer_ids (pm_peerStore pm))" unfolding not_connected_ids [OF assms(1)] by simp
    then show "\<exists>b. canBeConnected pm time (peerId x) = Done b" by (rule bspec [OF assms(3)])
  qed
  from keep_exec_total [OF this]
  obtain ys where ys: "keep_exec (\<lambda>it. canBeConnected pm time (peerId it)) ?nc = Done ys" ..
  have set: "set (sh ys) = set ys" using assms(2) by (metis mset_eq_setD)
  have dist: "distinct (map peerId (sh ys))"
  proof -
    have "mset (map peerId (sh ys)) = mset (map peerId ys)" using assms(2) by simp
    then show ?thesis using candidates(2) [OF assms(1) ys] mset_eq_imp_distinct_iff by blast
  qed
  have cand: "set (map peerId (sh ys)) = {p \<in> set (peer_ids (pm_peerStore pm)). \<not> isConnected (pm_peerStore pm) p
      \<and> canBeConnected pm time p = Done True}"
    using candidates(1) [OF assms(1) ys] set by simp
  let ?out = "snd (connectedPeers (conns []) WakuRelayCodec)"
  show ?thesis
  proof (cases "int (length ?out) \<ge> pm_outRelayPeersTarget pm")
    case True
    then have "connectToRelayPeers ord sh conns connects time pm = Done (0, pm, [])"
      by (simp add: connectToRelayPeers_def Let_def)
    moreover have "pm_outRelayPeersTarget pm \<le> out_after conns (sh ys) 0" using True by (simp add: out_after_def)
    ultimately show ?thesis using cand dist by (intro exI [of _ 0] exI [of _ "sh ys"]) (simp add: connectToNodes_def)
  next
    case False
    have run: "connectToRelayPeers ord sh conns connects time pm =
        connect_batches conns connects time (sh ys) 0 (length (sh ys)) ?out (pm, [])"
      using False ys by (simp add: connectToRelayPeers_def Let_def)
    have "int (length ?out) = out_after conns (sh ys) 0" by (simp add: out_after_def)
    from connect_batches_end [OF _ this, of "length (sh ys)" connects time pm "[]"]
    obtain n pm' eff where "connect_batches conns connects time (sh ys) 0 (length (sh ys)) ?out (pm, []) = Done (n, pm', eff)"
      "n \<le> length (sh ys)" "n = length (sh ys) \<or> out_after conns (sh ys) n \<ge> pm_outRelayPeersTarget pm"
      "\<forall>k. MaxParallelDials dvd k \<and> k < n \<longrightarrow> out_after conns (sh ys) k < pm_outRelayPeersTarget pm"
      "connectToNodes pm connects time (take n (sh ys)) = (pm', eff)"
      by auto
    then show ?thesis using cand dist run by (intro exI [of _ n] exI [of _ "sh ys"] exI [of _ pm'] exI [of _ eff]) simp
  qed
qed

text \<open>The store above, with one peer to dial, which connects.\<close>

theorem relay_connectivity_witness:
  "\<exists>pm' eff. connectToRelayPeers id id (\<lambda>ds. map (\<lambda>p. (p, [(False, [(WakuRelayCodec, False)])])) ds) (\<lambda>_. True) 0
      (sample_manager\<lparr>pm_peerStore := full_store\<rparr>) = Done (1, pm', eff)"
proof -
  let ?pm = "sample_manager\<lparr>pm_peerStore := full_store\<rparr>" and ?conns = "\<lambda>ds. map (\<lambda>p. (p, [(False, [(WakuRelayCodec, False)])])) ds"
  have ids: "set (peer_ids full_store) = {''a'', ''b'', ''c''}"
    by (auto simp: full_store_def no_peers_def peer_ids_def book_keys_def)
  have can: "canBeConnected ?pm 0 ''b'' = Done True" "canBeConnected ?pm 0 ''a'' = Done False"
    "canBeConnected ?pm 0 ''c'' = Done False"
    by (simp_all add: canBeConnected_def full_store_def sample_manager_def no_peers_def book_get_def calculateBackoff_def
        seconds_def int64_def)
  have one: "{p \<in> set (peer_ids (pm_peerStore ?pm)). \<not> isConnected (pm_peerStore ?pm) p \<and> canBeConnected ?pm 0 p = Done True} = {''b''}"
    using can by (auto simp: ids) (simp_all add: full_store_def isConnected_def connectedness_of_def book_get_def)
  have env: "peer_order_ok id" "\<forall>xs :: RemotePeerInfo list. mset (id xs) = mset xs" by (simp_all add: peer_order_ok_def)
  have total: "\<forall>p \<in> set (peer_ids (pm_peerStore ?pm)). \<exists>b. canBeConnected ?pm 0 p = Done b" using can by (auto simp: ids)
  obtain n ps pm' eff where r: "connectToRelayPeers id id ?conns (\<lambda>_. True) 0 ?pm = Done (n, pm', eff)"
    "set (map peerId ps) = {''b''}" "distinct (map peerId ps)" "n \<le> length ps"
    "n = length ps \<or> pm_outRelayPeersTarget ?pm \<le> out_after ?conns ps n"
    using relay_connectivity [OF env total, of ?conns "\<lambda>_. True", unfolded one]
    by (elim exE conjE) (rule that; assumption)
  have "length ps = 1" using r(2,3) distinct_card [OF r(3)] by simp
  moreover have "out_after ?conns ps n < 13" using r(4) calculation
    by (cases n) (simp_all add: out_after_def connectedPeers_def peers_with_def comp_def)
  ultimately have "n = 1" using r(5) by (simp add: sample_manager_def)
  then show ?thesis using r(1) by blast
qed

end
