(* ===== verification/Relay.thy ===== *)
theory Relay
  imports Codecs
begin

text \<open>
  Relay, \<^verbatim>\<open>waku/waku_relay/protocol.nim\<close>: the thin layer on libp2p's GossipSub. GossipSub is a
  parameter, the record \<open>pubsub\<close> of the operations the code calls, with the laws of its tables as the
  locale \<open>gossip\<close>. A handler given to GossipSub is a closure: it has an identity, by which it is
  removed again, and the handler it wraps. Scoring parameters, mesh, start and stop belong to libp2p.
\<close>

section \<open>GossipSub\<close>

record 'h TopicHandler =
  th_id :: nat
  th_handler :: 'h

text \<open>
  The table of topics with their handlers, the number of validators of a topic (a set of closures, of
  which each call adds a new one), publishing: the number of peers the data was sent to.
\<close>

record ('h, 'g) pubsub =
  ps_topics :: "'g \<Rightarrow> PubsubTopic list"
  ps_handlers :: "'g \<Rightarrow> PubsubTopic \<Rightarrow> 'h TopicHandler list option"
  ps_validators :: "'g \<Rightarrow> PubsubTopic \<Rightarrow> nat"
  ps_subscribe :: "PubsubTopic \<Rightarrow> 'h TopicHandler \<Rightarrow> 'g \<Rightarrow> 'g"
  ps_unsubscribe :: "PubsubTopic \<Rightarrow> 'h TopicHandler \<Rightarrow> 'g \<Rightarrow> 'g"
  ps_unsubscribeAll :: "PubsubTopic \<Rightarrow> 'g \<Rightarrow> 'g"
  ps_addValidator :: "PubsubTopic \<Rightarrow> 'g \<Rightarrow> 'g"
  ps_publish :: "PubsubTopic \<Rightarrow> bytes \<Rightarrow> 'g \<Rightarrow> int"

text \<open>What \<^verbatim>\<open>getOrDefault\<close> gives, and a list of handlers that is removed when it is empty.\<close>

definition or_nil :: "'a list option \<Rightarrow> 'a list" where
  "or_nil xs = (case xs of None \<Rightarrow> [] | Some ys \<Rightarrow> ys)"

definition nonempty :: "'a list \<Rightarrow> 'a list option" where
  "nonempty xs = (if xs = [] then None else Some xs)"

lemma or_nil_simps [simp]: "or_nil None = []" "or_nil (Some xs) = xs" "or_nil (nonempty xs) = xs"
  by (simp_all add: or_nil_def nonempty_def)

lemma nonempty_simps [simp]: "nonempty xs = None \<longleftrightarrow> xs = []" "nonempty xs = Some ys \<longleftrightarrow> xs = ys \<and> ys \<noteq> []"
  "nonempty [] = None" "nonempty (x # xs) = Some (x # xs)" "nonempty (xs @ [x]) = Some (xs @ [x])"
  by (auto simp: nonempty_def)

locale gossip =
  fixes G :: "('h, 'g) pubsub"
  assumes topics_keys: "set (ps_topics G g) = {t. ps_handlers G g t \<noteq> None}"
    and subscribe_handlers: "ps_handlers G (ps_subscribe G t h g) = (ps_handlers G g)(t \<mapsto> or_nil (ps_handlers G g t) @ [h])"
    and unsubscribe_handlers: "ps_handlers G (ps_unsubscribe G t h g) =
      (ps_handlers G g)(t := nonempty (filter (\<lambda>x. x \<noteq> h) (or_nil (ps_handlers G g t))))"
    and unsubscribeAll_handlers: "ps_handlers G (ps_unsubscribeAll G t g) = (ps_handlers G g)(t := None)"
    and addValidator_handlers: "ps_handlers G (ps_addValidator G t g) = ps_handlers G g"
    and subscribe_validators: "ps_validators G (ps_subscribe G t h g) = ps_validators G g"
    and unsubscribe_validators: "ps_validators G (ps_unsubscribe G t h g) = ps_validators G g"
    and unsubscribeAll_validators: "ps_validators G (ps_unsubscribeAll G t g) = ps_validators G g"
    and addValidator_validators: "ps_validators G (ps_addValidator G t g) = (ps_validators G g)(t := Suc (ps_validators G g t))"
begin

lemmas gossip_handlers = subscribe_handlers unsubscribe_handlers unsubscribeAll_handlers addValidator_handlers
lemmas gossip_validators = subscribe_validators unsubscribe_validators unsubscribeAll_validators addValidator_validators

end

section \<open>The state of the relay\<close>

datatype ValidationResult = Accept | Reject | Ignore

type_synonym WakuValidatorHandler = "PubsubTopic \<Rightarrow> WakuMessage \<Rightarrow> ValidationResult"

text \<open>
  \<^verbatim>\<open>validatorInserted\<close> is a table that is only asked for its keys; \<open>next_closure\<close> is the identity of
  the next closure that is made.
\<close>

record 'g WakuRelay =
  w_gossip :: 'g
  wakuValidators :: "(WakuValidatorHandler \<times> string) list"
  validatorInserted :: "PubsubTopic set"
  maxMessageSize :: int
  next_closure :: nat

definition new_relay :: "'g \<Rightarrow> int \<Rightarrow> 'g WakuRelay" where
  "new_relay g maxSize =
     \<lparr>w_gossip = g, wakuValidators = [], validatorInserted = {}, maxMessageSize = maxSize, next_closure = 0\<rparr>"

definition addValidator :: "WakuValidatorHandler \<Rightarrow> string \<Rightarrow> 'g WakuRelay \<Rightarrow> 'g WakuRelay" where
  "addValidator handler errorMessage w = w\<lparr>wakuValidators := wakuValidators w @ [(handler, errorMessage)]\<rparr>"

definition relay_isSubscribed :: "('h, 'g) pubsub \<Rightarrow> 'g WakuRelay \<Rightarrow> PubsubTopic \<Rightarrow> bool" where
  "relay_isSubscribed G w topic \<longleftrightarrow> ps_handlers G (w_gossip w) topic \<noteq> None"

definition subscribedTopics :: "('h, 'g) pubsub \<Rightarrow> 'g WakuRelay \<Rightarrow> PubsubTopic list" where
  "subscribedTopics G w = ps_topics G (w_gossip w)"

section \<open>Validation\<close>

fun ordered_validate :: "(WakuValidatorHandler \<times> string) list \<Rightarrow> PubsubTopic \<Rightarrow> WakuMessage \<Rightarrow> ValidationResult" where
  "ordered_validate [] pubsubTopic msg = Accept"
| "ordered_validate ((validator, _) # vs) pubsubTopic msg =
     (let validatorRes = validator pubsubTopic msg
      in if validatorRes \<noteq> Accept then validatorRes else ordered_validate vs pubsubTopic msg)"

definition generateOrderedValidator :: "pbuf \<Rightarrow> 'g WakuRelay \<Rightarrow> PubsubTopic \<Rightarrow> bytes \<Rightarrow> ValidationResult" where
  "generateOrderedValidator P w pubsubTopic data =
     (case decode_message P data of
        Inl e \<Rightarrow> Reject
      | Inr msg \<Rightarrow> ordered_validate (wakuValidators w) pubsubTopic msg)"

fun validate_loop :: "(WakuValidatorHandler \<times> string) list \<Rightarrow> PubsubTopic \<Rightarrow> WakuMessage \<Rightarrow> string + unit" where
  "validate_loop [] pubsubTopic msg = Inr ()"
| "validate_loop ((validator, message) # vs) pubsubTopic msg =
     (if validator pubsubTopic msg \<noteq> Accept
      then (if length message > 0 then Inl message else Inl ''validator failed'')
      else validate_loop vs pubsubTopic msg)"

definition size_exceeded :: "int \<Rightarrow> string" where
  "size_exceeded maxSize = ''Message size exceeded maximum of '' @ show_int maxSize @ '' bytes''"

definition validateMessage :: "pbuf \<Rightarrow> 'g WakuRelay \<Rightarrow> PubsubTopic \<Rightarrow> WakuMessage \<Rightarrow> string + unit" where
  "validateMessage P w pubsubTopic msg =
     (if int (length (encode_message P msg)) > maxMessageSize w then Inl (size_exceeded (maxMessageSize w))
      else validate_loop (wakuValidators w) pubsubTopic msg)"

lemma validate_loop_ok: "validate_loop vs t m = Inr () \<longleftrightarrow> ordered_validate vs t m = Accept"
  by (induction vs t m rule: validate_loop.induct) (auto simp: Let_def)

section \<open>Subscriptions\<close>

text \<open>The closure around a handler: what is called for the data GossipSub hands it.\<close>

definition wrapped_handler :: "pbuf \<Rightarrow> 'h TopicHandler \<Rightarrow> PubsubTopic \<Rightarrow> bytes \<Rightarrow> ('h \<times> PubsubTopic \<times> WakuMessage) option" where
  "wrapped_handler P handler pubsubTopic data =
     (case decode_message P data of Inl e \<Rightarrow> None | Inr m \<Rightarrow> Some (th_handler handler, pubsubTopic, m))"

definition relay_subscribe ::
  "('h, 'g) pubsub \<Rightarrow> PubsubTopic \<Rightarrow> 'h \<Rightarrow> 'g WakuRelay \<Rightarrow> 'h TopicHandler \<times> 'g WakuRelay" where
  "relay_subscribe G pubsubTopic handler w =
     (let wrappedHandler = \<lparr>th_id = next_closure w, th_handler = handler\<rparr>;
          w = w\<lparr>next_closure := Suc (next_closure w)\<rparr>;
          w = (if pubsubTopic \<notin> validatorInserted w
               then w\<lparr>w_gossip := ps_addValidator G pubsubTopic (w_gossip w),
                      validatorInserted := insert pubsubTopic (validatorInserted w)\<rparr>
               else w)
      in (wrappedHandler, w\<lparr>w_gossip := ps_subscribe G pubsubTopic wrappedHandler (w_gossip w)\<rparr>))"

definition relay_unsubscribeAll :: "('h, 'g) pubsub \<Rightarrow> PubsubTopic \<Rightarrow> 'g WakuRelay \<Rightarrow> 'g WakuRelay" where
  "relay_unsubscribeAll G pubsubTopic w =
     w\<lparr>w_gossip := ps_unsubscribeAll G pubsubTopic (w_gossip w),
       validatorInserted := validatorInserted w - {pubsubTopic}\<rparr>"

definition relay_unsubscribe :: "('h, 'g) pubsub \<Rightarrow> PubsubTopic \<Rightarrow> 'h TopicHandler \<Rightarrow> 'g WakuRelay \<Rightarrow> 'g WakuRelay" where
  "relay_unsubscribe G pubsubTopic handler w = w\<lparr>w_gossip := ps_unsubscribe G pubsubTopic handler (w_gossip w)\<rparr>"

definition relay_publish :: "pbuf \<Rightarrow> ('h, 'g) pubsub \<Rightarrow> 'g WakuRelay \<Rightarrow> PubsubTopic \<Rightarrow> WakuMessage \<Rightarrow> int" where
  "relay_publish P G w pubsubTopic message = ps_publish G pubsubTopic (encode_message P message) (w_gossip w)"

text \<open>What the closures of a topic call for data that GossipSub hands them, first to last.\<close>

definition relay_deliver ::
  "pbuf \<Rightarrow> ('h, 'g) pubsub \<Rightarrow> 'g WakuRelay \<Rightarrow> PubsubTopic \<Rightarrow> bytes \<Rightarrow> ('h \<times> PubsubTopic \<times> WakuMessage) list" where
  "relay_deliver P G w pubsubTopic data =
     List.map_filter (\<lambda>h. wrapped_handler P h pubsubTopic data) (or_nil (ps_handlers G (w_gossip w) pubsubTopic))"


section \<open>An instance of GossipSub\<close>

text \<open>The two tables, as lists of pairs with distinct keys.\<close>

record 'h tables =
  tb_topics :: "(PubsubTopic \<times> 'h TopicHandler list) list"
  tb_validators :: "PubsubTopic \<Rightarrow> nat"

definition table_set :: "'k \<Rightarrow> 'v option \<Rightarrow> ('k \<times> 'v) list \<Rightarrow> ('k \<times> 'v) list" where
  "table_set k v xs = (case v of None \<Rightarrow> [] | Some y \<Rightarrow> [(k, y)]) @ filter (\<lambda>x. fst x \<noteq> k) xs"

lemma map_of_table_set [simp]: "map_of (table_set k v xs) = (map_of xs)(k := v)"
proof
  fix x
  have "map_of (filter (\<lambda>x. fst x \<noteq> k) xs) x = (if x = k then None else map_of xs x)"
    by (induction xs) auto
  then show "map_of (table_set k v xs) x = ((map_of xs)(k := v)) x"
    by (auto simp: table_set_def split: option.splits)
qed

definition table_gossip :: "int \<Rightarrow> ('h, 'h tables) pubsub" where
  "table_gossip peers =
     \<lparr>ps_topics = (\<lambda>g. map fst (tb_topics g)),
      ps_handlers = (\<lambda>g. map_of (tb_topics g)),
      ps_validators = tb_validators,
      ps_subscribe = (\<lambda>t h g. g\<lparr>tb_topics := table_set t (Some (or_nil (map_of (tb_topics g) t) @ [h])) (tb_topics g)\<rparr>),
      ps_unsubscribe = (\<lambda>t h g. g\<lparr>tb_topics :=
         table_set t (nonempty (filter (\<lambda>x. x \<noteq> h) (or_nil (map_of (tb_topics g) t)))) (tb_topics g)\<rparr>),
      ps_unsubscribeAll = (\<lambda>t g. g\<lparr>tb_topics := table_set t None (tb_topics g)\<rparr>),
      ps_addValidator = (\<lambda>t g. g\<lparr>tb_validators := (tb_validators g)(t := Suc (tb_validators g t))\<rparr>),
      ps_publish = (\<lambda>t data g. peers)\<rparr>"

definition no_tables :: "'h tables" where
  "no_tables = \<lparr>tb_topics = [], tb_validators = (\<lambda>t. 0)\<rparr>"

interpretation tables: gossip "table_gossip peers"
  by unfold_locales (auto simp: table_gossip_def map_of_eq_None_iff image_iff)

section \<open>What subscribing does\<close>

definition relay_handlers :: "('h, 'g) pubsub \<Rightarrow> 'g WakuRelay \<Rightarrow> PubsubTopic \<Rightarrow> 'h TopicHandler list option" where
  "relay_handlers G w = ps_handlers G (w_gossip w)"

context gossip
begin

lemma relay_subscribe_spec:
  assumes "relay_subscribe G t k w = (h, w')"
  shows "h = \<lparr>th_id = next_closure w, th_handler = k\<rparr>"
    and "relay_handlers G w' = (relay_handlers G w)(t \<mapsto> or_nil (relay_handlers G w t) @ [h])"
    and "next_closure w' = Suc (next_closure w)" and "validatorInserted w' = insert t (validatorInserted w)"
    and "ps_validators G (w_gossip w') u =
      (if u = t \<and> t \<notin> validatorInserted w then Suc (ps_validators G (w_gossip w) u) else ps_validators G (w_gossip w) u)"
    and "wakuValidators w' = wakuValidators w" and "maxMessageSize w' = maxMessageSize w"
  using assms
  by (auto simp: relay_subscribe_def relay_handlers_def Let_def gossip_handlers gossip_validators split: if_splits)

lemma relay_unsubscribe_handlers:
  "relay_handlers G (relay_unsubscribe G t h w) =
    (relay_handlers G w)(t := nonempty (filter (\<lambda>x. x \<noteq> h) (or_nil (relay_handlers G w t))))"
  "relay_handlers G (relay_unsubscribeAll G t w) = (relay_handlers G w)(t := None)"
  by (simp_all add: relay_unsubscribe_def relay_unsubscribeAll_def relay_handlers_def gossip_handlers)

lemma relay_unsubscribe_validators:
  "ps_validators G (w_gossip (relay_unsubscribe G t h w)) = ps_validators G (w_gossip w)"
  "ps_validators G (w_gossip (relay_unsubscribeAll G t w)) = ps_validators G (w_gossip w)"
  by (simp_all add: relay_unsubscribe_def relay_unsubscribeAll_def gossip_validators)

end

lemma relay_unsubscribe_simps [simp]:
  "next_closure (relay_unsubscribe G t h w) = next_closure w"
  "next_closure (relay_unsubscribeAll G t w) = next_closure w"
  "validatorInserted (relay_unsubscribe G t h w) = validatorInserted w"
  "validatorInserted (relay_unsubscribeAll G t w) = validatorInserted w - {t}"
  "wakuValidators (relay_unsubscribe G t h w) = wakuValidators w"
  "wakuValidators (relay_unsubscribeAll G t w) = wakuValidators w"
  "maxMessageSize (relay_unsubscribe G t h w) = maxMessageSize w"
  "maxMessageSize (relay_unsubscribeAll G t w) = maxMessageSize w"
  by (simp_all add: relay_unsubscribe_def relay_unsubscribeAll_def)

lemma subscribed_iff: "relay_isSubscribed G w t \<longleftrightarrow> relay_handlers G w t \<noteq> None"
  by (simp add: relay_isSubscribed_def relay_handlers_def)

section \<open>Every subscribed topic is validated\<close>

text \<open>The operations on a relay, and how often a topic is subscribed anew: by its first subscription and
  by the first one after each \<^verbatim>\<open>unsubscribeAll\<close>.\<close>

datatype 'h relay_op =
    RSubscribe PubsubTopic 'h
  | RUnsubscribe PubsubTopic "'h TopicHandler"
  | RUnsubscribeAll PubsubTopic
  | RAddValidator WakuValidatorHandler string

fun relay_step :: "('h, 'g) pubsub \<Rightarrow> 'h relay_op \<Rightarrow> 'g WakuRelay \<Rightarrow> 'g WakuRelay" where
  "relay_step G (RSubscribe t k) w = snd (relay_subscribe G t k w)"
| "relay_step G (RUnsubscribe t h) w = relay_unsubscribe G t h w"
| "relay_step G (RUnsubscribeAll t) w = relay_unsubscribeAll G t w"
| "relay_step G (RAddValidator v e) w = addValidator v e w"

fun subscribed_anew :: "PubsubTopic \<Rightarrow> bool \<Rightarrow> 'h relay_op list \<Rightarrow> nat" where
  "subscribed_anew t known [] = 0"
| "subscribed_anew t known (RSubscribe u k # ops) =
     (if u = t then of_bool (\<not> known) + subscribed_anew t True ops else subscribed_anew t known ops)"
| "subscribed_anew t known (RUnsubscribeAll u # ops) = subscribed_anew t (known \<and> t \<noteq> u) ops"
| "subscribed_anew t known (op # ops) = subscribed_anew t known ops"

definition validated :: "('h, 'g) pubsub \<Rightarrow> 'g WakuRelay \<Rightarrow> bool" where
  "validated G w \<longleftrightarrow> (\<forall>t. relay_isSubscribed G w t \<longrightarrow> t \<in> validatorInserted w)
     \<and> (\<forall>t \<in> validatorInserted w. 0 < ps_validators G (w_gossip w) t)"

context gossip
begin

lemma relay_op_validators:
  "ps_validators G (w_gossip (fold (relay_step G) ops w)) t =
    ps_validators G (w_gossip w) t + subscribed_anew t (t \<in> validatorInserted w) ops"
proof (induction ops arbitrary: w)
  case (Cons op ops)
  show ?case
  proof (cases op)
    case (RSubscribe u k)
    obtain h w' where s: "relay_subscribe G u k w = (h, w')" by fastforce
    show ?thesis using Cons [of w'] relay_subscribe_spec(4,5) [OF s] by (auto simp: RSubscribe s)
  next
    case (RUnsubscribe u h)
    show ?thesis using Cons [of "relay_unsubscribe G u h w"]
      by (simp add: RUnsubscribe relay_unsubscribe_validators)
  next
    case (RUnsubscribeAll u)
    show ?thesis using Cons [of "relay_unsubscribeAll G u w"]
      by (simp add: RUnsubscribeAll relay_unsubscribe_validators)
  next
    case (RAddValidator v e)
    then show ?thesis using Cons [of "addValidator v e w"] by (simp add: addValidator_def)
  qed
qed simp

lemma validated_op: "validated G w \<Longrightarrow> validated G (relay_step G op w)"
proof (cases op)
  case (RSubscribe u k)
  assume v: "validated G w"
  obtain h w' where s: "relay_subscribe G u k w = (h, w')" by fastforce
  show ?thesis
    using v relay_subscribe_spec(2,4,5) [OF s] by (auto simp: validated_def subscribed_iff RSubscribe s)
next
  case (RUnsubscribe u h)
  assume "validated G w"
  then show ?thesis
    by (cases "relay_handlers G w u")
      (auto simp: validated_def subscribed_iff RUnsubscribe relay_unsubscribe_handlers relay_unsubscribe_validators)
next
  case (RUnsubscribeAll u)
  assume "validated G w"
  then show ?thesis
    by (auto simp: validated_def subscribed_iff RUnsubscribeAll relay_unsubscribe_handlers relay_unsubscribe_validators)
qed (auto simp: validated_def relay_isSubscribed_def addValidator_def)

lemma validated_run: "validated G w \<Longrightarrow> validated G (fold (relay_step G) ops w)"
  by (induction ops arbitrary: w) (simp_all add: validated_op)

end


text \<open>C25: what reaches a subscriber was validated, and how often. From a relay without subscriptions, after any
  sequence of operations, in any order, every subscribed topic has a validator in GossipSub; the number
  of its validators is the number of times it was subscribed anew. \<^verbatim>\<open>unsubscribeAll\<close> takes the topic out
  of the relay's own table and leaves the validator in GossipSub, so each cycle of subscribing and
  unsubscribing adds another one that decodes and validates every message of the topic again.\<close>

theorem relay_validated:
  assumes "gossip G" and "\<forall>t. ps_handlers G g t = None" and "\<forall>t. ps_validators G g t = 0"
  shows "ps_validators G (w_gossip (fold (relay_step G) ops (new_relay g n))) t = subscribed_anew t False ops
    \<and> (relay_isSubscribed G (fold (relay_step G) ops (new_relay g n)) t \<longrightarrow> 0 < subscribed_anew t False ops)"
proof -
  let ?w = "fold (relay_step G) ops (new_relay g n)"
  have n: "ps_validators G (w_gossip ?w) t = subscribed_anew t False ops"
    using gossip.relay_op_validators [OF assms(1), of ops "new_relay g n" t] assms(3) by (simp add: new_relay_def)
  have "validated G (new_relay g n)"
    using assms(2) by (simp add: validated_def relay_isSubscribed_def new_relay_def)
  then have "validated G ?w" by (rule gossip.validated_run [OF assms(1)])
  then have "relay_isSubscribed G ?w t \<Longrightarrow> 0 < ps_validators G (w_gossip ?w) t"
    by (simp add: validated_def)
  then show ?thesis using n by simp
qed

theorem relay_validated_witness:
  "ps_validators (table_gossip 1) (w_gossip (fold (relay_step (table_gossip 1))
     [RSubscribe ''t'' (), RUnsubscribeAll ''t'', RSubscribe ''t'' (), RSubscribe ''t'' ()] (new_relay no_tables 1000))) ''t'' = 2"
proof -
  have "\<forall>t. ps_handlers (table_gossip 1) no_tables t = None" "\<forall>t. ps_validators (table_gossip 1) no_tables t = 0"
    by (simp_all add: table_gossip_def no_tables_def)
  from relay_validated [OF tables.gossip_axioms this, of
      "[RSubscribe ''t'' (), RUnsubscribeAll ''t'', RSubscribe ''t'' (), RSubscribe ''t'' ()]" 1000 "''t''"]
  show ?thesis by simp
qed

section \<open>What validation promises\<close>

lemma generate_accept:
  "generateOrderedValidator P w t data = Accept \<longleftrightarrow>
    (\<exists>m. decode_message P data = Inr m \<and> (\<forall>(v, e) \<in> set (wakuValidators w). v t m = Accept))"
proof -
  have "ordered_validate vs t m = Accept \<longleftrightarrow> (\<forall>(v, e) \<in> set vs. v t m = Accept)" for vs m
    by (induction vs t m rule: ordered_validate.induct) (auto simp: Let_def)
  then show ?thesis by (auto simp: generateOrderedValidator_def split: sum.splits)
qed

lemma validate_accept:
  "validateMessage P w t m = Inr () \<longleftrightarrow> int (length (encode_message P m)) \<le> maxMessageSize w
    \<and> ordered_validate (wakuValidators w) t m = Accept"
  by (simp add: validateMessage_def validate_loop_ok)

lemma deliver_accepted:
  assumes "decode_message P data = Inr m"
  shows "relay_deliver P G w t data = map (\<lambda>h. (th_handler h, t, m)) (or_nil (relay_handlers G w t))"
  by (simp add: relay_deliver_def wrapped_handler_def relay_handlers_def assms List.map_filter_def)

lemma deliver_undecodable: "decode_message P data = Inl e \<Longrightarrow> relay_deliver P G w t data = []"
  by (simp add: relay_deliver_def wrapped_handler_def List.map_filter_def)

end
