(* ===== verification/WakuNode.thy ===== *)
theory WakuNode
  imports Relay Metadata Sharding
begin

text \<open>
  The subscriptions of a node, \<^verbatim>\<open>waku/node/waku_node.nim\<close>: what the node adds to the relay, the table of
  the handlers of its content topics and the events it tells the metadata protocol. The C interface
  subscribes on the relay directly (\<^verbatim>\<open>relay_request.nim\<close>) and is the operations \<open>ApiSubscribe\<close> and
  \<open>ApiUnsubscribeAll\<close>. The events emitted so far are a list.
\<close>

section \<open>State\<close>

text \<open>The handlers the node gives to the relay: its own default handler, and those of its callers.\<close>

datatype 'h node_handler = DefaultHandler | AppHandler 'h

record ('h, 'g) WakuNode =
  nd_relay :: "'g WakuRelay option"
  nd_sharding :: Sharding
  contentTopicHandlers :: "ContentTopic \<rightharpoonup> 'h node_handler TopicHandler"
  topicSubscriptionQueue :: "SubscriptionEvent list"

type_synonym ('h, 'g) node_pubsub = "('h node_handler, 'g) pubsub"

definition new_node :: "('h, 'g) WakuNode" where
  "new_node = \<lparr>nd_relay = None, nd_sharding = \<lparr>clusterId = 0, shardCountGenZero = 0\<rparr>,
     contentTopicHandlers = Map.empty, topicSubscriptionQueue = []\<rparr>"

definition mountSharding :: "u32 \<Rightarrow> u32 \<Rightarrow> ('h, 'g) WakuNode \<Rightarrow> ('h, 'g) WakuNode" where
  "mountSharding cluster shardCount node =
     node\<lparr>nd_sharding := \<lparr>clusterId = cluster, shardCountGenZero = shardCount\<rparr>\<rparr>"

section \<open>Operations\<close>

definition registerRelayDefaultHandler :: "('h, 'g) node_pubsub \<Rightarrow> PubsubTopic \<Rightarrow> 'g WakuRelay \<Rightarrow> 'g WakuRelay" where
  "registerRelayDefaultHandler G topic w =
     (if relay_isSubscribed G w topic then w else snd (relay_subscribe G topic DefaultHandler w))"

text \<open>What \<^verbatim>\<open>subscribe\<close> does once the topic is known: the event, the default handler, the handler of the caller.\<close>

definition add_subscription ::
  "('h, 'g) node_pubsub \<Rightarrow> PubsubTopic \<Rightarrow> ContentTopic option \<Rightarrow> 'h option \<Rightarrow> 'g WakuRelay \<Rightarrow> ('h, 'g) WakuNode \<Rightarrow> ('h, 'g) WakuNode" where
  "add_subscription G pubsubTopic contentTopicOp handler relay node =
     (let node = node\<lparr>topicSubscriptionQueue := topicSubscriptionQueue node @ [(PubsubSub, pubsubTopic)]\<rparr>;
          relay = registerRelayDefaultHandler G pubsubTopic relay
      in case handler of
           None \<Rightarrow> node\<lparr>nd_relay := Some relay\<rparr>
         | Some h \<Rightarrow>
             (let (wrappedHandler, relay) = relay_subscribe G pubsubTopic (AppHandler h) relay;
                  node = node\<lparr>nd_relay := Some relay\<rparr>
              in case contentTopicOp of None \<Rightarrow> node
                 | Some c \<Rightarrow> node\<lparr>contentTopicHandlers := (contentTopicHandlers node)(c \<mapsto> wrappedHandler)\<rparr>))"

definition node_subscribe ::
  "(bytes \<Rightarrow> bytes) \<Rightarrow> ('h, 'g) node_pubsub \<Rightarrow> SubscriptionEvent \<Rightarrow> 'h option \<Rightarrow> ('h, 'g) WakuNode \<Rightarrow> ('h, 'g) WakuNode" where
  "node_subscribe sha G subscription handler node =
     (case nd_relay node of None \<Rightarrow> node
      | Some relay \<Rightarrow>
     (case (case fst subscription of
              ContentSub \<Rightarrow> (case getShard_text sha (nd_sharding node) (snd subscription) of
                  Inl e \<Rightarrow> None | Inr shard \<Rightarrow> Some (shard, Some (snd subscription)))
            | PubsubSub \<Rightarrow> Some (snd subscription, None)
            | _ \<Rightarrow> None) of
        None \<Rightarrow> node
      | Some (pubsubTopic, contentTopicOp) \<Rightarrow>
          if (case contentTopicOp of None \<Rightarrow> False | Some c \<Rightarrow> contentTopicHandlers node c \<noteq> None) then node
          else add_subscription G pubsubTopic contentTopicOp handler relay node))"

text \<open>The first half of \<^verbatim>\<open>unsubscribe\<close> removes the handler of a content topic, the second all handlers.\<close>

definition remove_content_handler ::
  "('h, 'g) node_pubsub \<Rightarrow> PubsubTopic \<Rightarrow> ContentTopic \<Rightarrow> 'g WakuRelay \<Rightarrow> ('h, 'g) WakuNode \<Rightarrow> ('h, 'g) WakuNode" where
  "remove_content_handler G pubsubTopic c relay node =
     (case contentTopicHandlers node c of None \<Rightarrow> node
      | Some h \<Rightarrow> node\<lparr>contentTopicHandlers := (contentTopicHandlers node)(c := None),
                      nd_relay := Some (relay_unsubscribe G pubsubTopic h relay)\<rparr>)"

definition remove_all_handlers :: "('h, 'g) node_pubsub \<Rightarrow> PubsubTopic \<Rightarrow> ('h, 'g) WakuNode \<Rightarrow> ('h, 'g) WakuNode" where
  "remove_all_handlers G pubsubTopic node =
     node\<lparr>nd_relay := map_option (relay_unsubscribeAll G pubsubTopic) (nd_relay node),
          topicSubscriptionQueue := topicSubscriptionQueue node @ [(PubsubUnsub, pubsubTopic)]\<rparr>"

definition node_handlers :: "('h, 'g) node_pubsub \<Rightarrow> ('h, 'g) WakuNode \<Rightarrow> PubsubTopic \<Rightarrow> 'h node_handler TopicHandler list" where
  "node_handlers G node topic =
     (case nd_relay node of None \<Rightarrow> [] | Some w \<Rightarrow> or_nil (relay_handlers G w topic))"

definition node_unsubscribe ::
  "(bytes \<Rightarrow> bytes) \<Rightarrow> ('h, 'g) node_pubsub \<Rightarrow> SubscriptionEvent \<Rightarrow> ('h, 'g) WakuNode \<Rightarrow> ('h, 'g) WakuNode" where
  "node_unsubscribe sha G subscription node =
     (case nd_relay node of None \<Rightarrow> node
      | Some relay \<Rightarrow>
     (case (case fst subscription of
              ContentUnsub \<Rightarrow> (case getShard_text sha (nd_sharding node) (snd subscription) of
                  Inl e \<Rightarrow> None | Inr shard \<Rightarrow> Some (shard, Some (snd subscription)))
            | PubsubUnsub \<Rightarrow> Some (snd subscription, None)
            | _ \<Rightarrow> None) of
        None \<Rightarrow> node
      | Some (pubsubTopic, contentTopicOp) \<Rightarrow>
          if \<not> relay_isSubscribed G relay pubsubTopic then node
          else
            (let node = (case contentTopicOp of None \<Rightarrow> node
                         | Some c \<Rightarrow> remove_content_handler G pubsubTopic c relay node)
             in if contentTopicOp = None \<or> length (node_handlers G node pubsubTopic) = 1
                then remove_all_handlers G pubsubTopic node else node)))"

definition node_publish ::
  "pbuf \<Rightarrow> (bytes \<Rightarrow> bytes) \<Rightarrow> ('h, 'g) node_pubsub \<Rightarrow> ('h, 'g) WakuNode \<Rightarrow> PubsubTopic option \<Rightarrow> WakuMessage
     \<Rightarrow> string + (PubsubTopic \<times> int)" where
  "node_publish P sha G node pubsubTopicOp message =
     (case nd_relay node of
        None \<Rightarrow> Inl ''Invalid API call to `publish`. WakuRelay not mounted. Try `lightpush` instead.''
      | Some relay \<Rightarrow>
          (case (case pubsubTopicOp of Some t \<Rightarrow> Inr t
                 | None \<Rightarrow> (case getShard_text sha (nd_sharding node) (contentTopic message) of
                     Inl e \<Rightarrow> Inl (''Autosharding error: '' @ e) | Inr t \<Rightarrow> Inr t)) of
             Inl e \<Rightarrow> Inl e
           | Inr pubsubTopic \<Rightarrow> Inr (pubsubTopic, relay_publish P G relay pubsubTopic message)))"

text \<open>\<^verbatim>\<open>mountRelay\<close>; a GossipSub that cannot be made is \<open>None\<close>.\<close>

definition mountRelay ::
  "(bytes \<Rightarrow> bytes) \<Rightarrow> ('h, 'g) node_pubsub \<Rightarrow> 'g option \<Rightarrow> PubsubTopic list \<Rightarrow> int \<Rightarrow> ('h, 'g) WakuNode \<Rightarrow> ('h, 'g) WakuNode" where
  "mountRelay sha G g pubsubTopics maxSize node =
     (case nd_relay node of Some w \<Rightarrow> node
      | None \<Rightarrow> (case g of None \<Rightarrow> node
        | Some g \<Rightarrow> fold (\<lambda>t. node_subscribe sha G (PubsubSub, t) None) pubsubTopics
            (node\<lparr>nd_relay := Some (new_relay g maxSize)\<rparr>)))"

text \<open>The operations of the C interface, on the relay of the node.\<close>

definition api_subscribe :: "('h, 'g) node_pubsub \<Rightarrow> PubsubTopic \<Rightarrow> 'h \<Rightarrow> ('h, 'g) WakuNode \<Rightarrow> ('h, 'g) WakuNode" where
  "api_subscribe G pubsubTopic h node =
     node\<lparr>nd_relay := map_option (\<lambda>w. snd (relay_subscribe G pubsubTopic (AppHandler h) w)) (nd_relay node)\<rparr>"

definition api_unsubscribeAll :: "('h, 'g) node_pubsub \<Rightarrow> PubsubTopic \<Rightarrow> ('h, 'g) WakuNode \<Rightarrow> ('h, 'g) WakuNode" where
  "api_unsubscribeAll G pubsubTopic node =
     node\<lparr>nd_relay := map_option (relay_unsubscribeAll G pubsubTopic) (nd_relay node)\<rparr>"


section \<open>The invariant\<close>

text \<open>What a caller can do with the subscriptions of a node.\<close>

datatype 'h node_operation =
    NodeSubscribe SubscriptionEvent "'h option"
  | NodeUnsubscribe SubscriptionEvent
  | ApiSubscribe PubsubTopic 'h
  | ApiUnsubscribeAll PubsubTopic

fun node_op :: "(bytes \<Rightarrow> bytes) \<Rightarrow> ('h, 'g) node_pubsub \<Rightarrow> 'h node_operation \<Rightarrow> ('h, 'g) WakuNode \<Rightarrow> ('h, 'g) WakuNode" where
  "node_op sha G (NodeSubscribe ev h) node = node_subscribe sha G ev h node"
| "node_op sha G (NodeUnsubscribe ev) node = node_unsubscribe sha G ev node"
| "node_op sha G (ApiSubscribe t h) node = api_subscribe G t h node"
| "node_op sha G (ApiUnsubscribeAll t) node = api_unsubscribeAll G t node"

definition node_run ::
  "(bytes \<Rightarrow> bytes) \<Rightarrow> ('h, 'g) node_pubsub \<Rightarrow> 'h node_operation list \<Rightarrow> ('h, 'g) WakuNode \<Rightarrow> ('h, 'g) WakuNode" where
  "node_run sha G ops node = fold (node_op sha G) ops node"

text \<open>
  Closures are told apart by their identity; the default handler comes first or not at all; the handler
  of a content topic is never the first of a topic.
\<close>

definition handlers_ok ::
  "(PubsubTopic \<Rightarrow> 'h node_handler TopicHandler list) \<Rightarrow> nat \<Rightarrow> 'h node_handler TopicHandler set \<Rightarrow> bool" where
  "handlers_ok H n C \<longleftrightarrow>
     (\<forall>t. (\<forall>h \<in> set (H t). th_id h < n) \<and> distinct (map th_id (H t))
        \<and> (\<forall>h \<in> set (tl (H t)). th_handler h \<noteq> DefaultHandler))
     \<and> (\<forall>h \<in> C. th_id h < n \<and> (\<forall>t. H t \<noteq> [] \<longrightarrow> hd (H t) \<noteq> h))"

text \<open>A node whose relay has the handlers \<open>H\<close> and makes closure \<open>n\<close> next.\<close>

definition node_is ::
  "('h, 'g) node_pubsub \<Rightarrow> ('h, 'g) WakuNode \<Rightarrow> (PubsubTopic \<Rightarrow> 'h node_handler TopicHandler list) \<Rightarrow> nat
     \<Rightarrow> (ContentTopic \<rightharpoonup> 'h node_handler TopicHandler) \<Rightarrow> SubscriptionEvent list \<Rightarrow> Sharding \<Rightarrow> bool" where
  "node_is G node H n C q s \<longleftrightarrow>
     (\<exists>w. nd_relay node = Some w \<and> relay_handlers G w = (\<lambda>t. nonempty (H t)) \<and> next_closure w = n)
     \<and> contentTopicHandlers node = C \<and> topicSubscriptionQueue node = q \<and> nd_sharding node = s"

definition node_inv :: "('h, 'g) node_pubsub \<Rightarrow> ('h, 'g) WakuNode \<Rightarrow> bool" where
  "node_inv G node \<longleftrightarrow> (\<exists>H n C q s. node_is G node H n C q s \<and> handlers_ok H n (ran C))"

text \<open>The handlers a subscription adds.\<close>

definition added_handlers :: "nat \<Rightarrow> bool \<Rightarrow> 'h option \<Rightarrow> 'h node_handler TopicHandler list" where
  "added_handlers n known handler =
     (if known then [] else [\<lparr>th_id = n, th_handler = DefaultHandler\<rparr>])
     @ (case handler of None \<Rightarrow> []
        | Some h \<Rightarrow> [\<lparr>th_id = n + of_bool (\<not> known), th_handler = AppHandler h\<rparr>])"

lemma added_simps [simp]:
  "added_handlers n True None = []" "added_handlers n True (Some h) = [\<lparr>th_id = n, th_handler = AppHandler h\<rparr>]"
  "added_handlers n False None = [\<lparr>th_id = n, th_handler = DefaultHandler\<rparr>]"
  "added_handlers n False (Some h) = [\<lparr>th_id = n, th_handler = DefaultHandler\<rparr>, \<lparr>th_id = Suc n, th_handler = AppHandler h\<rparr>]"
  by (simp_all add: added_handlers_def)

lemma handlers_ok_mono: "handlers_ok H n C \<Longrightarrow> C' \<subseteq> C \<Longrightarrow> handlers_ok H n C'"
  by (auto simp: handlers_ok_def)

lemma handlers_okD:
  assumes "handlers_ok H n C"
  shows "h \<in> set (H t) \<Longrightarrow> th_id h < n" and "distinct (map th_id (H t))"
    and "h \<in> set (tl (H t)) \<Longrightarrow> th_handler h \<noteq> DefaultHandler"
    and "h \<in> C \<Longrightarrow> th_id h < n" and "h \<in> C \<Longrightarrow> H t \<noteq> [] \<Longrightarrow> hd (H t) \<noteq> h"
  using assms by (simp_all add: handlers_ok_def)

lemma handlers_ok_append:
  assumes "handlers_ok H n C" and "\<And>h. h \<in> set hs \<Longrightarrow> n \<le> th_id h \<and> th_id h < m" and "distinct (map th_id hs)" and "n \<le> m"
    and "\<And>h. h \<in> set (if H t = [] then tl hs else hs) \<Longrightarrow> th_handler h \<noteq> DefaultHandler"
  shows "handlers_ok (H(t := H t @ hs)) m (C \<union> set (if H t = [] then tl hs else hs))"
proof -
  have old: "th_id h < n" if "h \<in> set (H u)" for h u using assms(1) that by (auto simp: handlers_ok_def)
  have c: "th_id h < n" if "h \<in> C" for h using assms(1) that by (auto simp: handlers_ok_def)
  have dist: "distinct (map th_id (H t @ hs))"
    using assms(1-3) old by (fastforce simp: handlers_ok_def dest: assms(2) old)
  have tail: "th_handler h \<noteq> DefaultHandler" if "h \<in> set (tl (H t @ hs))" for h
    using assms(1,5) that by (cases "H t") (auto simp: handlers_ok_def dest: spec [of _ t])
  have head: "hd ((H(t := H t @ hs)) u) \<noteq> h"
    if "h \<in> C \<union> set (if H t = [] then tl hs else hs)" "(H(t := H t @ hs)) u \<noteq> []" for h u
  proof (cases "h \<in> C")
    case True
    show ?thesis
    proof (cases "u = t \<and> H t = []")
      case new: True
      then have "hd hs \<in> set hs" using that(2) by simp
      then show ?thesis using new c [OF True] assms(2) by force
    next
      case False
      then show ?thesis using that(2) handlers_okD(5) [OF assms(1) True, of u] by (auto simp: hd_append)
    qed
  next
    case False
    then have h: "h \<in> set (if H t = [] then tl hs else hs)" using that(1) by blast
    show ?thesis
    proof (cases "u = t \<and> H t = []")
      case True
      then show ?thesis using h assms(3) that(2) by (cases hs) auto
    next
      case False
      then have "hd ((H(t := H t @ hs)) u) \<in> set (H u)" using that(2) by (auto split: if_splits)
      then have "th_id (hd ((H(t := H t @ hs)) u)) < n" by (rule old)
      moreover have "n \<le> th_id h" using h assms(2) by (cases hs) (auto split: if_splits)
      ultimately show ?thesis by force
    qed
  qed
  have "th_id h < m" if "h \<in> C \<union> set (if H t = [] then tl hs else hs)" for h
    using that c assms(2,4) by (cases hs) (fastforce split: if_splits)+
  moreover have "th_id h < m" if "h \<in> set ((H(t := H t @ hs)) u)" for h u
    using that old assms(2,4) by (fastforce split: if_splits)
  ultimately show ?thesis
    using assms(1) dist tail head by (auto simp: handlers_ok_def)
qed

lemma handlers_ok_remove:
  assumes "handlers_ok H n C" and "h \<in> C"
  shows "handlers_ok (H(t := filter (\<lambda>x. x \<noteq> h) (H t))) n C"
proof (cases "H t")
  case (Cons x xs)
  then have x: "y \<noteq> x" if "y \<in> C" for y using handlers_okD(5) [OF assms(1) that, of t] by auto
  then have "x \<noteq> h" using assms(2) by blast
  with Cons x assms(1) handlers_okD(1,3) [OF assms(1), of _ t] handlers_okD(2) [OF assms(1), of t] show ?thesis
    by (simp add: handlers_ok_def distinct_map_filter) auto
qed (use assms in \<open>simp add: handlers_ok_def\<close>)

lemma handlers_ok_clear: "handlers_ok H n C \<Longrightarrow> handlers_ok (H(t := [])) n C"
  by (auto simp: handlers_ok_def)

text \<open>What is left of the handlers of a shard without the one of a content topic.\<close>

definition content_rest ::
  "'h node_handler TopicHandler option \<Rightarrow> 'h node_handler TopicHandler list \<Rightarrow> 'h node_handler TopicHandler list" where
  "content_rest h hs = (case h of None \<Rightarrow> hs | Some h \<Rightarrow> filter (\<lambda>x. x \<noteq> h) hs)"

text \<open>What the operations do to the handlers.\<close>

lemma node_is_handlers: "node_is G node H n C q s \<Longrightarrow> node_handlers G node = H"
  by (auto simp: node_is_def node_handlers_def)

locale node_gossip = gossip G for G :: "('h node_handler, 'g) pubsub"
begin

lemma add_subscription_is:
  fixes t :: PubsubTopic and k :: "'h option"
  assumes "node_is G node H n C q s" and "nd_relay node = Some w"
  defines "new \<equiv> added_handlers n (H t \<noteq> []) k"
  shows "node_is G (add_subscription G t cop k w node) (H(t := H t @ new)) (n + length new)
    (if k = None \<or> cop = None then C else C(the cop \<mapsto> last new)) (q @ [(PubsubSub, t)]) s"
proof -
  have w: "relay_handlers G w = (\<lambda>t. nonempty (H t))" "next_closure w = n" using assms(1,2) by (auto simp: node_is_def)
  obtain d wd where d: "relay_subscribe G t DefaultHandler w = (d, wd)" by fastforce
  define w1 where "w1 = registerRelayDefaultHandler G t w"
  have w1: "relay_handlers G w1 = (\<lambda>u. nonempty ((H(t := H t @ added_handlers n (H t \<noteq> []) None)) u))"
      "next_closure w1 = n + of_bool (H t = [])"
    using relay_subscribe_spec(1-3) [OF d] w
    by (auto simp: w1_def registerRelayDefaultHandler_def d subscribed_iff fun_eq_iff nonempty_def)
  show ?thesis
  proof (cases k)
    case None
    then show ?thesis using assms(1) w1
      by (auto simp: node_is_def add_subscription_def w1_def [symmetric] new_def Let_def)
  next
    case (Some a)
    obtain h' w2 where s: "relay_subscribe G t (AppHandler a) w1 = (h', w2)" by fastforce
    have "relay_handlers G w2 = (\<lambda>u. nonempty ((H(t := H t @ new)) u))" "next_closure w2 = n + length new" "h' = last new"
      using relay_subscribe_spec(1-3) [OF s] w1 by (auto simp: new_def Some fun_eq_iff nonempty_def)
    then show ?thesis using assms(1) Some s
      by (auto simp: node_is_def add_subscription_def w1_def [symmetric] Let_def split: option.splits)
  qed
qed

lemma remove_content_is:
  assumes "node_is G node H n C q s" and "nd_relay node = Some w"
  shows "node_is G (remove_content_handler G t c w node)
    (H(t := content_rest (C c) (H t))) n (C(c := None)) q s"
  using assms
  by (cases "C c") (auto simp: node_is_def remove_content_handler_def relay_unsubscribe_handlers content_rest_def fun_eq_iff)

lemma remove_all_is:
  assumes "node_is G node H n C q s"
  shows "node_is G (remove_all_handlers G t node) (H(t := [])) n C (q @ [(PubsubUnsub, t)]) s"
  using assms by (auto simp: node_is_def remove_all_handlers_def relay_unsubscribe_handlers fun_eq_iff)

lemma api_is:
  assumes "node_is G node H n C q s"
  shows "node_is G (api_subscribe G t h node) (H(t := H t @ [\<lparr>th_id = n, th_handler = AppHandler h\<rparr>])) (Suc n) C q s"
    and "node_is G (api_unsubscribeAll G t node) (H(t := [])) n C q s"
proof -
  from assms obtain w where w: "nd_relay node = Some w" "relay_handlers G w = (\<lambda>t. nonempty (H t))" "next_closure w = n"
    by (auto simp: node_is_def)
  obtain h' w' where s: "relay_subscribe G t (AppHandler h) w = (h', w')" by fastforce
  show "node_is G (api_subscribe G t h node) (H(t := H t @ [\<lparr>th_id = n, th_handler = AppHandler h\<rparr>])) (Suc n) C q s"
    using assms w relay_subscribe_spec(1-3) [OF s] by (auto simp: node_is_def api_subscribe_def s fun_eq_iff)
  show "node_is G (api_unsubscribeAll G t node) (H(t := [])) n C q s"
    using assms by (auto simp: node_is_def api_unsubscribeAll_def relay_unsubscribe_handlers fun_eq_iff)
qed

lemma isSubscribed_is:
  "node_is G node H n C q s \<Longrightarrow> nd_relay node = Some w \<Longrightarrow> relay_isSubscribed G w t \<longleftrightarrow> H t \<noteq> []"
  by (auto simp: node_is_def subscribed_iff)

text \<open>The operations of a node, on its handlers.\<close>

lemma pubsub_subscribe_is:
  fixes t :: PubsubTopic and k :: "'h option"
  assumes "node_is G node H n C q s"
  defines "new \<equiv> added_handlers n (H t \<noteq> []) k"
  shows "node_is G (node_subscribe sha G (PubsubSub, t) k node) (H(t := H t @ new)) (n + length new) C (q @ [(PubsubSub, t)]) s"
proof -
  from assms obtain w where w: "nd_relay node = Some w" by (auto simp: node_is_def)
  show ?thesis using add_subscription_is [OF assms(1) w, of t None k] by (simp add: node_subscribe_def w new_def)
qed

lemma content_subscribe_is:
  fixes t :: PubsubTopic and k :: "'h option"
  assumes "node_is G node H n C q s" and "getShard_text sha s c = Inr t" and "C c = None"
  defines "new \<equiv> added_handlers n (H t \<noteq> []) k"
  shows "node_is G (node_subscribe sha G (ContentSub, c) k node) (H(t := H t @ new)) (n + length new)
    (if k = None then C else C(c \<mapsto> last new)) (q @ [(PubsubSub, t)]) s"
proof -
  from assms obtain w where w: "nd_relay node = Some w" "nd_sharding node = s" "contentTopicHandlers node = C"
    by (auto simp: node_is_def)
  show ?thesis using add_subscription_is [OF assms(1) w(1), of t "Some c" k] assms(2,3)
    by (cases k) (simp_all add: node_subscribe_def w new_def)
qed

lemma subscribe_nothing:
  assumes "node_is G node H n C q s"
    and "fst ev \<in> {ContentUnsub, PubsubUnsub} \<or> fst ev = ContentSub \<and> ((\<exists>e. getShard_text sha s (snd ev) = Inl e) \<or> C (snd ev) \<noteq> None)"
  shows "node_subscribe sha G ev k node = node"
  using assms by (cases ev) (auto simp: node_is_def node_subscribe_def split: sum.splits)

lemma pubsub_unsubscribe_is:
  assumes "node_is G node H n C q s" and "H t \<noteq> []"
  shows "node_is G (node_unsubscribe sha G (PubsubUnsub, t) node) (H(t := [])) n C (q @ [(PubsubUnsub, t)]) s"
proof -
  from assms obtain w where w: "nd_relay node = Some w" by (auto simp: node_is_def)
  show ?thesis using remove_all_is [OF assms(1)] isSubscribed_is [OF assms(1) w] assms(2)
    by (simp add: node_unsubscribe_def w)
qed

lemma content_unsubscribe_is:
  fixes t :: PubsubTopic
  assumes "node_is G node H n C q s" and "getShard_text sha s c = Inr t" and "H t \<noteq> []"
  defines "rest \<equiv> content_rest (C c) (H t)"
  shows "node_is G (node_unsubscribe sha G (ContentUnsub, c) node) (H(t := if length rest = 1 then [] else rest)) n
    (C(c := None)) (if length rest = 1 then q @ [(PubsubUnsub, t)] else q) s"
proof -
  from assms obtain w where w: "nd_relay node = Some w" "nd_sharding node = s" by (auto simp: node_is_def)
  let ?node = "remove_content_handler G t c w node"
  have 1: "node_is G ?node (H(t := rest)) n (C(c := None)) q s"
    unfolding rest_def by (rule remove_content_is [OF assms(1) w(1)])
  have "length (node_handlers G ?node t) = length rest" using node_is_handlers [OF 1] by simp
  then show ?thesis
    using 1 remove_all_is [OF 1, of t] isSubscribed_is [OF assms(1) w(1)] assms(2,3)
    by (simp add: node_unsubscribe_def w)
qed

lemma unsubscribe_nothing:
  assumes "node_is G node H n C q s"
    and "fst ev \<in> {ContentSub, PubsubSub} \<or> fst ev = PubsubUnsub \<and> H (snd ev) = []
      \<or> fst ev = ContentUnsub \<and> (\<forall>t. getShard_text sha s (snd ev) = Inr t \<longrightarrow> H t = [])"
  shows "node_unsubscribe sha G ev node = node"
proof -
  from assms obtain w where w: "nd_relay node = Some w" "nd_sharding node = s" by (auto simp: node_is_def)
  have r: "relay_isSubscribed G w t \<longleftrightarrow> H t \<noteq> []" for t by (rule isSubscribed_is [OF assms(1) w(1)])
  obtain k c where ev: "ev = (k, c)" by (cases ev)
  show ?thesis
  proof (cases k)
    case ContentUnsub
    then show ?thesis using assms(2)
      by (cases "getShard_text sha s c") (simp_all add: ev node_unsubscribe_def w r)
  next
    case PubsubUnsub
    then show ?thesis using assms(2) by (simp add: ev node_unsubscribe_def w r)
  qed (simp_all add: ev node_unsubscribe_def w)
qed

end


text \<open>One operation, on the handlers: the cases of every proof about sequences of operations.\<close>

definition is_api :: "'h node_operation \<Rightarrow> bool" where
  "is_api op \<longleftrightarrow> (\<exists>t h. op = ApiSubscribe t h) \<or> (\<exists>t. op = ApiUnsubscribeAll t)"

context node_gossip
begin

lemma node_op_cases:
  assumes "node_is G node H n C q s"
  obtains
    (same) "node_op sha G op node = node"
  | (sub) t k C' where "node_is G (node_op sha G op node) (H(t := H t @ added_handlers n (H t \<noteq> []) k))
        (n + length (added_handlers n (H t \<noteq> []) k)) C' (q @ [(PubsubSub, t)]) s"
      and "C' = C \<or> k \<noteq> None \<and> (\<exists>c. C c = None \<and> C' = C(c \<mapsto> last (added_handlers n (H t \<noteq> []) k)))"
      and "op = NodeSubscribe (PubsubSub, t) k \<or> (\<exists>c. op = NodeSubscribe (ContentSub, c) k \<and> getShard_text sha s c = Inr t)"
  | (clear) t where "node_is G (node_op sha G op node) (H(t := [])) n C (q @ [(PubsubUnsub, t)]) s"
      and "H t \<noteq> []" and "op = NodeUnsubscribe (PubsubUnsub, t)"
  | (content) c t where "node_is G (node_op sha G op node)
        (H(t := if length (content_rest (C c) (H t)) = 1 then [] else content_rest (C c) (H t))) n (C(c := None))
        (if length (content_rest (C c) (H t)) = 1 then q @ [(PubsubUnsub, t)] else q) s"
      and "H t \<noteq> []" and "op = NodeUnsubscribe (ContentUnsub, c)" and "getShard_text sha s c = Inr t"
  | (api) t h where "node_is G (node_op sha G op node) (H(t := H t @ [\<lparr>th_id = n, th_handler = AppHandler h\<rparr>])) (Suc n) C q s"
      and "op = ApiSubscribe t h"
  | (api_clear) t where "node_is G (node_op sha G op node) (H(t := [])) n C q s" and "op = ApiUnsubscribeAll t"
proof (cases op)
  case (NodeSubscribe ev k)
  obtain kind t where ev: "ev = (kind, t)" by (cases ev)
  show thesis
  proof (cases "kind = PubsubSub \<or> kind = ContentSub \<and> (\<exists>shard. getShard_text sha s t = Inr shard) \<and> C t = None")
    case False
    then have "fst ev \<in> {ContentUnsub, PubsubUnsub} \<or>
        fst ev = ContentSub \<and> ((\<exists>e. getShard_text sha s (snd ev) = Inl e) \<or> C (snd ev) \<noteq> None)"
      by (cases kind; cases "getShard_text sha s t") (auto simp: ev)
    from subscribe_nothing [OF assms this] show thesis by (intro same) (simp add: NodeSubscribe)
  next
    case True
    then consider "kind = PubsubSub" | shard where "kind = ContentSub" "getShard_text sha s t = Inr shard" "C t = None" by blast
    then show thesis
    proof cases
      case 1
      then show thesis using pubsub_subscribe_is [OF assms, of sha t k] by (intro sub [of t k C]) (simp_all add: NodeSubscribe ev)
    next
      case 2
      then show thesis
        using content_subscribe_is [OF assms 2(2,3), of k]
        by (intro sub [of shard k "if k = None then C else C(t \<mapsto> last (added_handlers n (H shard \<noteq> []) k))"])
          (auto simp: NodeSubscribe ev)
    qed
  qed
next
  case (NodeUnsubscribe ev)
  obtain kind t where ev: "ev = (kind, t)" by (cases ev)
  show thesis
  proof (cases "kind = PubsubUnsub \<and> H t \<noteq> [] \<or> kind = ContentUnsub \<and> (\<exists>shard. getShard_text sha s t = Inr shard \<and> H shard \<noteq> [])")
    case False
    then have "fst ev \<in> {ContentSub, PubsubSub} \<or> fst ev = PubsubUnsub \<and> H (snd ev) = []
      \<or> fst ev = ContentUnsub \<and> (\<forall>t. getShard_text sha s (snd ev) = Inr t \<longrightarrow> H t = [])"
      by (cases kind) (auto simp: ev)
    from unsubscribe_nothing [OF assms this] show thesis by (intro same) (simp add: NodeUnsubscribe)
  next
    case True
    then consider "kind = PubsubUnsub" "H t \<noteq> []" | shard where "kind = ContentUnsub" "getShard_text sha s t = Inr shard" "H shard \<noteq> []" by blast
    then show thesis
    proof cases
      case 1
      then show thesis using pubsub_unsubscribe_is [OF assms 1(2)] by (intro clear [of t]) (simp_all add: NodeUnsubscribe ev)
    next
      case 2
      then show thesis using content_unsubscribe_is [OF assms 2(2,3)]
        by (intro content [of shard t]) (simp_all only: NodeUnsubscribe ev node_op.simps 2 not_False_eq_True)
    qed
  qed
next
  case (ApiSubscribe t h)
  then show thesis using api_is(1) [OF assms] by (intro api) simp_all
next
  case (ApiUnsubscribeAll t)
  then show thesis using api_is(2) [OF assms] by (intro api_clear) simp_all
qed

end

section \<open>The invariant holds\<close>

lemma handlers_ok_added:
  assumes "handlers_ok H n C" and "C' \<subseteq> C \<union> (if k = None then {} else {last (added_handlers n (H t \<noteq> []) k)})"
  shows "handlers_ok (H(t := H t @ added_handlers n (H t \<noteq> []) k)) (n + length (added_handlers n (H t \<noteq> []) k)) C'"
proof -
  let ?new = "added_handlers n (H t \<noteq> []) k"
  have "handlers_ok (H(t := H t @ ?new)) (n + length ?new) (C \<union> set (if H t = [] then tl ?new else ?new))"
    by (rule handlers_ok_append [OF assms(1)]) (cases k; cases "H t = []"; auto)+
  moreover have "C' \<subseteq> C \<union> set (if H t = [] then tl ?new else ?new)"
    using assms(2) by (cases k; cases "H t = []") auto
  ultimately show ?thesis by (rule handlers_ok_mono)
qed

lemma handlers_ok_api:
  "handlers_ok H n C \<Longrightarrow> handlers_ok (H(t := H t @ [\<lparr>th_id = n, th_handler = AppHandler h\<rparr>])) (Suc n) C"
  by (rule handlers_ok_mono [OF handlers_ok_append [where m = "Suc n"]]) (auto split: if_splits)

lemma handlers_ok_rest:
  assumes "handlers_ok H n (ran C)" and "H t \<noteq> []"
  shows "handlers_ok (H(t := content_rest (C c) (H t))) n (ran (C(c := None)))" and "content_rest (C c) (H t) \<noteq> []"
proof -
  have "ran (C(c := None)) \<subseteq> ran C" by (auto simp: ran_def)
  then show "handlers_ok (H(t := content_rest (C c) (H t))) n (ran (C(c := None)))"
    using handlers_ok_mono [OF assms(1)] handlers_ok_mono [OF handlers_ok_remove [OF assms(1) ranI]]
    by (cases "C c") (simp_all add: content_rest_def)
  show "content_rest (C c) (H t) \<noteq> []"
  proof (cases "C c")
    case (Some h)
    then have "hd (H t) \<noteq> h" using handlers_okD(5) [OF assms(1) ranI assms(2)] by blast
    then show ?thesis using assms(2) Some by (cases "H t") (auto simp: content_rest_def)
  qed (simp add: content_rest_def assms(2))
qed

context node_gossip
begin

lemma node_op_inv:
  assumes "node_is G node H n C q s" and "handlers_ok H n (ran C)"
  shows "\<exists>H' n' C' q'. node_is G (node_op sha G op node) H' n' C' q' s \<and> handlers_ok H' n' (ran C')"
  using assms(1)
proof (cases rule: node_op_cases [where op = op and sha = sha])
  case same
  then show ?thesis using assms by auto
next
  case (sub t k C')
  then have "ran C' \<subseteq> ran C \<union> (if k = None then {} else {last (added_handlers n (H t \<noteq> []) k)})"
    by (auto simp: ran_def split: if_splits)
  from handlers_ok_added [OF assms(2) this] sub(1) show ?thesis by blast
next
  case (clear t)
  then show ?thesis using handlers_ok_clear [OF assms(2)] by blast
next
  case (content c t)
  let ?rest = "content_rest (C c) (H t)"
  have "handlers_ok (H(t := if length ?rest = 1 then [] else ?rest)) n (ran (C(c := None)))"
    using handlers_ok_rest(1) [OF assms(2) content(2), of c] handlers_ok_clear [of "H(t := ?rest)" n _ t] by simp
  with content(1) show ?thesis by blast
next
  case (api t h)
  then show ?thesis using handlers_ok_api [OF assms(2)] by blast
next
  case (api_clear t)
  then show ?thesis using handlers_ok_clear [OF assms(2)] by blast
qed

lemma node_inv_op: "node_inv G node \<Longrightarrow> node_inv G (node_op sha G op node)"
  unfolding node_inv_def using node_op_inv by blast

lemma node_inv_run: "node_inv G node \<Longrightarrow> node_inv G (node_run sha G ops node)"
  unfolding node_run_def by (induction ops arbitrary: node) (simp_all add: node_inv_op)

end


section \<open>What the node tells the metadata protocol\<close>

text \<open>The last event about a topic was a subscription.\<close>

definition told :: "SubscriptionEvent list \<Rightarrow> PubsubTopic \<Rightarrow> bool" where
  "told q t \<longleftrightarrow> (let es = filter (\<lambda>e. snd e = t) q in es \<noteq> [] \<and> fst (last es) = PubsubSub)"

lemma told_simps [simp]:
  "\<not> told [] t" "told (q @ [(k, u)]) t \<longleftrightarrow> (if u = t then k = PubsubSub else told q t)"
  by (simp_all add: told_def Let_def)

text \<open>A text that is no topic, or the text a topic is printed as.\<close>

definition canonical :: "base10 \<Rightarrow> PubsubTopic \<Rightarrow> bool" where
  "canonical dec t \<longleftrightarrow> (case parse_pubsub_topic dec t of
     Fault f \<Rightarrow> False | Done (Inl e) \<Rightarrow> True | Done (Inr topic) \<Rightarrow> show_pubsub_topic topic = t)"

fun canonical_op :: "base10 \<Rightarrow> 'h node_operation \<Rightarrow> bool" where
  "canonical_op dec (NodeSubscribe ev k) \<longleftrightarrow> fst ev = PubsubSub \<longrightarrow> canonical dec (snd ev)"
| "canonical_op dec (NodeUnsubscribe ev) \<longleftrightarrow> fst ev = PubsubUnsub \<longrightarrow> canonical dec (snd ev)"
| "canonical_op dec op \<longleftrightarrow> False"

definition event_ok :: "base10 \<Rightarrow> SubscriptionEvent \<Rightarrow> bool" where
  "event_ok dec e \<longleftrightarrow> fst e \<in> {PubsubSub, PubsubUnsub} \<and> canonical dec (snd e)"

lemma getShard_canonical:
  assumes "base10_ok dec" and "getShard_text sha s c = Inr t"
  shows "canonical dec t"
proof -
  from assms(2) obtain cl i where "t = show_pubsub_topic (StaticSharding cl i)"
    by (auto simp: getShard_text_def getShard_def getGenZeroShard_def Let_def split: sum.splits option.splits if_splits)
  then show ?thesis by (simp add: canonical_def parse_static [OF assms(1)])
qed

context node_gossip
begin

lemma node_op_told:
  assumes "node_is G node H n C q s" and "handlers_ok H n (ran C)" and "base10_ok dec" and "canonical_op dec op"
    and "\<forall>t. H t \<noteq> [] \<longleftrightarrow> told q t" and "list_all (event_ok dec) q"
  shows "\<exists>H' n' C' q'. node_is G (node_op sha G op node) H' n' C' q' s \<and> handlers_ok H' n' (ran C')
    \<and> (\<forall>t. H' t \<noteq> [] \<longleftrightarrow> told q' t) \<and> list_all (event_ok dec) q'"
proof -
  obtain H' n' C' q' where 1: "node_is G (node_op sha G op node) H' n' C' q' s" "handlers_ok H' n' (ran C')"
    using node_op_inv [OF assms(1,2)] by blast
  have unique: "H' = H2 \<and> q' = q2" if "node_is G (node_op sha G op node) H2 n2 C2 q2 s" for H2 n2 C2 q2
    using 1(1) that node_is_handlers [OF 1(1)] node_is_handlers [OF that] unfolding node_is_def by blast
  have "(\<forall>t. H' t \<noteq> [] \<longleftrightarrow> told q' t) \<and> list_all (event_ok dec) q'"
    using assms(1)
  proof (cases rule: node_op_cases [where op = op and sha = sha])
    case same
    then show ?thesis using unique [of H n C q] assms(1,5,6) by simp
  next
    case (sub t k C'')
    then have "canonical dec t" using assms(4) getShard_canonical [OF assms(3)] by auto
    moreover have "H t @ added_handlers n (H t \<noteq> []) k \<noteq> []" by (simp add: added_handlers_def)
    ultimately show ?thesis using unique [OF sub(1)] assms(5,6) by (simp add: event_ok_def)
  next
    case (clear t)
    then show ?thesis using unique [OF clear(1)] assms(4-6) by (simp add: event_ok_def)
  next
    case (content c t)
    then have "canonical dec t" using getShard_canonical [OF assms(3)] by blast
    then show ?thesis
      using unique [OF content(1)] assms(5,6) content(2) handlers_ok_rest(2) [OF assms(2) content(2), of c]
      by (auto simp: event_ok_def simp del: One_nat_def split: if_splits)
  qed (use assms(4) in auto)
  with 1 show ?thesis by blast
qed

lemma node_run_told:
  assumes "node_is G node H n C q s" and "handlers_ok H n (ran C)" and "base10_ok dec" and "\<forall>op \<in> set ops. canonical_op dec op"
    and "\<forall>t. H t \<noteq> [] \<longleftrightarrow> told q t" and "list_all (event_ok dec) q"
  shows "let node' = node_run sha G ops node in
    (\<forall>t. node_handlers G node' t \<noteq> [] \<longleftrightarrow> told (topicSubscriptionQueue node') t)
    \<and> list_all (event_ok dec) (topicSubscriptionQueue node')"
  using assms
proof (induction ops arbitrary: node H n C q)
  case Nil
  have "topicSubscriptionQueue node = q" using Nil(1) by (simp add: node_is_def)
  with Nil(5,6) show ?case by (simp add: node_run_def Let_def node_is_handlers [OF Nil(1)])
next
  case (Cons op ops)
  then have "canonical_op dec op" by simp
  from node_op_told [OF Cons.prems(1-3) this Cons.prems(5,6), of sha]
  obtain H' n' C' q' where "node_is G (node_op sha G op node) H' n' C' q' s" "handlers_ok H' n' (ran C')"
      "\<forall>t. H' t \<noteq> [] \<longleftrightarrow> told q' t" "list_all (event_ok dec) q'" by blast
  from Cons.IH [OF this(1,2) Cons.prems(3) _ this(3,4)] Cons.prems(4) show ?case by (simp add: node_run_def)
qed

end


text \<open>The events about a shard, when all topics are canonical.\<close>

lemma ucast_u16_inj: "(ucast i :: u32) = ucast j \<longleftrightarrow> i = j" for i j :: u16
proof
  assume "(ucast i :: u32) = ucast j"
  then have "(ucast (ucast i :: u32) :: u16) = ucast (ucast j :: u32)" by simp
  moreover have "(ucast (ucast w :: u32) :: u16) = w" for w :: u16
    by (rule bit_word_eqI) (simp add: bit_simps)
  ultimately show "i = j" by simp
qed simp

lemma shard_events_canonical:
  assumes "base10_ok dec" and "list_all (event_ok dec) q"
  shows "shard_events dec (ucast c) (ucast i) q
    = map fst (filter (\<lambda>e. snd e = show_pubsub_topic (StaticSharding c i)) q)"
proof -
  have "(\<exists>d j. parse_pubsub_topic dec t = Done (Inr (StaticSharding d j)) \<and> ucast d = (ucast c :: u32) \<and> ucast j = (ucast i :: u32))
      \<longleftrightarrow> t = show_pubsub_topic (StaticSharding c i)" if "canonical dec t" for t
    using that parse_static [OF assms(1), of c i] by (auto simp: canonical_def ucast_u16_inj)
  then have "filter (\<lambda>(k, t). k \<in> {PubsubSub, PubsubUnsub} \<and> (\<exists>d j. parse_pubsub_topic dec t = Done (Inr (StaticSharding d j))
        \<and> ucast d = (ucast c :: u32) \<and> ucast j = (ucast i :: u32))) q = filter (\<lambda>e. snd e = show_pubsub_topic (StaticSharding c i)) q"
    using assms(2) by (intro filter_cong [OF refl]) (fastforce simp: list_all_iff event_ok_def split: prod.splits)
  then show ?thesis by (simp only: shard_events_def)
qed

lemma told_shard_events:
  assumes "base10_ok dec" and "list_all (event_ok dec) q"
  shows "(case shard_events dec (ucast c) (ucast i) q of [] \<Rightarrow> b | ks \<Rightarrow> last ks = PubsubSub)
    \<longleftrightarrow> told q (show_pubsub_topic (StaticSharding c i))
      \<or> b \<and> (\<forall>e \<in> set q. snd e \<noteq> show_pubsub_topic (StaticSharding c i))"
proof -
  let ?es = "filter (\<lambda>e. snd e = show_pubsub_topic (StaticSharding c i)) q"
  have "(case ks of [] \<Rightarrow> b | x # xs \<Rightarrow> last (x # xs) = PubsubSub) \<longleftrightarrow> (if ks = [] then b else last ks = PubsubSub)"
    for ks :: "SubscriptionKind list" by (cases ks) simp_all
  moreover have "?es = [] \<longleftrightarrow> (\<forall>e \<in> set q. snd e \<noteq> show_pubsub_topic (StaticSharding c i))"
    by (simp add: filter_empty_conv)
  ultimately show ?thesis
    unfolding shard_events_canonical [OF assms] told_def by (auto simp only: Let_def last_map map_is_Nil_conv split: if_splits)
qed

text \<open>A node that mounts its relay with some topics: the topics are its first subscriptions.\<close>

lemma mountRelay_run:
  "nd_relay node = None \<Longrightarrow> mountRelay sha G (Some g) topics n node =
    node_run sha G (map (\<lambda>t. NodeSubscribe (PubsubSub, t) None) topics) (node\<lparr>nd_relay := Some (new_relay g n)\<rparr>)"
proof -
  have "fold (\<lambda>t. node_subscribe sha G (PubsubSub, t) None) topics node =
      fold (node_op sha G) (map (\<lambda>t. NodeSubscribe (PubsubSub, t) None) topics) node" for node
    by (induction topics arbitrary: node) simp_all
  then show "nd_relay node = None \<Longrightarrow> ?thesis" by (simp add: mountRelay_def node_run_def)
qed

context node_gossip
begin

lemma mounted_is:
  assumes "\<forall>t. ps_handlers G g t = None"
  shows "node_is G (node\<lparr>nd_relay := Some (new_relay g n)\<rparr>) (\<lambda>t. []) 0 (contentTopicHandlers node)
    (topicSubscriptionQueue node) (nd_sharding node)"
  using assms by (simp add: node_is_def new_relay_def relay_handlers_def fun_eq_iff)

end

text \<open>Operations only add events; what was said since a point decides, if anything was.\<close>

lemma node_op_queue: "\<exists>es. topicSubscriptionQueue (node_op sha G op node) = topicSubscriptionQueue node @ es"
  by (cases op) (auto simp: node_subscribe_def add_subscription_def node_unsubscribe_def remove_all_handlers_def
      remove_content_handler_def api_subscribe_def api_unsubscribeAll_def Let_def split: exec_split SubscriptionKind.splits)

lemma node_run_queue: "\<exists>es. topicSubscriptionQueue (node_run sha G ops node) = topicSubscriptionQueue node @ es"
proof (induction ops arbitrary: node)
  case (Cons op ops)
  obtain es where "topicSubscriptionQueue (node_op sha G op node) = topicSubscriptionQueue node @ es"
    using node_op_queue by blast
  moreover obtain es' where "topicSubscriptionQueue (node_run sha G ops (node_op sha G op node))
      = topicSubscriptionQueue (node_op sha G op node) @ es'"
    using Cons.IH by blast
  ultimately show ?case by (simp add: node_run_def)
qed (simp add: node_run_def)

text \<open>The events of a node since an earlier state of it: a listener that registers then is given these
  (\<^verbatim>\<open>AsyncEventQueue\<close> of chronos keeps no event for a reader that is not registered yet).\<close>

definition events_since :: "('h, 'g) WakuNode \<Rightarrow> ('h, 'g) WakuNode \<Rightarrow> SubscriptionEvent list" where
  "events_since node0 node = drop (length (topicSubscriptionQueue node0)) (topicSubscriptionQueue node)"

lemma told_append:
  "told (q @ es) t \<longleftrightarrow> (if \<exists>e \<in> set es. snd e = t then told es t else told q t)"
  by (auto simp: told_def Let_def filter_empty_conv)

lemma told_event: "told es t \<Longrightarrow> \<exists>e \<in> set es. snd e = t"
  by (auto simp: told_def Let_def filter_empty_conv)

text \<open>A node that mounts its relay, serves some operations, is started, and serves more.\<close>

lemma started_events:
  assumes "gossip G" and "base10_ok dec" and "\<forall>t. ps_handlers G g t = None"
    and "\<forall>t \<in> set topics. canonical dec t" and "\<forall>op \<in> set ops0 \<union> set ops. canonical_op dec op"
    and "node0 = node_run sha G ops0 (mountRelay sha G (Some g) topics n (mountSharding cl count new_node))"
    and "node = node_run sha G ops node0"
  shows "list_all (event_ok dec) (events_since node0 node)"
    and "node_handlers G node t \<noteq> [] \<longleftrightarrow>
      (if \<exists>e \<in> set (events_since node0 node). snd e = t then told (events_since node0 node) t else node_handlers G node0 t \<noteq> [])"
    and "node_handlers G node0 t \<noteq> [] \<longleftrightarrow> told (topicSubscriptionQueue node0) t"
proof -
  have G: "node_gossip G" using assms(1) by (simp add: node_gossip_def)
  let ?first = "map (\<lambda>t. NodeSubscribe (PubsubSub, t) None) topics"
  let ?start = "(mountSharding cl count new_node)\<lparr>nd_relay := Some (new_relay g n)\<rparr>"
  have node: "node0 = node_run sha G (?first @ ops0) ?start" "node = node_run sha G (?first @ ops0 @ ops) ?start"
    unfolding assms(6,7) by (subst mountRelay_run; simp add: node_run_def mountSharding_def new_node_def)+
  have start: "node_is G ?start (\<lambda>t. []) 0 Map.empty [] \<lparr>clusterId = cl, shardCountGenZero = count\<rparr>"
    using node_gossip.mounted_is [OF G assms(3), where node = "mountSharding cl count new_node" and n = n] by (simp add: mountSharding_def new_node_def)
  have ok: "\<forall>op \<in> set (?first @ ops0). canonical_op dec op" "\<forall>op \<in> set (?first @ ops0 @ ops). canonical_op dec op"
    using assms(4,5) by auto
  note run = node_gossip.node_run_told [OF G start _ assms(2) ok(1), of sha] node_gossip.node_run_told [OF G start _ assms(2) ok(2), of sha]
  have q: "\<forall>t. node_handlers G node0 t \<noteq> [] \<longleftrightarrow> told (topicSubscriptionQueue node0) t"
      "\<forall>t. node_handlers G node t \<noteq> [] \<longleftrightarrow> told (topicSubscriptionQueue node) t"
      "list_all (event_ok dec) (topicSubscriptionQueue node)"
    using run by (simp_all add: node [symmetric] handlers_ok_def Let_def)
  obtain es where es: "topicSubscriptionQueue node = topicSubscriptionQueue node0 @ es"
    using node_run_queue [where node = node0] assms(7) by metis
  then have since: "events_since node0 node = es" by (simp add: events_since_def)
  show "list_all (event_ok dec) (events_since node0 node)" using q(3) since es by simp
  show "node_handlers G node0 t \<noteq> [] \<longleftrightarrow> told (topicSubscriptionQueue node0) t" using q(1) by blast
  show "node_handlers G node t \<noteq> [] \<longleftrightarrow>
      (if \<exists>e \<in> set (events_since node0 node). snd e = t then told (events_since node0 node) t else node_handlers G node0 t \<noteq> [])"
    using q(1,2) es since told_append [of "topicSubscriptionQueue node0" es t] by simp
qed

text \<open>C19: what a node tells its peers follows its subscriptions. A node mounts its relay on a GossipSub without
  topics, with any topics to begin with, serves any operations, is started, and serves any more: subscriptions and
  unsubscriptions to pubsub topics and content topics, with and without handlers. If the pubsub topics are written as
  the code prints them, the listener of the metadata protocol, which registers at the start, does not stop. A
  shard of the node's cluster that an operation after the start was about is announced if and only if the
  node serves it; any other is announced if and only if it was in the node's record at the start. So if the
  record held the shards that were served at the start, those announced are always those served.\<close>

theorem announced_shards:
  assumes "gossip G" and "base10_ok dec" and "\<forall>t. ps_handlers G g t = None"
    and "\<forall>t \<in> set topics. canonical dec t" and "\<forall>op \<in> set ops0 \<union> set ops. canonical_op dec op" and "md_clusterId wm = ucast c"
    and "node0 = node_run sha G ops0 (mountRelay sha G (Some g) topics n (mountSharding cl count new_node))"
    and "node = node_run sha G ops node0"
  shows "\<exists>wm'. subscriptionsListener dec (events_since node0 node) wm = Done wm' \<and>
      (let t = \<lambda>i. show_pubsub_topic (StaticSharding c i) in
        (\<forall>i. ucast i \<in> md_shards wm' \<longleftrightarrow> (if \<exists>e \<in> set (events_since node0 node). snd e = t i
          then node_handlers G node (t i) \<noteq> [] else ucast i \<in> md_shards wm))
        \<and> ((\<forall>i. ucast i \<in> md_shards wm \<longleftrightarrow> node_handlers G node0 (t i) \<noteq> []) \<longrightarrow>
           (\<forall>i. ucast i \<in> md_shards wm' \<longleftrightarrow> node_handlers G node (t i) \<noteq> [])))"
proof -
  let ?es = "events_since node0 node" and ?t = "\<lambda>i. show_pubsub_topic (StaticSharding c i)"
  note since = started_events [OF assms(1-5,7,8)]
  have ok: "canonical dec (snd e)" if "e \<in> set ?es" for e
    using that since(1) by (auto simp: list_all_iff event_ok_def)
  obtain wm' where wm': "subscriptionsListener dec ?es wm = Done wm'"
  proof (cases "subscriptionsListener dec ?es wm")
    case (Fault f)
    then obtain e where "e \<in> set ?es" "snd e = ''/waku/2'' \<or> snd e = ''/waku/2/rs''"
      using listener_fault [where dec = dec and es = ?es and wm = wm] by auto
    then show ?thesis using ok [of e] pubsub_parse_defect [of dec "snd e" RangeDefect] by (auto simp: canonical_def)
  qed
  have "ucast i \<in> md_shards wm' \<longleftrightarrow> (case shard_events dec (ucast c) (ucast i) ?es of
      [] \<Rightarrow> ucast i \<in> md_shards wm | ks \<Rightarrow> last ks = PubsubSub)" for i :: u16
    using metadata_follows [where dec = dec and es = ?es and wm = wm] wm' assms(6) by simp
  then have "ucast i \<in> md_shards wm' \<longleftrightarrow> (if \<exists>e \<in> set ?es. snd e = ?t i
      then node_handlers G node (?t i) \<noteq> [] else ucast i \<in> md_shards wm)" for i
    using told_shard_events [OF assms(2) since(1)] since(2) [where t = "?t i"] told_event [where es = ?es and t = "?t i"] by auto
  then show ?thesis using wm' since(2) by (auto simp: Let_def split: if_splits)
qed


interpretation node_tables: node_gossip "table_gossip peers"
  by unfold_locales

abbreviation unit_gossip :: "(unit, unit node_handler tables) node_pubsub" where
  "unit_gossip \<equiv> table_gossip 1"

lemma unit_gossip_empty: "\<forall>t. ps_handlers unit_gossip no_tables t = None"
  by (simp add: table_gossip_def no_tables_def)

definition shard_node :: "(unit, unit node_handler tables) WakuNode" where
  "shard_node = mountRelay sample_sha unit_gossip (Some no_tables) [show_pubsub_topic (StaticSharding 1 7)] 1000 (mountSharding 1 8 new_node)"

definition shard_node_later :: "(unit, unit node_handler tables) WakuNode" where
  "shard_node_later = node_subscribe sample_sha unit_gossip (PubsubSub, show_pubsub_topic (StaticSharding 1 5)) None shard_node"

lemma shard_node_served:
  "node_handlers unit_gossip shard_node (show_pubsub_topic (StaticSharding 1 i)) \<noteq> [] \<longleftrightarrow> i = 7"
  "node_handlers unit_gossip shard_node_later (show_pubsub_topic (StaticSharding 1 i)) \<noteq> [] \<longleftrightarrow> i = 7 \<or> i = 5"
  "events_since shard_node shard_node_later = [(PubsubSub, show_pubsub_topic (StaticSharding 1 5))]"
proof -
  let ?t = "\<lambda>i. show_pubsub_topic (StaticSharding 1 i)"
  note inj = show_static_inj [OF sample_base10_ok]
  have 1: "node_is unit_gossip shard_node ((\<lambda>t. [])(?t 7 := [\<lparr>th_id = 0, th_handler = DefaultHandler\<rparr>])) 1 Map.empty [(PubsubSub, ?t 7)]
      \<lparr>clusterId = 1, shardCountGenZero = 8\<rparr>"
    using node_tables.pubsub_subscribe_is [OF node_tables.mounted_is [OF unit_gossip_empty,
        where node = "mountSharding 1 8 new_node" and n = 1000], where k = None and t = "?t 7" and sha = sample_sha]
    by (simp add: shard_node_def mountRelay_def mountSharding_def new_node_def)
  note 2 = node_tables.pubsub_subscribe_is [OF 1, where k = None and t = "?t 5" and sha = sample_sha]
  show "node_handlers unit_gossip shard_node (?t i) \<noteq> [] \<longleftrightarrow> i = 7"
    using node_is_handlers [OF 1] by (simp add: inj)
  show "node_handlers unit_gossip shard_node_later (?t i) \<noteq> [] \<longleftrightarrow> i = 7 \<or> i = 5"
    using node_is_handlers [OF 2] by (simp add: inj shard_node_later_def)
  show "events_since shard_node shard_node_later = [(PubsubSub, ?t 5)]"
    using 1 2 by (simp add: events_since_def shard_node_later_def node_is_def)
qed

lemma static_canonical: "canonical sample_base10 (show_pubsub_topic (StaticSharding c i))"
  by (simp add: canonical_def parse_static [OF sample_base10_ok])

text \<open>A node with a shard before its start and one after: both are announced if the record held the first, only
  the second if it did not.\<close>

theorem announced_shards_witness:
  "(\<exists>wm. subscriptionsListener sample_base10 (events_since shard_node shard_node_later) \<lparr>md_clusterId = 1, md_shards = {7}\<rparr> = Done wm
     \<and> 7 \<in> md_shards wm \<and> 5 \<in> md_shards wm \<and> 8 \<notin> md_shards wm)
   \<and> (\<exists>wm. subscriptionsListener sample_base10 (events_since shard_node shard_node_later) \<lparr>md_clusterId = 1, md_shards = {}\<rparr> = Done wm
     \<and> 7 \<notin> md_shards wm \<and> 5 \<in> md_shards wm \<and> 8 \<notin> md_shards wm)"
proof -
  let ?t = "\<lambda>i. show_pubsub_topic (StaticSharding 1 i)" and ?es = "events_since shard_node shard_node_later"
  have node: "shard_node = node_run sample_sha unit_gossip [] (mountRelay sample_sha unit_gossip (Some no_tables) [?t 7] 1000 (mountSharding 1 8 new_node))"
    "shard_node_later = node_run sample_sha unit_gossip [NodeSubscribe (PubsubSub, ?t 5) None] shard_node"
    by (simp_all add: node_run_def shard_node_def shard_node_later_def)
  have "\<forall>t \<in> set [?t 7]. canonical sample_base10 t"
    "\<forall>op \<in> set [] \<union> set [NodeSubscribe (PubsubSub, ?t 5) (None :: unit option)]. canonical_op sample_base10 op"
    by (simp_all add: static_canonical)
  note listen = announced_shards [OF tables.gossip_axioms sample_base10_ok unit_gossip_empty this _ node, where c = 1]
  have listened: "\<exists>wm. subscriptionsListener sample_base10 ?es \<lparr>md_clusterId = 1, md_shards = S\<rparr> = Done wm
      \<and> (\<forall>i :: u16. ucast i \<in> md_shards wm \<longleftrightarrow> i = 5 \<or> ucast i \<in> S)" for S
  proof -
    obtain wm where wm: "subscriptionsListener sample_base10 ?es \<lparr>md_clusterId = 1, md_shards = S\<rparr> = Done wm"
      "\<And>i :: u16. ucast i \<in> md_shards wm \<longleftrightarrow> (if \<exists>e \<in> set ?es. snd e = ?t i
        then node_handlers unit_gossip shard_node_later (?t i) \<noteq> [] else ucast i \<in> S)"
      using listen [of "\<lparr>md_clusterId = 1, md_shards = S\<rparr>"] unfolding Let_def
      by (simp split del: if_split cong: if_cong) (elim exE conjE, rule that, assumption, erule spec)
    have "ucast i \<in> md_shards wm \<longleftrightarrow> i = 5 \<or> ucast i \<in> S" for i :: u16
      unfolding wm(2) shard_node_served by (auto simp: show_static_inj [OF sample_base10_ok])
    with wm(1) show ?thesis by blast
  qed
  obtain wm where "subscriptionsListener sample_base10 ?es \<lparr>md_clusterId = 1, md_shards = {7}\<rparr> = Done wm"
    and wm: "\<And>i :: u16. ucast i \<in> md_shards wm \<longleftrightarrow> i = 5 \<or> ucast i \<in> {7 :: u32}" using listened by blast
  moreover from wm [of 7] wm [of 5] wm [of 8] have "7 \<in> md_shards wm \<and> 5 \<in> md_shards wm \<and> 8 \<notin> md_shards wm" by simp
  moreover obtain wm' where "subscriptionsListener sample_base10 ?es \<lparr>md_clusterId = 1, md_shards = {}\<rparr> = Done wm'"
    and wm': "\<And>i :: u16. ucast i \<in> md_shards wm' \<longleftrightarrow> i = 5 \<or> ucast i \<in> ({} :: u32 set)" using listened by blast
  moreover from wm' [of 7] wm' [of 5] wm' [of 8] have "7 \<notin> md_shards wm' \<and> 5 \<in> md_shards wm' \<and> 8 \<notin> md_shards wm'" by simp
  ultimately show ?thesis by blast
qed

section \<open>Content topics\<close>

text \<open>C22: subscribing to a content topic and unsubscribing again. If the shard of the topic had no handler, or at least two,
  the node is as subscribed as before, with the handlers it had, in their order; in between all of them were
  kept. If it had exactly one handler (the default handler of a node that serves the shard, or the handler of
  a client of the C interface), that one is removed too, and the node has left the shard. An
  unsubscription alone, of a content topic nobody subscribed, does the same.\<close>

theorem content_topic_undone:
  assumes "gossip G" and "node_inv G node" and "getShard_text sha (nd_sharding node) c = Inr t"
    and "contentTopicHandlers node c = None"
    and "node1 = node_subscribe sha G (ContentSub, c) (Some h) node" and "node2 = node_unsubscribe sha G (ContentUnsub, c) node1"
    and "hs = node_handlers G node"
  shows "(\<exists>new. new \<noteq> [] \<and> node_handlers G node1 = hs(t := hs t @ new))
    \<and> node_handlers G node2 = hs(t := if length (hs t) = 1 then [] else hs t)
    \<and> node_handlers G (node_unsubscribe sha G (ContentUnsub, c) node) = node_handlers G node2
    \<and> contentTopicHandlers node2 = contentTopicHandlers node"
proof -
  have G: "node_gossip G" using assms(1) by (simp add: node_gossip_def)
  from assms(2) obtain H n C q s where st: "node_is G node H n C q s" and ok: "handlers_ok H n (ran C)"
    by (auto simp: node_inv_def)
  have s: "getShard_text sha s c = Inr t" "C c = None" "hs = H"
    using st assms(3,4) node_is_handlers [OF st] assms(7) by (auto simp: node_is_def)
  let ?new = "added_handlers n (H t \<noteq> []) (Some h)"
  have 1: "node_is G node1 (H(t := H t @ ?new)) (n + length ?new) (C(c \<mapsto> last ?new)) (q @ [(PubsubSub, t)]) s"
    using node_gossip.content_subscribe_is [OF G st s(1,2), of "Some h"] assms(5) by simp
  have "(H(t := H t @ ?new)) t \<noteq> []" by (cases "H t = []") simp_all
  note 2 = node_gossip.content_unsubscribe_is [OF G 1 s(1) this, folded assms(6)]
  have fresh: "last ?new \<notin> set (H t)" using handlers_okD(1) [OF ok, of _ t] by (cases "H t = []") force+
  have rest: "content_rest ((C(c \<mapsto> last ?new)) c) ((H(t := H t @ ?new)) t)
      = (if H t = [] then [\<lparr>th_id = n, th_handler = DefaultHandler\<rparr>] else H t)"
    using fresh by (cases "H t = []") (auto simp: content_rest_def filter_id_conv)
  have h2: "node_handlers G node2 = H(t := if length (H t) = 1 then [] else H t)"
    unfolding node_is_handlers [OF 2] rest by (auto simp: fun_eq_iff)
  have "contentTopicHandlers node2 = contentTopicHandlers node"
    using 2 st s(2) by (auto simp: node_is_def fun_eq_iff)
  moreover have "node_handlers G (node_unsubscribe sha G (ContentUnsub, c) node) = node_handlers G node2"
  proof (cases "H t = []")
    case True
    then show ?thesis
      using node_gossip.unsubscribe_nothing [OF G st, of "(ContentUnsub, c)" sha] s(1) h2 node_is_handlers [OF st] by auto
  next
    case False
    then show ?thesis
      using node_is_handlers [OF node_gossip.content_unsubscribe_is [OF G st s(1) False]] h2 s(2)
      by (simp add: content_rest_def)
  qed
  moreover have "node_handlers G node1 = H(t := H t @ ?new)" "?new \<noteq> []"
    by (rule node_is_handlers [OF 1]) (simp add: added_handlers_def)
  ultimately show ?thesis using h2 s(3) by blast
qed


text \<open>A node on shard 2 of cluster 1, to which the content topic \<^verbatim>\<open>/a/1/b/c\<close> belongs.\<close>

definition sample_node :: "(unit, unit node_handler tables) WakuNode" where
  "sample_node = mountRelay sample_sha unit_gossip (Some no_tables) [''/waku/2/rs/1/2''] 1000 (mountSharding 1 8 new_node)"

lemma sample_shard: "getShard_text sample_sha \<lparr>clusterId = 1, shardCountGenZero = 8\<rparr> ''/a/1/b/c'' = Inr ''/waku/2/rs/1/2''"
  by code_simp

lemma sample_node_is:
  "node_is unit_gossip sample_node ((\<lambda>t. [])(''/waku/2/rs/1/2'' := [\<lparr>th_id = 0, th_handler = DefaultHandler\<rparr>])) 1 Map.empty
     [(PubsubSub, ''/waku/2/rs/1/2'')] \<lparr>clusterId = 1, shardCountGenZero = 8\<rparr>"
  using node_tables.pubsub_subscribe_is [OF node_tables.mounted_is [OF unit_gossip_empty,
      where node = "mountSharding 1 8 new_node" and n = 1000], where k = None and t = "''/waku/2/rs/1/2''" and sha = sample_sha]
  by (simp add: sample_node_def mountRelay_def mountSharding_def new_node_def)

lemma sample_node_inv: "node_inv unit_gossip sample_node"
  unfolding node_inv_def using sample_node_is by (fastforce simp: handlers_ok_def)

lemma sample_node_fields:
  "nd_sharding sample_node = \<lparr>clusterId = 1, shardCountGenZero = 8\<rparr>" "contentTopicHandlers sample_node = Map.empty"
  using sample_node_is by (auto simp: node_is_def)

theorem content_topic_undone_witness:
  "node_handlers unit_gossip sample_node ''/waku/2/rs/1/2'' \<noteq> []
   \<and> node_handlers unit_gossip (node_unsubscribe sample_sha unit_gossip (ContentUnsub, ''/a/1/b/c'')
       (node_subscribe sample_sha unit_gossip (ContentSub, ''/a/1/b/c'') (Some ()) sample_node)) ''/waku/2/rs/1/2'' = []"
proof -
  have s: "getShard_text sample_sha (nd_sharding sample_node) ''/a/1/b/c'' = Inr ''/waku/2/rs/1/2''"
      "contentTopicHandlers sample_node ''/a/1/b/c'' = None"
    unfolding sample_node_fields by (rule sample_shard) simp
  show ?thesis
    using content_topic_undone [OF tables.gossip_axioms sample_node_inv s refl refl refl, of "()"]
    unfolding node_is_handlers [OF sample_node_is] by simp
qed

text \<open>A handler of a content topic that is not subscribed any more stays so.\<close>

context node_gossip
begin

lemma stale_step:
  assumes "node_is G node H n C q s" and "C c = Some h" and "h \<notin> set (H t)" and "th_id h < n"
    and "op \<noteq> NodeUnsubscribe (ContentUnsub, c)"
  shows "\<exists>H' n' C' q'. node_is G (node_op sha G op node) H' n' C' q' s \<and> C' c = Some h \<and> h \<notin> set (H' t) \<and> th_id h < n'"
  using assms(1)
proof (cases rule: node_op_cases [where op = op and sha = sha])
  case same
  then show ?thesis using assms(1-4) by auto
next
  case (sub u k C')
  have "h \<notin> set (added_handlers n (H u \<noteq> []) k)" using assms(4) by (cases k; cases "H u = []") auto
  moreover have "C' c = Some h" using sub(2) assms(2) by auto
  ultimately show ?thesis using assms(3,4) by - (intro exI conjI, rule sub(1), auto)
next
  case (clear u)
  then show ?thesis using assms(2-4) by - (intro exI conjI, assumption, auto)
next
  case (content d u)
  then have "(C(d := None)) c = Some h" using assms(2,5) by auto
  with content(1) show ?thesis
    using assms(3,4) by - (intro exI conjI, assumption, auto simp: content_rest_def split: option.splits)
next
  case (api u a)
  then show ?thesis using assms(2-4) by - (intro exI conjI, assumption, auto)
next
  case (api_clear u)
  then show ?thesis using assms(2-4) by - (intro exI conjI, assumption, auto)
qed

lemma stale_run:
  assumes "node_is G node H n C q s" and "C c = Some h" and "h \<notin> set (H t)" and "th_id h < n"
    and "\<forall>op \<in> set ops. op \<noteq> NodeUnsubscribe (ContentUnsub, c)"
  shows "\<exists>H n C q. node_is G (node_run sha G ops node) H n C q s \<and> C c = Some h \<and> h \<notin> set (H t)"
  using assms
proof (induction ops arbitrary: node H n C q)
  case Nil
  then show ?case by (auto simp: node_run_def)
next
  case (Cons op ops)
  from Cons.prems(5) have "op \<noteq> NodeUnsubscribe (ContentUnsub, c)" by simp
  from stale_step [OF Cons.prems(1-4) this, of sha] obtain H' n' C' q' where
    "node_is G (node_op sha G op node) H' n' C' q' s" "C' c = Some h" "h \<notin> set (H' t)" "th_id h < n'" by blast
  from Cons.IH [OF this] Cons.prems(5) show ?case by (simp add: node_run_def)
qed

end

text \<open>A content topic that cannot be subscribed again. When the pubsub topic of its shard is unsubscribed, its handler
  is gone from the relay but not from the node's own table. Whatever is subscribed and unsubscribed after that,
  by the node or the C interface, as long as this content topic itself is not unsubscribed while its shard
  is subscribed: a new subscription to it is refused and changes nothing, and its handler is not among
  those of the shard.\<close>

theorem content_topic_stale:
  assumes "gossip G" and "node_inv G node" and "contentTopicHandlers node c = Some h" and "node_handlers G node t \<noteq> []"
    and "\<forall>op \<in> set ops. op \<noteq> NodeUnsubscribe (ContentUnsub, c)"
    and "node' = node_run sha G ops (node_unsubscribe sha G (PubsubUnsub, t) node)"
  shows "node_subscribe sha G (ContentSub, c) k node' = node' \<and> h \<notin> set (node_handlers G node' t)"
proof -
  have G: "node_gossip G" using assms(1) by (simp add: node_gossip_def)
  from assms(2) obtain H n C q s where st: "node_is G node H n C q s" and ok: "handlers_ok H n (ran C)"
    by (auto simp: node_inv_def)
  have c: "C c = Some h" and t: "H t \<noteq> []" using st assms(3,4) node_is_handlers [OF st] by (auto simp: node_is_def)
  have n: "th_id h < n" using handlers_okD(4) [OF ok] c by (auto simp: ran_def)
  obtain H' n' C' q' where st': "node_is G node' H' n' C' q' s" and c': "C' c = Some h" and t': "h \<notin> set (H' t)"
    using node_gossip.stale_run [OF G node_gossip.pubsub_unsubscribe_is [OF G st t, of sha] c _ n assms(5), of t sha]
    unfolding assms(6) by auto
  have "node_subscribe sha G (ContentSub, c) k node' = node'"
    by (rule node_gossip.subscribe_nothing [OF G st']) (simp add: c')
  with t' show ?thesis by (simp add: node_is_handlers [OF st'])
qed

lemma sample_content_is:
  "node_is unit_gossip (node_subscribe sample_sha unit_gossip (ContentSub, ''/a/1/b/c'') (Some ()) sample_node)
     ((\<lambda>t. [])(''/waku/2/rs/1/2'' := [\<lparr>th_id = 0, th_handler = DefaultHandler\<rparr>, \<lparr>th_id = 1, th_handler = AppHandler ()\<rparr>])) (Suc (Suc 0))
     [''/a/1/b/c'' \<mapsto> \<lparr>th_id = 1, th_handler = AppHandler ()\<rparr>]
     [(PubsubSub, ''/waku/2/rs/1/2''), (PubsubSub, ''/waku/2/rs/1/2'')] \<lparr>clusterId = 1, shardCountGenZero = 8\<rparr>"
proof -
  let ?T = "''/waku/2/rs/1/2''" and ?h = "\<lparr>th_id = 0, th_handler = DefaultHandler\<rparr>"
  have H: "((\<lambda>t. [])(?T := [?h])) ?T = [?h]" by simp
  show ?thesis
    using node_tables.content_subscribe_is [OF sample_node_is sample_shard refl, where k = "Some ()"]
    unfolding H by (simp only: fun_upd_upd added_simps list.simps option.simps last.simps if_True if_False append.simps
      list.size add_0_right add_Suc_right simp_thms One_nat_def)
qed

theorem content_topic_stale_witness:
  "let node = node_subscribe sample_sha unit_gossip (ContentSub, ''/a/1/b/c'') (Some ()) sample_node;
       node' = node_unsubscribe sample_sha unit_gossip (PubsubUnsub, ''/waku/2/rs/1/2'') node
   in node_subscribe sample_sha unit_gossip (ContentSub, ''/a/1/b/c'') (Some ()) node' = node'"
proof -
  let ?node = "node_subscribe sample_sha unit_gossip (ContentSub, ''/a/1/b/c'') (Some ()) sample_node"
  have "node_inv unit_gossip ?node"
    using node_tables.node_inv_op [OF sample_node_inv, of sample_sha "NodeSubscribe (ContentSub, ''/a/1/b/c'') (Some ())"] by simp
  moreover have "contentTopicHandlers ?node ''/a/1/b/c'' = Some \<lparr>th_id = 1, th_handler = AppHandler ()\<rparr>"
    using sample_content_is unfolding node_is_def by (elim conjE) (simp only: fun_upd_same One_nat_def)
  moreover have "node_handlers unit_gossip ?node ''/waku/2/rs/1/2'' \<noteq> []"
    by (simp add: node_is_handlers [OF sample_content_is])
  moreover have "\<forall>op \<in> set ([] :: unit node_operation list). op \<noteq> NodeUnsubscribe (ContentUnsub, ''/a/1/b/c'')" by simp
  ultimately show ?thesis
    unfolding Let_def
    by (rule content_topic_stale [OF tables.gossip_axioms _ _ _ _ refl, where ops = "[]", unfolded node_run_def fold_simps(1), THEN conjunct1])
qed

end
