(* ===== verification/NodeRelay.thy ===== *)
theory NodeRelay
  imports WakuNode FilterProtocol Archive Lightpush
begin

text \<open>
  What a node does with the messages of its relay, \<^verbatim>\<open>waku/node/waku_node.nim\<close>: the default handler, which
  pushes to the subscribers of the filter service and stores in the archive, and the push handler behind
  its lightpush service, which validates and publishes. Tracing and metrics are left out.
\<close>

section \<open>The default handler\<close>

text \<open>The services a node has mounted. What the filter service pushes to is the answer of its peers.\<close>

record 'd node_services =
  sv_filter :: "FilterSubscriptions option"
  sv_archive :: "'d option"

datatype 'h node_action =
    PushedTo "PeerId set" PubsubTopic WakuMessage
  | Called 'h PubsubTopic WakuMessage

record 'd node_world =
  nw_sha :: "bytes \<Rightarrow> bytes"
  nw_be64 :: "u64 \<Rightarrow> bytes"
  nw_driver :: "'d archive_driver"
  nw_hasPeer :: "PeerId \<Rightarrow> bool"
  nw_dial :: "PeerId \<Rightarrow> bool"
  nw_clock :: "PeerId \<Rightarrow> Moment"

definition filterHandler :: "'d node_world \<Rightarrow> 'd node_services \<Rightarrow> PubsubTopic \<Rightarrow> WakuMessage \<Rightarrow> 'h node_action list" where
  "filterHandler W sv topic msg =
     (case sv_filter sv of None \<Rightarrow> []
      | Some subs \<Rightarrow> [PushedTo (handleMessage (nw_hasPeer W) (nw_dial W) (nw_clock W) topic msg subs) topic msg])"

definition archiveHandler ::
  "'d node_world \<Rightarrow> Timestamp \<Rightarrow> PubsubTopic \<Rightarrow> WakuMessage \<Rightarrow> 'd node_services \<Rightarrow> 'd node_services exec" where
  "archiveHandler W now topic msg sv =
     (case sv_archive sv of None \<Rightarrow> Done sv
      | Some d \<Rightarrow> bind_exec (archive_handleMessage (nw_sha W) (nw_be64 W) (nw_driver W) (validate now) now topic msg d)
          (\<lambda>d'. Done (sv\<lparr>sv_archive := Some d'\<rparr>)))"

definition defaultHandler ::
  "'d node_world \<Rightarrow> Timestamp \<Rightarrow> PubsubTopic \<Rightarrow> WakuMessage \<Rightarrow> 'd node_services \<Rightarrow> ('h node_action list \<times> 'd node_services) exec" where
  "defaultHandler W now topic msg sv =
     (let pushed = filterHandler W sv topic msg
      in bind_exec (archiveHandler W now topic msg sv) (\<lambda>sv'. Done (pushed, sv')))"

text \<open>The handlers of a message, one after the other.\<close>

fun run_handlers ::
  "'d node_world \<Rightarrow> Timestamp \<Rightarrow> ('h node_handler \<times> PubsubTopic \<times> WakuMessage) list \<Rightarrow> 'd node_services
     \<Rightarrow> ('h node_action list \<times> 'd node_services) exec" where
  "run_handlers W now [] sv = Done ([], sv)"
| "run_handlers W now ((h, topic, msg) # cs) sv =
     bind_exec (case h of
         DefaultHandler \<Rightarrow> defaultHandler W now topic msg sv
       | AppHandler a \<Rightarrow> Done ([Called a topic msg], sv)) (\<lambda>(as, sv).
     bind_exec (run_handlers W now cs sv) (\<lambda>(bs, sv). Done (as @ bs, sv)))"

text \<open>What GossipSub hands to the handlers of a topic, at a time.\<close>

definition node_receive ::
  "'d node_world \<Rightarrow> pbuf \<Rightarrow> ('h, 'g) node_pubsub \<Rightarrow> ('h, 'g) WakuNode \<Rightarrow> Timestamp \<times> PubsubTopic \<times> bytes
     \<Rightarrow> 'd node_services \<Rightarrow> ('h node_action list \<times> 'd node_services) exec" where
  "node_receive W P G node m sv =
     (case m of (now, topic, data) \<Rightarrow>
      (case nd_relay node of None \<Rightarrow> Done ([], sv)
       | Some relay \<Rightarrow> run_handlers W now (relay_deliver P G relay topic data) sv))"

fun node_receive_all ::
  "'d node_world \<Rightarrow> pbuf \<Rightarrow> ('h, 'g) node_pubsub \<Rightarrow> ('h, 'g) WakuNode \<Rightarrow> (Timestamp \<times> PubsubTopic \<times> bytes) list
     \<Rightarrow> 'd node_services \<Rightarrow> ('h node_action list \<times> 'd node_services) exec" where
  "node_receive_all W P G node [] sv = Done ([], sv)"
| "node_receive_all W P G node (m # ms) sv =
     bind_exec (node_receive W P G node m sv) (\<lambda>(as, sv).
     bind_exec (node_receive_all W P G node ms sv) (\<lambda>(bs, sv). Done (as @ bs, sv)))"

section \<open>What is delivered\<close>

definition serves :: "('h, 'g) node_pubsub \<Rightarrow> ('h, 'g) WakuNode \<Rightarrow> PubsubTopic \<Rightarrow> bool" where
  "serves G node t \<longleftrightarrow> (\<exists>h hs. node_handlers G node t = h # hs \<and> th_handler h = DefaultHandler)"

definition app_handlers :: "('h, 'g) node_pubsub \<Rightarrow> ('h, 'g) WakuNode \<Rightarrow> PubsubTopic \<Rightarrow> 'h list" where
  "app_handlers G node t =
     List.map_filter (\<lambda>h. case th_handler h of DefaultHandler \<Rightarrow> None | AppHandler a \<Rightarrow> Some a) (node_handlers G node t)"

lemma run_app_handlers:
  assumes "\<forall>h \<in> set hs. th_handler h \<noteq> DefaultHandler"
  shows "run_handlers W now (map (\<lambda>h. (th_handler h, t, m)) hs) sv = Done (map (\<lambda>a. Called a t m)
      (List.map_filter (\<lambda>h. case th_handler h of DefaultHandler \<Rightarrow> None | AppHandler a \<Rightarrow> Some a) hs), sv)"
  using assms by (induction hs) (auto simp: List.map_filter_def split: node_handler.splits)

lemma node_invD:
  assumes "node_inv G node" and "node_handlers G node t = h # hs"
  shows "\<forall>x \<in> set hs. th_handler x \<noteq> DefaultHandler"
proof -
  from assms(1) obtain H n C q s where st: "node_is G node H n C q s" and ok: "handlers_ok H n (ran C)"
    by (auto simp: node_inv_def)
  then show ?thesis using handlers_okD(3) [OF ok, of _ t] node_is_handlers [OF st] assms(2) by auto
qed

lemma node_receive_decoded:
  assumes "node_inv G node" and "decode_message P data = Inr m"
  shows "node_receive W P G node (now, t, data) sv =
    (if serves G node t
     then bind_exec (archiveHandler W now t m sv) (\<lambda>sv'.
       Done (filterHandler W sv t m @ map (\<lambda>a. Called a t m) (app_handlers G node t), sv'))
     else Done (map (\<lambda>a. Called a t m) (app_handlers G node t), sv))"
proof -
  obtain w where w: "nd_relay node = Some w" using assms(1) by (auto simp: node_inv_def node_is_def)
  have "node_receive W P G node (now, t, data) sv =
      run_handlers W now (map (\<lambda>h. (th_handler h, t, m)) (node_handlers G node t)) sv"
    using assms(2) by (simp add: node_receive_def w deliver_accepted node_handlers_def)
  moreover note inv = node_invD [OF assms(1), of t]
  ultimately show ?thesis
  proof (cases "node_handlers G node t")
    case Nil
    then show ?thesis using \<open>node_receive W P G node _ sv = _\<close> by (simp add: serves_def app_handlers_def List.map_filter_def)
  next
    case (Cons h hs)
    note run = run_app_handlers [OF inv [OF Cons]]
    show ?thesis
    proof (cases "th_handler h")
      case DefaultHandler
      then have "serves G node t" by (simp add: serves_def Cons)
      then show ?thesis using \<open>node_receive W P G node _ sv = _\<close> Cons DefaultHandler
        by (cases "archiveHandler W now t m sv") (simp_all add: run defaultHandler_def app_handlers_def List.map_filter_def)
    next
      case (AppHandler a)
      then have "\<not> serves G node t" by (simp add: serves_def Cons)
      then show ?thesis using \<open>node_receive W P G node _ sv = _\<close> Cons AppHandler
        by (simp add: run app_handlers_def List.map_filter_def)
    qed
  qed
qed

lemma node_receive_undecoded: "decode_message P data = Inl e \<Longrightarrow> node_receive W P G node (now, t, data) sv = Done ([], sv)"
  by (simp add: node_receive_def deliver_undecodable split: option.splits)


text \<open>The messages of what is handed over, with the actions and the archive they lead to.\<close>

definition decoded :: "pbuf \<Rightarrow> (Timestamp \<times> PubsubTopic \<times> bytes) list \<Rightarrow> (Timestamp \<times> PubsubTopic \<times> WakuMessage) list" where
  "decoded P ms = List.map_filter (\<lambda>(now, t, data).
     case decode_message P data of Inl e \<Rightarrow> None | Inr m \<Rightarrow> Some (now, t, m)) ms"

definition to_store :: "('h, 'g) node_pubsub \<Rightarrow> ('h, 'g) WakuNode \<Rightarrow> Timestamp \<times> PubsubTopic \<times> WakuMessage \<Rightarrow> bool" where
  "to_store G node r = (case r of (now, t, m) \<Rightarrow> serves G node t)"

definition message_actions ::
  "'d node_world \<Rightarrow> ('h, 'g) node_pubsub \<Rightarrow> ('h, 'g) WakuNode \<Rightarrow> 'd node_services
     \<Rightarrow> Timestamp \<times> PubsubTopic \<times> WakuMessage \<Rightarrow> 'h node_action list" where
  "message_actions W G node sv r = (case r of (now, t, m) \<Rightarrow>
     (if serves G node t then filterHandler W sv t m else []) @ map (\<lambda>a. Called a t m) (app_handlers G node t))"

lemma bind_exec_id [simp]: "bind_exec x Done = x"
  by (cases x) simp_all

lemma to_store_simp [simp]: "to_store G node (now, t, m) \<longleftrightarrow> serves G node t"
  by (simp add: to_store_def)

lemma message_actions_simp [simp]: "message_actions W G node sv (now, t, m) =
    (if serves G node t then filterHandler W sv t m else []) @ map (\<lambda>a. Called a t m) (app_handlers G node t)"
  by (simp add: message_actions_def)

lemma message_actions_archive [simp]: "message_actions W G node (sv\<lparr>sv_archive := a\<rparr>) r = message_actions W G node sv r"
  by (simp add: message_actions_def filterHandler_def split: prod.splits)

lemma node_delivers:
  assumes inv: "node_inv G node" and "sv_archive sv = Some d"
  shows "node_receive_all W P G node ms sv =
    bind_exec (archive_run (nw_sha W) (nw_be64 W) (nw_driver W) (filter (to_store G node) (decoded P ms)) d)
      (\<lambda>d'. Done (concat (map (message_actions W G node sv) (decoded P ms)), sv\<lparr>sv_archive := Some d'\<rparr>))"
  using assms(2)
proof (induction ms arbitrary: sv d)
  case Nil
  then show ?case by (simp add: decoded_def List.map_filter_def)
next
  case (Cons r ms)
  obtain now t data where r: "r = (now, t, data)" by (cases r)
  show ?case
  proof (cases "decode_message P data")
    case (Inl e)
    then have "decoded P (r # ms) = decoded P ms" by (simp add: decoded_def List.map_filter_def r)
    then show ?thesis
      using Cons.IH [OF Cons.prems] by (simp add: r node_receive_undecoded [OF Inl])
  next
    case (Inr m)
    have dec: "decoded P ((now, t, data) # ms) = (now, t, m) # decoded P ms" by (simp add: decoded_def List.map_filter_def r Inr)
    show ?thesis
    proof (cases "serves G node t")
      case False
      then show ?thesis
        using Cons.IH [OF Cons.prems] node_receive_decoded [OF inv Inr, of W now t sv]
        by (simp add: dec r bind_exec_assoc)
    next
      case True
      show ?thesis
      proof (cases "archive_handleMessage (nw_sha W) (nw_be64 W) (nw_driver W) (validate now) now t m d")
        case (Fault f)
        then show ?thesis
          using node_receive_decoded [OF inv Inr, of W now t sv] True Cons.prems
          by (simp add: dec r archiveHandler_def)
      next
        case (Done d')
        let ?sv = "sv\<lparr>sv_archive := Some d'\<rparr>"
        have "node_receive W P G node r sv = Done (filterHandler W sv t m @ map (\<lambda>a. Called a t m) (app_handlers G node t), ?sv)"
          using node_receive_decoded [OF inv Inr, of W now t sv] True Cons.prems Done by (simp add: r archiveHandler_def)
        moreover have "node_receive_all W P G node ms ?sv =
            bind_exec (archive_run (nw_sha W) (nw_be64 W) (nw_driver W) (filter (to_store G node) (decoded P ms)) d')
              (\<lambda>d'. Done (concat (map (message_actions W G node sv) (decoded P ms)), sv\<lparr>sv_archive := Some d'\<rparr>))"
          using Cons.IH [of ?sv d'] by simp
        ultimately show ?thesis
          using True Done by (simp add: r dec bind_exec_assoc)
      qed
    qed
  qed
qed

text \<open>C16: what a node does with what GossipSub hands to it, in order. A node on which anything was subscribed and unsubscribed
  before receives any list of data: data that is no message does nothing; every other one is pushed to the
  filter subscribers once and stored in the archive once, if the first handler of its topic is the default
  handler, however many subscriptions the topic has, and each handler of the callers is called once, with
  the message. The archive at the end is the one that was given exactly those messages, in their order.\<close>

theorem node_delivery:
  assumes "gossip G" and "node_inv G node0" and "node = node_run sha G ops node0" and "sv_archive sv = Some d"
  shows "node_receive_all W P G node ms sv =
    bind_exec (archive_run (nw_sha W) (nw_be64 W) (nw_driver W) (filter (to_store G node) (decoded P ms)) d)
      (\<lambda>d'. Done (concat (map (message_actions W G node sv) (decoded P ms)), sv\<lparr>sv_archive := Some d'\<rparr>))"
proof -
  have "node_gossip G" using assms(1) by (simp add: node_gossip_def)
  then have "node_inv G node" unfolding assms(3) by (rule node_gossip.node_inv_run [OF _ assms(2)])
  then show ?thesis by (rule node_delivers [OF _ assms(4)])
qed


definition list_driver :: "WakuMessage list archive_driver" where
  "list_driver = \<lparr>ad_put = (\<lambda>t m _ _ _ d. Done (Inr (), d @ [m])), ad_getMessages = (\<lambda>_ _ _ _. Inl []),
     ad_getMessagesCount = (\<lambda>_. Inl []), ad_getOldestMessageTimestamp = (\<lambda>_. Inl []),
     ad_deleteMessagesOlderThanTimestamp = (\<lambda>_ d. (Inl [], d)), ad_deleteOldestMessagesNotWithinLimit = (\<lambda>_ d. (Inl [], d)),
     ad_decreaseDatabaseSize = (\<lambda>_ d. (Inl [], d))\<rparr>"

definition sample_world :: "WakuMessage list node_world" where
  "sample_world = \<lparr>nw_sha = id, nw_be64 = (\<lambda>_. []), nw_driver = list_driver, nw_hasPeer = (\<lambda>_. False),
     nw_dial = (\<lambda>_. False), nw_clock = (\<lambda>_. 0)\<rparr>"

lemma hello_decoded: "decode_message wire_format (encode_message wire_format hello) = Inr hello"
proof -
  have "encodable hello" using hello_encodable by (simp add: push_rpc_encodable_def push_call_def)
  from wire.decode_encode_message [OF this] show ?thesis by (simp add: hello_def empty_message_def)
qed

theorem node_delivery_witness:
  "node_receive_all sample_world wire_format unit_gossip
     (node_subscribe sample_sha unit_gossip (ContentSub, ''/a/1/b/c'') (Some ()) sample_node)
     [(0, ''/waku/2/rs/1/2'', encode_message wire_format hello), (0, ''other'', encode_message wire_format hello)]
     \<lparr>sv_filter = None, sv_archive = Some []\<rparr>
   = Done ([Called () ''/waku/2/rs/1/2'' hello], \<lparr>sv_filter = None, sv_archive = Some [hello]\<rparr>)"
proof -
  let ?op = "NodeSubscribe (ContentSub, ''/a/1/b/c'') (Some ())"
  let ?node = "node_subscribe sample_sha unit_gossip (ContentSub, ''/a/1/b/c'') (Some ()) sample_node"
  let ?sv = "\<lparr>sv_filter = None, sv_archive = Some []\<rparr>" and ?T = "''/waku/2/rs/1/2''"
  let ?ms = "[(0, ?T, encode_message wire_format hello), (0, ''other'', encode_message wire_format hello)]"
  have dec: "decoded wire_format ?ms = [(0, ?T, hello), (0, ''other'', hello)]"
    by (simp add: decoded_def List.map_filter_def hello_decoded)
  have h: "node_handlers unit_gossip ?node ?T = [\<lparr>th_id = 0, th_handler = DefaultHandler\<rparr>, \<lparr>th_id = 1, th_handler = AppHandler ()\<rparr>]"
      "node_handlers unit_gossip ?node ''other'' = []"
    unfolding node_is_handlers [OF sample_content_is] by simp_all
  have s: "serves unit_gossip ?node ?T" "app_handlers unit_gossip ?node ?T = [()]"
      "\<not> serves unit_gossip ?node ''other''" "app_handlers unit_gossip ?node ''other'' = []"
    unfolding serves_def app_handlers_def h by (simp_all add: List.map_filter_def)
  have f: "filter (to_store unit_gossip ?node) (decoded wire_format ?ms) = [(0, ?T, hello)]"
    unfolding dec by (simp add: s)
  have a: "concat (map (message_actions sample_world unit_gossip ?node ?sv) (decoded wire_format ?ms)) = [Called () ?T hello]"
    unfolding dec by (simp add: s filterHandler_def)
  have "node_run sample_sha unit_gossip [?op] sample_node = ?node" by (simp add: node_run_def)
  from node_delivery [OF tables.gossip_axioms sample_node_inv this [symmetric], of ?sv "[]" sample_world wire_format ?ms]
  show ?thesis
    unfolding f a by (simp add: sample_world_def list_driver_def archive_handleMessage_def validate_def hello_def empty_message_def)
qed

section \<open>Whose subscription comes first\<close>

fun subscribes :: "'h node_operation \<Rightarrow> bool" where
  "subscribes (NodeSubscribe ev h) \<longleftrightarrow> True"
| "subscribes (ApiSubscribe t h) \<longleftrightarrow> True"
| "subscribes op \<longleftrightarrow> False"

context node_gossip
begin

lemma first_handler_stays:
  assumes "node_is G node H n C q s" and "H t \<noteq> []" and "\<forall>op \<in> set ops. subscribes op"
  shows "\<exists>H' n' C' q'. node_is G (node_run sha G ops node) H' n' C' q' s \<and> H' t \<noteq> [] \<and> hd (H' t) = hd (H t)"
  using assms
proof (induction ops arbitrary: node H n C q)
  case Nil
  then show ?case by (auto simp: node_run_def)
next
  case (Cons op ops)
  have "\<exists>H' n' C' q'. node_is G (node_op sha G op node) H' n' C' q' s \<and> H' t \<noteq> [] \<and> hd (H' t) = hd (H t)"
    using Cons.prems(1)
  proof (cases rule: node_op_cases [where op = op and sha = sha])
    case same
    then show ?thesis using Cons.prems by auto
  next
    case (sub u k C')
    then show ?thesis using Cons.prems(2) by - (intro exI conjI, assumption, auto)
  next
    case (api u a)
    then show ?thesis using Cons.prems(2) by - (intro exI conjI, assumption, auto)
  qed (use Cons.prems(3) in auto)
  then obtain H' n' C' q' where 1: "node_is G (node_op sha G op node) H' n' C' q' s" "H' t \<noteq> []" "hd (H' t) = hd (H t)"
    by blast
  from Cons.IH [OF 1(1,2)] Cons.prems(3) 1(3) show ?case by (simp add: node_run_def)
qed

end

text \<open>What arrives on one topic.\<close>

lemma delivered_on:
  assumes "node_inv G node" and "sv_archive sv = Some d" and "\<forall>(now, u, data) \<in> set ms. u = t"
  shows "node_receive_all W P G node ms sv =
    (if serves G node t
     then bind_exec (archive_run (nw_sha W) (nw_be64 W) (nw_driver W) (decoded P ms) d)
       (\<lambda>d'. Done (concat (map (\<lambda>(now, u, m). filterHandler W sv t m @ map (\<lambda>a. Called a t m) (app_handlers G node t)) (decoded P ms)),
         sv\<lparr>sv_archive := Some d'\<rparr>))
     else Done (concat (map (\<lambda>(now, u, m). map (\<lambda>a. Called a t m) (app_handlers G node t)) (decoded P ms)), sv))"
proof -
  have t: "\<forall>(now, u, m) \<in> set (decoded P ms). u = t"
    using assms(3) by (induction ms) (auto simp: decoded_def List.map_filter_def split: sum.splits)
  then have f: "filter (to_store G node) (decoded P ms) = (if serves G node t then decoded P ms else [])"
    by (auto simp: filter_id_conv filter_empty_conv)
  have a: "map (message_actions W G node sv) (decoded P ms) = map (\<lambda>(now, u, m).
      (if serves G node t then filterHandler W sv t m else []) @ map (\<lambda>a. Called a t m) (app_handlers G node t)) (decoded P ms)"
    using t by (intro map_cong) auto
  have "sv\<lparr>sv_archive := Some d\<rparr> = sv" using assms(2) by simp
  then show ?thesis unfolding node_delivers [OF assms(1,2), of W P ms] f a by (cases "serves G node t") simp_all
qed

text \<open>C23: the first subscription to a topic decides what the node does with its messages. On a topic without handlers, let the
  first operation be a subscription by the node, or one by a client of the C interface, followed by any
  subscriptions of either kind, and let any data arrive on the topic. In the first case every message of it
  is pushed to the filter subscribers and stored in the archive; in the second no message is ever
  pushed or stored: the handlers of the callers, that client's among them, are called and the services stay as
  they are, although the node then tells its peers that it serves the shard as soon as it subscribes itself.\<close>

theorem first_subscription_decides:
  assumes "gossip G" and "node_inv G node" and "node_handlers G node t = []" and "\<forall>op \<in> set ops. subscribes op"
    and "by_node = node_run sha G (NodeSubscribe (PubsubSub, t) k # ops) node"
    and "by_client = node_run sha G (ApiSubscribe t h # ops) node"
    and "sv_archive sv = Some d" and "\<forall>(now, u, data) \<in> set ms. u = t"
  shows "node_receive_all W P G by_node ms sv =
      bind_exec (archive_run (nw_sha W) (nw_be64 W) (nw_driver W) (decoded P ms) d)
        (\<lambda>d'. Done (concat (map (\<lambda>(now, u, m). filterHandler W sv t m @ map (\<lambda>a. Called a t m) (app_handlers G by_node t))
            (decoded P ms)), sv\<lparr>sv_archive := Some d'\<rparr>))
    \<and> node_receive_all W P G by_client ms sv =
      Done (concat (map (\<lambda>(now, u, m). map (\<lambda>a. Called a t m) (app_handlers G by_client t)) (decoded P ms)), sv)
    \<and> h \<in> set (app_handlers G by_client t)
    \<and> (PubsubSub, t) \<in> set (topicSubscriptionQueue (node_subscribe sha G (PubsubSub, t) k by_client))"
proof -
  have G: "node_gossip G" using assms(1) by (simp add: node_gossip_def)
  from assms(2) obtain H n C q s where st: "node_is G node H n C q s" by (auto simp: node_inv_def)
  have t: "H t = []" using assms(3) node_is_handlers [OF st] by simp
  have 1: "\<exists>H' n' C' q'. node_is G by_node H' n' C' q' s \<and> H' t \<noteq> [] \<and> th_handler (hd (H' t)) = DefaultHandler"
    using node_gossip.first_handler_stays [OF G node_gossip.pubsub_subscribe_is [OF G st, where t = t and k = k and sha = sha]
        _ assms(4), of t sha] t unfolding assms(5) by (cases k) (fastforce simp: node_run_def)+
  have 2: "\<exists>H' n' C' q'. node_is G by_client H' n' C' q' s \<and> H' t \<noteq> [] \<and> th_handler (hd (H' t)) = AppHandler h"
    using node_gossip.first_handler_stays [OF G node_gossip.api_is(1) [OF G st, where t = t and h = h]
        _ assms(4), of t sha] t unfolding assms(6) by (fastforce simp: node_run_def)
  from 1 obtain H1 where "node_handlers G by_node = H1" "H1 t \<noteq> []" "th_handler (hd (H1 t)) = DefaultHandler"
    using node_is_handlers by blast
  then have serves: "serves G by_node t" by (cases "H1 t") (auto simp: serves_def)
  from 2 obtain H2 n2 C2 q2 where 3: "node_is G by_client H2 n2 C2 q2 s" "H2 t \<noteq> []"
    "th_handler (hd (H2 t)) = AppHandler h" by blast
  have "\<not> serves G by_client t" using 3(3) unfolding serves_def node_is_handlers [OF 3(1)] by auto
  moreover have "h \<in> set (app_handlers G by_client t)"
    using 3(2,3) unfolding app_handlers_def node_is_handlers [OF 3(1)] by (cases "H2 t") (auto simp: List.map_filter_def)
  moreover have "(PubsubSub, t) \<in> set (topicSubscriptionQueue (node_subscribe sha G (PubsubSub, t) k by_client))"
    using node_gossip.pubsub_subscribe_is [OF G 3(1), where t = t and k = k and sha = sha] by (simp add: node_is_def)
  moreover have inv: "node_inv G by_node" "node_inv G by_client"
    unfolding assms(5,6) by (rule node_gossip.node_inv_run [OF G assms(2)])+
  ultimately show ?thesis
    using serves delivered_on [OF inv(1) assms(7,8), of W P] delivered_on [OF inv(2) assms(7,8), of W P] by (simp only: if_True if_False simp_thms)
qed

text \<open>A message on the topic is stored after the node subscribed first, and not after a client did.\<close>

theorem first_subscription_decides_witness:
  "(\<exists>as d. node_receive_all sample_world wire_format unit_gossip
      (node_run sample_sha unit_gossip [NodeSubscribe (PubsubSub, ''t'') None, ApiSubscribe ''t'' ()] sample_node)
      [(0, ''t'', encode_message wire_format hello)] \<lparr>sv_filter = None, sv_archive = Some []\<rparr>
      = Done (as, \<lparr>sv_filter = None, sv_archive = Some d\<rparr>) \<and> d = [hello])
   \<and> (\<exists>as. node_receive_all sample_world wire_format unit_gossip
      (node_run sample_sha unit_gossip [ApiSubscribe ''t'' (), ApiSubscribe ''t'' ()] sample_node)
      [(0, ''t'', encode_message wire_format hello)] \<lparr>sv_filter = None, sv_archive = Some []\<rparr>
      = Done (as, \<lparr>sv_filter = None, sv_archive = Some []\<rparr>))"
proof -
  have h: "node_handlers unit_gossip sample_node ''t'' = []" unfolding node_is_handlers [OF sample_node_is] by simp
  have ops: "\<forall>op \<in> set [ApiSubscribe ''t'' ()]. subscribes op" by simp
  have dec: "decoded wire_format [(0, ''t'', encode_message wire_format hello)] = [(0, ''t'', hello)]"
    by (simp add: decoded_def List.map_filter_def hello_decoded)
  show ?thesis
    using first_subscription_decides [OF tables.gossip_axioms sample_node_inv h ops refl refl, where sha = sample_sha and k = None
        and h = "()" and W = sample_world and P = wire_format and sv = "\<lparr>sv_filter = None, sv_archive = Some []\<rparr>" and d = "[]"
        and ms = "[(0, ''t'', encode_message wire_format hello)]"]
    unfolding dec by (simp add: sample_world_def list_driver_def archive_handleMessage_def validate_def hello_def empty_message_def)
qed


section \<open>Publishing\<close>

text \<open>The push handler behind the lightpush service: its answer, and what it publishes.\<close>

definition node_push ::
  "pbuf \<Rightarrow> ('h, 'g) WakuNode \<Rightarrow> PeerId \<Rightarrow> PubsubTopic \<Rightarrow> WakuMessage \<Rightarrow> (string + unit) \<times> (PubsubTopic \<times> bytes) option" where
  "node_push P node peer pubsubTopic message =
     (case nd_relay node of
        None \<Rightarrow> (Inl ''no waku relay found'', None)
      | Some relay \<Rightarrow>
          (case validateMessage P relay pubsubTopic message of
             Inl e \<Rightarrow> (Inl e, None)
           | Inr _ \<Rightarrow> (Inr (), Some (pubsubTopic, encode_message P message))))"

definition pushHandler :: "pbuf \<Rightarrow> ('h, 'g) WakuNode \<Rightarrow> push_handler" where
  "pushHandler P node = (\<lambda>peer t m. fst (node_push P node peer t m))"

text \<open>Validation before publishing and validation by the peers. For a message of at most the maximal size, \<^verbatim>\<open>validateMessage\<close>
  passes and \<^verbatim>\<open>meta\<close> has at most 64 bytes if and only if a relay with the same validators accepts the published
  bytes; then every handler of that relay is called with the very message. Whatever \<^verbatim>\<open>validateMessage\<close> said, a
  message with a longer \<^verbatim>\<open>meta\<close> is rejected by every peer, and no handler is called with it, those of the
  publishing node included.\<close>

theorem publish_accepted:
  assumes "protobuf P" and "encodable m" and "int (length (encode_message P m)) \<le> maxMessageSize w"
    and "wakuValidators peer = wakuValidators w"
  shows "(validateMessage P w t m = Inr () \<and> length (meta m) \<le> 64
      \<longleftrightarrow> generateOrderedValidator P peer t (encode_message P m) = Accept)
    \<and> relay_deliver P G peer t (encode_message P m) =
      (if length (meta m) \<le> 64 then map (\<lambda>h. (th_handler h, t, m)) (or_nil (relay_handlers G peer t)) else [])
    \<and> (length (meta m) > 64 \<longrightarrow> generateOrderedValidator P peer t (encode_message P m) = Reject)"
proof -
  note d = protobuf.decode_encode_message [OF assms(1,2), unfolded MaxMetaAttrLength_def]
  show ?thesis
    using assms(3,4) d by (auto simp: validate_accept generateOrderedValidator_def deliver_accepted deliver_undecodable)
qed

text \<open>A relay whose validator rejects messages without a payload.\<close>

definition strict_relay :: "unit node_handler tables WakuRelay" where
  "strict_relay = addValidator (\<lambda>t m. if payload m = [] then Reject else Accept) ''empty'' (new_relay no_tables 1000)"

lemma hello_size: "encodable hello" "length (encode_message wire_format hello) \<le> 115"
proof -
  show "encodable hello" using hello_encodable by (simp add: push_rpc_encodable_def push_call_def)
  then have m: "writable (message_fields hello)" by (simp add: encodable_def)
  have "sum_list (map field_size (message_fields hello)) = 115"
    by (simp add: message_fields_def hello_def empty_message_def field_size_def)
  then show "length (encode_message wire_format hello) \<le> 115"
    using length_wire_finish [OF m] by (simp add: encode_message_def wire_format_def)
qed

lemma strict_relay_hello: "validateMessage wire_format strict_relay ''t'' hello = Inr ()"
  using hello_size(2) by (simp add: validateMessage_def strict_relay_def addValidator_def new_relay_def hello_def)

theorem publish_accepted_witness:
  "generateOrderedValidator wire_format strict_relay ''t'' (encode_message wire_format hello) = Accept"
proof -
  have "int (length (encode_message wire_format hello)) \<le> maxMessageSize strict_relay"
    using hello_size(2) by (simp add: strict_relay_def addValidator_def new_relay_def)
  from publish_accepted [OF wire.protobuf_axioms hello_size(1) this refl, of "''t''" unit_gossip] strict_relay_hello
  show ?thesis by (simp add: hello_def empty_message_def)
qed

text \<open>C17: a lightpush, from the client's call to the handlers of the relay. A client publishes through the lightpush service of
  a node with a relay. It gets the answer of \<^verbatim>\<open>validateMessage\<close> for its own message, the text of the
  validator or of the size included, unless the rate limit is reached or \<^verbatim>\<open>meta\<close> is too long. If it gets OK,
  the service publishes the message, any relay with the same validators accepts what was published, and calls
  each of its handlers with exactly the topic and message of the client.\<close>

theorem lightpush_relayed:
  assumes "protobuf P" and "push_rpc_encodable P (push_call rid t m)" and "nd_relay node = Some w"
    and "push_rpc_encodable P (fst (push_reply P (pushHandler P node) lim now client (encode_push_rpc P (push_call rid t m))))"
    and "result = sendPushRequest P rid t m (Some (\<lambda>b. Inr (fst (handle_push P (pushHandler P node) lim now client b))))"
  shows "result = (if \<not> fst (checkUsage lim now) then Inl ''TOO_MANY_REQUESTS''
      else if length (meta m) \<le> 64 then validateMessage P w t m else Inl ''decode_rpc_failure: InvalidLengthField meta'')
    \<and> (result = Inr () \<longrightarrow> snd (node_push P node client t m) = Some (t, encode_message P m)
      \<and> (wakuValidators peer = wakuValidators w \<longrightarrow>
          generateOrderedValidator P peer t (encode_message P m) = Accept
          \<and> relay_deliver P G peer t (encode_message P m) = map (\<lambda>h. (th_handler h, t, m)) (or_nil (relay_handlers G peer t))))"
proof -
  have m: "encodable m" using assms(2) by (simp add: push_rpc_encodable_def push_call_def)
  note d = protobuf.decode_encode_message [OF assms(1) m, unfolded MaxMetaAttrLength_def]
  have h: "pushHandler P node client t m = validateMessage P w t m"
    by (cases "validateMessage P w t m") (simp_all add: pushHandler_def node_push_def assms(3))
  have r: "result = (if \<not> fst (checkUsage lim now) then Inl ''TOO_MANY_REQUESTS''
      else if length (meta m) \<le> 64 then validateMessage P w t m else Inl ''decode_rpc_failure: InvalidLengthField meta'')"
    using protobuf.push_end_to_end [OF assms(1,2,4)] unfolding assms(5)
    by (simp add: h TooManyRequestsMessage_def meta_fits_def MaxMetaAttrLength_def over_meta_def decodeRpcFailure_def)
  have "snd (node_push P node client t m) = Some (t, encode_message P m)" if "validateMessage P w t m = Inr ()"
    using that by (simp add: node_push_def assms(3))
  moreover have "generateOrderedValidator P peer t (encode_message P m) = Accept"
    if "validateMessage P w t m = Inr ()" "length (meta m) \<le> 64" "wakuValidators peer = wakuValidators w"
    using that d by (simp add: validate_accept generateOrderedValidator_def)
  moreover have "relay_deliver P G peer t (encode_message P m) = map (\<lambda>h. (th_handler h, t, m)) (or_nil (relay_handlers G peer t))"
    if "length (meta m) \<le> 64" using that d by (simp add: deliver_accepted)
  ultimately show ?thesis using r by (auto split: if_splits)
qed


theorem lightpush_relayed_witness:
  "sendPushRequest wire_format ''id'' ''t'' hello (Some (\<lambda>b. Inr (fst (handle_push wire_format
      (pushHandler wire_format (new_node\<lparr>nd_relay := Some strict_relay\<rparr> :: (unit, unit node_handler tables) WakuNode)) None 0 ''p'' b)))) = Inr ()
   \<and> generateOrderedValidator wire_format strict_relay ''t'' (encode_message wire_format hello) = Accept"
proof -
  let ?node = "new_node\<lparr>nd_relay := Some strict_relay\<rparr> :: (unit, unit node_handler tables) WakuNode"
  let ?reply = "\<lparr>isSuccess = True, info = Some ''OK''\<rparr>"
  have w: "writable (push_response_fields ?reply)" by (simp add: push_response_fields_def opt_field_def writable_def)
  have "length (wire_finish (push_response_fields ?reply)) \<le> 1000"
    using length_wire_finish [OF w] by (simp add: push_response_fields_def opt_field_def field_size_def)
  then have reply: "push_rpc_encodable wire_format \<lparr>pr_requestId = ''id'', pr_request = None, pr_response = Some ?reply\<rparr>"
    using w by (simp add: push_rpc_encodable_def push_rpc_fields_def opt_field_def writable_def wire_format_def)
  have d: "decode_push_rpc wire_format (encode_push_rpc wire_format (push_call ''id'' ''t'' hello)) = Inr (push_call ''id'' ''t'' hello)"
    using wire.decode_encode_push_rpc [OF hello_encodable] by (simp add: push_call_def meta_fits_def hello_def empty_message_def)
  have "pushHandler wire_format ?node ''p'' ''t'' hello = Inr ()"
    by (simp add: pushHandler_def node_push_def strict_relay_hello)
  then have "fst (push_reply wire_format (pushHandler wire_format ?node) None 0 ''p''
      (encode_push_rpc wire_format (push_call ''id'' ''t'' hello)))
      = \<lparr>pr_requestId = ''id'', pr_request = None, pr_response = Some ?reply\<rparr>"
    by (simp add: push_reply_def checkUsage_def handleRequest_def d) (simp add: push_call_def)
  then have e: "push_rpc_encodable wire_format (fst (push_reply wire_format (pushHandler wire_format ?node) None 0 ''p''
      (encode_push_rpc wire_format (push_call ''id'' ''t'' hello))))" using reply by simp
  have r: "nd_relay ?node = Some strict_relay" by simp
  have "length (meta hello) \<le> 64" by (simp add: hello_def empty_message_def)
  with lightpush_relayed [OF wire.protobuf_axioms hello_encodable r e refl, of strict_relay unit_gossip] strict_relay_hello
  show ?thesis by (simp add: checkUsage_def)
qed

end
