(* ===== verification/RestRelay.thy ===== *)
theory RestRelay
  imports WakuNode MessageCache
begin

text \<open>
  The relay handlers of the REST interface, \<^verbatim>\<open>waku/waku_api/rest/relay/handlers.nim\<close>, over the
  subscriptions of the node and the message cache. A request is its decoded body, or the answer of the
  decoder to a body it rejects; a body that is missing is \<open>None\<close>. Base64 and the RLN proof are
  parameters; encoding an answer succeeds and publishing does not time out.
\<close>

section \<open>Messages of the interface\<close>

text \<open>\<^verbatim>\<open>waku/waku_api/rest/relay/types.nim\<close>; base64 texts are strings.\<close>

record RelayWakuMessage =
  rw_payload :: string
  rw_contentTopic :: "ContentTopic option"
  rw_version :: "nat option"
  rw_timestamp :: "int option"
  rw_meta :: "string option"
  rw_ephemeral :: "bool option"

definition DefaultContentTopic :: ContentTopic where
  "DefaultContentTopic = ''/waku/2/default-content/proto''"

definition toRelayWakuMessage :: "(bytes \<Rightarrow> string) \<Rightarrow> WakuMessage \<Rightarrow> RelayWakuMessage" where
  "toRelayWakuMessage enc msg =
     \<lparr>rw_payload = enc (payload msg), rw_contentTopic = Some (contentTopic msg), rw_version = Some (unat (version msg)),
      rw_timestamp = Some (timestamp msg),
      rw_meta = (if length (meta msg) > 0 then Some (enc (meta msg)) else None),
      rw_ephemeral = Some (ephemeral msg)\<rparr>"

definition rest_toWakuMessage ::
  "(string \<Rightarrow> string + bytes) \<Rightarrow> Timestamp \<Rightarrow> RelayWakuMessage \<Rightarrow> string + WakuMessage" where
  "rest_toWakuMessage dec now msg =
     (case dec (rw_payload msg) of Inl e \<Rightarrow> Inl e
      | Inr p \<Rightarrow>
     (case dec (case rw_meta msg of None \<Rightarrow> [] | Some t \<Rightarrow> t) of Inl e \<Rightarrow> Inl e
      | Inr mt \<Rightarrow>
          (let timestamp = (case rw_timestamp msg of None \<Rightarrow> 0 | Some t \<Rightarrow> t);
               timestamp = (if timestamp = 0 then now else timestamp)
           in Inr \<lparr>payload = p,
                contentTopic = (case rw_contentTopic msg of None \<Rightarrow> DefaultContentTopic | Some t \<Rightarrow> t),
                meta = mt,
                version = of_nat (case rw_version msg of None \<Rightarrow> 0 | Some v \<Rightarrow> v),
                timestamp = timestamp,
                ephemeral = (case rw_ephemeral msg of None \<Rightarrow> False | Some b \<Rightarrow> b), msg_proof = []\<rparr>)))"

definition base64_ok :: "(bytes \<Rightarrow> string) \<Rightarrow> (string \<Rightarrow> string + bytes) \<Rightarrow> bool" where
  "base64_ok enc dec \<longleftrightarrow> (\<forall>bs. dec (enc bs) = Inr bs) \<and> dec [] = Inr []"

lemma rest_message_roundtrip:
  assumes "base64_ok enc dec"
  shows "rest_toWakuMessage dec now (toRelayWakuMessage enc m) =
    Inr (m\<lparr>timestamp := if timestamp m = 0 then now else timestamp m, msg_proof := []\<rparr>)"
  using assms by (simp add: base64_ok_def rest_toWakuMessage_def toRelayWakuMessage_def Let_def)

section \<open>Requests\<close>

text \<open>Whose handler a handler of the relay is: \<^verbatim>\<open>messageCacheHandler\<close>, or that of another client.\<close>

datatype rest_app = CacheHandler | ClientHandler

type_synonym 'g rest_pubsub = "(rest_app, 'g) node_pubsub"
type_synonym 'g rest_state = "(rest_app, 'g) WakuNode \<times> MessageCache"

datatype rest_response =
    RestOk
  | RestMessages "RelayWakuMessage list"
  | RestBadRequest string
  | RestNotFound string
  | RestInternalError string

definition relay_post_subscriptions ::
  "(bytes \<Rightarrow> bytes) \<Rightarrow> 'g rest_pubsub \<Rightarrow> (rest_response + PubsubTopic list) option \<Rightarrow> 'g rest_state \<Rightarrow> rest_response \<times> 'g rest_state" where
  "relay_post_subscriptions sha G contentBody s =
     (case contentBody of None \<Rightarrow> (RestBadRequest [], s)
      | Some (Inl error) \<Rightarrow> (error, s)
      | Some (Inr req) \<Rightarrow>
          (let newTopics = filter (\<lambda>it. \<not> isPubsubSubscribed (snd s) it) req
           in (RestOk, fold (\<lambda>pubsubTopic (node, cache).
                (node_subscribe sha G (PubsubSub, pubsubTopic) (Some CacheHandler) node, pubsubSubscribe pubsubTopic cache)) newTopics s)))"

fun delete_topics ::
  "(bytes \<Rightarrow> bytes) \<Rightarrow> 'g rest_pubsub \<Rightarrow> PubsubTopic list \<Rightarrow> 'g rest_state \<Rightarrow> 'g rest_state exec" where
  "delete_topics sha G [] s = Done s"
| "delete_topics sha G (pubsubTopic # req) (node, cache) =
     bind_exec (pubsubUnsubscribe pubsubTopic cache) (\<lambda>cache.
       delete_topics sha G req (node_unsubscribe sha G (PubsubUnsub, pubsubTopic) node, cache))"

definition relay_delete_subscriptions ::
  "(bytes \<Rightarrow> bytes) \<Rightarrow> 'g rest_pubsub \<Rightarrow> (rest_response + PubsubTopic list) option \<Rightarrow> 'g rest_state
     \<Rightarrow> (rest_response \<times> 'g rest_state) exec" where
  "relay_delete_subscriptions sha G contentBody s =
     (case contentBody of None \<Rightarrow> Done (RestBadRequest [], s)
      | Some (Inl error) \<Rightarrow> Done (error, s)
      | Some (Inr req) \<Rightarrow> bind_exec (delete_topics sha G req s) (\<lambda>s. Done (RestOk, s)))"

definition auto_post_subscriptions ::
  "(bytes \<Rightarrow> bytes) \<Rightarrow> 'g rest_pubsub \<Rightarrow> rest_response + ContentTopic list \<Rightarrow> 'g rest_state \<Rightarrow> rest_response \<times> 'g rest_state" where
  "auto_post_subscriptions sha G contentBody s =
     (case contentBody of Inl error \<Rightarrow> (error, s)
      | Inr req \<Rightarrow>
          (let newTopics = filter (\<lambda>it. \<not> isContentSubscribed (snd s) it) req
           in (RestOk, fold (\<lambda>topic (node, cache).
                (node_subscribe sha G (ContentSub, topic) (Some CacheHandler) node, contentSubscribe topic cache)) newTopics s)))"

fun delete_content_topics ::
  "(bytes \<Rightarrow> bytes) \<Rightarrow> 'g rest_pubsub \<Rightarrow> ContentTopic list \<Rightarrow> 'g rest_state \<Rightarrow> 'g rest_state exec" where
  "delete_content_topics sha G [] s = Done s"
| "delete_content_topics sha G (topic # req) (node, cache) =
     bind_exec (contentUnsubscribe topic cache) (\<lambda>cache.
       delete_content_topics sha G req (node_unsubscribe sha G (ContentUnsub, topic) node, cache))"

definition auto_delete_subscriptions ::
  "(bytes \<Rightarrow> bytes) \<Rightarrow> 'g rest_pubsub \<Rightarrow> rest_response + ContentTopic list \<Rightarrow> 'g rest_state \<Rightarrow> (rest_response \<times> 'g rest_state) exec" where
  "auto_delete_subscriptions sha G contentBody s =
     (case contentBody of Inl error \<Rightarrow> Done (error, s)
      | Inr req \<Rightarrow> bind_exec (delete_content_topics sha G req s) (\<lambda>s. Done (RestOk, s)))"

definition relay_get_messages ::
  "(bytes \<Rightarrow> string) \<Rightarrow> string + PubsubTopic \<Rightarrow> MessageCache \<Rightarrow> (rest_response \<times> MessageCache) exec" where
  "relay_get_messages enc pubsubTopic cache =
     (case pubsubTopic of Inl e \<Rightarrow> Done (RestBadRequest [], cache)
      | Inr t \<Rightarrow> bind_exec (getMessages t True cache) (\<lambda>(messages, cache).
          Done (case messages of Inl e \<Rightarrow> RestNotFound []
                | Inr ms \<Rightarrow> RestMessages (map (toRelayWakuMessage enc) ms), cache)))"

definition auto_get_messages ::
  "(bytes \<Rightarrow> string) \<Rightarrow> string + ContentTopic \<Rightarrow> MessageCache \<Rightarrow> (rest_response \<times> MessageCache) exec" where
  "auto_get_messages enc topic cache =
     (case topic of Inl e \<Rightarrow> Done (RestBadRequest e, cache)
      | Inr t \<Rightarrow> bind_exec (getAutoMessages t True cache) (\<lambda>(messages, cache).
          Done (case messages of Inl e \<Rightarrow> RestNotFound t
                | Inr ms \<Rightarrow> RestMessages (map (toRelayWakuMessage enc) ms), cache)))"


text \<open>
  Publishing: the answer, and what is published. The RLN relay of the node, if it has one, appends a
  proof or fails. Without a relay the handlers read through a nil pointer.
\<close>

type_synonym rln_proof = "(WakuMessage \<Rightarrow> string + WakuMessage) option"

definition append_proof :: "rln_proof \<Rightarrow> WakuMessage \<Rightarrow> rest_response + WakuMessage" where
  "append_proof rln message =
     (case rln of None \<Rightarrow> Inr message
      | Some f \<Rightarrow> (case f message of
            Inl e \<Rightarrow> Inl (RestInternalError (''Failed to publish: error appending RLN proof to message: '' @ e))
          | Inr m \<Rightarrow> Inr m))"

definition checked_message ::
  "pbuf \<Rightarrow> rln_proof \<Rightarrow> (rest_app, 'g) WakuNode \<Rightarrow> PubsubTopic \<Rightarrow> WakuMessage \<Rightarrow> (rest_response + WakuMessage) exec" where
  "checked_message P rln node pubsubTopic message =
     (case append_proof rln message of Inl r \<Rightarrow> Done (Inl r)
      | Inr message \<Rightarrow>
     (case nd_relay node of None \<Rightarrow> Fault NilAccess
      | Some relay \<Rightarrow>
     Done (case validateMessage P relay pubsubTopic message of
        Inl error \<Rightarrow> Inl (RestBadRequest (''Failed to publish: '' @ error))
      | Inr _ \<Rightarrow> Inr message)))"

text \<open>The first of the two handlers does not look at the result of \<^verbatim>\<open>node.publish\<close>.\<close>

definition relay_post_message ::
  "pbuf \<Rightarrow> (bytes \<Rightarrow> bytes) \<Rightarrow> 'g rest_pubsub \<Rightarrow> (string \<Rightarrow> string + bytes) \<Rightarrow> rln_proof \<Rightarrow> Timestamp \<Rightarrow> (rest_app, 'g) WakuNode
     \<Rightarrow> string + PubsubTopic \<Rightarrow> (rest_response + RelayWakuMessage) option \<Rightarrow> (rest_response \<times> (PubsubTopic \<times> bytes) option) exec" where
  "relay_post_message P sha G dec rln now node pubsubTopic contentBody =
     (case pubsubTopic of Inl e \<Rightarrow> Done (RestBadRequest [], None)
      | Inr t \<Rightarrow>
     (case nd_relay node of None \<Rightarrow> Fault NilAccess
      | Some relay \<Rightarrow>
          if t \<notin> set (subscribedTopics G relay)
          then Done (RestBadRequest (''Failed to publish: Node not subscribed to topic: '' @ t), None)
          else (case contentBody of None \<Rightarrow> Done (RestBadRequest [], None)
            | Some (Inl error) \<Rightarrow> Done (error, None)
            | Some (Inr reqWakuMessage) \<Rightarrow>
                (case rest_toWakuMessage dec now reqWakuMessage of
                   Inl error \<Rightarrow> Done (RestBadRequest error, None)
                 | Inr message \<Rightarrow> bind_exec (checked_message P rln node t message) (\<lambda>r.
                     Done (case r of Inl answer \<Rightarrow> (answer, None)
                     | Inr message \<Rightarrow> (RestOk, (case node_publish P sha G node (Some t) message of
                         Inl e \<Rightarrow> None | Inr (topic, _) \<Rightarrow> Some (topic, encode_message P message)))))))))"

definition auto_post_message ::
  "pbuf \<Rightarrow> (bytes \<Rightarrow> bytes) \<Rightarrow> 'g rest_pubsub \<Rightarrow> (string \<Rightarrow> string + bytes) \<Rightarrow> rln_proof \<Rightarrow> Timestamp \<Rightarrow> (rest_app, 'g) WakuNode
     \<Rightarrow> (rest_response + RelayWakuMessage) option \<Rightarrow> (rest_response \<times> (PubsubTopic \<times> bytes) option) exec" where
  "auto_post_message P sha G dec rln now node contentBody =
     (case contentBody of None \<Rightarrow> Done (RestBadRequest [], None)
      | Some (Inl error) \<Rightarrow> Done (error, None)
      | Some (Inr req) \<Rightarrow>
          if rw_contentTopic req = None then Done (RestBadRequest [], None)
          else (case rest_toWakuMessage dec now req of
              Inl error \<Rightarrow> Done (RestBadRequest [], None)
            | Inr message \<Rightarrow>
          (case getShard_text sha (nd_sharding node) (contentTopic message) of
             Inl error \<Rightarrow> Done (RestBadRequest (''Failed to publish. Autosharding error: '' @ error), None)
           | Inr pubsubTopic \<Rightarrow> bind_exec (checked_message P rln node pubsubTopic message) (\<lambda>r.
               Done (case r of Inl answer \<Rightarrow> (answer, None)
               | Inr message \<Rightarrow> (case node_publish P sha G node (Some pubsubTopic) message of
                     Inl error \<Rightarrow> (RestBadRequest (''Failed to publish. '' @ error), None)
                   | Inr (topic, _) \<Rightarrow> (RestOk, Some (topic, encode_message P message))))))))"

text \<open>What the handlers of a topic do to the cache.\<close>

fun cache_calls :: "(rest_app node_handler \<times> PubsubTopic \<times> WakuMessage) list \<Rightarrow> MessageCache \<Rightarrow> MessageCache exec" where
  "cache_calls [] cache = Done cache"
| "cache_calls ((h, t, m) # cs) cache =
     bind_exec (if h = AppHandler CacheHandler then addMessage t m cache else Done cache) (cache_calls cs)"

definition rest_receive ::
  "pbuf \<Rightarrow> 'g rest_pubsub \<Rightarrow> (rest_app, 'g) WakuNode \<Rightarrow> PubsubTopic \<Rightarrow> bytes \<Rightarrow> MessageCache \<Rightarrow> MessageCache exec" where
  "rest_receive P G node t data cache =
     (case nd_relay node of None \<Rightarrow> Done cache
      | Some relay \<Rightarrow> cache_calls (relay_deliver P G relay t data) cache)"

section \<open>What the cache receives\<close>

definition cached :: "(rest_app, 'g) WakuNode \<Rightarrow> 'g rest_pubsub \<Rightarrow> PubsubTopic \<Rightarrow> bool" where
  "cached node G t \<longleftrightarrow> AppHandler CacheHandler \<in> th_handler ` set (node_handlers G node t)"

lemma calls_same:
  assumes "m \<in> set (messages cache) \<or> (t \<notin> set (pubsubTopics cache) \<and> contentTopic m \<notin> set (contentTopics cache))"
  shows "cache_calls (map (\<lambda>h. (th_handler h, t, m)) hs) cache = Done cache"
  using addMessage_same [OF assms] by (induction hs) simp_all

text \<open>The first handler of the cache decides: the others find the message.\<close>

lemma calls_new:
  assumes "cache_inv cache" and "m \<notin> set (messages cache)"
    and "t \<in> set (pubsubTopics cache) \<or> contentTopic m \<in> set (contentTopics cache)"
    and "AppHandler CacheHandler \<in> th_handler ` set hs"
  shows "if stuck cache then cache_calls (map (\<lambda>h. (th_handler h, t, m)) hs) cache = Fault RangeDefect
    else \<exists>c. cache_calls (map (\<lambda>h. (th_handler h, t, m)) hs) cache = Done c \<and> stored t m cache c \<and> cache_ok c"
  using assms(4)
proof (induction hs)
  case (Cons h hs)
  note add = addMessage_inv [OF assms(1), of m t]
  show ?case
  proof (cases "stuck cache \<or> th_handler h \<noteq> AppHandler CacheHandler")
    case True
    then show ?thesis using add assms(2,3) Cons by (auto simp: image_iff split: if_splits)
  next
    case False
    then obtain c where c: "addMessage t m cache = Done c" "stored t m cache c" "cache_inv c"
      using add assms(2,3) by (auto split: if_splits)
    then have "m \<in> set (messages c)" by (auto simp: stored_def)
    then have "cache_calls (map (\<lambda>h. (th_handler h, t, m)) hs) c = Done c" by (intro calls_same) simp
    then show ?thesis using False c by (auto simp: cache_inv_def)
  qed
qed simp

lemma rest_receive_decoded:
  assumes "nd_relay node = Some w" and "decode_message P data = Inr m"
  shows "rest_receive P G node t data cache = cache_calls (map (\<lambda>h. (th_handler h, t, m)) (node_handlers G node t)) cache"
  using assms by (simp add: rest_receive_def deliver_accepted node_handlers_def)


lemma cache_subscribe_frame [simp]:
  "messages (pubsubSubscribe t c) = messages c" "contentTopics (pubsubSubscribe t c) = contentTopics c"
  "set (pubsubTopics (pubsubSubscribe t c)) = insert t (set (pubsubTopics c))"
  by (auto simp: pubsubSubscribe_def pubsubSearch_def)

lemma post_topics:
  assumes "node_gossip G" and "node_is G node H n C q s" and "cache_inv cache"
    and "fold (\<lambda>t (node, cache). (node_subscribe sha G (PubsubSub, t) (Some CacheHandler) node, pubsubSubscribe t cache)) ts (node, cache)
      = (node', cache')"
  shows "\<exists>H' n' q'. node_is G node' H' n' C q' s \<and> cache_inv cache' \<and> messages cache' = messages cache
    \<and> (\<forall>t. set (H t) \<subseteq> set (H' t)) \<and> set (pubsubTopics cache) \<subseteq> set (pubsubTopics cache')
    \<and> (\<forall>t \<in> set ts. AppHandler CacheHandler \<in> th_handler ` set (H' t) \<and> t \<in> set (pubsubTopics cache'))"
  using assms(2-4)
proof (induction ts arbitrary: node cache H n q)
  case Nil
  then show ?case by auto
next
  case (Cons t ts)
  let ?new = "added_handlers n (H t \<noteq> []) (Some CacheHandler)"
  have st: "node_is G (node_subscribe sha G (PubsubSub, t) (Some CacheHandler) node) (H(t := H t @ ?new)) (n + length ?new) C
      (q @ [(PubsubSub, t)]) s"
    by (rule node_gossip.pubsub_subscribe_is [OF assms(1) Cons.prems(1)])
  have "AppHandler CacheHandler \<in> th_handler ` set ?new" by (cases "H t = []") simp_all
  moreover from Cons.IH [OF st subscribe_topic_inv(1) [OF Cons.prems(2), of t]] Cons.prems(3) obtain H' n' q' where
    1: "node_is G node' H' n' C q' s" "cache_inv cache'" "messages cache' = messages cache"
      "\<forall>u. set ((H(t := H t @ ?new)) u) \<subseteq> set (H' u)" "insert t (set (pubsubTopics cache)) \<subseteq> set (pubsubTopics cache')"
      "\<forall>t \<in> set ts. AppHandler CacheHandler \<in> th_handler ` set (H' t) \<and> t \<in> set (pubsubTopics cache')" by auto
  moreover have "set (H u) \<subseteq> set (H' u)" for u using spec [OF 1(4), of u] by (auto split: if_splits)
  moreover have "set ?new \<subseteq> set (H' t)" using spec [OF 1(4), of t] by simp
  ultimately show ?case by (intro exI [of _ H'] exI [of _ n'] exI [of _ q']) auto
qed

lemma posted:
  assumes "gossip G" and "node_inv G node" and "cache_inv cache"
    and "relay_post_subscriptions sha G (Some (Inr topics)) (node, cache) = (r, node', cache')"
    and "t \<in> set topics" and "\<not> isPubsubSubscribed cache t"
  shows "r = RestOk" and "AppHandler CacheHandler \<in> th_handler ` set (node_handlers G node' t)" and "cache_inv cache'"
    and "messages cache' = messages cache" and "t \<in> set (pubsubTopics cache')"
proof -
  have G: "node_gossip G" using assms(1) by (simp add: node_gossip_def)
  from assms(2) obtain H n C q s where st: "node_is G node H n C q s" by (auto simp: node_inv_def)
  let ?ts = "filter (\<lambda>it. \<not> isPubsubSubscribed cache it) topics"
  have f: "r = RestOk" "fold (\<lambda>t (node, cache). (node_subscribe sha G (PubsubSub, t) (Some CacheHandler) node, pubsubSubscribe t cache))
      ?ts (node, cache) = (node', cache')"
    using assms(4) by (simp_all add: relay_post_subscriptions_def Let_def)
  then show "r = RestOk" by simp
  have "t \<in> set ?ts" using assms(5,6) by simp
  with post_topics [OF G st assms(3) f(2)] node_is_handlers
  show "AppHandler CacheHandler \<in> th_handler ` set (node_handlers G node' t)" "cache_inv cache'"
    "messages cache' = messages cache" "t \<in> set (pubsubTopics cache')"
    by (metis (no_types, lifting))+
qed

lemma get_posted:
  assumes "cache_ok c" and "(t, m) \<in> pubsub_view c" and "t \<in> set (pubsubTopics c)"
    and "relay_get_messages enc (Inr t) c = Done (r, c')"
  shows "\<exists>rs. r = RestMessages rs \<and> toRelayWakuMessage enc m \<in> set rs"
proof -
  obtain ms where ms: "getMessages t False c = Done (Inr ms, c)" "m \<in> set ms"
    using getMessages_spec [OF assms(1,3)] assms(2) by (auto simp: listed_def)
  obtain k where k: "pubsubSearch c t = Some k" "pubsubTopics c \<noteq> []"
  proof (cases "pubsubSearch c t")
    case (Some k)
    then show ?thesis using assms(3) that by (metis empty_iff list.set(1))
  qed (use assms(3) in \<open>simp add: pubsubSearch_def\<close>)
  then have "read_all (messages c) (under k (pubsubIndex c)) = Done ms"
    using ms(1) by (auto simp: getMessages_def Let_def)
  then show ?thesis
    using assms(4) ms(2) k by (auto simp: relay_get_messages_def getMessages_def Let_def)
qed


section \<open>From one REST interface to another\<close>

text \<open>C18: a message from one REST interface to another. A request to publish on a topic that is answered OK publishes exactly
  the message of the request, with its RLN proof where the node appends one; a node with the same validators accepts what
  was published, if the message can be encoded (an \<^verbatim>\<open>int64\<close> as its time, fields below 2^63 bytes) and its \<^verbatim>\<open>meta\<close> has at
  most 64 bytes. Suppose that node was asked to subscribe to the topic by a request its cache did not take for a
  repetition. A message that its cache has already, field by field, changes nothing in the cache: it stays listed where
  it was. A new one is stored and listed under the topic, and a request for the messages of the topic that is answered
  at all is answered with messages among which it is; only a cache that is full of messages stamped
  \<^verbatim>\<open>int64.high\<close> raises a defect instead.\<close>

theorem rest_end_to_end:
  assumes "protobuf P" and "gossip G" and "node_inv G nodeB" and "cache_inv cacheB"
    and "relay_post_message P sha G dec rln now nodeA (Inr t) (Some (Inr req)) = Done (RestOk, published)"
    and "rest_toWakuMessage dec now req = Inr m0" and "append_proof rln m0 = Inr m" and "encodable m" and "length (meta m) \<le> 64"
    and "relay_post_subscriptions sha G (Some (Inr topics)) (nodeB, cacheB) = (r, nodeB', cacheB')"
    and "t \<in> set topics" and "\<not> isPubsubSubscribed cacheB t"
    and "nd_relay nodeA = Some wA" and "nd_relay nodeB' = Some wB" and "wakuValidators wB = wakuValidators wA"
  shows "\<exists>data. published = Some (t, data) \<and> r = RestOk \<and> generateOrderedValidator P wB t data = Accept
    \<and> (if m \<in> set (messages cacheB) then rest_receive P G nodeB' t data cacheB' = Done cacheB'
       else if capacity cacheB' \<le> int (length (messages cacheB')) \<and> (\<forall>m \<in> set (messages cacheB'). int64_high \<le> timestamp m)
         then rest_receive P G nodeB' t data cacheB' = Fault RangeDefect
       else \<exists>c. rest_receive P G nodeB' t data cacheB' = Done c \<and> (t, m) \<in> pubsub_view c
         \<and> (case relay_get_messages enc (Inr t) c of Fault f \<Rightarrow> True
            | Done (answer, _) \<Rightarrow> \<exists>ms. answer = RestMessages ms \<and> toRelayWakuMessage enc m \<in> set ms))"
proof -
  let ?data = "encode_message P m"
  have dec: "decode_message P ?data = Inr m"
    using protobuf.decode_encode_message [OF assms(1,8)] assms(9) by (simp add: MaxMetaAttrLength_def)
  have v: "published = Some (t, ?data)" "validateMessage P wA t m = Inr ()"
    using assms(5-7,13)
    by (auto simp: relay_post_message_def checked_message_def node_publish_def split: if_splits sum.splits)
  have acc: "generateOrderedValidator P wB t ?data = Accept"
    using v(2) dec assms(15) by (simp add: validate_accept generateOrderedValidator_def)
  note p = posted [OF assms(2-4,10-12)]
  note rec = rest_receive_decoded [OF assms(14) dec, of G t cacheB']
  have "if m \<in> set (messages cacheB) then rest_receive P G nodeB' t ?data cacheB' = Done cacheB'
       else if stuck cacheB' then rest_receive P G nodeB' t ?data cacheB' = Fault RangeDefect
       else \<exists>c. rest_receive P G nodeB' t ?data cacheB' = Done c \<and> stored t m cacheB' c \<and> cache_ok c"
    using calls_same [of m cacheB' t "node_handlers G nodeB' t"] calls_new [OF p(3) _ _ p(2), of m] p(4,5) rec by auto
  moreover have "(t, m) \<in> pubsub_view c \<and> (case relay_get_messages enc (Inr t) c of Fault f \<Rightarrow> True
       | Done (answer, _) \<Rightarrow> \<exists>ms. answer = RestMessages ms \<and> toRelayWakuMessage enc m \<in> set ms)"
    if "stored t m cacheB' c" "cache_ok c" for c
  proof -
    have view: "(t, m) \<in> pubsub_view c" "t \<in> set (pubsubTopics c)" using that(1) by (auto simp: stored_def)
    then show ?thesis using get_posted [OF that(2) view] by (auto split: exec.splits)
  qed
  ultimately show ?thesis using v(1) p(1) acc unfolding stuck_def by (auto split: if_splits)
qed


text \<open>A node on topic \<^verbatim>\<open>t\<close>, with an empty cache, that publishes to itself.\<close>

abbreviation rest_gossip :: "(rest_app node_handler tables) rest_pubsub" where
  "rest_gossip \<equiv> table_gossip 1"

definition rest_node :: "(rest_app, rest_app node_handler tables) WakuNode" where
  "rest_node = mountRelay sample_sha rest_gossip (Some no_tables) [''t''] 1000 (mountSharding 1 8 new_node)"

definition rest_sample :: WakuMessage where
  "rest_sample = empty_message\<lparr>payload := [104, 105], contentTopic := ''/a/1/b/c'', timestamp := 5\<rparr>"

lemma rest_node_relay:
  "nd_relay rest_node = Some \<lparr>w_gossip = \<lparr>tb_topics = [(''t'', [\<lparr>th_id = 0, th_handler = DefaultHandler\<rparr>])],
     tb_validators = (\<lambda>t. 0)(''t'' := Suc 0)\<rparr>, wakuValidators = [], validatorInserted = {''t''}, maxMessageSize = 1000, next_closure = Suc 0\<rparr>"
  by (simp add: rest_node_def mountRelay_def mountSharding_def new_node_def node_subscribe_def add_subscription_def
      registerRelayDefaultHandler_def relay_isSubscribed_def relay_subscribe_def new_relay_def table_gossip_def no_tables_def
      table_set_def Let_def)

lemma rest_node_is:
  "node_is rest_gossip rest_node ((\<lambda>t. [])(''t'' := [\<lparr>th_id = 0, th_handler = DefaultHandler\<rparr>])) 1 Map.empty
     [(PubsubSub, ''t'')] \<lparr>clusterId = 1, shardCountGenZero = 8\<rparr>"
proof -
  have "\<forall>t. ps_handlers rest_gossip no_tables t = None" by (simp add: table_gossip_def no_tables_def)
  from node_tables.pubsub_subscribe_is [OF node_tables.mounted_is [OF this,
      where node = "mountSharding 1 8 new_node" and n = 1000], where k = None and t = "''t''" and sha = sample_sha]
  show ?thesis by (simp add: rest_node_def mountRelay_def mountSharding_def new_node_def)
qed

lemma rest_node_inv: "node_inv rest_gossip rest_node"
  unfolding node_inv_def using rest_node_is by (fastforce simp: handlers_ok_def)

lemma rest_sample_encodable: "encodable rest_sample" "length (encode_message wire_format rest_sample) \<le> 115"
proof -
  have m: "writable (message_fields rest_sample)" "sum_list (map field_size (message_fields rest_sample)) = 115"
    by (simp_all add: message_fields_def rest_sample_def empty_message_def writable_def field_size_def)
  then show "encodable rest_sample" by (simp add: encodable_def int64_def rest_sample_def empty_message_def)
  show "length (encode_message wire_format rest_sample) \<le> 115"
    using length_wire_finish [OF m(1)] m(2) by (simp add: encode_message_def wire_format_def)
qed

theorem rest_end_to_end_witness:
  "\<exists>data c. rest_receive wire_format rest_gossip (fst (snd (relay_post_subscriptions sample_sha rest_gossip (Some (Inr [''t'']))
        (rest_node, init_cache 50)))) ''t'' data (pubsubSubscribe ''t'' (init_cache 50)) = Done c \<and> (''t'', rest_sample) \<in> pubsub_view c"
proof -
  let ?enc = bytes_str and ?dec = "\<lambda>s. Inr (str_bytes s)"
  let ?req = "toRelayWakuMessage ?enc rest_sample" and ?post = "relay_post_subscriptions sample_sha rest_gossip (Some (Inr [''t''])) (rest_node, init_cache 50)"
  obtain r n' c' where p: "?post = (r, n', c')" by (cases ?post)
  have "of_char (char_of (unat a)) = a" for a :: u8
    using unat_bound8 [of a] by (simp add: word_unat_eq_iff unat_of_char)
  then have "str_bytes (bytes_str bs) = bs" for bs
    by (induction bs) (simp_all add: str_bytes_def bytes_str_def)
  then have "base64_ok ?enc ?dec" by (simp add: base64_ok_def str_bytes_def)
  from rest_message_roundtrip [OF this, of 9 rest_sample]
  have m: "rest_toWakuMessage ?dec 9 ?req = Inr rest_sample" by (simp add: rest_sample_def empty_message_def)
  have fresh: "\<not> isPubsubSubscribed (init_cache 50) ''t''" by (simp add: isPubsubSubscribed_def pubsubSearch_def init_cache_def)
  then have n': "n' = node_subscribe sample_sha rest_gossip (PubsubSub, ''t'') (Some CacheHandler) rest_node"
      "c' = pubsubSubscribe ''t'' (init_cache 50)"
    using p by (simp_all add: relay_post_subscriptions_def)
  have "int (length (encode_message wire_format rest_sample)) \<le> 1000" using rest_sample_encodable(2) by simp
  then have a: "relay_post_message wire_format sample_sha rest_gossip ?dec None 9 rest_node (Inr ''t'') (Some (Inr ?req))
      = Done (RestOk, Some (''t'', encode_message wire_format rest_sample))"
    by (simp add: relay_post_message_def rest_node_relay m checked_message_def append_proof_def validateMessage_def
        node_publish_def subscribedTopics_def) (simp add: table_gossip_def)
  obtain w' where w': "nd_relay n' = Some w'" "wakuValidators w' = []"
    by (simp add: n' node_subscribe_def rest_node_relay add_subscription_def registerRelayDefaultHandler_def Let_def
        relay_isSubscribed_def relay_subscribe_def split: if_splits)
  have new: "rest_sample \<notin> set (messages (init_cache 50))" "\<not> capacity (pubsubSubscribe ''t'' (init_cache 50)) \<le> int (length (messages (pubsubSubscribe ''t'' (init_cache 50))))"
    by (simp_all add: init_cache_def pubsubSubscribe_def pubsubSearch_def)
  have inv: "cache_inv (init_cache 50)" by (rule cache_inv_init) (simp_all add: int64_high_def)
  have "append_proof None rest_sample = Inr rest_sample" by (simp add: append_proof_def)
  note rest = rest_end_to_end [OF wire.protobuf_axioms tables.gossip_axioms rest_node_inv inv a m this rest_sample_encodable(1)]
  have "length (meta rest_sample) \<le> 64" by (simp add: rest_sample_def empty_message_def)
  from rest [OF this
      p _ fresh rest_node_relay w'(1), of ?enc] w'(2) new(1) new(2) [folded n'(2)]
  show ?thesis unfolding p n'(2) fst_conv snd_conv by auto
qed

section \<open>A subscription that is lost\<close>

text \<open>C24: a repetition that is none. A node that does not serve a shard is asked over REST for a content topic of the shard, receives one
  message of it, is asked to drop the content topic and is then asked to subscribe to the shard: the last
  request is answered OK, and the node is not subscribed to the shard. The cache subscribed itself to the
  pubsub topic of the message, and a request for what the cache has is taken for a repetition.\<close>

theorem rest_subscription_lost:
  assumes "gossip G" and "node_inv G node" and "node_handlers G node t = []"
    and "getShard_text sha (nd_sharding node) c = Inr t" and "contentTopicHandlers node c = None"
    and "decode_message P data = Inr m" and "contentTopic m = c" and "1 \<le> cap"
    and "auto_post_subscriptions sha G (Inr [c]) (node, init_cache cap) = (r1, node1, cache1)"
  shows "r1 = RestOk \<and> node_handlers G node1 t \<noteq> [] \<and> (\<exists>cache2 cache3 node3.
      rest_receive P G node1 t data cache1 = Done cache2
      \<and> auto_delete_subscriptions sha G (Inr [c]) (node1, cache2) = Done (RestOk, node3, cache3)
      \<and> relay_post_subscriptions sha G (Some (Inr [t])) (node3, cache3) = (RestOk, node3, cache3)
      \<and> node_handlers G node3 t = [])"
proof -
  have G: "node_gossip G" using assms(1) by (simp add: node_gossip_def)
  from assms(2) obtain H n C q s where st: "node_is G node H n C q s" by (auto simp: node_inv_def)
  have s: "getShard_text sha s c = Inr t" "C c = None" "H t = []"
    using st assms(3-5) node_is_handlers [OF st] by (auto simp: node_is_def)
  let ?new = "[\<lparr>th_id = n, th_handler = DefaultHandler\<rparr>, \<lparr>th_id = Suc n, th_handler = AppHandler CacheHandler\<rparr>]"
  have 1: "r1 = RestOk" "node1 = node_subscribe sha G (ContentSub, c) (Some CacheHandler) node" "cache1 = contentSubscribe c (init_cache cap)"
    using assms(9) by (simp_all add: auto_post_subscriptions_def isContentSubscribed_def contentSearch_def init_cache_def)
  have st1: "node_is G node1 (H(t := ?new)) (Suc (Suc n)) (C(c \<mapsto> \<lparr>th_id = Suc n, th_handler = AppHandler CacheHandler\<rparr>)) (q @ [(PubsubSub, t)]) s"
    using node_gossip.content_subscribe_is [OF G st s(1,2), of "Some CacheHandler"] s(3) by (simp add: 1)
  then obtain w where w: "nd_relay node1 = Some w" by (auto simp: node_is_def)
  let ?cache2 = "\<lparr>pubsubTopics = [t], contentTopics = [c], pubsubIndex = [(0, 0)], contentIndex = [(0, 0)], messages = [m], capacity = cap\<rparr>"
  let ?cache3 = "\<lparr>pubsubTopics = [t], contentTopics = [], pubsubIndex = [(0, 0)], contentIndex = [], messages = [m], capacity = cap\<rparr>"
  have "addMessage t m cache1 = Done ?cache2"
    using assms(7,8) by (simp add: 1 addMessage_def contentSubscribe_def pubsubSubscribe_def contentSearch_def pubsubSearch_def
        init_cache_def Let_def)
  then have rec: "rest_receive P G node1 t data cache1 = Done ?cache2"
    using rest_receive_decoded [OF w assms(6)] node_is_handlers [OF st1] by simp
  have "contentUnsubscribe c ?cache2 = Done ?cache3"
    by (simp add: contentUnsubscribe_def contentSearch_def Let_def swap_del_def descending_def split: prod.splits)
  then have del: "auto_delete_subscriptions sha G (Inr [c]) (node1, ?cache2) = Done (RestOk, node_unsubscribe sha G (ContentUnsub, c) node1, ?cache3)"
    by (simp add: auto_delete_subscriptions_def)
  have "node_handlers G (node_unsubscribe sha G (ContentUnsub, c) node1) t = []"
    using node_is_handlers [OF node_gossip.content_unsubscribe_is [OF G st1 s(1)]] by (simp add: content_rest_def)
  moreover have "relay_post_subscriptions sha G (Some (Inr [t])) (node_unsubscribe sha G (ContentUnsub, c) node1, ?cache3)
      = (RestOk, node_unsubscribe sha G (ContentUnsub, c) node1, ?cache3)"
    by (simp add: relay_post_subscriptions_def isPubsubSubscribed_def pubsubSearch_def)
  moreover have "node_handlers G node1 t \<noteq> []" by (simp add: node_is_handlers [OF st1])
  ultimately show ?thesis using 1(1) rec del by blast
qed

theorem rest_subscription_lost_witness:
  "\<exists>cache2 node3 cache3.
     auto_delete_subscriptions sample_sha rest_gossip (Inr [''/a/1/b/c''])
       (node_subscribe sample_sha rest_gossip (ContentSub, ''/a/1/b/c'') (Some CacheHandler) rest_node, cache2) = Done (RestOk, node3, cache3)
     \<and> relay_post_subscriptions sample_sha rest_gossip (Some (Inr [''/waku/2/rs/1/2''])) (node3, cache3) = (RestOk, node3, cache3)
     \<and> node_handlers rest_gossip node3 ''/waku/2/rs/1/2'' = []"
proof -
  let ?c = "''/a/1/b/c''" and ?t = "''/waku/2/rs/1/2''"
  have h: "node_handlers rest_gossip rest_node ?t = []" unfolding node_is_handlers [OF rest_node_is] by simp
  have f: "getShard_text sample_sha (nd_sharding rest_node) ?c = Inr ?t" "contentTopicHandlers rest_node ?c = None"
    using rest_node_is sample_shard by (simp_all add: node_is_def)
  have d: "decode_message wire_format (encode_message wire_format rest_sample) = Inr rest_sample"
    using wire.decode_encode_message [OF rest_sample_encodable(1)] by (simp add: rest_sample_def empty_message_def)
  have c: "contentTopic rest_sample = ?c" by (simp add: rest_sample_def)
  have p: "auto_post_subscriptions sample_sha rest_gossip (Inr [?c]) (rest_node, init_cache 1) =
      (RestOk, node_subscribe sample_sha rest_gossip (ContentSub, ?c) (Some CacheHandler) rest_node, contentSubscribe ?c (init_cache 1))"
    by (simp add: auto_post_subscriptions_def isContentSubscribed_def contentSearch_def init_cache_def)
  show ?thesis
    using rest_subscription_lost [OF tables.gossip_axioms rest_node_inv h f d c order_refl p] by blast
qed

end
