(* ===== verification/Discovery.thy ===== *)
theory Discovery
  imports WakuNode PeerPolicy
begin

text \<open>
  Discovery of peers, \<^verbatim>\<open>waku/discovery/waku_discv5.nim\<close>: the filter on the records that are found, the
  shards announced in the node's own record and how they follow the subscriptions of the node, the
  peers that are handed to the peer manager, starting and stopping; with the shards the record is built with
  (\<^verbatim>\<open>enrConfiguration\<close>) and \<^verbatim>\<open>toRemotePeerInfo\<close> of \<^verbatim>\<open>waku_core/peers.nim\<close>. The protocol itself, which finds
  nodes and signs the record, is nim-eth; what the code uses of it is the record \<open>enr_library\<close>.
\<close>

section \<open>What is used of nim-eth and libp2p\<close>

record TypedRecord =
  secp256k1 :: "bytes option"
  tr_ip :: "bytes option"
  tr_ip6 :: "bytes option"
  tr_tcp :: "u16 option"
  tr_udp :: "u16 option"
  tr_tcp6 :: "u16 option"
  tr_udp6 :: "u16 option"

datatype IpTransportProtocol = tcpProtocol | udpProtocol

text \<open>
  \<open>el_update\<close> is \<^verbatim>\<open>updateRecord\<close> on the node's record, \<open>el_same\<close> equality of records, \<open>el_uri\<close> \<^verbatim>\<open>fromURI\<close>,
  \<open>el_typed\<close> \<^verbatim>\<open>toTypedRecord\<close>, \<open>el_peer\<close> the peer id of a public key, \<open>el_addr\<close> the multiaddress of an
  endpoint, \<open>el_walk\<close> the order in which a hash set of shards, listed in some order, is walked.
\<close>

record enr_library =
  el_update :: "enr \<Rightarrow> (string \<times> bytes) list \<Rightarrow> string + enr"
  el_same :: "enr \<Rightarrow> enr \<Rightarrow> bool"
  el_uri :: "string \<Rightarrow> enr option"
  el_typed :: "enr \<Rightarrow> string + TypedRecord"
  el_peer :: "bytes \<Rightarrow> string + pid"
  el_addr :: "bytes \<Rightarrow> IpTransportProtocol \<Rightarrow> u16 \<Rightarrow> string"
  el_walk :: "u16 list \<Rightarrow> u16 list"

section \<open>From a record to a peer\<close>

definition getTransportProtocol :: "TypedRecord \<Rightarrow> IpTransportProtocol option" where
  "getTransportProtocol t =
     (if tr_tcp6 t \<noteq> None \<or> tr_tcp t \<noteq> None then Some tcpProtocol
      else if tr_udp6 t \<noteq> None \<or> tr_udp t \<noteq> None then Some udpProtocol else None)"

text \<open>The two arms of the case statement differ in the protocol and its ports only.\<close>

definition endpoint_addrs :: "enr_library \<Rightarrow> TypedRecord \<Rightarrow> IpTransportProtocol \<Rightarrow> u16 option \<Rightarrow> u16 option \<Rightarrow> string list" where
  "endpoint_addrs L t proto port port6 =
     (case (tr_ip t, port) of (Some ip, Some p) \<Rightarrow> [el_addr L ip proto p] | _ \<Rightarrow> [])
     @ (case tr_ip6 t of None \<Rightarrow> []
        | Some ip \<Rightarrow> (case port6 of Some p \<Rightarrow> [el_addr L ip proto p]
          | None \<Rightarrow> (case port of Some p \<Rightarrow> [el_addr L ip proto p] | None \<Rightarrow> [])))"

definition toRemotePeerInfo :: "enr_library \<Rightarrow> enr \<Rightarrow> string + RemotePeerInfo" where
  "toRemotePeerInfo L r =
     (case el_typed L r of Inl e \<Rightarrow> Inl e
      | Inr t \<Rightarrow>
     (case secp256k1 t of None \<Rightarrow> Inl ''enr: no secp256k1 key in record''
      | Some key \<Rightarrow>
     (case el_peer L key of Inl e \<Rightarrow> Inl e
      | Inr p \<Rightarrow>
     (case getTransportProtocol t of None \<Rightarrow> Inl ''enr: could not determine transport protocol''
      | Some proto \<Rightarrow>
          let as = (case proto of tcpProtocol \<Rightarrow> endpoint_addrs L t tcpProtocol (tr_tcp t) (tr_tcp6 t)
                    | udpProtocol \<Rightarrow> endpoint_addrs L t udpProtocol (tr_udp t) (tr_udp6 t))
          in if as = [] then Inl ''enr: no addresses in record''
             else Inr ((init_peer p as)\<lparr>peer_enr := Some r\<rparr>)))))"

definition hasUdpPort :: "enr_library \<Rightarrow> RemotePeerInfo \<Rightarrow> bool" where
  "hasUdpPort L peer =
     (case peer_enr peer of None \<Rightarrow> False
      | Some r \<Rightarrow> (case el_typed L r of Inl e \<Rightarrow> False | Inr t \<Rightarrow> tr_udp t \<noteq> None \<or> tr_udp6 t \<noteq> None))"

section \<open>The node's own record\<close>

text \<open>The shards part of \<^verbatim>\<open>enrConfiguration\<close>: the configured shards, or those of the configured topics. The cluster id
  is cut to 16 bits, as a conversion between unsigned integers does.\<close>

definition enrConfiguration_shards ::
  "base10 \<Rightarrow> u32 \<Rightarrow> u16 list \<Rightarrow> PubsubTopic list \<Rightarrow> enr \<Rightarrow> (string + enr) exec" where
  "enrConfiguration_shards dec cluster confShards confTopics r =
     bind_exec
       (if confShards = [] then
          bind_exec (topicsToRelayShards dec confTopics) (\<lambda>res. Done (case res of
            Inl e \<Rightarrow> Inl (''failed to parse pubsub topic: '' @ e)
          | Inr None \<Rightarrow> Inr []
          | Inr (Some rs) \<Rightarrow> Inr (shardIds rs)))
        else Done (Inr confShards))
       (\<lambda>shards. case shards of
          Inl e \<Rightarrow> Done (Inl e)
        | Inr ids \<Rightarrow> bind_exec (withWakuRelaySharding \<lparr>rs_clusterId = ucast cluster, shardIds = ids\<rparr> r) (\<lambda>res.
            Done (case res of Inl e \<Rightarrow> Inl ''could not initialize ENR with shards'' | Inr r' \<Rightarrow> Inr r')))"

text \<open>The state of discovery; \<open>dv_record\<close> is \<^verbatim>\<open>protocol.localNode.record\<close>.\<close>

type_synonym discv5_predicate = "enr \<Rightarrow> bool"

record WakuDiscoveryV5 =
  dv_record :: enr
  dv_bootstrap :: "enr list"
  dv_listening :: bool
  dv_predicate :: "discv5_predicate option"
  dv_peerManager :: "PeerManager option"

definition shardingPredicate :: "enr_library \<Rightarrow> enr \<Rightarrow> enr list \<Rightarrow> discv5_predicate option" where
  "shardingPredicate L own bootnodes =
     (case relaySharding own of None \<Rightarrow> None
      | Some nodeShard \<Rightarrow> Some (\<lambda>r. list_ex (el_same L r) bootnodes
          \<or> length (getCapabilities r) > 0 \<and> list_ex (containsShard r (rs_clusterId nodeShard)) (shardIds nodeShard)))"

definition new_discovery :: "enr_library \<Rightarrow> enr \<Rightarrow> enr list \<Rightarrow> PeerManager option \<Rightarrow> WakuDiscoveryV5" where
  "new_discovery L r bootnodes pm =
     \<lparr>dv_record = r, dv_bootstrap = bootnodes, dv_listening = False,
      dv_predicate = shardingPredicate L r bootnodes, dv_peerManager = pm\<rparr>"

text \<open>The shards \<^verbatim>\<open>updateENRShards\<close> wants to announce; \<open>None\<close> is its early \<^verbatim>\<open>ok()\<close>.\<close>

definition resultShard :: "enr_library \<Rightarrow> RelayShards option \<Rightarrow> RelayShards \<Rightarrow> bool \<Rightarrow> string + RelayShards option" where
  "resultShard L currentShardsOp newShard add =
     (case currentShardsOp of
        Some currentShard \<Rightarrow>
          if rs_clusterId currentShard \<noteq> rs_clusterId newShard then Inl ''ENR update failed: clusterId id mismatch''
          else
            (let indices = (if add then shardIds currentShard @ shardIds newShard
                            else el_walk L (filter (\<lambda>i. i \<notin> set (shardIds newShard)) (remdups (shardIds currentShard))))
             in if \<not> add \<and> indices = [] then Inl ''ENR update failed: cannot remove all shards''
                else (case init_shards (rs_clusterId currentShard) indices of
                    Inl e \<Rightarrow> Inl (''ENR update failed: '' @ e) | Inr rs \<Rightarrow> Inr (Some rs)))
      | None \<Rightarrow> Inr (if add then Some newShard else None))"

definition shards_field :: "RelayShards \<Rightarrow> (string + string \<times> bytes) exec" where
  "shards_field rs =
     (if length (shardIds rs) \<ge> ShardingIndicesListMaxLength then
        bind_exec (toBitVector rs) (\<lambda>v. Done (Inr (ShardingBitVectorEnrField, v)))
      else Done (case toIndicesList rs of
          Inl e \<Rightarrow> Inl (''ENR update failed: '' @ e) | Inr v \<Rightarrow> Inr (ShardingIndicesListEnrField, v)))"

text \<open>The answer is the record afterwards; with an error the record stays.\<close>

definition updateENRShards :: "enr_library \<Rightarrow> base10 \<Rightarrow> enr \<Rightarrow> PubsubTopic list \<Rightarrow> bool \<Rightarrow> (string + enr) exec" where
  "updateENRShards L dec r newTopics add =
     bind_exec (topicsToRelayShards dec newTopics) (\<lambda>newShardOp. case newShardOp of
       Inl e \<Rightarrow> Done (Inl (''ENR update failed: '' @ e))
     | Inr None \<Rightarrow> Done (Inr r)
     | Inr (Some newShard) \<Rightarrow>
         (case resultShard L (relaySharding r) newShard add of
            Inl e \<Rightarrow> Done (Inl e)
          | Inr None \<Rightarrow> Done (Inr r)
          | Inr (Some rs) \<Rightarrow> bind_exec (shards_field rs) (\<lambda>f. Done (case f of
              Inl e \<Rightarrow> Inl e
            | Inr fv \<Rightarrow> (case el_update L r [fv] of
                Inl e \<Rightarrow> Inl (''ENR update failed: '' @ e) | Inr r' \<Rightarrow> Inr r')))))"

section \<open>The loops\<close>

definition record_after :: "enr \<Rightarrow> string + enr \<Rightarrow> enr" where
  "record_after r res = (case res of Inl e \<Rightarrow> r | Inr r' \<Rightarrow> r')"

text \<open>One turn of \<^verbatim>\<open>subscriptionsListener\<close>, with the events that were waiting.\<close>

definition listener_turn ::
  "enr_library \<Rightarrow> base10 \<Rightarrow> SubscriptionEvent list \<Rightarrow> WakuDiscoveryV5 \<Rightarrow> WakuDiscoveryV5 exec" where
  "listener_turn L dec events wd =
     (let subs = map snd (filter (\<lambda>e. fst e = PubsubSub) events);
          unsubs = map snd (filter (\<lambda>e. fst e = PubsubUnsub) events)
      in if subs = [] \<and> unsubs = [] then Done wd
         else bind_exec (updateENRShards L dec (dv_record wd) unsubs False) (\<lambda>unsubRes.
           let r1 = record_after (dv_record wd) unsubRes in
           bind_exec (updateENRShards L dec r1 subs True) (\<lambda>subRes.
             let r2 = record_after r1 subRes; wd = wd\<lparr>dv_record := r2\<rparr> in
             Done (if isl subRes \<and> isl unsubRes then wd
                   else wd\<lparr>dv_predicate := shardingPredicate L r2 (dv_bootstrap wd)\<rparr>))))"

fun discovery_listener ::
  "enr_library \<Rightarrow> base10 \<Rightarrow> SubscriptionEvent list list \<Rightarrow> WakuDiscoveryV5 \<Rightarrow> WakuDiscoveryV5 exec" where
  "discovery_listener L dec [] wd = Done wd"
| "discovery_listener L dec (b # bs) wd =
     bind_exec (listener_turn L dec b wd) (\<lambda>wd. discovery_listener L dec bs wd)"

text \<open>\<open>discovered\<close> is what \<^verbatim>\<open>queryRandom\<close> found.\<close>

definition findRandomPeers :: "discv5_predicate option \<Rightarrow> enr list \<Rightarrow> WakuDiscoveryV5 \<Rightarrow> enr list" where
  "findRandomPeers overridePred discovered wd =
     (case overridePred of Some p \<Rightarrow> filter p discovered
      | None \<Rightarrow> (case dv_predicate wd of Some p \<Rightarrow> filter p discovered | None \<Rightarrow> discovered))"

fun readable_peers :: "enr_library \<Rightarrow> enr list \<Rightarrow> RemotePeerInfo list" where
  "readable_peers L [] = []"
| "readable_peers L (r # rs) =
     (case toRemotePeerInfo L r of Inl e \<Rightarrow> readable_peers L rs | Inr peer \<Rightarrow> peer # readable_peers L rs)"

definition add_discovered :: "RemotePeerInfo list \<Rightarrow> PeerManager \<Rightarrow> PeerManager" where
  "add_discovered infos pm = foldl (\<lambda>pm peer. fst (addPeer pm peer Discv5)) pm infos"

text \<open>One turn of \<^verbatim>\<open>searchLoop\<close>.\<close>

definition search_turn :: "enr_library \<Rightarrow> enr list \<Rightarrow> WakuDiscoveryV5 \<Rightarrow> WakuDiscoveryV5" where
  "search_turn L discovered wd =
     (case dv_peerManager wd of None \<Rightarrow> wd
      | Some pm \<Rightarrow> wd\<lparr>dv_peerManager :=
          Some (add_discovered (readable_peers L (findRandomPeers None discovered wd)) pm)\<rparr>)"

text \<open>\<open>opened\<close> tells whether the UDP port could be opened, with the message of the exception otherwise.\<close>

definition start_discovery :: "string + unit \<Rightarrow> WakuDiscoveryV5 \<Rightarrow> (string + unit) \<times> WakuDiscoveryV5" where
  "start_discovery opened wd =
     (if dv_listening wd then (Inl ''already listening'', wd)
      else (case opened of Inl e \<Rightarrow> (Inl (''failed to open udp port: '' @ e), wd)
        | Inr u \<Rightarrow> (Inr (), wd\<lparr>dv_listening := True\<rparr>)))"

definition stop_discovery :: "WakuDiscoveryV5 \<Rightarrow> WakuDiscoveryV5" where
  "stop_discovery wd = (if \<not> dv_listening wd then wd else wd\<lparr>dv_listening := False\<rparr>)"

section \<open>Bootstrap nodes\<close>

text \<open>\<^verbatim>\<open>toLowerAscii\<close>.\<close>

definition lower_char :: "char \<Rightarrow> char" where
  "lower_char c = (let n = of_char c :: nat in if 65 \<le> n \<and> n \<le> 90 then char_of (n + 32) else c)"

definition parseBootstrapAddress :: "enr_library \<Rightarrow> string \<Rightarrow> (string + enr) exec" where
  "parseBootstrapAddress L address =
     (case address of [] \<Rightarrow> Fault IndexDefect
      | c # cs \<Rightarrow> Done
          (if c = CHR ''/'' then Inl ''MultiAddress bootstrap addresses are not supported''
           else if starts_with (map lower_char address) ''enr:'' then
             (case el_uri L address of None \<Rightarrow> Inl ''Invalid ENR bootstrap record'' | Some r \<Rightarrow> Inr r)
           else if starts_with (map lower_char address) ''enode:'' then
             Inl ''ENode bootstrap addresses are not supported''
           else Inl ''Ignoring unrecognized bootstrap address type''))"

definition addBootstrapNode :: "enr_library \<Rightarrow> string \<Rightarrow> enr list \<Rightarrow> enr list exec" where
  "addBootstrapNode L bootstrapAddr bootstrapEnrs =
     (if bootstrapAddr = [] \<or> hd bootstrapAddr = CHR ''#'' then Done bootstrapEnrs
      else bind_exec (parseBootstrapAddress L bootstrapAddr) (\<lambda>res. Done (case res of
          Inl e \<Rightarrow> bootstrapEnrs | Inr r \<Rightarrow> bootstrapEnrs @ [r])))"

fun add_bootstrap_nodes :: "enr_library \<Rightarrow> string list \<Rightarrow> enr list \<Rightarrow> enr list exec" where
  "add_bootstrap_nodes L [] enrs = Done enrs"
| "add_bootstrap_nodes L (a # as) enrs = bind_exec (addBootstrapNode L a enrs) (\<lambda>enrs. add_bootstrap_nodes L as enrs)"

text \<open>\<^verbatim>\<open>setupDiscoveryV5\<close>: the configured bootstrap nodes, then those found by DNS that listen on UDP.\<close>

definition setupDiscoveryV5 ::
  "enr_library \<Rightarrow> enr \<Rightarrow> PeerManager \<Rightarrow> string list \<Rightarrow> RemotePeerInfo list \<Rightarrow> WakuDiscoveryV5 exec" where
  "setupDiscoveryV5 L myENR pm confNodes dynamicBootstrapNodes =
     bind_exec (add_bootstrap_nodes L confNodes []) (\<lambda>enrs.
       let dynamic = map (\<lambda>it. the (peer_enr it)) (filter (hasUdpPort L) dynamicBootstrapNodes)
       in Done (new_discovery L myENR (enrs @ dynamic) (Some pm)))"

section \<open>Records with few shards\<close>

text \<open>What the theorems rely on: updating the record sets the field that is given, and walking a set
  gives its elements.\<close>

locale discovery_library =
  fixes L :: enr_library
  assumes update: "el_update L r [(f, v)] = Inr r' \<Longrightarrow> r' = r(f \<mapsto> v)"
    and walk: "set (el_walk L is) = set is"

text \<open>The shards of a cluster that a record announces.\<close>

definition enr_shards :: "enr \<Rightarrow> u16 \<Rightarrow> u16 set \<Rightarrow> bool" where
  "enr_shards r c S \<longleftrightarrow>
     (case relaySharding r of None \<Rightarrow> S = {} | Some rs \<Rightarrow> rs_clusterId rs = c \<and> set (shardIds rs) = S)"

definition few_shards :: "u16 set \<Rightarrow> bool" where
  "few_shards D \<longleftrightarrow> card D < ShardingIndicesListMaxLength \<and> (\<forall>i \<in> D. i \<le> MaxShardIndex)"

text \<open>
  The library refuses records of more than 300 bytes. A record has room if a list of at most 63 shards (129 bytes) can be
  written to it, whichever list it holds now.
\<close>

definition has_room :: "enr_library \<Rightarrow> enr \<Rightarrow> bool" where
  "has_room L r \<longleftrightarrow> (\<forall>u v. length v \<le> 129 \<longrightarrow>
     (\<exists>r'. el_update L (r(ShardingIndicesListEnrField := u)) [(ShardingIndicesListEnrField, v)] = Inr r'))"

lemma has_room_list [simp]: "has_room L (r(ShardingIndicesListEnrField := u)) \<longleftrightarrow> has_room L r"
  by (simp add: has_room_def)

lemma has_room_update: "has_room L r \<Longrightarrow> length v \<le> 129 \<Longrightarrow> \<exists>r'. el_update L r [(ShardingIndicesListEnrField, v)] = Inr r'"
  unfolding has_room_def by (metis fun_upd_triv)

lemma length_indices_list: "toIndicesList rs = Inr v \<Longrightarrow> length v = 3 + 2 * length (shardIds rs)"
proof -
  have "length (concat (map be16 xs)) = 2 * length xs" for xs by (induction xs) (simp_all add: be16_def)
  then show "toIndicesList rs = Inr v \<Longrightarrow> ?thesis" by (auto simp: toIndicesList_def be16_def split: if_splits)
qed

lemma enr_shards_contains:
  "enr_shards r c S \<Longrightarrow> \<forall>i \<in> S. i \<le> MaxShardIndex \<Longrightarrow> containsShard r c i \<longleftrightarrow> i \<in> S"
  by (auto simp: enr_shards_def containsShard_def not_less split: option.splits)

lemma length_deduplicate: "length (deduplicate xs) = card (set xs)"
  by (simp add: deduplicate_def length_remdups_card_conv)

lemma init_shards_ok:
  "is \<noteq> [] \<Longrightarrow> \<forall>i \<in> set is. i \<le> MaxShardIndex \<Longrightarrow> init_shards c is = Inr \<lparr>rs_clusterId = c, shardIds = deduplicate is\<rparr>"
  by (cases "is") (auto simp: init_shards_def not_less)

lemma few_shards_sub:
  assumes "few_shards D" and "set is \<subseteq> D"
  shows "\<forall>i \<in> set is. i \<le> MaxShardIndex" and "length (deduplicate is) < ShardingIndicesListMaxLength"
  using assms card_mono [of D "set is"] finite [of D] by (auto simp: few_shards_def length_deduplicate)

lemma shards_field_few:
  assumes "length (shardIds rs) < ShardingIndicesListMaxLength"
  shows "\<exists>v. shards_field rs = Done (Inr (ShardingIndicesListEnrField, v)) \<and> fromIndicesList v = Inr rs \<and> length v \<le> 129"
proof -
  obtain v where v: "toIndicesList rs = Inr v"
    using assms by (simp add: toIndicesList_def ShardingIndicesListMaxLength_def)
  then show ?thesis using assms indices_roundtrip [OF v] length_indices_list [OF v]
    by (simp add: shards_field_def ShardingIndicesListMaxLength_def)
qed


lemma read_shards_list:
  "fromIndicesList v = Inr rs \<Longrightarrow> relaySharding (r(ShardingIndicesListEnrField \<mapsto> v)) = Some rs"
  by (simp add: relaySharding_def relayShardingIndicesList_def)

abbreviation static_topic :: "u16 \<Rightarrow> u16 \<Rightarrow> PubsubTopic" where
  "static_topic c i \<equiv> show_pubsub_topic (StaticSharding c i)"

section \<open>Updating the record\<close>

context discovery_library
begin

text \<open>Writing a list of at least one and fewer than 64 shards.\<close>

lemma write_few:
  assumes "few_shards D" and "set is \<subseteq> D" and "is \<noteq> []"
  shows "\<exists>v. shards_field \<lparr>rs_clusterId = c, shardIds = deduplicate is\<rparr> = Done (Inr (ShardingIndicesListEnrField, v))
    \<and> length v \<le> 129 \<and> (\<forall>r r'. el_update L r [(ShardingIndicesListEnrField, v)] = Inr r' \<longrightarrow> enr_shards r' c (set is))"
proof -
  obtain v where v: "shards_field \<lparr>rs_clusterId = c, shardIds = deduplicate is\<rparr> = Done (Inr (ShardingIndicesListEnrField, v))"
      "fromIndicesList v = Inr \<lparr>rs_clusterId = c, shardIds = deduplicate is\<rparr>" "length v \<le> 129"
    using shards_field_few [where rs = "\<lparr>rs_clusterId = c, shardIds = deduplicate is\<rparr>"] few_shards_sub [OF assms(1,2)] by auto
  have "enr_shards r' c (set is)" if "el_update L r [(ShardingIndicesListEnrField, v)] = Inr r'" for r r'
    using update [OF that] read_shards_list [OF v(2), of r] by (simp add: enr_shards_def)
  with v show ?thesis by blast
qed

lemma write_few_room:
  assumes "has_room L r" and "few_shards D" and "set is \<subseteq> D" and "is \<noteq> []"
  shows "\<exists>v r'. shards_field \<lparr>rs_clusterId = c, shardIds = deduplicate is\<rparr> = Done (Inr v)
    \<and> el_update L r [v] = Inr r' \<and> enr_shards r' c (set is) \<and> has_room L r'"
proof -
  obtain v where v: "shards_field \<lparr>rs_clusterId = c, shardIds = deduplicate is\<rparr> = Done (Inr (ShardingIndicesListEnrField, v))"
      "length v \<le> 129" "\<And>r r'. el_update L r [(ShardingIndicesListEnrField, v)] = Inr r' \<Longrightarrow> enr_shards r' c (set is)"
    using write_few [OF assms(2-4)] by blast
  obtain r' where r': "el_update L r [(ShardingIndicesListEnrField, v)] = Inr r'" using has_room_update [OF assms(1) v(2)] by blast
  then have "has_room L r'" using update [OF r'] assms(1) by simp
  with v(1,3) r' show ?thesis by blast
qed

lemma update_add:
  assumes "base10_ok dec" and "has_room L r" and "few_shards D"
    and "enr_shards r c S" and "S \<subseteq> D" and "set is \<subseteq> D"
  shows "\<exists>res. updateENRShards L dec r (map (static_topic c) is) True = Done res \<and> enr_shards (record_after r res) c (S \<union> set is)
    \<and> has_room L (record_after r res)"
proof (cases "is = []")
  case True
  then show ?thesis using assms(2,4) by (simp add: updateENRShards_def topicsToRelayShards_def record_after_def)
next
  case False
  note parsed = topics_to_shards [OF assms(1) False few_shards_sub(1) [OF assms(3,6)], of c]
  show ?thesis
  proof (cases "relaySharding r")
    case None
    then have "S = {}" using assms(4) by (simp add: enr_shards_def)
    obtain v r' where "shards_field \<lparr>rs_clusterId = c, shardIds = deduplicate is\<rparr> = Done (Inr v)"
        "el_update L r [v] = Inr r'" "enr_shards r' c (set is)" "has_room L r'"
      using write_few_room [OF assms(2,3,6) False] by blast
    then show ?thesis
      by (simp add: updateENRShards_def parsed resultShard_def None record_after_def \<open>S = {}\<close>)
  next
    case (Some rs)
    then have rs: "rs_clusterId rs = c" "set (shardIds rs) = S" using assms(4) by (simp_all add: enr_shards_def)
    let ?all = "shardIds rs @ deduplicate is"
    have all: "set ?all \<subseteq> D" "?all \<noteq> []"
      using rs assms(5,6) False set_deduplicate [of "is"] by (auto simp del: set_deduplicate)
    obtain v r' where "shards_field \<lparr>rs_clusterId = c, shardIds = deduplicate ?all\<rparr> = Done (Inr v)"
        "el_update L r [v] = Inr r'" "enr_shards r' c (set ?all)" "has_room L r'"
      using write_few_room [OF assms(2,3) all] by blast
    then show ?thesis
      using init_shards_ok [OF all(2) few_shards_sub(1) [OF assms(3) all(1)], of c] rs
      by (simp add: updateENRShards_def parsed resultShard_def Some record_after_def)
  qed
qed

lemma update_remove:
  assumes "base10_ok dec" and "has_room L r" and "few_shards D"
    and "enr_shards r c S" and "S \<subseteq> D" and "set is \<subseteq> D"
  shows "\<exists>res. updateENRShards L dec r (map (static_topic c) is) False = Done res
    \<and> enr_shards (record_after r res) c (if S - set is = {} then S else S - set is) \<and> has_room L (record_after r res)"
proof (cases "is = []")
  case True
  then show ?thesis using assms(2,4) by (auto simp: updateENRShards_def topicsToRelayShards_def record_after_def)
next
  case False
  note parsed = topics_to_shards [OF assms(1) False few_shards_sub(1) [OF assms(3,6)], of c]
  show ?thesis
  proof (cases "relaySharding r")
    case None
    then show ?thesis using assms(2,4) by (simp add: updateENRShards_def parsed resultShard_def record_after_def enr_shards_def)
  next
    case (Some rs)
    then have rs: "rs_clusterId rs = c" "set (shardIds rs) = S" using assms(4) by (simp_all add: enr_shards_def)
    let ?left = "el_walk L (filter (\<lambda>i. i \<notin> set is) (remdups (shardIds rs)))"
    have left: "set ?left = S - set is" using rs(2) by (auto simp: walk)
    show ?thesis
    proof (cases "?left = []")
      case True
      then have "S - set is = {}" using left by simp
      then show ?thesis
        using assms(2,4) True rs(1) by (simp add: updateENRShards_def parsed resultShard_def Some record_after_def)
    next
      case False
      have D: "set ?left \<subseteq> D" using left assms(5) by auto
      obtain v r' where "shards_field \<lparr>rs_clusterId = c, shardIds = deduplicate ?left\<rparr> = Done (Inr v)"
          "el_update L r [v] = Inr r'" "enr_shards r' c (set ?left)" "has_room L r'"
        using write_few_room [OF assms(2,3) D False] by blast
      moreover have "S - set is \<noteq> {}" using left False by (metis set_empty)
      ultimately show ?thesis
        using init_shards_ok [OF False few_shards_sub(1) [OF assms(3) D], of c] rs(1) False left
        by (simp add: updateENRShards_def parsed resultShard_def Some record_after_def)
    qed
  qed
qed

end

section \<open>The listener\<close>

text \<open>The shards of the record after one turn, as a function of those before: what the turn does to a set.\<close>

definition batch_shards :: "(u16 \<Rightarrow> PubsubTopic) \<Rightarrow> u16 set \<Rightarrow> SubscriptionEvent list \<Rightarrow> u16 set" where
  "batch_shards t S events =
     (let left = {i \<in> S. (PubsubUnsub, t i) \<notin> set events}
      in (if left = {} then S else left) \<union> {i. (PubsubSub, t i) \<in> set events})"

text \<open>The shards that are subscribed after some events, \<open>S\<close> being those before.\<close>

definition shards_told :: "(u16 \<Rightarrow> PubsubTopic) \<Rightarrow> u16 set \<Rightarrow> SubscriptionEvent list \<Rightarrow> u16 set" where
  "shards_told t S events = {i. if \<exists>e \<in> set events. snd e = t i then told events (t i) else i \<in> S}"

lemma shards_told_Nil: "shards_told t S [] = S"
  by (simp add: shards_told_def)

lemma shards_told_append:
  "shards_told t S (q @ b) = {i. if \<exists>e \<in> set b. snd e = t i then told b (t i) else i \<in> shards_told t S q}"
  by (auto simp: shards_told_def told_append)

lemma told_sub: "told b u \<Longrightarrow> (PubsubSub, u) \<in> set b"
proof -
  assume "told b u"
  then have "filter (\<lambda>e. snd e = u) b \<noteq> []" and k: "fst (last (filter (\<lambda>e. snd e = u) b)) = PubsubSub"
    by (simp_all add: told_def Let_def)
  then have "last (filter (\<lambda>e. snd e = u) b) \<in> set b \<and> snd (last (filter (\<lambda>e. snd e = u) b)) = u"
    using last_in_set by fastforce
  with k show ?thesis by (metis prod.collapse)
qed

text \<open>However the events are cut into batches, a subscribed shard is announced.\<close>

lemma batches_complete: "shards_told t S (concat bs) \<subseteq> foldl (batch_shards t) S bs"
proof (induction bs rule: rev_induct)
  case (snoc b bs)
  show ?case
  proof
    fix i assume i: "i \<in> shards_told t S (concat (bs @ [b]))"
    show "i \<in> foldl (batch_shards t) S (bs @ [b])"
    proof (cases "\<exists>e \<in> set b. snd e = t i")
      case True
      then have "told b (t i)" using i by (simp add: shards_told_append)
      from told_sub [OF this] show ?thesis by (simp add: batch_shards_def Let_def)
    next
      case False
      then have "i \<in> foldl (batch_shards t) S bs" "(PubsubUnsub, t i) \<notin> set b"
        using i snoc by (auto simp: shards_told_append)
      then show ?thesis by (auto simp: batch_shards_def Let_def)
    qed
  qed
qed (simp add: shards_told_Nil)

text \<open>If they come one at a time, at most one shard is announced that is not subscribed.\<close>

lemma single_sound:
  assumes "inj t" and "\<forall>b \<in> set bs. length b \<le> 1" and "\<forall>e \<in> set (concat bs). fst e \<in> {PubsubSub, PubsubUnsub}"
  shows "\<exists>x. foldl (batch_shards t) S bs - shards_told t S (concat bs) \<subseteq> {x}"
  using assms(2,3)
proof (induction bs rule: rev_induct)
  case (snoc b bs)
  let ?S = "foldl (batch_shards t) S bs" and ?T = "shards_told t S (concat bs)"
  obtain x where x: "?S - ?T \<subseteq> {x}" using snoc by auto
  have told1: "told [e] u \<longleftrightarrow> snd e = u \<and> fst e = PubsubSub" for e u by (auto simp: told_def)
  consider "b = []" | u where "b = [(PubsubSub, u)]" | u where "b = [(PubsubUnsub, u)]"
    using snoc.prems by (cases b) auto
  then show ?case
  proof cases
    case 1
    then have "batch_shards t ?S b = ?S" by (auto simp: batch_shards_def Let_def)
    then show ?thesis using x 1 by auto
  next
    case 2
    then have "foldl (batch_shards t) S (bs @ [b]) - shards_told t S (concat (bs @ [b])) \<subseteq> ?S - ?T"
      by (auto simp: shards_told_append batch_shards_def told1)
    with x show ?thesis by blast
  next
    case 3
    have T: "shards_told t S (concat (bs @ [b])) = ?T - {i. t i = u}" using 3 by (auto simp: shards_told_append told1)
    have S: "batch_shards t ?S b = (if ?S - {i. t i = u} = {} then ?S else ?S - {i. t i = u})"
      using 3 by (auto simp: batch_shards_def Let_def)
    show ?thesis
    proof (cases "?S - {i. t i = u} = {}")
      case True
      then have "\<exists>y. ?S \<subseteq> {y}" using assms(1) by (cases "\<exists>i. t i = u") (auto dest: injD)
      then show ?thesis using T S True by auto
    next
      case False
      then have "batch_shards t ?S b - shards_told t S (concat (bs @ [b])) \<subseteq> ?S - ?T" unfolding S T by auto
      with x show ?thesis by auto
    qed
  qed
qed (simp add: shards_told_Nil)

lemma batch_shards_sub:
  "inj t \<Longrightarrow> S \<subseteq> D \<Longrightarrow> \<forall>e \<in> set b. \<exists>i \<in> D. snd e = t i \<Longrightarrow> batch_shards t S b \<subseteq> D"
  by (fastforce simp: batch_shards_def Let_def dest: injD split: if_splits)

text \<open>The filter is always the one of the record.\<close>

definition filter_current :: "enr_library \<Rightarrow> WakuDiscoveryV5 \<Rightarrow> bool" where
  "filter_current L wd \<longleftrightarrow> dv_predicate wd = shardingPredicate L (dv_record wd) (dv_bootstrap wd)"

lemma listener_turn_current:
  assumes "listener_turn L dec events wd = Done wd'" and "filter_current L wd"
  shows "filter_current L wd'" and "dv_bootstrap wd' = dv_bootstrap wd" and "dv_peerManager wd' = dv_peerManager wd"
  using assms by (auto simp: listener_turn_def filter_current_def Let_def record_after_def split: if_splits sum.splits)

lemma listener_current:
  "discovery_listener L dec bs wd = Done wd' \<Longrightarrow> filter_current L wd
     \<Longrightarrow> filter_current L wd' \<and> dv_bootstrap wd' = dv_bootstrap wd"
proof (induction bs arbitrary: wd)
  case (Cons b bs)
  then obtain w where w: "listener_turn L dec b wd = Done w" "discovery_listener L dec bs w = Done wd'" by auto
  from Cons.IH [OF w(2)] listener_turn_current [OF w(1) Cons.prems(2)] show ?case by simp
qed simp

lemma events_topics:
  assumes "inj t" and "\<forall>e \<in> set events. \<exists>i \<in> D. snd e = t i"
  shows "\<exists>is. map snd (filter (\<lambda>e. fst e = k) events) = map t is \<and> set is = {i. (k, t i) \<in> set events} \<and> set is \<subseteq> D"
  using assms(2)
proof (induction events)
  case (Cons e es)
  then obtain "is" i where IH: "map snd (filter (\<lambda>e. fst e = k) es) = map t is" "set is = {i. (k, t i) \<in> set es}" "set is \<subseteq> D"
    and i: "i \<in> D" "snd e = t i" by auto
  show ?case
  proof (cases "fst e = k")
    case True
    then have "e = (k, t i)" using i(2) by (metis prod.collapse)
    then show ?thesis using IH i assms(1) by (intro exI [of _ "i # is"]) (auto dest: injD)
  next
    case False
    then show ?thesis using IH by (intro exI [of _ "is"]) auto
  qed
qed simp

context discovery_library
begin

lemma turn_shards:
  assumes "base10_ok dec" and "has_room L (dv_record wd)" and "few_shards D"
    and "enr_shards (dv_record wd) c S" and "S \<subseteq> D" and "\<forall>e \<in> set events. \<exists>i \<in> D. snd e = static_topic c i"
  shows "\<exists>wd'. listener_turn L dec events wd = Done wd' \<and> enr_shards (dv_record wd') c (batch_shards (static_topic c) S events)
    \<and> has_room L (dv_record wd')"
proof -
  have inj: "inj (static_topic c)" by (rule injI) (simp add: show_static_inj [OF assms(1)])
  obtain us where us: "map snd (filter (\<lambda>e. fst e = PubsubUnsub) events) = map (static_topic c) us"
      "set us = {i. (PubsubUnsub, static_topic c i) \<in> set events}" "set us \<subseteq> D"
    using events_topics [OF inj assms(6)] by blast
  obtain ss where ss: "map snd (filter (\<lambda>e. fst e = PubsubSub) events) = map (static_topic c) ss"
      "set ss = {i. (PubsubSub, static_topic c i) \<in> set events}" "set ss \<subseteq> D"
    using events_topics [OF inj assms(6)] by blast
  let ?S = "if S - set us = {} then S else S - set us"
  have S: "?S \<union> set ss = batch_shards (static_topic c) S events" "?S \<subseteq> D"
    using us(2) ss(2) assms(5) by (auto simp: batch_shards_def Let_def)
  show ?thesis
  proof (cases "ss = [] \<and> us = []")
    case True
    then have "batch_shards (static_topic c) S events = S" using S(1) by (simp split: if_splits)
    then show ?thesis using True assms(2,4) us(1) ss(1) by (simp add: listener_turn_def)
  next
    case False
    obtain res where res: "updateENRShards L dec (dv_record wd) (map (static_topic c) us) False = Done res"
        "enr_shards (record_after (dv_record wd) res) c ?S" "has_room L (record_after (dv_record wd) res)"
      using update_remove [OF assms(1-5) us(3)] by blast
    obtain res' where res': "updateENRShards L dec (record_after (dv_record wd) res) (map (static_topic c) ss) True = Done res'"
        "enr_shards (record_after (record_after (dv_record wd) res) res') c (?S \<union> set ss)"
        "has_room L (record_after (record_after (dv_record wd) res) res')"
      using update_add [OF assms(1) res(3) assms(3) res(2) S(2) ss(3)] by blast
    show ?thesis
      using False res(1) res' unfolding S(1) by (auto simp: listener_turn_def us(1) ss(1) Let_def)
  qed
qed

lemma listener_shards:
  assumes "base10_ok dec" and "has_room L (dv_record wd)" and "few_shards D"
    and "enr_shards (dv_record wd) c S" and "S \<subseteq> D" and "\<forall>e \<in> set (concat bs). \<exists>i \<in> D. snd e = static_topic c i"
  shows "\<exists>wd'. discovery_listener L dec bs wd = Done wd'
    \<and> enr_shards (dv_record wd') c (foldl (batch_shards (static_topic c)) S bs) \<and> foldl (batch_shards (static_topic c)) S bs \<subseteq> D"
  using assms(2,4-6)
proof (induction bs arbitrary: wd S)
  case (Cons b bs)
  have inj: "inj (static_topic c)" by (rule injI) (simp add: show_static_inj [OF assms(1)])
  have b: "\<forall>e \<in> set b. \<exists>i \<in> D. snd e = static_topic c i" using Cons.prems(4) by simp
  obtain wd' where wd': "listener_turn L dec b wd = Done wd'" "enr_shards (dv_record wd') c (batch_shards (static_topic c) S b)"
    "has_room L (dv_record wd')"
    using turn_shards [OF assms(1) Cons.prems(1) assms(3) Cons.prems(2,3) b] by blast
  from Cons.IH [OF wd'(3,2) batch_shards_sub [OF inj Cons.prems(3) b]] Cons.prems(4) wd'(1) show ?case by simp
qed simp

end

section \<open>From the configuration to what is announced\<close>

lemma mount_queue:
  "nd_relay node = None \<Longrightarrow> topicSubscriptionQueue (mountRelay sha G (Some g) topics n node)
     = topicSubscriptionQueue node @ map (Pair PubsubSub) topics"
proof -
  have "topicSubscriptionQueue (fold (\<lambda>t. node_subscribe sha G (PubsubSub, t) None) topics node)
      = topicSubscriptionQueue node @ map (Pair PubsubSub) topics" if "nd_relay node \<noteq> None" for node
    using that by (induction topics arbitrary: node) (auto simp: node_subscribe_def add_subscription_def Let_def)
  then show "nd_relay node = None \<Longrightarrow> ?thesis" by (simp add: mountRelay_def)
qed

lemma told_subs: "told (map (Pair PubsubSub) topics) t \<longleftrightarrow> t \<in> set topics"
  by (induction topics rule: rev_induct) auto

lemma configured_record:
  assumes "base10_ok dec" and "few_shards D" and "set is \<subseteq> D" and "is \<noteq> []"
  shows "\<exists>r'. enrConfiguration_shards dec (ucast c) [] (map (static_topic c) is) r = Done (Inr r') \<and> enr_shards r' c (set is)
    \<and> (has_room L r \<longrightarrow> has_room L r')"
proof -
  let ?rs = "\<lparr>rs_clusterId = c, shardIds = deduplicate is\<rparr>"
  have few: "length (shardIds ?rs) < 64" using few_shards_sub(2) [OF assms(2,3)] by (simp add: ShardingIndicesListMaxLength_def)
  then obtain v where v: "toIndicesList ?rs = Inr v" by (simp add: toIndicesList_def)
  have c: "ucast (ucast c :: u32) = c" by (rule bit_word_eqI) (simp add: bit_simps)
  have "withWakuRelaySharding ?rs r = Done (Inr (r(ShardingIndicesListEnrField \<mapsto> v)))"
    using few v by (simp add: withWakuRelaySharding_def withWakuRelayShardingIndicesList_def ShardingIndicesListMaxLength_def)
  then have "enrConfiguration_shards dec (ucast c) [] (map (static_topic c) is) r = Done (Inr (r(ShardingIndicesListEnrField \<mapsto> v)))"
    using topics_to_shards [OF assms(1,4) few_shards_sub(1) [OF assms(2,3)], of c] c by (simp add: enrConfiguration_shards_def)
  moreover have "enr_shards (r(ShardingIndicesListEnrField \<mapsto> v)) c (set is)"
    using read_shards_list [OF indices_roundtrip [OF v], of r] by (simp add: enr_shards_def)
  ultimately show ?thesis by (metis has_room_list)
qed

text \<open>C20: what a node announces to discovery. A node is configured with static topics of its cluster, builds its
  record from them, which has room for a list of 63 shards, mounts its relay with them, starts, and serves
  any subscriptions and unsubscriptions of the node itself (not of the C interface, which tells
  nobody), with pubsub topics as they are printed. Let the events since the start be about
  static topics of that cluster, all shards in the end below 1024 and fewer than 64 (one named topic in a batch
  and its shards are lost, as stated below); they reach the listener of discovery in any batches. Then the
  listener does not stop, and every shard the node serves is in its record. If the events are handled one
  at a time, the record has exactly those shards, but for at most one that the node no longer serves: the
  last shard is never removed. And the filter on the peers that are found is that of the record.\<close>

theorem discovery_announces:
  assumes "discovery_library L" and "gossip G" and "base10_ok dec" and "\<forall>t. ps_handlers G g t = None"
    and "has_room L r" and "few_shards D" and "set is \<subseteq> D" and "is \<noteq> []"
    and "topics = map (static_topic c) is" and "\<forall>op \<in> set ops. canonical_op dec op"
    and node0: "node0 = mountRelay sha G (Some g) topics n (mountSharding cl shardCount new_node)"
    and node: "node = node_run sha G ops node0"
    and D: "\<forall>e \<in> set (events_since node0 node). \<exists>i \<in> D. snd e = static_topic c i" and bs: "concat batches = events_since node0 node"
  shows "\<exists>r' wd. enrConfiguration_shards dec (ucast c) [] topics r = Done (Inr r')
    \<and> discovery_listener L dec batches (new_discovery L r' bootnodes pm) = Done wd
    \<and> (\<forall>i. node_handlers G node (static_topic c i) \<noteq> [] \<longrightarrow> containsShard (dv_record wd) c i)
    \<and> ((\<forall>b \<in> set batches. length b \<le> 1) \<longrightarrow>
        (\<exists>x. \<forall>i. i \<noteq> x \<longrightarrow> (containsShard (dv_record wd) c i \<longleftrightarrow> node_handlers G node (static_topic c i) \<noteq> [])))
    \<and> dv_predicate wd = shardingPredicate L (dv_record wd) bootnodes"
proof -
  let ?t = "static_topic c" and ?es = "events_since node0 node"
  have inj: "inj ?t" by (rule injI) (simp add: show_static_inj [OF assms(3)])
  have ok: "\<forall>t \<in> set topics. canonical dec t" "\<forall>op \<in> set [] \<union> set ops. canonical_op dec op"
    using assms(9,10) by (auto simp: canonical_def parse_static [OF assms(3)])
  have "node0 = node_run sha G [] (mountRelay sha G (Some g) topics n (mountSharding cl shardCount new_node))"
    by (simp add: node_run_def node0)
  note since = started_events [OF assms(2-4) ok this node]
  have "topicSubscriptionQueue node0 = map (Pair PubsubSub) topics"
    unfolding node0 by (subst mount_queue) (simp_all add: mountSharding_def new_node_def)
  then have start: "node_handlers G node0 (?t i) \<noteq> [] \<longleftrightarrow> i \<in> set is" for i
    unfolding since(3) by (simp add: told_subs) (auto simp: assms(9) dest: injD [OF inj])
  have served: "{i. node_handlers G node (?t i) \<noteq> []} = shards_told ?t (set is) ?es"
    unfolding since(2) start by (simp add: shards_told_def)
  obtain r' where r': "enrConfiguration_shards dec (ucast c) [] topics r = Done (Inr r')" "enr_shards r' c (set is)" "has_room L r'"
    using configured_record [OF assms(3,6,7,8), of c r L] assms(5,9) by blast
  let ?wd = "new_discovery L r' bootnodes pm" and ?S = "foldl (batch_shards ?t) (set is) batches"
  have D': "\<forall>e \<in> set (concat batches). \<exists>i \<in> D. snd e = ?t i" using D bs by simp
  from r'(2,3) have rec: "enr_shards (dv_record ?wd) c (set is)" "has_room L (dv_record ?wd)" by (simp_all add: new_discovery_def)
  obtain wd where wd: "discovery_listener L dec batches ?wd = Done wd" "enr_shards (dv_record wd) c ?S" "?S \<subseteq> D"
    using discovery_library.listener_shards [OF assms(1,3) rec(2) assms(6) rec(1) assms(7) D'] by blast
  have S: "containsShard (dv_record wd) c i \<longleftrightarrow> i \<in> ?S" for i
    using enr_shards_contains [OF wd(2)] wd(3) assms(6) by (auto simp: few_shards_def)
  have cur: "filter_current L wd \<and> dv_bootstrap wd = bootnodes"
    using listener_current [OF wd(1)] by (simp add: filter_current_def new_discovery_def)
  have kinds: "\<forall>e \<in> set (concat batches). fst e \<in> {PubsubSub, PubsubUnsub}"
    using since(1) bs by (auto simp: list_all_iff event_ok_def)
  have sub: "shards_told ?t (set is) ?es \<subseteq> ?S" using batches_complete [of ?t "set is" batches] bs by simp
  have single: "\<exists>x. \<forall>i. i \<noteq> x \<longrightarrow> (i \<in> ?S \<longleftrightarrow> i \<in> shards_told ?t (set is) ?es)" if "\<forall>b \<in> set batches. length b \<le> 1"
    using single_sound [OF inj that kinds, of "set is"] sub bs by auto
  have served_iff: "node_handlers G node (?t i) \<noteq> [] \<longleftrightarrow> i \<in> shards_told ?t (set is) ?es" for i
    using served by blast
  show ?thesis
  proof (intro exI conjI)
    show "enrConfiguration_shards dec (ucast c) [] topics r = Done (Inr r')" by (rule r'(1))
    show "discovery_listener L dec batches ?wd = Done wd" by (rule wd(1))
    show "\<forall>i. node_handlers G node (?t i) \<noteq> [] \<longrightarrow> containsShard (dv_record wd) c i"
      unfolding S served_iff using sub by blast
    show "(\<forall>b \<in> set batches. length b \<le> 1) \<longrightarrow>
        (\<exists>x. \<forall>i. i \<noteq> x \<longrightarrow> (containsShard (dv_record wd) c i \<longleftrightarrow> node_handlers G node (?t i) \<noteq> []))"
      unfolding S served_iff using single by blast
    show "dv_predicate wd = shardingPredicate L (dv_record wd) bootnodes"
      using cur by (simp add: filter_current_def)
  qed
qed

section \<open>Sixty-four shards\<close>


section \<open>Batches with other topics\<close>

lemma parse_canonical:
  "\<forall>t \<in> set ts. canonical dec t \<Longrightarrow> \<exists>rs. parse_topics dec ts = Done rs \<and>
     (case first_error rs of Inl e \<Rightarrow> True | Inr ps \<Rightarrow> list_all2 (\<lambda>t p. parse_pubsub_topic dec t = Done (Inr p) \<and> show_pubsub_topic p = t) ts ps)"
proof (induction ts)
  case (Cons t ts)
  then obtain rs where rs: "parse_topics dec ts = Done rs"
    "case first_error rs of Inl e \<Rightarrow> True | Inr ps \<Rightarrow> list_all2 (\<lambda>t p. parse_pubsub_topic dec t = Done (Inr p) \<and> show_pubsub_topic p = t) ts ps"
    by auto
  have "canonical dec t" using Cons.prems by simp
  then obtain p where "parse_pubsub_topic dec t = Done p" "\<forall>q. p = Inr q \<longrightarrow> show_pubsub_topic q = t"
    by (auto simp: canonical_def split: exec.splits sum.splits)
  with rs show ?case by (cases p; cases "first_error rs") simp_all
qed simp

lemma canonical_shards: "\<forall>t \<in> set ts. canonical dec t \<Longrightarrow> \<exists>x. topicsToRelayShards dec ts = Done x"
  using parse_canonical [of ts dec] by (auto simp: topicsToRelayShards_def)

text \<open>A static topic beside one that is not a static topic of the same cluster.\<close>

lemma mixed_topics:
  assumes "base10_ok dec" and "\<forall>t \<in> set ts. canonical dec t"
    and "static_topic c i \<in> set ts" and "u \<in> set ts" and "\<forall>j. u \<noteq> static_topic c j"
  shows "\<exists>e. topicsToRelayShards dec ts = Done (Inl e)"
proof -
  obtain rs where rs: "parse_topics dec ts = Done rs"
    "case first_error rs of Inl e \<Rightarrow> True | Inr ps \<Rightarrow> list_all2 (\<lambda>t p. parse_pubsub_topic dec t = Done (Inr p) \<and> show_pubsub_topic p = t) ts ps"
    using parse_canonical [OF assms(2)] by blast
  have ts: "\<not> length ts < 1" using assms(3) by (cases ts) auto
  show ?thesis
  proof (cases "first_error rs")
    case (Inl e)
    then show ?thesis using ts rs(1) by (simp add: topicsToRelayShards_def)
  next
    case (Inr ps)
    then have all: "list_all2 (\<lambda>t p. parse_pubsub_topic dec t = Done (Inr p) \<and> show_pubsub_topic p = t) ts ps" using rs(2) by simp
    have read: "\<exists>p \<in> set ps. parse_pubsub_topic dec t = Done (Inr p) \<and> show_pubsub_topic p = t" if "t \<in> set ts" for t
      using all that by (force simp: list_all2_conv_all_nth in_set_conv_nth)
    have static: "StaticSharding c i \<in> set ps" using read [OF assms(3)] by (auto simp: parse_static [OF assms(1)])
    obtain p where p: "p \<in> set ps" "show_pubsub_topic p = u" using read [OF assms(4)] by blast
    have other: "is_named p \<or> static_cluster p \<noteq> c" using p(2) assms(5) by (cases p) auto
    have "\<not> list_all is_named ps" using static unfolding list_all_iff by (metis is_named.simps(2))
    moreover have "list_ex is_named ps \<or> list_ex (\<lambda>t. static_cluster t \<noteq> static_cluster (hd ps)) ps"
      using static p(1) other unfolding list_ex_iff by (metis static_cluster.simps(1))
    ultimately show ?thesis using ts rs(1) Inr by (auto simp: topicsToRelayShards_def)
  qed
qed

text \<open>Writing fewer shards of the same cluster announces no new one.\<close>

lemma shards_field_done:
  "init_shards c is = Inr rs \<Longrightarrow> \<exists>f. shards_field rs = Done f"
  using bit_vector_roundtrip [of rs] by (auto simp: shards_field_def init_shards_def not_less split: if_splits)

context discovery_library
begin

lemma write_sub:
  assumes "relaySharding r = Some cur" and "init_shards (rs_clusterId cur) is = Inr rs" and "set is \<subseteq> set (shardIds cur)"
    and "shards_field rs = Done (Inr fv)" and "el_update L r [fv] = Inr r'" and "containsShard r' d j"
  shows "containsShard r d j"
proof -
  have rs: "\<forall>i \<in> set (shardIds rs). i \<le> MaxShardIndex" "set (shardIds rs) = set is" "rs_clusterId rs = rs_clusterId cur"
    using assms(2) by (auto simp: init_shards_def not_less split: if_splits)
  obtain f v where fv: "fv = (f, v)" by (cases fv)
  have r': "r' = r(f \<mapsto> v)" using update assms(5) by (simp add: fv)
  have "\<exists>rs'. relaySharding r' = Some rs' \<and> rs_clusterId rs' = rs_clusterId cur \<and> set (shardIds rs') \<subseteq> set (shardIds cur)"
  proof (cases "length (shardIds rs) \<ge> ShardingIndicesListMaxLength")
    case False
    then obtain w where "shards_field rs = Done (Inr (ShardingIndicesListEnrField, w))" "fromIndicesList w = Inr rs"
      using shards_field_few [of rs] by auto
    then show ?thesis using read_shards_list [of v rs r] assms(3,4) rs by (auto simp: r' fv)
  next
    case True
    then obtain w rs' where w: "shards_field rs = Done (Inr (ShardingBitVectorEnrField, w))" "fromBitVector w = Inr rs'"
      "rs_clusterId rs' = rs_clusterId rs" "set (shardIds rs') = set (shardIds rs)"
      using bit_vector_roundtrip [OF rs(1)] by (auto simp: shards_field_def)
    then have "r' = r(ShardingBitVectorEnrField \<mapsto> w)" using assms(4) r' fv by simp
    then have "relaySharding r' = (case relayShardingIndicesList r of None \<Rightarrow> Some rs' | Some x \<Rightarrow> Some x)"
      using w(2) by (auto simp: relaySharding_def relayShardingIndicesList_def relayShardingBitVector_def
          ShardingBitVectorEnrField_def ShardingIndicesListEnrField_def split: option.splits sum.splits)
    then show ?thesis using assms(1,3) rs w(3,4)
      by (cases "relayShardingIndicesList r") (auto simp: relaySharding_def)
  qed
  then show ?thesis using assms(1,6) by (auto simp: containsShard_def split: if_splits)
qed

lemma update_removes_only:
  assumes "\<forall>t \<in> set ts. canonical dec t"
  shows "\<exists>res. updateENRShards L dec r ts False = Done res
    \<and> (\<forall>d j. containsShard (record_after r res) d j \<longrightarrow> containsShard r d j)"
proof -
  obtain x where x: "topicsToRelayShards dec ts = Done x" using canonical_shards [OF assms] by blast
  show ?thesis
  proof (cases "\<exists>new cur. x = Inr (Some new) \<and> relaySharding r = Some cur")
    case False
    then show ?thesis
      by (auto simp: updateENRShards_def x resultShard_def record_after_def split: sum.splits option.splits)
  next
    case True
    then obtain new cur where new: "x = Inr (Some new)" "relaySharding r = Some cur" by blast
    let ?is = "el_walk L (filter (\<lambda>i. i \<notin> set (shardIds new)) (remdups (shardIds cur)))"
    show ?thesis
    proof (cases "resultShard L (Some cur) new False")
      case (Inl e)
      then show ?thesis by (simp add: updateENRShards_def x new record_after_def)
    next
      case (Inr so)
      then obtain rs where rs: "so = Some rs" "init_shards (rs_clusterId cur) ?is = Inr rs"
        by (auto simp: resultShard_def Let_def split: if_splits sum.splits)
      obtain f where f: "shards_field rs = Done f" using shards_field_done [OF rs(2)] by blast
      have "set ?is \<subseteq> set (shardIds cur)" by (auto simp: walk)
      note sub = write_sub [OF new(2) rs(2) this]
      show ?thesis using sub f
        by (cases f) (auto simp: updateENRShards_def x new Inr rs(1) record_after_def split: sum.splits)
    qed
  qed
qed

end

text \<open>C36: one topic spoils a batch. When a batch of events has a subscription of a static topic and one of a topic
  that is not a static topic of the same cluster (a named one, such as \<^verbatim>\<open>/waku/2/default-waku/proto\<close>, one of
  another cluster, or a text that is no topic), then nothing is added to the record of discovery,
  whatever it announces: it becomes what the removals of the batch alone make it, and
  contains no shard it did not contain: the static shards of the batch are not announced by it.
  Topics are written as they are printed.\<close>

theorem mixed_batch_lost:
  assumes "discovery_library L" and "base10_ok dec" and "\<forall>e \<in> set events. canonical dec (snd e)"
    and "(PubsubSub, static_topic c i) \<in> set events" and "(PubsubSub, u) \<in> set events" and "\<forall>j. u \<noteq> static_topic c j"
  shows "\<exists>wd' res. listener_turn L dec events wd = Done wd'
    \<and> updateENRShards L dec (dv_record wd) (map snd (filter (\<lambda>e. fst e = PubsubUnsub) events)) False = Done res
    \<and> dv_record wd' = record_after (dv_record wd) res
    \<and> (\<forall>d j. containsShard (dv_record wd') d j \<longrightarrow> containsShard (dv_record wd) d j)"
proof -
  let ?subs = "map snd (filter (\<lambda>e. fst e = PubsubSub) events)" and ?unsubs = "map snd (filter (\<lambda>e. fst e = PubsubUnsub) events)"
  have subs: "static_topic c i \<in> set ?subs" "u \<in> set ?subs" using assms(4,5) by force+
  have canon: "\<forall>t \<in> set ?subs. canonical dec t" "\<forall>t \<in> set ?unsubs. canonical dec t" using assms(3) by auto
  obtain res where res: "updateENRShards L dec (dv_record wd) ?unsubs False = Done res"
      "\<And>d j. containsShard (record_after (dv_record wd) res) d j \<Longrightarrow> containsShard (dv_record wd) d j"
    using discovery_library.update_removes_only [OF assms(1) canon(2)] by blast
  obtain e where "topicsToRelayShards dec ?subs = Done (Inl e)"
    using mixed_topics [OF assms(2) canon(1) subs assms(6)] by blast
  then have "updateENRShards L dec r ?subs True = Done (Inl (''ENR update failed: '' @ e))" for r
    by (simp add: updateENRShards_def)
  moreover have "?subs \<noteq> []" using subs(1) by (metis empty_iff list.set(1))
  ultimately show ?thesis using res
    by (auto simp: listener_turn_def Let_def record_after_def [of _ "Inl _"])
qed

section \<open>The peers that are found\<close>

text \<open>What can happen to discovery while it runs; others change the peers of the manager, and the protocol may
  change its record where it is not about shards.\<close>

inductive discovery_step :: "enr_library \<Rightarrow> base10 \<Rightarrow> WakuDiscoveryV5 \<Rightarrow> WakuDiscoveryV5 \<Rightarrow> bool" for L dec where
  start: "start_discovery opened wd = (res, wd') \<Longrightarrow> discovery_step L dec wd wd'"
| stop: "discovery_step L dec wd (stop_discovery wd)"
| listen: "dv_listening wd \<Longrightarrow> listener_turn L dec events wd = Done wd' \<Longrightarrow> discovery_step L dec wd wd'"
| search: "dv_listening wd \<Longrightarrow> discovery_step L dec wd (search_turn L discovered wd)"
| manager: "dv_peerManager wd \<noteq> None \<Longrightarrow> discovery_step L dec wd (wd\<lparr>dv_peerManager := Some pm\<rparr>)"
| auto_update: "relaySharding r = relaySharding (dv_record wd) \<Longrightarrow> discovery_step L dec wd (wd\<lparr>dv_record := r\<rparr>)"

lemma step_current:
  assumes "discovery_step L dec wd wd'" and "filter_current L wd"
  shows "filter_current L wd' \<and> dv_bootstrap wd' = dv_bootstrap wd"
  using assms
proof (cases rule: discovery_step.cases)
  case (listen events)
  then show ?thesis using listener_turn_current assms(2) by blast
qed (use assms(2) in \<open>auto simp: start_discovery_def stop_discovery_def search_turn_def filter_current_def shardingPredicate_def
      split: if_splits sum.splits option.splits\<close>)

lemma steps_current:
  "(discovery_step L dec)\<^sup>*\<^sup>* wd wd' \<Longrightarrow> filter_current L wd \<Longrightarrow> filter_current L wd' \<and> dv_bootstrap wd' = dv_bootstrap wd"
  by (induction rule: rtranclp_induct) (use step_current in fastforce)+

lemma readable_from:
  "peer \<in> set (readable_peers L rs) \<Longrightarrow> \<exists>r \<in> set rs. toRemotePeerInfo L r = Inr peer"
  by (induction rs) (auto split: sum.splits)

lemma toRemotePeerInfo_fields:
  "toRemotePeerInfo L r = Inr peer \<Longrightarrow> peer_enr peer = Some r \<and> addrs peer \<noteq> [] \<and> protocols peer = []"
  by (auto simp: toRemotePeerInfo_def init_peer_def Let_def split: sum.splits option.splits if_splits)

text \<open>Adding a peer changes the entry of this peer only.\<close>

lemma addPeer_entry:
  assumes "peer_enr peer = Some r" and "entry = get_peer (pm_peerStore (fst (addPeer pm peer org))) p"
  shows "entry = get_peer (pm_peerStore pm) p
    \<or> p = peerId peer \<and> p \<noteq> pm_self pm \<and> addrs entry = addrs peer
      \<and> peer_enr entry = (if r = no_enr then None else Some r) \<and> origin entry = org"
  using assms by (auto simp: addPeer_def get_peer_def book_get_def Let_def update_conv split: if_splits)

lemma addPeer_self: "pm_self (fst (addPeer pm peer org)) = pm_self pm"
  by (simp add: addPeer_def Let_def)

lemma add_discovered_entry:
  assumes "\<forall>peer \<in> set found. peer_enr peer \<noteq> None" and "pm' = add_discovered found pm"
  shows "get_peer (pm_peerStore pm') p = get_peer (pm_peerStore pm) p \<or>
    (\<exists>peer \<in> set found. p = peerId peer \<and> p \<noteq> pm_self pm \<and> addrs (get_peer (pm_peerStore pm') p) = addrs peer
      \<and> peer_enr (get_peer (pm_peerStore pm') p) = (if peer_enr peer = Some no_enr then None else peer_enr peer)
      \<and> origin (get_peer (pm_peerStore pm') p) = Discv5)" (is "?same pm' \<or> ?found pm' found")
    and "pm_self pm' = pm_self pm"
proof -
  have "(?same pm' \<or> ?found pm' found) \<and> pm_self pm' = pm_self pm"
    using assms
  proof (induction found arbitrary: pm' rule: rev_induct)
    case (snoc peer found)
    let ?before = "add_discovered found pm"
    have pm': "pm' = fst (addPeer ?before peer Discv5)" using snoc.prems(2) by (simp add: add_discovered_def)
    obtain r where r: "peer_enr peer = Some r" using snoc.prems(1) by auto
    have IH: "?same ?before \<or> ?found ?before found" "pm_self ?before = pm_self pm" using snoc by auto
    have "get_peer (pm_peerStore pm') p = get_peer (pm_peerStore ?before) p \<or> ?found pm' (found @ [peer])"
      using addPeer_entry [OF r refl, of ?before Discv5 p] IH(2) r unfolding pm' by auto
    then show ?case
    proof
      assume "get_peer (pm_peerStore pm') p = get_peer (pm_peerStore ?before) p"
      then show ?thesis using IH by (auto simp: pm' addPeer_self)
    qed (use IH(2) in \<open>auto simp: pm' addPeer_self\<close>)
  qed (simp add: add_discovered_def)
  then show "?same pm' \<or> ?found pm' found" "pm_self pm' = pm_self pm" by simp_all
qed

text \<open>C26: discovery only brings peers of the node's shards. Whatever happened since discovery was made, a turn of the
  search changes in the peer store only entries of peers found in that turn, and not that of the node itself: the
  new entry has the addresses and the record of one of the records found, and discovery as its
  origin. If the node's record announces shards, that record is one of a bootstrap node, or it has a
  capability and is in a shard that the node's record announces now.\<close>

theorem discovered_peers:
  assumes "(discovery_step L dec)\<^sup>*\<^sup>* (new_discovery L r0 bootnodes pm0) wd" and "dv_peerManager wd = Some pm"
    and "relaySharding (dv_record wd) = Some rs" and "dv_peerManager (search_turn L discovered wd) = Some pm'"
    and "entry = get_peer (pm_peerStore pm') p" and "entry \<noteq> get_peer (pm_peerStore pm) p"
  shows "p \<noteq> pm_self pm \<and> (\<exists>r \<in> set discovered. \<exists>peer. toRemotePeerInfo L r = Inr peer \<and> peerId peer = p
    \<and> addrs entry = addrs peer \<and> peer_enr entry = (if r = no_enr then None else Some r) \<and> origin entry = Discv5
    \<and> (list_ex (el_same L r) bootnodes
       \<or> getCapabilities r \<noteq> [] \<and> (\<exists>i \<in> set (shardIds rs). containsShard r (rs_clusterId rs) i)))"
proof -
  have "filter_current L (new_discovery L r0 bootnodes pm0)" by (simp add: filter_current_def new_discovery_def)
  from steps_current [OF assms(1) this] have cur: "dv_predicate wd = shardingPredicate L (dv_record wd) bootnodes"
    by (simp add: filter_current_def new_discovery_def)
  let ?found = "readable_peers L (findRandomPeers None discovered wd)"
  have pm': "pm' = add_discovered ?found pm" using assms(2,4) by (simp add: search_turn_def)
  have enr: "\<forall>peer \<in> set ?found. peer_enr peer \<noteq> None"
    using readable_from toRemotePeerInfo_fields by fastforce
  obtain peer where peer: "peer \<in> set ?found" "p = peerId peer" "p \<noteq> pm_self pm" "addrs entry = addrs peer"
      "peer_enr entry = (if peer_enr peer = Some no_enr then None else peer_enr peer)" "origin entry = Discv5"
    using add_discovered_entry(1) [OF enr pm', of p] assms(5,6) by blast
  obtain r where r: "r \<in> set (findRandomPeers None discovered wd)" "toRemotePeerInfo L r = Inr peer"
    using readable_from [OF peer(1)] by blast
  have "r \<in> set discovered" "list_ex (el_same L r) bootnodes
       \<or> getCapabilities r \<noteq> [] \<and> (\<exists>i \<in> set (shardIds rs). containsShard r (rs_clusterId rs) i)"
    using r(1) assms(3) by (auto simp: findRandomPeers_def cur shardingPredicate_def list_ex_iff)
  moreover have "peer_enr entry = (if r = no_enr then None else Some r)"
    using peer(5) toRemotePeerInfo_fields [OF r(2)] by simp
  ultimately show ?thesis using peer(2-4,6) r(2) by blast
qed

section \<open>A library\<close>

text \<open>Records as they are modelled, with the fields read back, and the simplest of everything else.\<close>

definition plain_typed :: "enr \<Rightarrow> TypedRecord" where
  "plain_typed r =
     (let port = \<lambda>k. case r k of Some [a, b] \<Rightarrow> Some (from_be16 a b) | _ \<Rightarrow> None
      in \<lparr>secp256k1 = r ''secp256k1'', tr_ip = r ''ip'', tr_ip6 = r ''ip6'', tr_tcp = port ''tcp'', tr_udp = port ''udp'',
          tr_tcp6 = port ''tcp6'', tr_udp6 = port ''udp6''\<rparr>)"

definition plain_library :: enr_library where
  "plain_library = \<lparr>el_update = \<lambda>r fs. Inr (r ++ map_of fs), el_same = \<lambda>r r'. r ''secp256k1'' = r' ''secp256k1'',
     el_uri = \<lambda>s. None, el_typed = \<lambda>r. Inr (plain_typed r), el_peer = \<lambda>key. Inr (map (\<lambda>b. char_of (unat b)) key),
     el_addr = \<lambda>ip proto p. map (\<lambda>b. char_of (unat b)) ip @ (case proto of tcpProtocol \<Rightarrow> ''/tcp/'' | udpProtocol \<Rightarrow> ''/udp/'') @ show_nat (unat p),
     el_walk = id\<rparr>"

interpretation plain: discovery_library plain_library
  by unfold_locales (simp_all add: plain_library_def)

lemma plain_room: "has_room plain_library r"
  by (simp add: has_room_def plain_library_def)

text \<open>A node configured with shard 7 that subscribes to shard 5 later.\<close>

theorem discovery_announces_witness:
  "\<exists>r wd. enrConfiguration_shards sample_base10 1 [] [static_topic 1 7] Map.empty = Done (Inr r)
    \<and> discovery_listener plain_library sample_base10 [[(PubsubSub, static_topic 1 5)]] (new_discovery plain_library r [] None) = Done wd
    \<and> containsShard (dv_record wd) 1 7 \<and> containsShard (dv_record wd) 1 5"
proof -
  let ?ops = "[NodeSubscribe (PubsubSub, static_topic 1 5) (None :: unit option)]"
  have node: "shard_node = mountRelay sample_sha unit_gossip (Some no_tables) (map (static_topic 1) [7]) 1000 (mountSharding 1 8 new_node)"
    "shard_node_later = node_run sample_sha unit_gossip ?ops shard_node"
    by (simp_all add: node_run_def shard_node_def shard_node_later_def)
  have few: "few_shards {5, 7}" by (simp add: few_shards_def ShardingIndicesListMaxLength_def MaxShardIndex_def)
  have ops: "\<forall>op \<in> set ?ops. canonical_op sample_base10 op" by (simp add: static_canonical)
  have es: "\<forall>e \<in> set (events_since shard_node shard_node_later). \<exists>i \<in> {5, 7}. snd e = static_topic 1 i"
    "concat [[(PubsubSub, static_topic 1 5)]] = events_since shard_node shard_node_later"
    by (simp_all add: shard_node_served)
  from discovery_announces [OF plain.discovery_library_axioms tables.gossip_axioms sample_base10_ok unit_gossip_empty plain_room
      few _ _ refl ops node es, of Map.empty "[]" None]
  obtain r wd where "enrConfiguration_shards sample_base10 1 [] [static_topic 1 7] Map.empty = Done (Inr r)"
      "discovery_listener plain_library sample_base10 [[(PubsubSub, static_topic 1 5)]] (new_discovery plain_library r [] None) = Done wd"
      "\<And>i. node_handlers unit_gossip shard_node_later (static_topic 1 i) \<noteq> [] \<Longrightarrow> containsShard (dv_record wd) 1 i"
    by auto
  then show ?thesis using shard_node_served(2) [of 7] shard_node_served(2) [of 5] by blast
qed




text \<open>A record with a key, an address, a capability and a shard.\<close>

definition sample_record :: "u16 \<Rightarrow> enr" where
  "sample_record i = [''secp256k1'' \<mapsto> [112], ''ip'' \<mapsto> [52], ''tcp'' \<mapsto> [0, 80], CapabilitiesEnrField \<mapsto> [1],
     ShardingIndicesListEnrField \<mapsto> be16 1 @ [1] @ be16 i]"

lemma sample_record_shards: "relaySharding (sample_record i) = Some \<lparr>rs_clusterId = 1, shardIds = [i]\<rparr>"
proof -
  have "toIndicesList \<lparr>rs_clusterId = 1, shardIds = [i]\<rparr> = Inr (be16 1 @ [1] @ be16 i)" by (simp add: toIndicesList_def)
  from indices_roundtrip [OF this] show ?thesis
    by (simp add: relaySharding_def relayShardingIndicesList_def sample_record_def)
qed

theorem discovered_peers_witness:
  "\<exists>pm. dv_peerManager (search_turn plain_library [sample_record 7, sample_record 8]
        (new_discovery plain_library (sample_record 7) [] (Some sample_manager))) = Some pm
    \<and> origin (get_peer (pm_peerStore pm) ''p'') = Discv5 \<and> peer_enr (get_peer (pm_peerStore pm) ''p'') = Some (sample_record 7)"
proof -
  let ?pm = "add_discovered [(init_peer ''p'' [''4/tcp/80''])\<lparr>peer_enr := Some (sample_record 7)\<rparr>] sample_manager"
  have caps: "getCapabilities (sample_record i) = [Relay]" for i
    by (simp add: getCapabilities_def waku2_field_def sample_record_def toCapabilities_def supportsCapability_def
        CapabilitiesEnrField_def ShardingIndicesListEnrField_def)
  have shard: "containsShard (sample_record i) 1 7 \<longleftrightarrow> i = 7" for i
    by (auto simp: containsShard_def sample_record_shards MaxShardIndex_def)
  have some: "sample_record 7 \<noteq> no_enr" by (auto simp: sample_record_def no_enr_def fun_eq_iff)
  have chars: "char_of (112 :: nat) = CHR ''p''" "char_of (52 :: nat) = CHR ''4''" "char_of (56 :: nat) = CHR ''8''" "char_of (48 :: nat) = CHR ''0''"
    by code_simp+
  have peer: "toRemotePeerInfo plain_library (sample_record 7) = Inr ((init_peer ''p'' [''4/tcp/80''])\<lparr>peer_enr := Some (sample_record 7)\<rparr>)"
    by (simp add: toRemotePeerInfo_def plain_library_def plain_typed_def sample_record_def CapabilitiesEnrField_def
        ShardingIndicesListEnrField_def getTransportProtocol_def endpoint_addrs_def from_be16_def show_nat.simps digit_char_def chars Let_def)
  let ?wd = "new_discovery plain_library (sample_record 7) [] (Some sample_manager)"
  have found: "dv_peerManager (search_turn plain_library [sample_record 7, sample_record 8] ?wd) = Some ?pm"
    by (simp add: search_turn_def new_discovery_def findRandomPeers_def shardingPredicate_def sample_record_shards caps shard peer)
  have changed: "get_peer (pm_peerStore ?pm) ''p'' \<noteq> get_peer (pm_peerStore sample_manager) ''p''"
    using some by (simp add: add_discovered_def addPeer_def get_peer_def sample_manager_def no_peers_def init_peer_def book_get_def Let_def)
  have "(discovery_step plain_library sample_base10)\<^sup>*\<^sup>* ?wd ?wd" "dv_peerManager ?wd = Some sample_manager"
    "relaySharding (dv_record ?wd) = Some \<lparr>rs_clusterId = 1, shardIds = [7]\<rparr>"
    by (simp_all add: new_discovery_def sample_record_shards)
  from discovered_peers [OF this found refl changed] obtain r where r: "r \<in> {sample_record 7, sample_record 8}" "containsShard r 1 7"
      "origin (get_peer (pm_peerStore ?pm) ''p'') = Discv5"
      "peer_enr (get_peer (pm_peerStore ?pm) ''p'') = (if r = no_enr then None else Some r)"
    by (auto simp del: insert_iff)
  then show ?thesis using found some shard by (metis insert_iff empty_iff)
qed

section \<open>Batches and bootstrap nodes\<close>

text \<open>Within a batch the order of the events is lost: a shard that is subscribed and unsubscribed again in one
  batch is announced, and so is one that was the only one and is replaced.\<close>

theorem batch_order_lost:
  assumes "discovery_library L" and "base10_ok dec" and "has_room L (dv_record wd)" and "few_shards D"
    and "enr_shards (dv_record wd) c S" and "S \<subseteq> D" and "\<forall>e \<in> set events. \<exists>i \<in> D. snd e = static_topic c i"
  shows "\<exists>wd'. listener_turn L dec events wd = Done wd'
    \<and> ((PubsubSub, static_topic c i) \<in> set events \<longrightarrow> containsShard (dv_record wd') c i)
    \<and> (S = {i} \<longrightarrow> containsShard (dv_record wd') c i)"
proof -
  obtain wd' where wd': "listener_turn L dec events wd = Done wd'"
      "enr_shards (dv_record wd') c (batch_shards (static_topic c) S events)"
    using discovery_library.turn_shards [OF assms] by blast
  have inj: "inj (static_topic c)" by (rule injI) (simp add: show_static_inj [OF assms(2)])
  have "batch_shards (static_topic c) S events \<subseteq> D" by (rule batch_shards_sub [OF inj assms(6,7)])
  then have "containsShard (dv_record wd') c i \<longleftrightarrow> i \<in> batch_shards (static_topic c) S events" for i
    using enr_shards_contains [OF wd'(2)] assms(4) by (auto simp: few_shards_def)
  with wd'(1) show ?thesis by (auto simp: batch_shards_def Let_def)
qed

theorem batch_order_lost_witness:
  "\<exists>wd. listener_turn plain_library sample_base10 [(PubsubSub, static_topic 1 5), (PubsubUnsub, static_topic 1 5), (PubsubUnsub, static_topic 1 7)]
      (new_discovery plain_library (sample_record 7) [] None) = Done wd
    \<and> containsShard (dv_record wd) 1 5"
proof -
  have few: "few_shards {5, 7}" by (simp add: few_shards_def ShardingIndicesListMaxLength_def MaxShardIndex_def)
  have "enr_shards (dv_record (new_discovery plain_library (sample_record 7) [] None)) 1 {7}"
    by (simp add: new_discovery_def enr_shards_def sample_record_shards)
  from batch_order_lost [OF plain.discovery_library_axioms sample_base10_ok plain_room few this,
      of "[(PubsubSub, static_topic 1 5), (PubsubUnsub, static_topic 1 5), (PubsubUnsub, static_topic 1 7)]" 5]
  show ?thesis by auto
qed

text \<open>A batch with the default topic of Waku and shard 5.\<close>

theorem mixed_batch_lost_witness:
  "\<exists>wd. listener_turn plain_library sample_base10 [(PubsubSub, ''/waku/2/default-waku/proto''), (PubsubSub, static_topic 1 5)]
      (new_discovery plain_library (sample_record 7) [] None) = Done wd
    \<and> dv_record wd = sample_record 7 \<and> \<not> containsShard (dv_record wd) 1 5"
proof -
  let ?u = "''/waku/2/default-waku/proto''"
  let ?events = "[(PubsubSub, ?u), (PubsubSub, static_topic 1 5)]" and ?wd = "new_discovery plain_library (sample_record 7) [] None"
  have named: "parse_pubsub_topic sample_base10 ?u = Done (Inr (NamedSharding ''default-waku/proto''))" by code_simp
  have "canonical sample_base10 ?u" by (simp add: canonical_def named) (simp add: show_pubsub_topic_def)
  then have canon: "\<forall>e \<in> set ?events. canonical sample_base10 (snd e)"
    using static_canonical [of 1 5] by simp
  have other: "\<forall>j. ?u \<noteq> static_topic 1 j"
  proof
    fix j show "?u \<noteq> static_topic 1 j"
      using named parse_static [OF sample_base10_ok, of 1 j] by auto
  qed
  from mixed_batch_lost [OF plain.discovery_library_axioms sample_base10_ok canon _ _ other, of 5 ?wd]
  obtain wd res where wd: "listener_turn plain_library sample_base10 ?events ?wd = Done wd"
      "updateENRShards plain_library sample_base10 (dv_record ?wd) [] False = Done res" "dv_record wd = record_after (dv_record ?wd) res"
      "\<And>d j. containsShard (dv_record wd) d j \<Longrightarrow> containsShard (dv_record ?wd) d j"
    by auto
  have "dv_record wd = sample_record 7"
    using wd(2,3) by (auto simp: updateENRShards_def topicsToRelayShards_def record_after_def new_discovery_def)
  moreover have "\<not> containsShard (sample_record 7) 1 5" by (simp add: containsShard_def sample_record_shards)
  ultimately show ?thesis using wd(1) by simp
qed

text \<open>Reading the configured bootstrap nodes never stops; empty lines, comments and what is no record are passed over.\<close>

theorem bootstrap_nodes_read:
  "add_bootstrap_nodes L as enrs = Done (enrs @ List.map_filter (el_uri L) (filter (\<lambda>a. starts_with (map lower_char a) ''enr:'') as))"
proof (induction as arbitrary: enrs)
  case (Cons a as)
  have first: "lower_char CHR ''#'' = CHR ''#''" "lower_char CHR ''/'' = CHR ''/''"
    by (simp_all add: lower_char_def Let_def)
  have "addBootstrapNode L a enrs =
      Done (enrs @ (if starts_with (map lower_char a) ''enr:'' then case el_uri L a of None \<Rightarrow> [] | Some r \<Rightarrow> [r] else []))"
    by (cases a) (auto simp: addBootstrapNode_def parseBootstrapAddress_def starts_with_def first split: option.splits)
  then show ?case using Cons by (auto simp: List.map_filter_def split: option.splits)
qed (simp add: List.map_filter_def)

end
