(* ===== verification/Spec2Isabelle.thy ===== *)
theory Spec2Isabelle
  imports Base64C CStd Threads JsonEvents CExample NodeAddon CppExample MessageCache Sharding EnrShards
    FilterWire StoreNode Lightpush PeerExchange PeerPolicy NodeRelay RestRelay
    Discovery
begin

text \<open>
  A verification library for nwaku, the Nim implementation of the Waku messaging protocols, seen from
  its C interface.

  \<^bold>\<open>The program.\<close> A C, C++ or Node.js client (\<^verbatim>\<open>examples/cbindings\<close>, \<^verbatim>\<open>examples/cpp\<close>,
  \<^verbatim>\<open>examples/nodejs\<close>) calls the functions that \<^verbatim>\<open>library/libwaku.h\<close> declares and
  \<^verbatim>\<open>library/libwaku.nim\<close> exports. Such a function checks its arguments, builds a request in
  shared memory and sends it to a worker thread (\<^verbatim>\<open>library/waku_thread\<close>), which runs the
  node, and hands the answer to the callback of the caller. Received messages travel the
  other way, as events. The node is made of protocols on libp2p; those whose logic is
  in the repository are modelled on their own, over what a connection answers: topics and
  sharding (\<^verbatim>\<open>waku/waku_core/topics\<close>, \<^verbatim>\<open>waku/waku_enr\<close>); the filter, store and lightpush
  protocols with their codecs, services and clients (\<^verbatim>\<open>waku/waku_filter_v2\<close>,
  \<^verbatim>\<open>waku/waku_store\<close>, \<^verbatim>\<open>waku/waku_lightpush\<close>) and their rate limit (\<^verbatim>\<open>waku/common\<close>); the relay and what a
  node does with its subscriptions and messages (\<^verbatim>\<open>waku/waku_relay\<close>, \<^verbatim>\<open>waku/node/waku_node.nim\<close>); the discovery
  of peers that follows these subscriptions (\<^verbatim>\<open>waku/discovery/waku_discv5.nim\<close>); and the
  REST interface to the relay with its message cache (\<^verbatim>\<open>waku/waku_api\<close>).

  \<^bold>\<open>The theories.\<close> A definition has the name of the function or type it translates; its
  section says where that is.
    \<^item> \<open>Prelude\<close>: what the others share: \<open>exec\<close>, a computation that ends with a value or a fault
      (a Nim defect, an invalid access of C, an exit); association lists as hash tables;
      decimal printing; named collections of rewrite rules.
    \<^item> \<open>Json\<close>: the trees of Nim's \<^verbatim>\<open>std/json\<close>, their printer, lexer and parser; printing then parsing
      is the identity, and a text cut off is rejected.
    \<^item> \<open>WakuMessage\<close>, \<open>WakuThread\<close>, \<open>Libwaku\<close>: the message and its hash; the requests,
      their copies in shared memory, the worker and the round trip; the fourteen functions
      of the interface, each as \<open>run_api\<close> of a constructor of \<open>api_call\<close>, with its
      callbacks, its effects on the node and its heap operations. \<open>JsonEvents\<close>: the events.
    \<^item> \<open>Threads\<close>: callers and worker again, as steps on the channels and signals between them that
      interleave: the round trip of \<open>WakuThread\<close> as one step is what one caller sees.
    \<^item> \<open>Base64C\<close>, \<open>CStd\<close>, \<open>CExample\<close>: the encoder of \<^verbatim>\<open>base64.c\<close> on 64-bit words with checked
      arrays; what the clients use of the C library; the C client, composed with \<open>Libwaku\<close>.
    \<^item> \<open>NodeAddon\<close>: the Node.js addon; the answers of N-API are a record \<open>js_env\<close>, the static
      variables of the file are the state \<open>addon\<close>, also composed with \<open>Libwaku\<close>.
    \<^item> \<open>Base64Cpp\<close>, \<open>CppExample\<close>: the C++ client. It calls an older header; the library it
      was written for is a parameter.
    \<^item> \<open>Topics\<close>, \<open>Sharding\<close>, \<open>EnrShards\<close>: parsing and printing of topics, autosharding, and what a
      node record announces of its shards and capabilities.
    \<^item> \<open>FilterSubs\<close>, \<open>FilterProtocol\<close>: the subscriptions of the filter service as state, its
      requests, pushes and maintenance.
    \<^item> \<open>Protobuf\<close>, \<open>Codecs\<close>: the protobuf library as a parameter with laws, of which the protobuf wire
      format is an instance; the codecs of messages and of lightpush over it.
    \<^item> \<open>FilterWire\<close>, \<open>StoreProtocol\<close>, \<open>Lightpush\<close>, \<open>RateLimit\<close>: what goes over the wire in the filter,
      store and lightpush protocols: requests and responses, the handler of a connection,
      the client, the requests of a node to itself; the token bucket that limits them.
    \<^item> \<open>SortedSet\<close>, \<open>ArchiveQueue\<close>, \<open>Archive\<close>: the archive (\<^verbatim>\<open>waku/waku_archive\<close>) in memory: the sorted set
      of stew as a parameter with laws, of which sorted lists are an instance; indices, the
      bounded queue, validation, storing, pages of queries, retention.
    \<^item> \<open>StoreNode\<close>: the store service of a node on its archive (\<^verbatim>\<open>waku/node/waku_node.nim\<close>).
    \<^item> \<open>PeerStore\<close>, \<open>PeerExchange\<close>, \<open>Metadata\<close>: what a node knows of its peers, as the books of libp2p's
      peer store; the records it gives to others (\<^verbatim>\<open>waku/waku_peer_exchange\<close>); what two nodes tell
      each other when they connect (\<^verbatim>\<open>waku/waku_metadata\<close>).
    \<^item> \<open>PeerManager\<close>, \<open>PeerPolicy\<close>: the peer manager (\<^verbatim>\<open>waku/node/peer_manager\<close>) as functions on one
      record, over the answers of the switch, and what it guarantees.
    \<^item> \<open>MessageCache\<close>: the cache with its tables of indices and swap deletions.
    \<^item> \<open>Relay\<close>: the layer on libp2p's GossipSub: validators and subscriptions; GossipSub is a record of operations.
    \<^item> \<open>WakuNode\<close>: the subscriptions of a node as operations on its relay, its table of content topics and the
      events it emits, for \<open>Metadata\<close> and \<open>Discovery\<close>, of which a listener gets those since the node was started; \<open>node_is\<close> reads the handlers of every topic off a node, and each
      operation is an equation on them.
    \<^item> \<open>NodeRelay\<close>: the default handler of a node over \<open>FilterProtocol\<close> and \<open>Archive\<close>, and the push handler
      behind \<open>Lightpush\<close>.
    \<^item> \<open>RestRelay\<close>: the requests of the REST interface on subscriptions and messages, over \<open>WakuNode\<close> and
      \<open>MessageCache\<close>.
    \<^item> \<open>Discovery\<close>: discovery v5: the shards in the record of a node, from its configuration on and as its
      subscriptions change, over \<open>WakuNode\<close> and \<open>EnrShards\<close>; the filter on the records that are found and what is
      added to the \<open>PeerManager\<close>. A turn of the listener is a step on sets of shards (\<open>batch_shards\<close>), on which
      batches of events are reasoned about; a run is steps of \<open>discovery_step\<close>.

  \<^bold>\<open>Interfaces.\<close> \<open>base64_loop\<close> (\<open>Base64C\<close>) is what the loops of both encoders promise of a step, and is
  interpreted on both; \<open>input_loop\<close> (\<open>CStd\<close>) is what both menus promise of a round;
  \<open>subscription_store\<close> (\<open>FilterSubs\<close>) is what the filter protocol relies on in its store of
  subscriptions; \<open>protobuf\<close> (\<open>Protobuf\<close>) is what every codec relies on in the protobuf library;
  \<open>sorted_set\<close>, extended by \<open>index_set\<close>, is what the queue relies on in stew, and \<open>page_source\<close>
  (\<open>Archive\<close>), which the queue provides, is what the archive relies on in a driver; \<open>protobuf_packed\<close>
  (\<open>Metadata\<close>) extends \<open>protobuf\<close> by the packed fields of one codec; \<open>gossip\<close> (\<open>Relay\<close>), which \<open>node_gossip\<close>
  (\<open>WakuNode\<close>) takes at the handlers of a node, is what the relay relies on in the tables of GossipSub, of
  which tables of pairs are an instance; \<open>discovery_library\<close> (\<open>Discovery\<close>) is what discovery relies on in nim-eth and in hash
  sets, of which records as maps are an instance.

  \<^bold>\<open>What is shown.\<close> The encoders equal a reference encoder that a decoder inverts, or fall short of
  it in the ways stated. Every function of the interface reports through its callback
  exactly what it returns, frees what it allocates but where stated, and a publish reaches
  the node with the message the client wrote; an event delivers all of a message, which can be
  published again as it was. The clients: the order of their start,
  the size of their texts, what their menus can and cannot do, that their menus end. The
  addon keeps its references valid and never gets a message out. The cache, the filter service and the subscriptions keep their
  invariants under every sequence of operations, and refine sets and lists. Topics and node
  records survive printing and parsing. In the filter, store and lightpush protocols the client
  gets what the service's own handler answers, over the wire and back, with every way
  it can fail; a client that follows the cursors of a store, over the network or in the node, gets exactly the newest
  messages the node relayed, as far as they match (one of each time, topic and digest); which bytes of a peer stop a service is characterised; the rate limit bounds what is
  served. The peer manager lets in the peers of its own cluster and shards, keeps few behind one address whatever
  comes and goes, forgets exactly the peers it may, and waits a bounded time before it dials again. Whatever is
  subscribed and unsubscribed since its start, a node tells its peers the shards it is subscribed to, has them in its
  record (if they are fewer than 64 and no other topics come in between) and finds peers of them only, validates the messages of every
  topic, and stores and pushes each message once, if its own subscription to the topic came first; what a
  lightpush or REST client was told is published reaches the handlers of every relay with the same
  validators, and the cache of another REST interface. Where the code has a defect the theorem
  states what it does.

  \<^bold>\<open>Loops and bounds.\<close> Loops are structural or carry a measure, but for the two encoders: those
  are partial functions whose value is shown to exist, for every input that fits in
  memory. No fuel is used, except that \<open>menu_rounds\<close> counts the rounds of the endless menu
  loops. Machine integers are words where they can wrap (\<^verbatim>\<open>size_t\<close>, the criteria counters,
  versions); Nim's checked integers are \<open>int\<close> or \<open>nat\<close>, with their range faults written out.

  \<^bold>\<open>Parameters.\<close> Code that is not in the repository is an argument of what uses it: SHA-256, the
  message of a JSON error, base64 of the Nim side, N-API, argp's events, the answers of the node, and the channels
  and signals of the threads, the protobuf library, GossipSub, the sorted set of stew, the shuffle of
  peer exchange and the raw bytes of a node record, the protocol of discovery v5, what dials, writes and reads on a connection answer,
  the handlers of the node behind store and lightpush in their own theories, the validators of the relay, and base64,
  decoded bodies and the RLN proof of the REST interface.

  \<^bold>\<open>Not modelled.\<close> The databases of the archive and of the peers, which are SQL; DNS discovery, RLN, Noise and the keystores, which rest on
  libraries outside the repository; the server and the other handlers of the REST interface; the start of a node and
  the applications. Left out where a connection is modelled are the size limits of \<^verbatim>\<open>readLp\<close> (filter and peer
  exchange; the store has none) and timeouts; where a record is read, the error of \<^verbatim>\<open>toTyped\<close>; in the laws of
  \<open>protobuf\<close>, the field size limit of the library, so that theorems over it are about messages it accepts. Asynchronous
  procedures are one step where nothing else is said: validators are functions of topic and message, and the
  event of a peer that joins is handled from the metadata request to the database at once. Of the archive, the deprecated queries and the parser of its policies. What a process
  prints before it exits is not kept.
\<close>

section \<open>The menus of both clients\<close>

text \<open>C37: the endless menu loops of the C and of the C++ client always come to an end of their own. After
  at most as many rounds as there are characters and chunks of input left, the
  process has stopped or the input is over, and from then on every round returns at once and changes
  nothing: the process spins, it never exits.\<close>

theorem menu_loops_end:
  "(\<exists>n. n \<le> pending (CExample.iobuf st) (CExample.kern st)
      \<and> ((\<exists>e. CExample.menu_rounds n L E st = Fault e)
        \<or> (\<exists>st'. \<forall>m. CExample.menu_rounds (n + m) L E st = Done st')))
   \<and> (\<exists>n. n \<le> pending (CppExample.iobuf s) (CppExample.kern s)
      \<and> ((\<exists>e. CppExample.menu_rounds n R stack s = Fault e)
        \<or> (\<exists>s'. \<forall>m. CppExample.menu_rounds (n + m) R stack s = Done s')))"
  using CExample.menu_loop_ends CppExample.cpp_menu_loop_ends by blast

end
